(* ===== verification/Prelude.thy ===== *)
theory Prelude
  imports Main "HOL-Library.Char_ord" "HOL-Library.List_Lexorder" "HOL-Library.Sublist"
    "HOL-Library.Code_Target_Numeral" "HOL-Library.Signed_Division"
begin

text \<open>
  Shared vocabulary of the PulseGate development: the outcome type that carries the C++
  exceptions of the source, unsigned \<open>std::size_t\<close> arithmetic with its wrap-around, the
  parts of \<open>std::string_view\<close>, \<open>std::from_chars\<close>, \<open>std::to_string\<close> and
  \<open><cctype>\<close> the gateway calls, and the generic lemmas about them that the component
  theories use. A byte is a HOL \<open>char\<close> (eight bits), a \<open>std::string\<close> a list of them.
\<close>

section \<open>Outcomes\<close>

text \<open>
  The exceptions the modelled code throws, by their standard class, and
  \<open>Undefined_Behaviour\<close> for an operation whose precondition the caller broke
  (\<open>string_view::operator[]\<close> past the end).
\<close>

datatype cpp_error =
    Invalid_Argument | Logic_Error | Out_Of_Range | Length_Error | Undefined_Behaviour
  | Runtime_Error | System_Error

type_synonym 'a outcome = "cpp_error + 'a"

definition ebind :: "'a outcome \<Rightarrow> ('a \<Rightarrow> 'b outcome) \<Rightarrow> 'b outcome" where
  "ebind r f = (case r of Inl e \<Rightarrow> Inl e | Inr a \<Rightarrow> f a)"

lemma ebind_simps [simp]:
  "ebind (Inl e) f = Inl e"
  "ebind (Inr a) f = f a"
  by (simp_all add: ebind_def)

lemma ebind_cong [fundef_cong]:
  "r = r' \<Longrightarrow> (\<And>a. r' = Inr a \<Longrightarrow> f a = g a) \<Longrightarrow> ebind r f = ebind r' g"
  by (simp add: ebind_def split: sum.splits)

lemma ebind_eq_Inr_iff: "ebind r f = Inr b \<longleftrightarrow> (\<exists>a. r = Inr a \<and> f a = Inr b)"
  by (cases r) auto

named_theorems invariant_defs \<open>definitions of the component invariants\<close>
named_theorems step_defs \<open>definitions of the operations of a component\<close>

section \<open>Sizes\<close>

text \<open>
  \<open>std::size_t\<close> has 64 bits. Sizes are \<open>nat\<close>; \<open>sz_add\<close> writes out the wrap-around of
  an addition whose operands are not bounded by a preceding check.
\<close>

definition size_max :: nat where
  "size_max = 2 ^ 64 - 1"

definition sz_add :: "nat \<Rightarrow> nat \<Rightarrow> nat" where
  "sz_add a b = (a + b) mod 2 ^ 64"

lemma sz_add_exact [simp]: "a + b \<le> size_max \<Longrightarrow> sz_add a b = a + b"
  by (simp add: sz_add_def size_max_def)

lemma sz_add_wraps: "a \<le> size_max \<Longrightarrow> b \<le> size_max \<Longrightarrow> size_max < a + b \<Longrightarrow>
    sz_add a b = a + b - 2 ^ 64"
  by (simp add: sz_add_def size_max_def mod_if)

text \<open>32-bit counters (\<open>std::uint32_t\<close>), incremented with wrap-around.\<close>

definition u32_inc :: "nat \<Rightarrow> nat" where
  "u32_inc n = (n + 1) mod 2 ^ 32"

lemma u32_inc_exact [simp]: "n < 2 ^ 32 - 1 \<Longrightarrow> u32_inc n = n + 1"
  by (simp add: u32_inc_def)

lemma u32_inc_bound: "u32_inc n < 2 ^ 32"
  by (simp add: u32_inc_def)

text \<open>64-bit statistics counters (\<open>std::atomic_uint64_t::fetch_add(1)\<close>).\<close>

definition u64_inc :: "nat \<Rightarrow> nat" where
  "u64_inc n = (n + 1) mod 2 ^ 64"

section \<open>Characters and strings\<close>

abbreviation CR :: char where "CR \<equiv> CHR 0x0D"
abbreviation LF :: char where "LF \<equiv> CHR 0x0A"
abbreviation HT :: char where "HT \<equiv> CHR 0x09"
abbreviation NUL :: char where "NUL \<equiv> CHR 0x00"
abbreviation SP :: char where "SP \<equiv> CHR 0x20"

abbreviation CRLF :: string where "CRLF \<equiv> [CR, LF]"

text \<open>\<open>std::tolower\<close> and \<open>std::isalnum\<close> in the \<open>"C"\<close> locale, which the program never changes.\<close>

definition char_code :: "char \<Rightarrow> nat" where
  "char_code c = of_char c"

definition tolower :: "char \<Rightarrow> char" where
  "tolower c = (if 65 \<le> char_code c \<and> char_code c \<le> 90 then char_of (char_code c + 32) else c)"

definition isalnum :: "char \<Rightarrow> bool" where
  "isalnum c = (48 \<le> char_code c \<and> char_code c \<le> 57 \<or>
     65 \<le> char_code c \<and> char_code c \<le> 90 \<or> 97 \<le> char_code c \<and> char_code c \<le> 122)"

definition lower :: "string \<Rightarrow> string" where
  "lower s = map tolower s"

lemma char_code_bound: "char_code c < 256"
  unfolding char_code_def using nat_of_char_less_256 by simp

lemma char_code_char_of [simp]: "n < 256 \<Longrightarrow> char_code (char_of n) = n"
  by (simp add: char_code_def)

lemma char_code_inject: "char_code c = char_code d \<longleftrightarrow> c = d"
  by (simp add: char_code_def)

lemma tolower_idem [simp]: "tolower (tolower c) = tolower c"
  by (simp add: tolower_def)

lemma lower_idem [simp]: "lower (lower s) = lower s"
  by (simp add: lower_def)

lemma length_lower [simp]: "length (lower s) = length s"
  by (simp add: lower_def)

lemma isalnum_tolower [simp]: "isalnum (tolower c) = isalnum c"
  by (auto simp: isalnum_def tolower_def)

subsection \<open>Searching\<close>

text \<open>\<open>string_view::find(char)\<close>, \<open>find(char, pos)\<close> and \<open>rfind(char)\<close>; \<open>None\<close> is \<open>npos\<close>.\<close>

fun find_char :: "char \<Rightarrow> string \<Rightarrow> nat option" where
  "find_char c [] = None"
| "find_char c (x # xs) = (if x = c then Some 0 else map_option Suc (find_char c xs))"

definition find_char_from :: "char \<Rightarrow> nat \<Rightarrow> string \<Rightarrow> nat option" where
  "find_char_from c pos s = map_option (\<lambda>k. pos + k) (find_char c (drop pos s))"

definition rfind_char :: "char \<Rightarrow> string \<Rightarrow> nat option" where
  "rfind_char c s = map_option (\<lambda>k. length s - 1 - k) (find_char c (rev s))"

text \<open>\<open>substr(0, find(...))\<close>: the whole view when nothing was found.\<close>

definition upto :: "nat option \<Rightarrow> string \<Rightarrow> string" where
  "upto k s = (case k of None \<Rightarrow> s | Some n \<Rightarrow> take n s)"

text \<open>\<open>std::search\<close> of the two bytes CR LF.\<close>

fun find_crlf :: "string \<Rightarrow> nat option" where
  "find_crlf (x # y # xs) =
     (if x = CR \<and> y = LF then Some 0 else map_option Suc (find_crlf (y # xs)))"
| "find_crlf xs = None"

lemma find_char_SomeD:
  "find_char c s = Some k \<Longrightarrow> k < length s \<and> s ! k = c \<and> c \<notin> set (take k s)"
  by (induction s arbitrary: k) (auto split: if_splits)

lemma find_char_None_iff: "find_char c s = None \<longleftrightarrow> c \<notin> set s"
  by (induction s) auto

lemma find_char_split: "find_char c s = Some k \<Longrightarrow> s = take k s @ c # drop (Suc k) s"
  using find_char_SomeD by (metis id_take_nth_drop)

lemma find_char_appendI [simp]: "c \<notin> set u \<Longrightarrow> find_char c (u @ c # v) = Some (length u)"
  by (induction u) auto

lemma find_char_append_None [simp]:
  "c \<notin> set u \<Longrightarrow> find_char c (u @ v) = map_option (\<lambda>k. length u + k) (find_char c v)"
  by (induction u) (auto simp: option.map_comp comp_def option.map_ident cong: option.map_cong)

lemma length_upto [simp]: "length (upto k s) \<le> length s"
  by (auto simp: upto_def split: option.splits)

lemma find_crlf_SomeD:
  "find_crlf s = Some k \<Longrightarrow> k + 2 \<le> length s \<and> s ! k = CR \<and> s ! Suc k = LF"
  by (induction s arbitrary: k rule: find_crlf.induct) (auto split: if_splits)

lemma find_crlf_split:
  "find_crlf s = Some k \<Longrightarrow> s = take k s @ CR # LF # drop (k + 2) s"
proof (induction s arbitrary: k rule: find_crlf.induct)
  case (1 x y xs)
  then show ?case by (fastforce split: if_splits)
qed auto

lemma find_crlf_append:
  "find_crlf s = Some k \<Longrightarrow> find_crlf (s @ t) = Some k"
  by (induction s arbitrary: k rule: find_crlf.induct) (auto split: if_splits)

lemma find_crlf_None_append:
  "find_crlf s = None \<Longrightarrow> find_crlf (s @ t) = Some k \<Longrightarrow> length s \<le> k + 1"
proof (induction s arbitrary: k rule: find_crlf.induct)
  case (1 x y xs)
  then show ?case by (auto split: if_splits)
qed auto

lemma find_crlf_singleton: "find_crlf (x # t) = Some 0 \<Longrightarrow> x = CR"
  by (cases t) (auto split: if_splits)

lemma find_crlf_None_append_less:
  "find_crlf s = None \<Longrightarrow> find_crlf (s @ t) = Some k \<Longrightarrow> k < length s \<Longrightarrow>
     s = take k (s @ t) @ [CR]"
proof (induction s arbitrary: k rule: find_crlf.induct)
  case (1 x y xs)
  then show ?case by (auto split: if_splits)
qed (auto split: if_splits dest: find_crlf_singleton)

lemma find_crlf_no_cr: "CR \<notin> set s \<Longrightarrow> find_crlf (s @ CR # LF # t) = Some (length s)"
proof (induction s)
  case (Cons x s)
  then show ?case by (cases s) auto
qed simp

section \<open>Optional whitespace\<close>

definition is_ows :: "char \<Rightarrow> bool" where
  "is_ows c = (c = SP \<or> c = HT)"

fun strip_front :: "string \<Rightarrow> string" where
  "strip_front [] = []"
| "strip_front (c # cs) = (if is_ows c then strip_front cs else c # cs)"

definition trim :: "string \<Rightarrow> string" where
  "trim s = rev (strip_front (rev (strip_front s)))"

lemma strip_front_eq: "strip_front s = dropWhile is_ows s"
  by (induction s) auto

lemma set_strip_front: "set (strip_front s) \<subseteq> set s"
  by (induction s) auto

lemma set_trim: "set (trim s) \<subseteq> set s"
proof -
  have "set (strip_front (rev (strip_front s))) \<subseteq> set (strip_front s)"
    using set_strip_front [of "rev (strip_front s)"] by simp
  then show ?thesis
    using set_strip_front [of s] by (auto simp: trim_def)
qed

lemma trim_no_ows: "(\<And>c. c \<in> set s \<Longrightarrow> \<not> is_ows c) \<Longrightarrow> trim s = s"
proof -
  assume a: "\<And>c. c \<in> set s \<Longrightarrow> \<not> is_ows c"
  then have "strip_front s = s" by (cases s) auto
  moreover have "strip_front (rev s) = rev s" using a by (cases "rev s") (auto dest: arg_cong [of _ _ set])
  ultimately show ?thesis by (simp add: trim_def)
qed

section \<open>Numbers as text\<close>

text \<open>\<open>std::to_string\<close> of an unsigned value.\<close>

definition dec_digit :: "nat \<Rightarrow> char" where
  "dec_digit n = char_of (48 + n)"

fun to_string :: "nat \<Rightarrow> string" where
  "to_string n = (if n < 10 then [dec_digit n] else to_string (n div 10) @ [dec_digit (n mod 10)])"

declare to_string.simps [simp del]

definition int_to_string :: "int \<Rightarrow> string" where
  "int_to_string i = (if i < 0 then CHR ''-'' # to_string (nat (- i)) else to_string (nat i))"

text \<open>
  \<open>std::from_chars\<close> for unsigned types: the longest run of digits of the base; no digit is
  \<open>errc::invalid_argument\<close>, a value above the type's maximum \<open>errc::result_out_of_range\<close>,
  otherwise the value and the rest after the run.
\<close>

datatype from_chars_result = Parsed nat string | No_Digits | Too_Large

definition digit_value :: "nat \<Rightarrow> char \<Rightarrow> nat option" where
  "digit_value base c =
     (let n = char_code c;
          d = (if 48 \<le> n \<and> n \<le> 57 then n - 48
               else if 97 \<le> n \<and> n \<le> 122 then n - 87
               else if 65 \<le> n \<and> n \<le> 90 then n - 55 else 36)
      in if d < base then Some d else None)"

fun read_digits :: "nat \<Rightarrow> nat \<Rightarrow> string \<Rightarrow> nat \<times> string" where
  "read_digits base acc [] = (acc, [])"
| "read_digits base acc (c # cs) =
     (case digit_value base c of
        None \<Rightarrow> (acc, c # cs)
      | Some d \<Rightarrow> read_digits base (acc * base + d) cs)"

definition from_chars :: "nat \<Rightarrow> nat \<Rightarrow> string \<Rightarrow> from_chars_result" where
  "from_chars base limit s =
     (case s of
        [] \<Rightarrow> No_Digits
      | c # _ \<Rightarrow>
          if digit_value base c = None then No_Digits
          else (case read_digits base 0 s of
                  (v, rest) \<Rightarrow> if limit < v then Too_Large else Parsed v rest))"

text \<open>The idiom of the source: no error and the end pointer at the end of the text.\<close>

definition from_chars_all :: "nat \<Rightarrow> nat \<Rightarrow> string \<Rightarrow> nat option" where
  "from_chars_all base limit s =
     (case from_chars base limit s of Parsed v [] \<Rightarrow> Some v | _ \<Rightarrow> None)"

text \<open>The same idiom for \<open>int\<close>: an optional minus sign, no plus sign, 32-bit range.\<close>

definition from_chars_int_all :: "string \<Rightarrow> int option" where
  "from_chars_int_all s =
     (case s of
        [] \<Rightarrow> None
      | c # cs \<Rightarrow>
          if c = CHR ''-'' then map_option (\<lambda>v. - int v) (from_chars_all 10 (2 ^ 31) cs)
          else map_option int (from_chars_all 10 (2 ^ 31 - 1) s))"

lemma digit_value_dec_digit [simp]: "n < 10 \<Longrightarrow> digit_value 10 (dec_digit n) = Some n"
  by (simp add: digit_value_def dec_digit_def Let_def)

lemma read_digits_append:
  "(\<And>c. c \<in> set u \<Longrightarrow> digit_value base c \<noteq> None) \<Longrightarrow>
     read_digits base acc (u @ v) = read_digits base (fst (read_digits base acc u)) v"
  by (induction u arbitrary: acc) (fastforce split: option.splits)+

lemma to_string_digits: "c \<in> set (to_string n) \<Longrightarrow> \<exists>d<10. c = dec_digit d"
proof (induction n arbitrary: c rule: to_string.induct)
  case (1 n)
  show ?case
  proof (cases "n < 10")
    case True
    with "1.prems" show ?thesis by (auto simp: to_string.simps [of n])
  next
    case False
    with "1.prems" "1.IH" show ?thesis
      by (auto simp: to_string.simps [of n] intro: exI [of _ "n mod 10"])
  qed
qed

lemma to_string_digit_value: "c \<in> set (to_string n) \<Longrightarrow> digit_value 10 c \<noteq> None"
  using to_string_digits by force

lemma to_string_nonempty [simp]: "to_string n \<noteq> []"
  by (subst to_string.simps) simp

lemma read_digits_to_string: "read_digits 10 0 (to_string n) = (n, [])"
proof (induction n rule: to_string.induct)
  case (1 n)
  show ?case
  proof (cases "n < 10")
    case True
    then show ?thesis by (simp add: to_string.simps [of n])
  next
    case False
    with "1.IH" show ?thesis
      by (simp add: to_string.simps [of n] read_digits_append to_string_digit_value)
  qed
qed

theorem from_chars_to_string: "n \<le> limit \<Longrightarrow> from_chars_all 10 limit (to_string n) = Some n"
proof -
  assume n: "n \<le> limit"
  obtain c cs where s: "to_string n = c # cs" by (cases "to_string n") auto
  then have "digit_value 10 c \<noteq> None" using to_string_digit_value [of c n] by simp
  with n s show ?thesis
    using read_digits_to_string [of n] by (simp add: from_chars_all_def from_chars_def del: read_digits.simps)
qed

lemma to_string_inject: "to_string m = to_string n \<longleftrightarrow> m = n"
  by (metis fst_conv read_digits_to_string)

lemma from_chars_all_bound: "from_chars_all base limit s = Some v \<Longrightarrow> v \<le> limit"
  by (auto simp: from_chars_all_def from_chars_def
      split: list.splits if_splits prod.splits from_chars_result.splits)

lemma dec_digit_isalnum: "d < 10 \<Longrightarrow> isalnum (dec_digit d)"
  by (simp add: isalnum_def dec_digit_def)

lemma to_string_isalnum: "c \<in> set (to_string n) \<Longrightarrow> isalnum c"
  using to_string_digits dec_digit_isalnum by blast

subsection \<open>Hexadecimal\<close>

text \<open>\<open>std::hex\<close> output of an unsigned value.\<close>

definition hex_digit :: "nat \<Rightarrow> char" where
  "hex_digit n = char_of (if n < 10 then 48 + n else 87 + n)"

fun to_hex :: "nat \<Rightarrow> string" where
  "to_hex n = (if n < 16 then [hex_digit n] else to_hex (n div 16) @ [hex_digit (n mod 16)])"

declare to_hex.simps [simp del]

lemma digit_value_hex_digit [simp]: "n < 16 \<Longrightarrow> digit_value 16 (hex_digit n) = Some n"
  by (simp add: digit_value_def hex_digit_def Let_def)

lemma to_hex_digits: "c \<in> set (to_hex n) \<Longrightarrow> \<exists>d<16. c = hex_digit d"
proof (induction n arbitrary: c rule: to_hex.induct)
  case (1 n)
  then show ?case
    by (cases "n < 16") (auto simp: to_hex.simps [of n] intro: exI [of _ "n mod 16"])
qed

lemma to_hex_digit_value: "c \<in> set (to_hex n) \<Longrightarrow> digit_value 16 c \<noteq> None"
  using to_hex_digits by force

lemma to_hex_plain: "c \<in> set (to_hex n) \<Longrightarrow> c \<noteq> CR \<and> c \<noteq> LF \<and> c \<noteq> CHR '';''"
proof -
  assume "c \<in> set (to_hex n)"
  then obtain d where "d < 16" "c = hex_digit d" using to_hex_digits by blast
  then have "48 \<le> char_code c \<and> char_code c \<noteq> 59" by (simp add: hex_digit_def)
  then show ?thesis by (auto simp: char_code_def)
qed

lemma to_hex_nonempty [simp]: "to_hex n \<noteq> []"
  by (subst to_hex.simps) simp

lemma read_digits_to_hex: "read_digits 16 0 (to_hex n) = (n, [])"
proof (induction n rule: to_hex.induct)
  case (1 n)
  then show ?case
    by (cases "n < 16") (simp_all add: to_hex.simps [of n] read_digits_append to_hex_digit_value)
qed

lemma from_chars_to_hex: "n \<le> limit \<Longrightarrow> from_chars_all 16 limit (to_hex n) = Some n"
proof -
  assume n: "n \<le> limit"
  obtain c cs where s: "to_hex n = c # cs" by (cases "to_hex n") auto
  then have "digit_value 16 c \<noteq> None" using to_hex_digit_value [of c n] by simp
  with n s show ?thesis
    using read_digits_to_hex [of n] by (simp add: from_chars_all_def from_chars_def del: read_digits.simps)
qed

lemma length_to_hex: "n < 16 ^ k \<Longrightarrow> 0 < k \<Longrightarrow> length (to_hex n) \<le> k"
proof (induction k arbitrary: n)
  case (Suc k)
  show ?case
  proof (cases "n < 16")
    case True
    then show ?thesis by (simp add: to_hex.simps [of n])
  next
    case False
    have div: "n div 16 < 16 ^ k" using Suc.prems(1) by (simp add: less_mult_imp_div_less mult.commute)
    then have "0 < k" using False by (cases k) auto
    with Suc.IH [OF div] False show ?thesis by (simp add: to_hex.simps [of n])
  qed
qed simp

end
