(* ===== verification/Interfaces.thy ===== *)
theory Interfaces
  imports Prelude
begin

text \<open>
  Contracts between components, as locales: what a client of a component relies on, and the
  lemmas the clients share, proved once from the contract. Each is interpreted on the model's
  own definitions in the theory of the component that provides it.
\<close>

section \<open>A byte stream that is consumed from the front\<close>

text \<open>
  The two HTTP parsers read their input through this contract: a view of the unread bytes and
  an operation that drops a prefix of it, throwing when more is asked than is there.
\<close>

locale byte_stream =
  fixes view :: "'b \<Rightarrow> string"
    and consume :: "'b \<Rightarrow> nat \<Rightarrow> 'b outcome"
    and ready :: "'b \<Rightarrow> bool"
  assumes consume_within: "ready b \<Longrightarrow> n \<le> length (view b) \<Longrightarrow>
      \<exists>b'. consume b n = Inr b' \<and> ready b' \<and> view b' = drop n (view b)"
    and consume_beyond: "ready b \<Longrightarrow> length (view b) < n \<Longrightarrow> consume b n = Inl Out_Of_Range"
begin

lemma consume_Inr_iff:
  "ready b \<Longrightarrow> (\<exists>b'. consume b n = Inr b') \<longleftrightarrow> n \<le> length (view b)"
  using consume_within consume_beyond by (metis Inl_Inr_False linorder_not_le)

lemma consume_cases:
  assumes "ready b"
  obtains (within) b' where "n \<le> length (view b)" "consume b n = Inr b'" "ready b'"
      "view b' = drop n (view b)"
    | (beyond) "length (view b) < n" "consume b n = Inl Out_Of_Range"
  using consume_within [OF assms] consume_beyond [OF assms] by (metis linorder_not_le)

lemma consume_InrD:
  "ready b \<Longrightarrow> consume b n = Inr b' \<Longrightarrow>
     n \<le> length (view b) \<and> ready b' \<and> view b' = drop n (view b)"
  by (rule consume_cases [of b n]) auto

lemma consume_line:
  assumes "ready b" "find_crlf (view b) = Some k"
  obtains b' where "consume b (k + 2) = Inr b'" "ready b'" "view b' = drop (k + 2) (view b)"
    "view b = take k (view b) @ CRLF @ view b'"
proof -
  have "k + 2 \<le> length (view b)" using find_crlf_SomeD [OF assms(2)] by simp
  with assms(1) obtain b' where b': "consume b (k + 2) = Inr b'" "ready b'"
      "view b' = drop (k + 2) (view b)"
    using consume_within by blast
  moreover have "view b = take k (view b) @ CRLF @ view b'"
    using find_crlf_split [OF assms(2)] b'(3) by simp
  ultimately show thesis by (rule that)
qed

lemma consume_shrinks:
  "ready b \<Longrightarrow> consume b n = Inr b' \<Longrightarrow> 0 < n \<Longrightarrow> length (view b') < length (view b)"
  using consume_InrD [of b n b'] by auto

end

text \<open>The writing side: bytes are appended behind the unread ones, up to a capacity.\<close>

locale bounded_stream = byte_stream view consume ready
  for view :: "'b \<Rightarrow> string" and consume :: "'b \<Rightarrow> nat \<Rightarrow> 'b outcome" and ready :: "'b \<Rightarrow> bool" +
  fixes receive :: "'b \<Rightarrow> nat \<Rightarrow> string \<Rightarrow> 'b outcome"
    and capacity :: "'b \<Rightarrow> nat"
  assumes receive_fits: "ready b \<Longrightarrow> 0 < m \<Longrightarrow> length (view b) + m \<le> capacity b \<Longrightarrow>
      length bs \<le> m \<Longrightarrow>
      \<exists>b'. receive b m bs = Inr b' \<and> ready b' \<and> view b' = view b @ bs \<and> capacity b' = capacity b"
    and receive_full: "ready b \<Longrightarrow> capacity b < length (view b) + m \<Longrightarrow>
      receive b m bs = Inl Length_Error"
    and consume_capacity: "ready b \<Longrightarrow> consume b n = Inr b' \<Longrightarrow> capacity b' = capacity b"
begin

lemma receive_Inr_iff:
  assumes "ready b" "0 < m" "length bs \<le> m"
  shows "(\<exists>b'. receive b m bs = Inr b') \<longleftrightarrow> length (view b) + m \<le> capacity b"
  using receive_fits [OF assms(1,2) _ assms(3)] receive_full [OF assms(1), of m bs]
  by (cases "length (view b) + m \<le> capacity b") auto

text \<open>Receiving and then consuming at most what was there before commute on the view.\<close>

lemma receive_consume:
  assumes "ready b" "receive b m bs = Inr b1" "0 < m" "length bs \<le> m"
    and "consume b1 n = Inr b2" "n \<le> length (view b)"
  shows "view b2 = drop n (view b) @ bs"
proof -
  have "length (view b) + m \<le> capacity b"
    using assms(1-4) receive_Inr_iff by blast
  then have "ready b1" "view b1 = view b @ bs"
    using receive_fits [OF assms(1,3) _ assms(4)] assms(2) by auto
  with assms(5,6) show ?thesis
    using consume_InrD [of b1 n b2] by simp
qed

end

section \<open>A multimap with normalised names\<close>

text \<open>
  What the parsers, the router and the proxy rely on from the header collection: values are
  kept per normalised name in insertion order, and erasing removes every value of a name.
\<close>

locale name_multimap =
  fixes norm :: "string \<Rightarrow> string"
    and entries_empty :: "'h"
    and add :: "'h \<Rightarrow> string \<Rightarrow> string \<Rightarrow> 'h"
    and erase :: "'h \<Rightarrow> string \<Rightarrow> 'h"
    and vals :: "'h \<Rightarrow> string \<Rightarrow> string list"
  assumes vals_empty: "vals entries_empty n = []"
    and vals_add: "vals (add h n v) m = (if norm m = norm n then vals h m @ [v] else vals h m)"
    and vals_erase: "vals (erase h n) m = (if norm m = norm n then [] else vals h m)"
begin

text \<open>Replacing a value, as \<open>Headers::set\<close> does.\<close>

lemma vals_set: "vals (add (erase h n) n v) m = (if norm m = norm n then [v] else vals h m)"
  by (simp add: vals_add vals_erase)

lemma vals_set_other: "norm m \<noteq> norm n \<Longrightarrow> vals (add (erase h n) n v) m = vals h m"
  by (simp add: vals_set)

lemma vals_fold_add:
  "vals (fold (\<lambda>(n, v) h. add h n v) nvs h) m =
     vals h m @ map snd (filter (\<lambda>(n, v). norm n = norm m) nvs)"
  by (induction nvs arbitrary: h) (auto simp: vals_add)

end

section \<open>A store whose entries expire\<close>

text \<open>
  What the router relies on from the response cache. \<open>peek\<close> is what a lookup at a time would
  return. Entries may disappear at any moment, but a lookup never returns anything else than
  the last response stored under its key, and not after its time to live.
\<close>

datatype ('k, 'r) store_op = Store 'k 'r int | Lookup 'k int

locale expiring_store =
  fixes store :: "'c \<Rightarrow> 'k \<Rightarrow> 'r \<Rightarrow> int \<Rightarrow> (bool \<times> 'c) outcome"
    and lookup :: "'c \<Rightarrow> 'k \<Rightarrow> int \<Rightarrow> ('r option \<times> 'c) outcome"
    and peek :: "'c \<Rightarrow> 'k \<Rightarrow> int \<Rightarrow> 'r option"
    and good :: "'c \<Rightarrow> bool"
    and lifetime :: "'c \<Rightarrow> int"
  assumes lookup_law: "good c \<Longrightarrow> \<exists>c'. lookup c k t = Inr (peek c k t, c') \<and> good c' \<and>
      lifetime c' = lifetime c \<and> (\<forall>k' t'. peek c' k' t' = peek c k' t' \<or> peek c' k' t' = None) \<and>
      (\<forall>k' t'. t \<le> t' \<longrightarrow> peek c' k' t' = peek c k' t')"
    and store_law: "good c \<Longrightarrow> \<exists>ok c'. store c k r t = Inr (ok, c') \<and> good c' \<and> lifetime c' = lifetime c \<and>
      (if ok then (\<forall>t'. peek c' k t' = (if t' < t + lifetime c then Some r else None)) \<and>
          (\<forall>k' t'. k' \<noteq> k \<longrightarrow> peek c' k' t' = peek c k' t' \<or> peek c' k' t' = None)
       else c' = c)"
begin

text \<open>A history of calls: the responses the lookups returned, latest first, and the last store of each key.\<close>

fun history :: "'c \<Rightarrow> ('k, 'r) store_op list \<Rightarrow> ('k \<rightharpoonup> 'r \<times> int) \<Rightarrow> ('c \<times> ('k \<rightharpoonup> 'r \<times> int)) outcome" where
  "history c [] m = Inr (c, m)"
| "history c (Store k r t # ops) m =
     ebind (store c k r t) (\<lambda>(ok, c'). history c' ops (if ok then m(k \<mapsto> (r, t)) else m))"
| "history c (Lookup k t # ops) m = ebind (lookup c k t) (\<lambda>(r, c'). history c' ops m)"

definition explained :: "'c \<Rightarrow> ('k \<rightharpoonup> 'r \<times> int) \<Rightarrow> bool" where
  "explained c m \<longleftrightarrow>
     (\<forall>k t r. peek c k t = Some r \<longrightarrow> (\<exists>t0. m k = Some (r, t0) \<and> t < t0 + lifetime c))"

lemma explained_lookup:
  "good c \<Longrightarrow> explained c m \<Longrightarrow> lookup c k t = Inr (r, c') \<Longrightarrow> good c' \<and> explained c' m"
  using lookup_law [of c k t] unfolding explained_def by (auto, metis option.distinct(1))

lemma explained_store:
  assumes "good c" "explained c m" "store c k r t = Inr (ok, c')"
  shows "good c' \<and> explained c' (if ok then m(k \<mapsto> (r, t)) else m)"
proof (cases ok)
  case True
  from store_law [OF assms(1), of k r t] obtain ok2 c2 where law: "store c k r t = Inr (ok2, c2)"
      "good c2" "lifetime c2 = lifetime c"
      "if ok2 then (\<forall>t'. peek c2 k t' = (if t' < t + lifetime c then Some r else None)) \<and>
          (\<forall>k' t'. k' \<noteq> k \<longrightarrow> peek c2 k' t' = peek c k' t' \<or> peek c2 k' t' = None)
       else c2 = c" by blast
  have eq: "ok2" "c2 = c'" using law(1) assms(3) True by simp_all
  have g: "good c'" "lifetime c' = lifetime c" using law(2,3) eq(2) by simp_all
  have "(\<forall>t'. peek c' k t' = (if t' < t + lifetime c then Some r else None)) \<and>
      (\<forall>k' t'. k' \<noteq> k \<longrightarrow> peek c' k' t' = peek c k' t' \<or> peek c' k' t' = None)"
    using law(4) unfolding eq(2) if_P [OF eq(1)] .
  note both = this
  have same: "peek c' k t' = (if t' < t + lifetime c then Some r else None)" for t'
    using conjunct1 [OF both] by (rule spec)
  have other: "peek c' k' t' = peek c k' t' \<or> peek c' k' t' = None" if "k' \<noteq> k" for k' t'
    using conjunct2 [OF both] that by metis
  have "\<exists>t0. (m(k \<mapsto> (r, t))) k' = Some (r', t0) \<and> t' < t0 + lifetime c'" if "peek c' k' t' = Some r'" for k' t' r'
  proof (cases "k' = k")
    case True
    with that same [of t'] g(2) show ?thesis by (auto split: if_splits)
  next
    case False
    with that other [OF False, of t'] assms(2) g(2) show ?thesis by (auto simp: explained_def)
  qed
  with g(1) True show ?thesis by (auto simp: explained_def)
next
  case False
  with store_law [OF assms(1), of k r t] assms show ?thesis by auto
qed

lemma history_explained:
  "good c \<Longrightarrow> explained c m \<Longrightarrow> \<exists>c' m'. history c ops m = Inr (c', m') \<and> good c' \<and> explained c' m'"
proof (induction c ops m rule: history.induct)
  case (2 c k r t ops m)
  from store_law [OF "2.prems"(1), of k r t] obtain ok c' where st: "store c k r t = Inr (ok, c')" by blast
  with "2.IH" [OF st refl] explained_store [OF "2.prems" st] show ?case by auto
next
  case (3 c k t ops m)
  from lookup_law [OF "3.prems"(1), of k t] obtain c' where st: "lookup c k t = Inr (peek c k t, c')" by blast
  with "3.IH" [OF st refl] explained_lookup [OF "3.prems" st] show ?case by auto
qed auto

text \<open>A hit is the last response stored under the key, within its lifetime.\<close>

lemma hit_is_last_store:
  assumes "good c" "explained c m" "history c ops m = Inr (c', m')" "lookup c' k t = Inr (Some r, c'')"
  shows "\<exists>t0. m' k = Some (r, t0) \<and> t < t0 + lifetime c'"
proof -
  have "good c'" "explained c' m'" using history_explained [OF assms(1,2), of ops] assms(3) by auto
  moreover from this have "peek c' k t = Some r" using lookup_law [of c' k t] assms(4) by auto
  ultimately show ?thesis by (auto simp: explained_def)
qed

end

section \<open>Places that are taken and given back\<close>

text \<open>
  The contract of the two admission controls, the proxy's limit on requests in flight and the server's limit on
  connections: \<open>holds s ks\<close> says that exactly the holders \<open>ks\<close> have a place. \<open>internal\<close> stands for
  the operations that neither take nor give back a place.
\<close>

datatype ('k, 'i) place_op = Enter 'k | Leave 'k | Internal 'i

locale admission =
  fixes enter :: "'k \<Rightarrow> 's \<Rightarrow> bool \<times> 's"
    and leave :: "'k \<Rightarrow> 's \<Rightarrow> 's"
    and internal :: "'i \<Rightarrow> 's \<Rightarrow> 's"
    and holds :: "'s \<Rightarrow> 'k list \<Rightarrow> bool"
    and places :: "'s \<Rightarrow> nat"
  assumes enter_taken: "holds s ks \<Longrightarrow> enter k s = (True, s') \<Longrightarrow>
      length ks < places s \<and> holds s' (k # ks) \<and> places s' = places s"
    and enter_refused: "holds s ks \<Longrightarrow> enter k s = (False, s') \<Longrightarrow> holds s' ks \<and> places s' = places s"
    and leave_law: "holds s ks \<Longrightarrow> k \<in> set ks \<Longrightarrow> holds (leave k s) (remove1 k ks) \<and> places (leave k s) = places s"
    and internal_law: "holds s ks \<Longrightarrow> holds (internal i s) ks \<and> places (internal i s) = places s"
begin

text \<open>Only a holder leaves.\<close>

fun place_step :: "'s \<times> 'k list \<Rightarrow> ('k, 'i) place_op \<Rightarrow> 's \<times> 'k list" where
  "place_step (s, ks) (Enter k) = (case enter k s of (ok, s') \<Rightarrow> (s', if ok then k # ks else ks))"
| "place_step (s, ks) (Leave k) = (if k \<in> set ks then (leave k s, remove1 k ks) else (s, ks))"
| "place_step (s, ks) (Internal i) = (internal i s, ks)"

definition within :: "'s \<times> 'k list \<Rightarrow> bool" where
  "within w \<longleftrightarrow> holds (fst w) (snd w) \<and> length (snd w) \<le> places (fst w)"

lemma place_step_within: "within w \<Longrightarrow> within (place_step w op) \<and> places (fst (place_step w op)) = places (fst w)"
proof (cases "(w, op)" rule: place_step.cases)
  case (1 s ks k)
  assume "within w"
  with 1 enter_taken [of s ks k] enter_refused [of s ks k] show ?thesis
    by (auto simp: within_def Suc_le_eq split: prod.splits bool.splits)
next
  case (2 s ks k)
  assume "within w"
  with 2 leave_law [of s ks k] show ?thesis by (auto simp: within_def length_remove1)
next
  case (3 s ks i)
  assume "within w"
  with 3 internal_law [of s ks i] show ?thesis by (auto simp: within_def)
qed

lemma never_over_places:
  assumes "within w"
  shows "within (foldl place_step w ops) \<and> places (fst (foldl place_step w ops)) = places (fst w)"
  using assms by (induction ops rule: rev_induct) (auto dest: place_step_within)

text \<open>A place is refused only for a reason of the state, never because places have leaked.\<close>

lemma places_do_not_leak:
  assumes "within (s, ks)" "foldl place_step (s, ks) ops = (s', [])"
  shows "holds s' []"
  using never_over_places [OF assms(1), of ops] assms(2) by (simp add: within_def)

end

end
