(* ===== verification/Headers.thy ===== *)
theory Headers
  imports Interfaces
begin

text \<open>
  The header collection of \<open>src/http/headers.cpp\<close>: an ordered list of name/value pairs
  whose names are lower-cased when they are stored, the syntax checks for names and values,
  and the comma-separated token search.
\<close>

section \<open>State and operations\<close>

record header =
  h_name :: string
  h_value :: string

type_synonym headers = "header list"

definition equalsIgnoreCase :: "string \<Rightarrow> string \<Rightarrow> bool" where
  "equalsIgnoreCase left right =
     (length left = length right \<and> list_all2 (\<lambda>l r. tolower l = tolower r) left right)"

definition kTokenPunctuation :: string where
  "kTokenPunctuation = ''!#$%&'' @ [CHR 0x27] @ ''*+-.^_`|~''"

definition isTokenCharacter :: "char \<Rightarrow> bool" where
  "isTokenCharacter c = (isalnum c \<or> c \<in> set kTokenPunctuation)"

definition normalizeHeaderName :: "string \<Rightarrow> string" where
  "normalizeHeaderName name = map tolower name"

definition isValidHeaderName :: "string \<Rightarrow> bool" where
  "isValidHeaderName name = (name \<noteq> [] \<and> list_all isTokenCharacter name)"

definition isValidHeaderValue :: "string \<Rightarrow> bool" where
  "isValidHeaderValue value = (\<not> list_ex (\<lambda>c. c = CR \<or> c = LF \<or> c = NUL) value)"

definition headers_add :: "headers \<Rightarrow> string \<Rightarrow> string \<Rightarrow> headers" where
  "headers_add h name value = h @ [\<lparr>h_name = normalizeHeaderName name, h_value = value\<rparr>]"

definition headers_erase :: "headers \<Rightarrow> string \<Rightarrow> headers" where
  "headers_erase h name =
     (let normalized = normalizeHeaderName name in filter (\<lambda>e. h_name e \<noteq> normalized) h)"

definition headers_set :: "headers \<Rightarrow> string \<Rightarrow> string \<Rightarrow> headers" where
  "headers_set h name value = headers_add (headers_erase h name) name value"

definition headers_get :: "headers \<Rightarrow> string \<Rightarrow> string option" where
  "headers_get h name =
     (let normalized = normalizeHeaderName name
      in map_option h_value (find (\<lambda>e. h_name e = normalized) h))"

definition headers_contains :: "headers \<Rightarrow> string \<Rightarrow> bool" where
  "headers_contains h name = (headers_get h name \<noteq> None)"

definition headers_values :: "headers \<Rightarrow> string \<Rightarrow> string list" where
  "headers_values h name =
     (let normalized = normalizeHeaderName name
      in map h_value (filter (\<lambda>e. h_name e = normalized) h))"

function containsToken :: "string \<Rightarrow> string \<Rightarrow> bool" where
  "containsToken value tok =
     (if value = [] then False
      else
        let comma = find_char (CHR '','') value;
            part = trim (upto comma value)
        in if equalsIgnoreCase part tok then True
           else (case comma of
                   None \<Rightarrow> False
                 | Some k \<Rightarrow> containsToken (drop (k + 1) value) tok))"
  by pat_completeness auto
termination
  by (relation "measure (\<lambda>(value, tok). length value)") auto

declare containsToken.simps [simp del]

section \<open>Lookup laws\<close>

lemma normalize_idem [simp]: "normalizeHeaderName (normalizeHeaderName n) = normalizeHeaderName n"
  by (simp add: normalizeHeaderName_def)

lemma equalsIgnoreCase_lower: "equalsIgnoreCase a b \<longleftrightarrow> lower a = lower b"
  by (auto simp: equalsIgnoreCase_def lower_def list_all2_conv_all_nth list_eq_iff_nth_eq)

lemma headers_get_values:
  "headers_get h n = (case headers_values h n of [] \<Rightarrow> None | v # _ \<Rightarrow> Some v)"
  by (induction h) (auto simp: headers_get_def headers_values_def Let_def)

lemma headers_contains_values: "headers_contains h n \<longleftrightarrow> headers_values h n \<noteq> []"
  by (simp add: headers_contains_def headers_get_values split: list.splits)

interpretation hdr: name_multimap normalizeHeaderName "[] :: headers" headers_add headers_erase headers_values
proof unfold_locales
  show "headers_values [] n = []" for n by (simp add: headers_values_def)
  show "headers_values (headers_add h n v) m =
      (if normalizeHeaderName m = normalizeHeaderName n then headers_values h m @ [v]
       else headers_values h m)" for h n v m
    by (simp add: headers_values_def headers_add_def)
  show "headers_values (headers_erase h n) m =
      (if normalizeHeaderName m = normalizeHeaderName n then [] else headers_values h m)" for h n m
    by (auto simp: headers_values_def headers_erase_def Let_def filter_empty_conv
        intro!: arg_cong [where f = "map h_value"] filter_cong)
qed

lemma values_set:
  "headers_values (headers_set h n v) m =
     (if normalizeHeaderName m = normalizeHeaderName n then [v] else headers_values h m)"
  unfolding headers_set_def by (rule hdr.vals_set)

lemma get_set:
  "headers_get (headers_set h n v) m =
     (if normalizeHeaderName m = normalizeHeaderName n then Some v else headers_get h m)"
  by (simp add: headers_get_values values_set)

text \<open>Stored names are normalised: the comparison with literal lower-case names is complete.\<close>

definition headers_normal :: "headers \<Rightarrow> bool" where
  "headers_normal h \<longleftrightarrow> list_all (\<lambda>e. normalizeHeaderName (h_name e) = h_name e) h"

lemma headers_normal_ops [simp]:
  "headers_normal []"
  "headers_normal h \<Longrightarrow> headers_normal (headers_add h n v)"
  "headers_normal h \<Longrightarrow> headers_normal (headers_erase h n)"
  "headers_normal h \<Longrightarrow> headers_normal (headers_set h n v)"
  by (auto simp: headers_normal_def headers_set_def headers_add_def headers_erase_def list_all_iff)

text \<open>Stored fields that can be written as one header line each.\<close>

definition headers_wf :: "headers \<Rightarrow> bool" where
  "headers_wf h \<longleftrightarrow>
     list_all (\<lambda>e. isValidHeaderName (h_name e) \<and> isValidHeaderValue (h_value e)) h"

lemma tolower_punctuation: "c \<in> set kTokenPunctuation \<Longrightarrow> tolower c = c"
  by (auto simp: kTokenPunctuation_def tolower_def char_code_def)

lemma isTokenCharacter_tolower [simp]: "isTokenCharacter c \<Longrightarrow> isTokenCharacter (tolower c)"
  by (cases "isalnum c") (auto simp: isTokenCharacter_def tolower_punctuation)

lemma isValidHeaderName_normalize [simp]:
  "isValidHeaderName n \<Longrightarrow> isValidHeaderName (normalizeHeaderName n)"
  by (auto simp: isValidHeaderName_def normalizeHeaderName_def list_all_iff)

lemma headers_wf_add [simp]:
  "headers_wf h \<Longrightarrow> isValidHeaderName n \<Longrightarrow> isValidHeaderValue v \<Longrightarrow> headers_wf (headers_add h n v)"
  by (simp add: headers_wf_def headers_add_def)

lemma headers_wf_erase [simp]: "headers_wf h \<Longrightarrow> headers_wf (headers_erase h n)"
  by (auto simp: headers_wf_def headers_erase_def list_all_iff Let_def)

lemma isTokenCharacter_not_special:
  "isTokenCharacter c \<Longrightarrow> c \<noteq> CR \<and> c \<noteq> LF \<and> c \<noteq> NUL \<and> c \<noteq> SP \<and> c \<noteq> HT \<and> c \<noteq> CHR '':''"
  by (auto simp: isTokenCharacter_def kTokenPunctuation_def isalnum_def char_code_def)

lemma isValidHeaderName_no_colon: "isValidHeaderName n \<Longrightarrow> CHR '':'' \<notin> set n"
  by (auto simp: isValidHeaderName_def list_all_iff dest: isTokenCharacter_not_special)

lemma isValidHeaderName_no_crlf: "isValidHeaderName n \<Longrightarrow> CR \<notin> set n \<and> LF \<notin> set n"
  by (auto simp: isValidHeaderName_def list_all_iff dest: isTokenCharacter_not_special)

lemma isValidHeaderValue_no_crlf: "isValidHeaderValue v \<Longrightarrow> CR \<notin> set v \<and> LF \<notin> set v"
  by (auto simp: isValidHeaderValue_def list_ex_iff)

section \<open>Token search against a reference definition\<close>

text \<open>The elements of a comma-separated list.\<close>

fun split_commas :: "string \<Rightarrow> string list" where
  "split_commas [] = [[]]"
| "split_commas (c # cs) =
     (if c = CHR '','' then [] # split_commas cs
      else (case split_commas cs of [] \<Rightarrow> [[c]] | p # ps \<Rightarrow> (c # p) # ps))"

lemma split_commas_nonempty [simp]: "split_commas s \<noteq> []"
  by (cases s) (auto split: list.splits)

lemma split_commas_None: "find_char (CHR '','') s = None \<Longrightarrow> split_commas s = [s]"
  by (induction s) auto

lemma split_commas_Some:
  "find_char (CHR '','') s = Some k \<Longrightarrow> split_commas s = take k s # split_commas (drop (k + 1) s)"
  by (induction s arbitrary: k) (auto split: if_splits)

lemma containsToken_eq:
  assumes "tok \<noteq> []"
  shows "containsToken v tok \<longleftrightarrow> (\<exists>p \<in> set (split_commas v). lower (trim p) = lower tok)"
  using assms
proof (induction v tok rule: containsToken.induct)
  case (1 v tok)
  show ?case
  proof (cases "v = []")
    case True
    have "lower tok \<noteq> []" using "1.prems" by (simp add: lower_def)
    with True show ?thesis by (simp add: containsToken.simps trim_def) (simp add: lower_def)
  next
    case False
    show ?thesis
    proof (cases "find_char (CHR '','') v")
      case None
      with False show ?thesis
        by (subst containsToken.simps)
          (simp add: upto_def equalsIgnoreCase_lower split_commas_None)
    next
      case (Some k)
      with False "1.IH" "1.prems" show ?thesis
        by (subst containsToken.simps)
          (auto simp: upto_def equalsIgnoreCase_lower split_commas_Some Let_def)
    qed
  qed
qed

section \<open>Properties\<close>

text \<open>
  the token search of \<open>Connection\<close>-like header values finds a token exactly when it is,
  up to case and surrounding spaces and tabs, one of the elements between commas.
\<close>

theorem containsToken_is_list_membership:
  assumes "tok \<noteq> []"
  shows "containsToken v tok \<longleftrightarrow>
     lower tok \<in> (\<lambda>p. lower (trim p)) ` set (split_commas v)"
  using containsToken_eq [OF assms, of v] by (simp add: image_iff) metis

theorem containsToken_is_list_membership_witness:
  "containsToken ''keep-alive, Close '' ''close'' \<longleftrightarrow>
     lower ''close'' \<in> (\<lambda>p. lower (trim p)) ` set (split_commas ''keep-alive, Close '')"
  by (rule containsToken_is_list_membership) simp

text \<open>
  header lookup is case-insensitive and \<open>set\<close> replaces every earlier value: after it the
  name has exactly the new value in any spelling, and every other name keeps its values in order.
\<close>

theorem headers_set_replaces:
  "headers_values (headers_set h n v) m =
     (if lower m = lower n then [v] else headers_values h m) \<and>
   headers_get (headers_set h n v) m = (if lower m = lower n then Some v else headers_get h m)"
  using values_set [of h n v m] get_set [of h n v m]
  by (simp add: normalizeHeaderName_def lower_def)

end
