(* ===== verification/Messages.thy ===== *)
theory Messages
  imports Headers
begin

text \<open>
  HTTP requests and responses: the structs of \<open>http_request.h\<close> and \<open>http_response.h\<close>,
  the method names, the keep-alive decision and the serialisation of a complete response.
\<close>

section \<open>Data\<close>

datatype HttpMethod = Get | Head | Post | Put | Delete | Options | Unknown

record HttpRequest =
  rq_method :: HttpMethod
  rq_target :: string
  rq_version_major :: int
  rq_version_minor :: int
  rq_headers :: headers
  rq_body :: string

definition HttpRequest_default :: HttpRequest where
  "HttpRequest_default = \<lparr>rq_method = Unknown, rq_target = [], rq_version_major = 1,
     rq_version_minor = 1, rq_headers = [], rq_body = []\<rparr>"

record HttpResponse =
  rs_status_code :: int
  rs_reason :: string
  rs_headers :: headers
  rs_body :: string
  rs_close_connection :: bool
  rs_already_written :: bool

definition HttpResponse_default :: HttpResponse where
  "HttpResponse_default = \<lparr>rs_status_code = 200, rs_reason = ''OK'', rs_headers = [],
     rs_body = [], rs_close_connection = False, rs_already_written = False\<rparr>"

section \<open>Operations\<close>

definition parseHttpMethod :: "string \<Rightarrow> HttpMethod" where
  "parseHttpMethod m =
     (if m = ''GET'' then Get
      else if m = ''HEAD'' then Head
      else if m = ''POST'' then Post
      else if m = ''PUT'' then Put
      else if m = ''DELETE'' then Delete
      else if m = ''OPTIONS'' then Options
      else Unknown)"

fun methodName :: "HttpMethod \<Rightarrow> string" where
  "methodName Get = ''GET''"
| "methodName Head = ''HEAD''"
| "methodName Post = ''POST''"
| "methodName Put = ''PUT''"
| "methodName Delete = ''DELETE''"
| "methodName Options = ''OPTIONS''"
| "methodName Unknown = ''UNKNOWN''"

definition keepAlive :: "HttpRequest \<Rightarrow> bool" where
  "keepAlive rq =
     (let connection = headers_values (rq_headers rq) ''connection'' in
      if list_ex (\<lambda>v. containsToken v ''close'') connection then False
      else if rq_version_major rq = 1 \<and> rq_version_minor rq = 0 then
        list_ex (\<lambda>v. containsToken v ''keep-alive'') connection
      else True)"

text \<open>The header loop of \<open>serialize\<close>: two names are skipped, an invalid field throws.\<close>

fun serialize_headers :: "headers \<Rightarrow> string outcome" where
  "serialize_headers [] = Inr []"
| "serialize_headers (h # hs) =
     (if h_name h = ''content-length'' \<or> h_name h = ''connection'' then serialize_headers hs
      else if \<not> isValidHeaderName (h_name h) \<or> \<not> isValidHeaderValue (h_value h) then Inl Invalid_Argument
      else ebind (serialize_headers hs) (\<lambda>rest.
             Inr (h_name h @ '': '' @ h_value h @ CRLF @ rest)))"

definition serialize :: "HttpResponse \<Rightarrow> bool \<Rightarrow> string outcome" where
  "serialize r head_request =
     (if rs_status_code r < 100 \<or> 999 < rs_status_code r \<or> rs_reason r = [] \<or>
         \<not> isValidHeaderValue (rs_reason r) then Inl Invalid_Argument
      else ebind (serialize_headers (rs_headers r)) (\<lambda>hs.
        Inr (''HTTP/1.1 '' @ int_to_string (rs_status_code r) @ '' '' @ rs_reason r @ CRLF @ hs @
             ''Content-Length: '' @ to_string (length (rs_body r)) @ CRLF @
             ''Connection: '' @ (if rs_close_connection r then ''close'' else ''keep-alive'') @
             CRLF @ CRLF @ (if head_request then [] else rs_body r))))"

section \<open>Lemmas\<close>

lemma parseHttpMethod_methodName: "m \<noteq> Unknown \<Longrightarrow> parseHttpMethod (methodName m) = m"
  by (cases m) (simp_all add: parseHttpMethod_def)

text \<open>
  The bytes of a message head, as lines: what a receiver sees after splitting at CR LF. The
  body starts after the first empty line.
\<close>

definition forwarded_fields :: "headers \<Rightarrow> headers" where
  "forwarded_fields hs = filter (\<lambda>h. h_name h \<noteq> ''content-length'' \<and> h_name h \<noteq> ''connection'') hs"

definition field_line :: "header \<Rightarrow> string" where
  "field_line h = h_name h @ '': '' @ h_value h"

definition head_lines :: "HttpResponse \<Rightarrow> string list" where
  "head_lines r =
     (''HTTP/1.1 '' @ int_to_string (rs_status_code r) @ '' '' @ rs_reason r) #
     map field_line (forwarded_fields (rs_headers r)) @
     [''Content-Length: '' @ to_string (length (rs_body r)),
      ''Connection: '' @ (if rs_close_connection r then ''close'' else ''keep-alive'')]"

definition join_lines :: "string list \<Rightarrow> string" where
  "join_lines ls = concat (map (\<lambda>l. l @ CRLF) ls)"

lemma join_lines_simps [simp]:
  "join_lines [] = []"
  "join_lines (l # ls) = l @ CRLF @ join_lines ls"
  "join_lines (xs @ ys) = join_lines xs @ join_lines ys"
  by (simp_all add: join_lines_def)

lemma field_line_append: "field_line h @ r = h_name h @ CHR '':'' # SP # h_value h @ r"
  by (simp add: field_line_def)

lemma serialize_headers_eq:
  "serialize_headers hs =
     (if headers_wf (forwarded_fields hs) then Inr (join_lines (map field_line (forwarded_fields hs)))
      else Inl Invalid_Argument)"
  by (induction hs) (auto simp: headers_wf_def forwarded_fields_def field_line_append)

lemma int_to_string_no_crlf: "CR \<notin> set (int_to_string i) \<and> LF \<notin> set (int_to_string i)"
proof -
  have "c \<noteq> CR \<and> c \<noteq> LF" if "c \<in> set (to_string n)" for c n
    using to_string_isalnum [OF that] by (auto simp: isalnum_def char_code_def)
  then show ?thesis by (auto simp: int_to_string_def)
qed

lemma to_string_no_crlf: "CR \<notin> set (to_string n) \<and> LF \<notin> set (to_string n)"
  using int_to_string_no_crlf [of "int n"] by (simp add: int_to_string_def)

definition single_line :: "string \<Rightarrow> bool" where
  "single_line l \<longleftrightarrow> l \<noteq> [] \<and> CR \<notin> set l \<and> LF \<notin> set l"

lemma field_line_single:
  "isValidHeaderName (h_name h) \<Longrightarrow> isValidHeaderValue (h_value h) \<Longrightarrow> single_line (field_line h)"
  by (auto simp: single_line_def field_line_def dest: isValidHeaderName_no_crlf isValidHeaderValue_no_crlf)

section \<open>Properties\<close>

text \<open>
  C24: a response is serialised exactly when its status has three digits, its reason phrase is
  not empty and every transmitted field is well formed; what is written is then the head as
  non-empty lines without CR or LF inside (no field can inject a line), one
  \<open>Content-Length\<close> with the size of the body and one \<open>Connection\<close>, an empty line, and the
  body, left out for a HEAD request.
\<close>

theorem serialize_shape:
  "serialize r head =
     (if 100 \<le> rs_status_code r \<and> rs_status_code r \<le> 999 \<and> rs_reason r \<noteq> [] \<and>
         isValidHeaderValue (rs_reason r) \<and> headers_wf (forwarded_fields (rs_headers r))
      then Inr (join_lines (head_lines r) @ CRLF @ (if head then [] else rs_body r))
      else Inl Invalid_Argument) \<and>
   (serialize r head \<noteq> Inl Invalid_Argument \<longrightarrow> (\<forall>l \<in> set (head_lines r). single_line l))"
proof -
  have eq: "serialize r head =
     (if 100 \<le> rs_status_code r \<and> rs_status_code r \<le> 999 \<and> rs_reason r \<noteq> [] \<and>
         isValidHeaderValue (rs_reason r) \<and> headers_wf (forwarded_fields (rs_headers r))
      then Inr (join_lines (head_lines r) @ CRLF @ (if head then [] else rs_body r))
      else Inl Invalid_Argument)"
    by (auto simp: serialize_def serialize_headers_eq head_lines_def)
  moreover have "single_line l"
    if wf: "isValidHeaderValue (rs_reason r)" "headers_wf (forwarded_fields (rs_headers r))"
      and l: "l \<in> set (head_lines r)" for l
  proof -
    have "single_line (field_line h)" if "h \<in> set (forwarded_fields (rs_headers r))" for h
      using wf(2) that by (intro field_line_single) (auto simp: headers_wf_def list_all_iff)
    moreover have "single_line (''HTTP/1.1 '' @ int_to_string (rs_status_code r) @ '' '' @ rs_reason r)"
      using int_to_string_no_crlf isValidHeaderValue_no_crlf [OF wf(1)] by (simp add: single_line_def)
    moreover have "single_line (''Content-Length: '' @ to_string (length (rs_body r)))"
      using to_string_no_crlf by (simp add: single_line_def)
    moreover have "single_line (''Connection: '' @ (if c then ''close'' else ''keep-alive''))" for c
      by (simp add: single_line_def)
    ultimately show ?thesis using l by (auto simp: head_lines_def)
  qed
  ultimately show ?thesis by (auto split: if_splits)
qed

definition sample_response :: HttpResponse where
  "sample_response = HttpResponse_default\<lparr>rs_headers := headers_add [] ''X-A'' ''1'', rs_body := ''hi''\<rparr>"

theorem serialize_shape_witness:
  "serialize sample_response True \<noteq> Inl Invalid_Argument \<and>
   (\<forall>l. l \<in> set (head_lines sample_response) \<longrightarrow> single_line l) = True"
proof -
  have "serialize sample_response True \<noteq> Inl Invalid_Argument"
    using serialize_shape [of sample_response True]
    by (simp add: sample_response_def HttpResponse_default_def headers_add_def forwarded_fields_def
        headers_wf_def isValidHeaderName_def isValidHeaderValue_def isTokenCharacter_def isalnum_def
        kTokenPunctuation_def normalizeHeaderName_def tolower_def char_code_def)
  then show ?thesis using serialize_shape [of sample_response True] by blast
qed

text \<open>
  keep-alive. A request persists exactly when no \<open>Connection\<close> header carries the token
  \<open>close\<close> and, for HTTP/1.0, one carries \<open>keep-alive\<close>; every spelling of the tokens counts.
\<close>

theorem keepAlive_iff:
  "keepAlive rq \<longleftrightarrow>
     (let toks = concat (map (\<lambda>v. map (\<lambda>p. lower (trim p)) (split_commas v))
                   (headers_values (rq_headers rq) ''connection''))
      in ''close'' \<notin> set toks \<and>
         (rq_version_major rq = 1 \<and> rq_version_minor rq = 0 \<longrightarrow> ''keep-alive'' \<in> set toks))"
proof -
  have l: "lower ''close'' = ''close''" "lower ''keep-alive'' = ''keep-alive''"
    by (simp_all add: lower_def tolower_def char_code_def)
  have "containsToken v ''close'' \<longleftrightarrow> ''close'' \<in> (\<lambda>p. lower (trim p)) ` set (split_commas v)"
    "containsToken v ''keep-alive'' \<longleftrightarrow> ''keep-alive'' \<in> (\<lambda>p. lower (trim p)) ` set (split_commas v)" for v
    using containsToken_eq [of "''close''" v] containsToken_eq [of "''keep-alive''" v] l
    by (auto simp: image_iff; metis)+
  then show ?thesis by (auto simp: keepAlive_def Let_def list_ex_iff)
qed

theorem keepAlive_iff_witness:
  "keepAlive (HttpRequest_default\<lparr>rq_version_minor := 0,
      rq_headers := headers_add [] ''Connection'' ''Keep-Alive''\<rparr>)"
  unfolding keepAlive_iff by code_simp

end
