(* ===== verification/Buffer.thy ===== *)
theory Buffer
  imports Interfaces
begin

text \<open>
  The byte buffer of \<open>src/net/buffer.cpp\<close>: a vector with a read index, a write index, the
  size of a writable region handed out by \<open>prepare\<close> and not yet committed, and an absolute
  capacity. The abstraction is the readable view, a FIFO of bytes. Index arithmetic is on
  \<open>nat\<close>: under \<open>buffer_inv\<close> every difference the code takes is of a smaller index from a
  larger one and every sum is at most the capacity, itself a \<open>size_t\<close>.
\<close>

section \<open>State and operations\<close>

record buffer =
  storage :: string
  read_index :: nat
  write_index :: nat
  prepared_bytes :: nat
  maximum_size :: nat

text \<open>\<open>std::vector<char>::resize\<close> fills with zero bytes; \<open>memmove\<close> of a run to the front.\<close>

definition resize :: "nat \<Rightarrow> string \<Rightarrow> string" where
  "resize n xs = take n xs @ replicate (n - length xs) NUL"

definition move_front :: "nat \<Rightarrow> nat \<Rightarrow> string \<Rightarrow> string" where
  "move_front from count xs = take count (drop from xs) @ drop count xs"

definition Buffer_make :: "nat \<Rightarrow> nat \<Rightarrow> buffer outcome" where
  "Buffer_make initial_size max_size =
     (if initial_size = 0 \<or> max_size = 0 \<or> max_size < initial_size then Inl Invalid_Argument
      else Inr \<lparr>storage = resize initial_size [], read_index = 0, write_index = 0,
                prepared_bytes = 0, maximum_size = max_size\<rparr>)"

definition readableBytes :: "buffer \<Rightarrow> nat" where
  "readableBytes b = write_index b - read_index b"

definition readableView :: "buffer \<Rightarrow> string" where
  "readableView b = take (readableBytes b) (drop (read_index b) (storage b))"

definition compactOrGrow :: "buffer \<Rightarrow> nat \<Rightarrow> buffer outcome" where
  "compactOrGrow b minimum =
     (if maximum_size b < minimum then Inl Length_Error
      else if minimum \<le> length (storage b) - write_index b then Inr b
      else
        let readable = readableBytes b in
        if minimum \<le> length (storage b) - readable then
          Inr (b\<lparr>storage := move_front (read_index b) readable (storage b),
                 read_index := 0, write_index := readable\<rparr>)
        else if maximum_size b - minimum < readable then Inl Length_Error
        else
          let required = readable + minimum;
              doubled = (if maximum_size b div 2 < length (storage b) then maximum_size b
                         else length (storage b) * 2);
              new_size = max required doubled;
              grown = b\<lparr>storage := resize new_size (storage b)\<rparr>
          in if read_index b \<noteq> 0 then
               Inr (grown\<lparr>storage := move_front (read_index b) readable (storage grown),
                          read_index := 0, write_index := readable\<rparr>)
             else Inr grown)"

text \<open>\<open>prepare\<close> returns the size of the writable span, which starts at the write index.\<close>

definition prepare :: "buffer \<Rightarrow> nat \<Rightarrow> (nat \<times> buffer) outcome" where
  "prepare b minimum =
     (if prepared_bytes b \<noteq> 0 then Inl Logic_Error
      else if minimum = 0 then Inr (0, b)
      else ebind (compactOrGrow b minimum) (\<lambda>b'.
        let n = length (storage b') - write_index b'
        in Inr (n, b'\<lparr>prepared_bytes := n\<rparr>)))"

definition commit :: "buffer \<Rightarrow> nat \<Rightarrow> buffer outcome" where
  "commit b count =
     (if prepared_bytes b < count then Inl Out_Of_Range
      else Inr (b\<lparr>write_index := write_index b + count, prepared_bytes := 0\<rparr>))"

definition clear :: "buffer \<Rightarrow> buffer" where
  "clear b = b\<lparr>read_index := 0, write_index := 0, prepared_bytes := 0\<rparr>"

definition consume :: "buffer \<Rightarrow> nat \<Rightarrow> buffer outcome" where
  "consume b count =
     (if prepared_bytes b \<noteq> 0 then Inl Logic_Error
      else if readableBytes b < count then Inl Out_Of_Range
      else
        let b' = b\<lparr>read_index := read_index b + count\<rparr>
        in if read_index b' = write_index b' then Inr (clear b') else Inr b')"

text \<open>What \<open>memcpy\<close>, or a socket read, does to the start of the prepared span.\<close>

definition write_span :: "buffer \<Rightarrow> string \<Rightarrow> buffer" where
  "write_span b bs = b\<lparr>storage := take (write_index b) (storage b) @ bs @
                                 drop (write_index b + length bs) (storage b)\<rparr>"

text \<open>
  \<open>append\<close> loops until the bytes are used up; an exception of \<open>prepare\<close> leaves the bytes
  already written in place, so the result is the buffer and the exception if one was thrown.
  \<open>None\<close> would be a loop that does not end.
\<close>

partial_function (option) append_bytes ::
  "buffer \<Rightarrow> string \<Rightarrow> (buffer \<times> cpp_error option) option" where
  "append_bytes b bytes =
     (if bytes = [] then Some (b, None)
      else
        (case prepare b 1 of
           Inl e \<Rightarrow> Some (b, Some e)
         | Inr (writable, b') \<Rightarrow>
             let count = min writable (length bytes) in
             (case commit (write_span b' (take count bytes)) count of
                Inl e \<Rightarrow> Some (b', Some e)
              | Inr b'' \<Rightarrow> append_bytes b'' (drop count bytes))))"

text \<open>\<open>findCrlf\<close> as the offset of the match from \<open>data()\<close>; \<open>None\<close> is the null pointer.\<close>

definition findCrlf :: "buffer \<Rightarrow> nat option" where
  "findCrlf b = find_crlf (readableView b)"

definition takeString :: "buffer \<Rightarrow> nat \<Rightarrow> (string \<times> buffer) outcome" where
  "takeString b count =
     (if readableBytes b < count then Inl Out_Of_Range
      else ebind (consume b count) (\<lambda>b'. Inr (take count (drop (read_index b) (storage b)), b')))"

text \<open>
  One socket read as the sessions do it: \<open>prepare(chunk)\<close>, the transport writes
  \<open>bs\<close> into the span, \<open>commit(bs.size())\<close>.
\<close>

definition receive :: "buffer \<Rightarrow> nat \<Rightarrow> string \<Rightarrow> buffer outcome" where
  "receive b chunk bs =
     ebind (prepare b chunk) (\<lambda>(n, b'). commit (write_span b' bs) (length bs))"

section \<open>Invariant\<close>

definition buffer_inv :: "buffer \<Rightarrow> bool" where
  "buffer_inv b \<longleftrightarrow> read_index b \<le> write_index b \<and>
     write_index b + prepared_bytes b \<le> length (storage b) \<and>
     length (storage b) \<le> maximum_size b \<and> 0 < length (storage b)"

definition buffer_ready :: "buffer \<Rightarrow> bool" where
  "buffer_ready b \<longleftrightarrow> buffer_inv b \<and> prepared_bytes b = 0"

lemmas buffer_defs = buffer_inv_def buffer_ready_def readableBytes_def readableView_def

lemma length_resize [simp]: "length (resize n xs) = n"
  by (simp add: resize_def)

lemma resize_eq_Nil_iff [simp]: "resize n xs = [] \<longleftrightarrow> n = 0"
  by (auto simp: resize_def)

lemma drop_take_front [simp]:
  "r \<le> w \<Longrightarrow> drop r (take w xs) = take (w - r) (drop r xs)"
  by (simp add: drop_take)

lemma length_move_front [simp]:
  "from + count \<le> length xs \<Longrightarrow> length (move_front from count xs) = length xs"
  by (simp add: move_front_def)

lemma length_readableView: "buffer_inv b \<Longrightarrow> length (readableView b) = readableBytes b"
  by (auto simp: buffer_defs)

lemma readableBytes_bound: "buffer_inv b \<Longrightarrow> readableBytes b \<le> maximum_size b"
  by (auto simp: buffer_defs)

section \<open>Each operation against the view\<close>

text \<open>C1-C3 use these; the invariant and the view after each operation.\<close>

lemma Buffer_make_ready:
  "Buffer_make i m = Inr b \<Longrightarrow> buffer_ready b \<and> readableView b = [] \<and> maximum_size b = m"
  by (auto simp: Buffer_make_def buffer_defs split: if_splits)

text \<open>The size the storage grows to: at least what is required, never above the capacity.\<close>

lemma growth_bounds:
  fixes len m r mx :: nat
  defines "n \<equiv> max (r + m) (if mx div 2 < len then mx else len * 2)"
  assumes "len \<le> mx" "r + m \<le> mx"
  shows "r + m \<le> n" "len \<le> n" "n \<le> mx"
  using assms(2,3) unfolding n_def by (auto simp: max_def)

lemma compactOrGrow_cases:
  assumes "buffer_inv b" "compactOrGrow b m = Inr b'"
  obtains (room) "m \<le> length (storage b) - write_index b" "b' = b"
    | (compact) "m \<le> length (storage b) - readableBytes b"
        "b' = b\<lparr>storage := move_front (read_index b) (readableBytes b) (storage b),
                read_index := 0, write_index := readableBytes b\<rparr>"
    | (grow) n where "readableBytes b + m \<le> n" "length (storage b) \<le> n" "n \<le> maximum_size b"
        "b' = (if read_index b \<noteq> 0
               then b\<lparr>storage := move_front (read_index b) (readableBytes b) (resize n (storage b)),
                      read_index := 0, write_index := readableBytes b\<rparr>
               else b\<lparr>storage := resize n (storage b)\<rparr>)"
proof -
  define n where "n = max (readableBytes b + m)
      (if maximum_size b div 2 < length (storage b) then maximum_size b else length (storage b) * 2)"
  consider "m \<le> length (storage b) - write_index b"
    | "\<not> m \<le> length (storage b) - write_index b" "m \<le> length (storage b) - readableBytes b"
    | "\<not> m \<le> length (storage b) - write_index b" "\<not> m \<le> length (storage b) - readableBytes b"
    by blast
  then show thesis
  proof cases
    case 1
    with assms(2) show ?thesis
      by (intro room) (simp_all add: compactOrGrow_def split: if_splits)
  next
    case 2
    with assms(2) show ?thesis
      by (intro compact) (simp_all add: compactOrGrow_def Let_def split: if_splits)
  next
    case 3
    with assms(2) have fits: "readableBytes b + m \<le> maximum_size b"
      by (simp add: compactOrGrow_def Let_def split: if_splits)
    have "length (storage b) \<le> maximum_size b" using assms(1) by (simp add: buffer_inv_def)
    note bounds = growth_bounds [OF this fits, folded n_def]
    from 3 fits assms(2) show ?thesis
      by (intro grow [OF bounds])
        (simp add: compactOrGrow_def Let_def n_def split: if_splits)
  qed
qed

lemma compactOrGrow_ok:
  assumes "buffer_inv b" "prepared_bytes b = 0" "compactOrGrow b m = Inr b'"
  shows "buffer_inv b' \<and> prepared_bytes b' = 0 \<and> readableView b' = readableView b \<and>
     maximum_size b' = maximum_size b \<and> m \<le> length (storage b') - write_index b'"
  using assms(1,3)
proof (cases rule: compactOrGrow_cases)
  case room
  with assms show ?thesis by simp
next
  case compact
  with assms(1,2) show ?thesis
    by (auto simp: buffer_defs move_front_def)
next
  case (grow n)
  have "0 < length (storage b)" using assms(1) by (simp add: buffer_inv_def)
  with grow(2) have "0 < n" by linarith
  with grow assms(1,2) show ?thesis
    by (cases "read_index b = 0") (auto simp: buffer_defs move_front_def resize_def)
qed

lemma compactOrGrow_total:
  assumes "buffer_inv b"
  shows "(\<exists>b'. compactOrGrow b m = Inr b') \<longleftrightarrow> readableBytes b + m \<le> maximum_size b"
    and "maximum_size b < readableBytes b + m \<Longrightarrow> compactOrGrow b m = Inl Length_Error"
  using assms by (auto simp: compactOrGrow_def buffer_defs Let_def)

lemma prepare_ok:
  assumes "buffer_ready b" "prepare b m = Inr (n, b')"
  shows "buffer_inv b' \<and> prepared_bytes b' = n \<and> m \<le> n \<and> readableView b' = readableView b \<and>
     maximum_size b' = maximum_size b \<and> (0 < m \<longrightarrow> write_index b' + n = length (storage b'))"
proof (cases "m = 0")
  case True
  with assms show ?thesis by (auto simp: prepare_def buffer_ready_def)
next
  case False
  with assms obtain c where c: "compactOrGrow b m = Inr c"
      "n = length (storage c) - write_index c" "b' = c\<lparr>prepared_bytes := n\<rparr>"
    by (auto simp: prepare_def buffer_ready_def ebind_eq_Inr_iff Let_def)
  with compactOrGrow_ok [OF _ _ c(1)] assms(1) show ?thesis
    by (auto simp: buffer_defs)
qed

lemma prepare_total:
  assumes "buffer_ready b" "0 < m"
  shows "(\<exists>n b'. prepare b m = Inr (n, b')) \<longleftrightarrow> readableBytes b + m \<le> maximum_size b"
    and "maximum_size b < readableBytes b + m \<Longrightarrow> prepare b m = Inl Length_Error"
  using assms compactOrGrow_total [of b m]
  by (auto simp: prepare_def buffer_ready_def Let_def ebind_def split: sum.splits)

lemma write_span_inv:
  assumes "buffer_inv b" "length bs \<le> prepared_bytes b"
  shows "buffer_inv (write_span b bs)" "prepared_bytes (write_span b bs) = prepared_bytes b"
    "readableView (write_span b bs) = readableView b"
  using assms by (auto simp: write_span_def buffer_defs)

lemma write_commit_ok:
  assumes "buffer_inv b" "length bs \<le> prepared_bytes b"
  shows "\<exists>b'. commit (write_span b bs) (length bs) = Inr b' \<and> buffer_ready b' \<and>
     readableView b' = readableView b @ bs \<and> maximum_size b' = maximum_size b \<and>
     length (storage b') = length (storage b)"
  using assms by (auto simp: commit_def write_span_def buffer_defs Suc_diff_le)

lemma consume_ok:
  assumes "buffer_ready b" "n \<le> length (readableView b)"
  shows "\<exists>b'. consume b n = Inr b' \<and> buffer_ready b' \<and>
     readableView b' = drop n (readableView b) \<and> maximum_size b' = maximum_size b"
proof -
  have "drop n (take k (drop r s)) = take (k - n) (drop (r + n) s)" for k r and s :: string
    by (simp add: drop_take add.commute)
  with assms show ?thesis
    by (auto simp: consume_def clear_def buffer_defs Let_def)
qed

lemma consume_throws:
  "buffer_ready b \<Longrightarrow> length (readableView b) < n \<Longrightarrow> consume b n = Inl Out_Of_Range"
  by (auto simp: consume_def length_readableView buffer_ready_def)

lemma takeString_ok:
  assumes "buffer_ready b" "n \<le> length (readableView b)"
  shows "\<exists>b'. takeString b n = Inr (take n (readableView b), b') \<and> consume b n = Inr b'"
proof -
  from consume_ok [OF assms] obtain b' where b': "consume b n = Inr b'" by blast
  have len: "length (readableView b) = readableBytes b"
    using assms(1) by (simp add: length_readableView buffer_ready_def)
  with assms(2) have "take n (drop (read_index b) (storage b)) = take n (readableView b)"
    by (simp add: readableView_def)
  with b' len assms(2) show ?thesis by (simp add: takeString_def)
qed

lemma receive_ok:
  assumes "buffer_ready b" "0 < m" "length (readableView b) + m \<le> maximum_size b" "length bs \<le> m"
  shows "\<exists>b'. receive b m bs = Inr b' \<and> buffer_ready b' \<and> readableView b' = readableView b @ bs \<and>
     maximum_size b' = maximum_size b"
proof -
  from assms(1,3) have "readableBytes b + m \<le> maximum_size b"
    by (simp add: length_readableView buffer_ready_def)
  with assms(1,2) obtain n c where c: "prepare b m = Inr (n, c)"
    using prepare_total by blast
  from prepare_ok [OF assms(1) c] assms(4) have "buffer_inv c" "length bs \<le> prepared_bytes c"
      "readableView c = readableView b" "maximum_size c = maximum_size b" by auto
  with write_commit_ok [of c bs] c show ?thesis by (auto simp: receive_def)
qed

lemma receive_throws:
  assumes "buffer_ready b" "maximum_size b < length (readableView b) + m"
  shows "receive b m bs = Inl Length_Error"
proof -
  have "0 < m" using assms readableBytes_bound [of b]
    by (cases m) (auto simp: buffer_ready_def length_readableView)
  with assms show ?thesis
    using prepare_total(2) [of b m] by (simp add: receive_def length_readableView buffer_ready_def)
qed

interpretation buf: bounded_stream readableView consume buffer_ready receive maximum_size
proof unfold_locales
  fix b n assume "buffer_ready b" "n \<le> length (readableView b)"
  then show "\<exists>b'. consume b n = Inr b' \<and> buffer_ready b' \<and> readableView b' = drop n (readableView b)"
    using consume_ok by blast
next
  fix b n assume "buffer_ready b" "length (readableView b) < n"
  then show "consume b n = Inl Out_Of_Range" by (rule consume_throws)
next
  fix b m and bs :: string
  assume "buffer_ready b" "0 < m" "length (readableView b) + m \<le> maximum_size b" "length bs \<le> m"
  then show "\<exists>b'. receive b m bs = Inr b' \<and> buffer_ready b' \<and>
      readableView b' = readableView b @ bs \<and> maximum_size b' = maximum_size b"
    by (rule receive_ok)
next
  fix b m and bs :: string
  assume "buffer_ready b" "maximum_size b < length (readableView b) + m"
  then show "receive b m bs = Inl Length_Error" by (rule receive_throws)
next
  fix b n b' assume "buffer_ready b" "consume b n = Inr b'"
  then show "maximum_size b' = maximum_size b"
    by (auto simp: consume_def clear_def Let_def split: if_splits)
qed

section \<open>Appending\<close>

lemma append_bytes_spec:
  assumes "buffer_ready b"
  shows "\<exists>b' e. append_bytes b s = Some (b', e) \<and> buffer_ready b' \<and>
     maximum_size b' = maximum_size b \<and>
     readableView b' = readableView b @ take (maximum_size b - length (readableView b)) s \<and>
     e = (if length (readableView b) + length s \<le> maximum_size b then None else Some Length_Error)"
  using assms
proof (induction "length s" arbitrary: b s rule: less_induct)
  case less
  have len: "length (readableView b) \<le> maximum_size b"
    using less.prems by (simp add: buffer_ready_def length_readableView readableBytes_bound)
  show ?case
  proof (cases "s = []")
    case True
    with less.prems len show ?thesis by (subst append_bytes.simps) simp
  next
    case False
    show ?thesis
    proof (cases "length (readableView b) + 1 \<le> maximum_size b")
      case True
      then obtain n c where c: "prepare b 1 = Inr (n, c)"
        using prepare_total(1) [OF less.prems, of 1] less.prems
        by (auto simp: length_readableView buffer_ready_def)
      note pc = prepare_ok [OF less.prems c]
      let ?k = "min n (length s)"
      from pc have "length (take ?k s) \<le> prepared_bytes c" by simp
      then obtain d where d: "commit (write_span c (take ?k s)) ?k = Inr d" "buffer_ready d"
          "readableView d = readableView b @ take ?k s" "maximum_size d = maximum_size b"
        using write_commit_ok [of c "take ?k s"] pc by (auto simp: min.commute)
      have k: "0 < ?k" using pc False by (cases s) auto
      have room: "length (readableView d) \<le> maximum_size d"
        using d(2) by (simp add: buffer_ready_def length_readableView readableBytes_bound)
      obtain b' e where IH: "append_bytes d (drop ?k s) = Some (b', e)" "buffer_ready b'"
          "maximum_size b' = maximum_size d"
          "readableView b' = readableView d @ take (maximum_size d - length (readableView d)) (drop ?k s)"
          "e = (if length (readableView d) + length (drop ?k s) \<le> maximum_size d then None
                else Some Length_Error)"
        using less.hyps [of "drop ?k s" d] d(2) k False by auto
      have "append_bytes b s = Some (b', e)"
        using c d(1) IH(1) False by (subst append_bytes.simps) (simp add: Let_def)
      moreover have "take ?k s @ take (maximum_size b - length (readableView b) - ?k) (drop ?k s) =
          take (maximum_size b - length (readableView b)) s"
        using room d(3,4) by (subst take_add [symmetric]) simp
      ultimately show ?thesis using IH d(3,4) room by simp
    next
      case full: False
      then have "prepare b 1 = Inl Length_Error"
        using prepare_total(2) [OF less.prems, of 1] less.prems
        by (simp add: length_readableView buffer_ready_def)
      with False full len less.prems show ?thesis
        by (subst append_bytes.simps) (cases s, auto)
    qed
  qed
qed

section \<open>Properties\<close>

lemma prepare_inv:
  assumes "buffer_inv b" "prepare b m = Inr (n, b')"
  shows "buffer_inv b' \<and> maximum_size b' = maximum_size b"
proof -
  have "buffer_ready b" using assms by (auto simp: prepare_def buffer_ready_def split: if_splits)
  then show ?thesis using prepare_ok assms(2) by blast
qed

lemma consume_inv:
  assumes "buffer_inv b" "consume b k = Inr b'"
  shows "buffer_inv b' \<and> maximum_size b' = maximum_size b"
proof -
  have r: "buffer_ready b" using assms by (auto simp: consume_def buffer_ready_def split: if_splits)
  with assms(2) have "k \<le> length (readableView b)" using buf.consume_InrD by blast
  with r show ?thesis using consume_ok assms(2) by (fastforce simp: buffer_ready_def)
qed

text \<open>
  every operation of the buffer keeps its invariant (read index at most write index, the
  prepared span inside the storage, the storage never above the configured maximum), whatever
  it is called with, and never changes the maximum.
\<close>

theorem buffer_operations_keep_inv:
  assumes "buffer_inv b"
  shows "buffer_inv (clear b) \<and>
    (\<forall>m n b'. prepare b m = Inr (n, b') \<longrightarrow> buffer_inv b' \<and> maximum_size b' = maximum_size b) \<and>
    (\<forall>k b'. commit b k = Inr b' \<longrightarrow> buffer_inv b' \<and> maximum_size b' = maximum_size b) \<and>
    (\<forall>k b'. consume b k = Inr b' \<longrightarrow> buffer_inv b' \<and> maximum_size b' = maximum_size b) \<and>
    (\<forall>k s b'. takeString b k = Inr (s, b') \<longrightarrow> buffer_inv b' \<and> maximum_size b' = maximum_size b)"
proof (intro conjI allI impI)
  show "buffer_inv (clear b)"
    using assms by (auto simp: clear_def buffer_inv_def)
next
  fix m n b' assume "prepare b m = Inr (n, b')"
  with assms prepare_inv show "buffer_inv b'" "maximum_size b' = maximum_size b" by blast+
next
  fix k b' assume "commit b k = Inr b'"
  with assms show "buffer_inv b'" "maximum_size b' = maximum_size b"
    by (auto simp: commit_def buffer_inv_def split: if_splits)
next
  fix k b' assume "consume b k = Inr b'"
  with assms consume_inv show "buffer_inv b'" "maximum_size b' = maximum_size b" by blast+
next
  fix k s b' assume "takeString b k = Inr (s, b')"
  then have "consume b k = Inr b'"
    by (auto simp: takeString_def ebind_eq_Inr_iff split: if_splits)
  with assms consume_inv show "buffer_inv b'" "maximum_size b' = maximum_size b" by blast+
qed

definition sample_buffer :: buffer where
  "sample_buffer = \<lparr>storage = ''abcd'', read_index = 1, write_index = 3, prepared_bytes = 0,
     maximum_size = 8\<rparr>"

theorem buffer_operations_keep_inv_witness:
  "buffer_inv sample_buffer \<and> (\<exists>n b. prepare sample_buffer 3 = Inr (n, b) \<and> buffer_inv b) \<and>
   (\<exists>b. consume sample_buffer 2 = Inr b \<and> buffer_inv b)"
proof -
  have i: "buffer_inv sample_buffer" by (simp add: buffer_inv_def sample_buffer_def)
  have p: "\<exists>n b. prepare sample_buffer 3 = Inr (n, b)"
    by (simp add: prepare_def compactOrGrow_def sample_buffer_def readableBytes_def Let_def)
  have c: "\<exists>b. consume sample_buffer 2 = Inr b"
    by (simp add: consume_def sample_buffer_def readableBytes_def Let_def)
  from i p c show ?thesis
    using buffer_operations_keep_inv [OF i] by blast
qed

text \<open>
  C22: the buffer is a bounded FIFO of bytes. A socket read of at most \<open>m\<close> bytes into the
  region \<open>prepare(m)\<close> returned appends exactly those bytes to the readable view, whether the
  storage had room, was compacted or was grown, and it succeeds exactly when the unread bytes
  and \<open>m\<close> together fit the maximum; otherwise \<open>prepare\<close> throws \<open>length_error\<close>.
\<close>

theorem receive_is_bounded_fifo:
  assumes "buffer_ready b" "0 < m" "length bs \<le> m"
  shows "if length (readableView b) + m \<le> maximum_size b
         then \<exists>b'. receive b m bs = Inr b' \<and> buffer_ready b' \<and>
                readableView b' = readableView b @ bs \<and> maximum_size b' = maximum_size b
         else receive b m bs = Inl Length_Error"
  using buf.receive_fits [OF assms(1,2) _ assms(3)] buf.receive_full [OF assms(1), of m bs] by auto

theorem receive_is_bounded_fifo_witness:
  "\<exists>b'. receive sample_buffer 4 ''xyz'' = Inr b' \<and> readableView b' = ''bcxyz''"
proof -
  have "buffer_ready sample_buffer"
    by (simp add: buffer_ready_def buffer_inv_def sample_buffer_def)
  from receive_is_bounded_fifo [OF this, of 4 "''xyz''"] show ?thesis
    by (auto simp: sample_buffer_def readableView_def readableBytes_def)
qed

text \<open>
  C23: \<open>append\<close> always returns; it appends the whole string when it fits the capacity, and
  otherwise fills the buffer to its capacity with a prefix of it and throws
  \<open>length_error\<close>. Bytes already readable are never lost or reordered.
\<close>

theorem append_bytes_total:
  assumes "buffer_ready b"
  shows "\<exists>b' e. append_bytes b s = Some (b', e) \<and> buffer_ready b' \<and>
     readableView b' = readableView b @ take (maximum_size b - length (readableView b)) s \<and>
     (e = None \<longleftrightarrow> length (readableView b) + length s \<le> maximum_size b) \<and>
     (e = None \<or> e = Some Length_Error)"
  using append_bytes_spec [OF assms, of s] by auto

theorem append_bytes_total_witness:
  "\<exists>b'. append_bytes sample_buffer ''0123456789'' = Some (b', Some Length_Error) \<and>
     readableView b' = ''bc012345''"
proof -
  have "buffer_ready sample_buffer"
    by (simp add: buffer_ready_def buffer_inv_def sample_buffer_def)
  from append_bytes_total [OF this, of "''0123456789''"] show ?thesis
    by (auto simp: sample_buffer_def readableView_def readableBytes_def)
qed

end
