(* ===== verification/HttpParser.thy ===== *)
theory HttpParser
  imports Messages Buffer
begin

text \<open>
  The incremental request parser of \<open>src/http/http_parser.cpp\<close>, reading from the byte buffer.
  \<open>parse_loop\<close> is the loop of \<open>HttpParser::parse\<close> on the buffer; \<open>parse_bytes\<close> is its
  specification on the unread bytes alone, which the refinement lemma shows it implements.
\<close>

section \<open>State\<close>

record HttpParserLimits =
  max_request_line_bytes :: nat
  max_header_bytes :: nat
  max_header_count :: nat
  max_header_line_bytes :: nat
  max_body_bytes :: nat

definition HttpParserLimits_default :: HttpParserLimits where
  "HttpParserLimits_default = \<lparr>max_request_line_bytes = 8192, max_header_bytes = 16 * 1024,
     max_header_count = 100, max_header_line_bytes = 8192, max_body_bytes = 1024 * 1024\<rparr>"

datatype ParseState = PS_RequestLine | PS_Headers | PS_Body | PS_Complete | PS_Error

datatype ParseResult =
    PR_NeedMore | PR_Complete | PR_BadRequest | PR_HeaderTooLarge | PR_BodyTooLarge
  | PR_UnsupportedTransferEncoding

record HttpParser =
  p_limits :: HttpParserLimits
  p_state :: ParseState
  p_request :: HttpRequest
  p_expected_body_bytes :: nat
  p_header_bytes :: nat
  p_header_count :: nat
  p_error_result :: ParseResult

definition kAbsoluteRequestLineLimit :: nat where "kAbsoluteRequestLineLimit = 16 * 1024"
definition kAbsoluteHeaderLimit :: nat where "kAbsoluteHeaderLimit = 64 * 1024"
definition kAbsoluteHeaderCountLimit :: nat where "kAbsoluteHeaderCountLimit = 256"
definition kAbsoluteBodyLimit :: nat where "kAbsoluteBodyLimit = 16 * 1024 * 1024"

section \<open>Operations\<close>

definition trimOptionalWhitespace :: "string \<Rightarrow> string" where
  "trimOptionalWhitespace value = trim value"

definition isRequestTargetValid :: "string \<Rightarrow> bool" where
  "isRequestTargetValid target =
     (target \<noteq> [] \<and> \<not> list_ex (\<lambda>c. char_code c \<le> 0x20 \<or> char_code c = 0x7F) target)"

definition isMethodTokenValid :: "string \<Rightarrow> bool" where
  "isMethodTokenValid m = isValidHeaderName m"

definition HttpParser_make :: "HttpParserLimits \<Rightarrow> HttpParser outcome" where
  "HttpParser_make l =
     (if max_request_line_bytes l = 0 \<or> max_header_bytes l = 0 \<or> max_header_count l = 0 \<or>
         max_header_line_bytes l = 0 \<or> max_body_bytes l = 0 \<or>
         kAbsoluteRequestLineLimit < max_request_line_bytes l \<or>
         kAbsoluteHeaderLimit < max_header_bytes l \<or>
         kAbsoluteHeaderCountLimit < max_header_count l \<or>
         kAbsoluteBodyLimit < max_body_bytes l
      then Inl Invalid_Argument
      else Inr \<lparr>p_limits = l, p_state = PS_RequestLine, p_request = HttpRequest_default,
                p_expected_body_bytes = 0, p_header_bytes = 0, p_header_count = 0,
                p_error_result = PR_BadRequest\<rparr>)"

definition fail :: "HttpParser \<Rightarrow> ParseResult \<Rightarrow> HttpParser" where
  "fail p result = p\<lparr>p_state := PS_Error, p_error_result := result\<rparr>"

definition parseRequestLine :: "HttpParser \<Rightarrow> string \<Rightarrow> HttpParser \<times> ParseResult" where
  "parseRequestLine p line =
     (case find_char SP line of
        None \<Rightarrow> (p, PR_BadRequest)
      | Some first_space \<Rightarrow>
          (case find_char_from SP (first_space + 1) line of
             None \<Rightarrow> (p, PR_BadRequest)
           | Some second_space \<Rightarrow>
               if find_char_from SP (second_space + 1) line \<noteq> None then (p, PR_BadRequest)
               else
                 let meth = take first_space line;
                     target = take (second_space - first_space - 1) (drop (first_space + 1) line);
                     version = drop (second_space + 1) line
                 in if \<not> isMethodTokenValid meth \<or> \<not> isRequestTargetValid target then (p, PR_BadRequest)
                    else if version \<noteq> ''HTTP/1.1'' \<and> version \<noteq> ''HTTP/1.0'' then (p, PR_BadRequest)
                    else (p\<lparr>p_request := (p_request p)\<lparr>rq_method := parseHttpMethod meth,
                             rq_target := target, rq_version_major := 1,
                             rq_version_minor := int (char_code (last version)) - 48\<rparr>\<rparr>,
                          PR_Complete)))"

definition parseHeader :: "HttpParser \<Rightarrow> string \<Rightarrow> HttpParser \<times> ParseResult" where
  "parseHeader p0 line =
     (let p = p0\<lparr>p_header_count := p_header_count p0 + 1\<rparr> in
      if max_header_count (p_limits p) < p_header_count p then (p, PR_HeaderTooLarge)
      else
        (case find_char (CHR '':'') line of
           None \<Rightarrow> (p, PR_BadRequest)
         | Some colon \<Rightarrow>
             let name = take colon line;
                 value = trimOptionalWhitespace (drop (colon + 1) line)
             in if \<not> isValidHeaderName name \<or> \<not> isValidHeaderValue value then (p, PR_BadRequest)
                else (p\<lparr>p_request := (p_request p)\<lparr>rq_headers :=
                        headers_add (rq_headers (p_request p)) name value\<rparr>\<rparr>, PR_Complete)))"

definition finishHeaders :: "HttpParser \<Rightarrow> HttpParser \<times> ParseResult" where
  "finishHeaders p =
     (let rq = p_request p; content_lengths = headers_values (rq_headers rq) ''content-length'' in
      if rq_version_major rq = 1 \<and> rq_version_minor rq = 1 \<and> \<not> headers_contains (rq_headers rq) ''host''
        then (p, PR_BadRequest)
      else if headers_contains (rq_headers rq) ''transfer-encoding''
        then (p, PR_UnsupportedTransferEncoding)
      else if content_lengths = [] then (p\<lparr>p_expected_body_bytes := 0\<rparr>, PR_Complete)
      else if length content_lengths \<noteq> 1 then (p, PR_BadRequest)
      else
        let value = hd content_lengths in
        if value = [] then (p, PR_BadRequest)
        else (case from_chars_all 10 size_max value of
                None \<Rightarrow> (p, PR_BadRequest)
              | Some parsed \<Rightarrow>
                  if max_body_bytes (p_limits p) < parsed then (p, PR_BodyTooLarge)
                  else (p\<lparr>p_expected_body_bytes := parsed\<rparr>, PR_Complete)))"

text \<open>
  The loop of \<open>parse\<close>. The line is a view of storage that \<open>consume\<close> does not overwrite, so
  it is read before the buffer advances.
\<close>

lemma consume_decreases: "consume b n = Inr b' \<Longrightarrow> 0 < n \<Longrightarrow> readableBytes b' < readableBytes b"
  by (auto simp: consume_def clear_def readableBytes_def Let_def split: if_splits)

function parse_loop :: "HttpParser \<Rightarrow> buffer \<Rightarrow> (ParseResult \<times> HttpParser \<times> buffer) outcome" where
  "parse_loop p input =
     (if p_state p = PS_Body then
        (if readableBytes input < p_expected_body_bytes p then Inr (PR_NeedMore, p, input)
         else ebind (takeString input (p_expected_body_bytes p)) (\<lambda>(body, input').
           Inr (PR_Complete,
                p\<lparr>p_request := (p_request p)\<lparr>rq_body := body\<rparr>, p_state := PS_Complete\<rparr>, input')))
      else
        (case findCrlf input of
           None \<Rightarrow>
             (let pending = readableBytes input in
              if p_state p = PS_RequestLine \<and> max_request_line_bytes (p_limits p) < pending
                then Inr (PR_HeaderTooLarge, fail p PR_HeaderTooLarge, input)
              else if p_state p = PS_Headers \<and>
                  max_header_bytes (p_limits p) < p_header_bytes p + pending
                then Inr (PR_HeaderTooLarge, fail p PR_HeaderTooLarge, input)
              else Inr (PR_NeedMore, p, input))
         | Some line_bytes \<Rightarrow>
             (let line_with_terminator = line_bytes + 2 in
              if p_state p = PS_RequestLine \<and>
                  (max_request_line_bytes (p_limits p) < line_bytes \<or>
                   max_header_bytes (p_limits p) < line_with_terminator)
                then Inr (PR_HeaderTooLarge, fail p PR_HeaderTooLarge, input)
              else if p_state p = PS_Headers \<and>
                  (max_header_line_bytes (p_limits p) < line_bytes \<or>
                   max_header_bytes (p_limits p) < line_with_terminator \<or>
                   max_header_bytes (p_limits p) - line_with_terminator < p_header_bytes p)
                then Inr (PR_HeaderTooLarge, fail p PR_HeaderTooLarge, input)
              else
                let line = take line_bytes (readableView input) in
                ebind (consume input (line_bytes + 2)) (\<lambda>input'.
                  if p_state p = PS_RequestLine then
                    (case parseRequestLine p line of
                       (p', result) \<Rightarrow>
                         if result \<noteq> PR_Complete then Inr (result, fail p' result, input')
                         else parse_loop (p'\<lparr>p_state := PS_Headers,
                                             p_header_bytes := line_with_terminator\<rparr>) input')
                  else
                    (let p1 = p\<lparr>p_header_bytes := p_header_bytes p + line_with_terminator\<rparr> in
                     if line = [] then
                       (case finishHeaders p1 of
                          (p', result) \<Rightarrow>
                            if result \<noteq> PR_Complete then Inr (result, fail p' result, input')
                            else if p_expected_body_bytes p' = 0
                              then Inr (PR_Complete, p'\<lparr>p_state := PS_Complete\<rparr>, input')
                            else parse_loop (p'\<lparr>p_state := PS_Body\<rparr>) input')
                     else
                       (case parseHeader p1 line of
                          (p', result) \<Rightarrow>
                            if result \<noteq> PR_Complete then Inr (result, fail p' result, input')
                            else parse_loop p' input'))))))"
  by pat_completeness auto
termination
  by (relation "measure (\<lambda>(p, input). readableBytes input)") (auto dest: consume_decreases)

declare parse_loop.simps [simp del]

definition parse :: "HttpParser \<Rightarrow> buffer \<Rightarrow> (ParseResult \<times> HttpParser \<times> buffer) outcome" where
  "parse p input =
     (if p_state p = PS_Complete then Inr (PR_Complete, p, input)
      else if p_state p = PS_Error then Inr (p_error_result p, p, input)
      else parse_loop p input)"

text \<open>\<open>std::move\<close> leaves the stored request in a valid but unspecified state, an argument here.\<close>

definition takeRequest :: "HttpRequest \<Rightarrow> HttpParser \<Rightarrow> (HttpRequest \<times> HttpParser) outcome" where
  "takeRequest moved_from p =
     (if p_state p \<noteq> PS_Complete then Inl Logic_Error
      else Inr (p_request p, p\<lparr>p_request := moved_from\<rparr>))"

definition reset :: "HttpParser \<Rightarrow> HttpParser" where
  "reset p = p\<lparr>p_state := PS_RequestLine, p_request := HttpRequest_default,
     p_expected_body_bytes := 0, p_header_bytes := 0, p_header_count := 0,
     p_error_result := PR_BadRequest\<rparr>"

section \<open>Specification on the unread bytes\<close>

text \<open>Which lengths are refused, and what a complete line does: \<open>None\<close> goes on.\<close>

definition pending_oversized :: "HttpParser \<Rightarrow> nat \<Rightarrow> bool" where
  "pending_oversized p n \<longleftrightarrow>
     p_state p = PS_RequestLine \<and> max_request_line_bytes (p_limits p) < n \<or>
     p_state p = PS_Headers \<and> max_header_bytes (p_limits p) < p_header_bytes p + n"

definition line_oversized :: "HttpParser \<Rightarrow> nat \<Rightarrow> bool" where
  "line_oversized p n \<longleftrightarrow>
     p_state p = PS_RequestLine \<and>
       (max_request_line_bytes (p_limits p) < n \<or> max_header_bytes (p_limits p) < n + 2) \<or>
     p_state p = PS_Headers \<and>
       (max_header_line_bytes (p_limits p) < n \<or> max_header_bytes (p_limits p) < p_header_bytes p + (n + 2))"

definition line_step :: "HttpParser \<Rightarrow> string \<Rightarrow> HttpParser \<times> ParseResult option" where
  "line_step p line =
     (if p_state p = PS_RequestLine then
        (case parseRequestLine p line of (p', r) \<Rightarrow>
           if r \<noteq> PR_Complete then (fail p' r, Some r)
           else (p'\<lparr>p_state := PS_Headers, p_header_bytes := length line + 2\<rparr>, None))
      else
        (let p1 = p\<lparr>p_header_bytes := p_header_bytes p + (length line + 2)\<rparr> in
         if line = [] then
           (case finishHeaders p1 of (p', r) \<Rightarrow>
              if r \<noteq> PR_Complete then (fail p' r, Some r)
              else if p_expected_body_bytes p' = 0 then (p'\<lparr>p_state := PS_Complete\<rparr>, Some PR_Complete)
              else (p'\<lparr>p_state := PS_Body\<rparr>, None))
         else
           (case parseHeader p1 line of (p', r) \<Rightarrow>
              if r \<noteq> PR_Complete then (fail p' r, Some r) else (p', None))))"

lemma find_crlf_drop_less: "find_crlf s = Some k \<Longrightarrow> length (drop (k + 2) s) < length s"
  using find_crlf_SomeD [of s k] by (simp, linarith)

function parse_bytes :: "HttpParser \<Rightarrow> string \<Rightarrow> ParseResult \<times> HttpParser \<times> string" where
  "parse_bytes p s =
     (if p_state p = PS_Body then
        (if length s < p_expected_body_bytes p then (PR_NeedMore, p, s)
         else (PR_Complete,
               p\<lparr>p_request := (p_request p)\<lparr>rq_body := take (p_expected_body_bytes p) s\<rparr>,
                 p_state := PS_Complete\<rparr>, drop (p_expected_body_bytes p) s))
      else
        (case find_crlf s of
           None \<Rightarrow> if pending_oversized p (length s)
                   then (PR_HeaderTooLarge, fail p PR_HeaderTooLarge, s) else (PR_NeedMore, p, s)
         | Some k \<Rightarrow>
             if line_oversized p k then (PR_HeaderTooLarge, fail p PR_HeaderTooLarge, s)
             else (case line_step p (take k s) of
                     (p', Some r) \<Rightarrow> (r, p', drop (k + 2) s)
                   | (p', None) \<Rightarrow> parse_bytes p' (drop (k + 2) s))))"
  by pat_completeness auto
termination
  by (relation "measure (\<lambda>(p, s). length s)") (auto dest: find_crlf_drop_less)

declare parse_bytes.simps [simp del]

text \<open>One complete, acceptable line on the buffer is one \<open>line_step\<close>.\<close>

lemma parse_loop_line:
  assumes "p_state p \<noteq> PS_Body" "findCrlf b = Some k" "\<not> line_oversized p k"
    and "consume b (k + 2) = Inr b'" "k \<le> length (readableView b)"
  shows "parse_loop p b =
     (case line_step p (take k (readableView b)) of
        (p', Some r) \<Rightarrow> Inr (r, p', b') | (p', None) \<Rightarrow> parse_loop p' b')"
proof -
  have "\<not> (p_state p = PS_RequestLine \<and> (max_request_line_bytes (p_limits p) < k \<or>
           max_header_bytes (p_limits p) < k + 2))"
    "\<not> (p_state p = PS_Headers \<and> (max_header_line_bytes (p_limits p) < k \<or>
           max_header_bytes (p_limits p) < k + 2 \<or>
           max_header_bytes (p_limits p) - (k + 2) < p_header_bytes p))"
    using assms(3) by (auto simp: line_oversized_def)
  note hyps = assms(1,2,4) this
  let ?l = "take k (readableView b)"
  let ?p1 = "p\<lparr>p_header_bytes := p_header_bytes p + (k + 2)\<rparr>"
  have len: "length ?l = k" using assms(5) by simp
  obtain q1 r1 where 1: "parseRequestLine p ?l = (q1, r1)" by fastforce
  obtain q2 r2 where 2: "finishHeaders ?p1 = (q2, r2)" by fastforce
  obtain q3 r3 where 3: "parseHeader ?p1 ?l = (q3, r3)" by fastforce
  have loop: "parse_loop p b = (if p_state p = PS_RequestLine then
        if r1 \<noteq> PR_Complete then Inr (r1, fail q1 r1, b')
        else parse_loop (q1\<lparr>p_state := PS_Headers, p_header_bytes := k + 2\<rparr>) b'
      else if ?l = [] then
        if r2 \<noteq> PR_Complete then Inr (r2, fail q2 r2, b')
        else if p_expected_body_bytes q2 = 0 then Inr (PR_Complete, q2\<lparr>p_state := PS_Complete\<rparr>, b')
        else parse_loop (q2\<lparr>p_state := PS_Body\<rparr>) b'
      else if r3 \<noteq> PR_Complete then Inr (r3, fail q3 r3, b') else parse_loop q3 b')"
    unfolding parse_loop.simps [of p b] Let_def
    by (simp only: hyps 1 2 3 option.case ebind_simps prod.case if_False refl)
  show ?thesis
    unfolding loop line_step_def Let_def len 1 2 3 prod.case
    by (simp only: split: if_split) simp
qed

text \<open>The refinement: on a ready buffer the loop throws nothing and acts on the view alone.\<close>

lemma parse_loop_refines:
  assumes "buffer_ready b"
  shows "\<exists>r p' b'. parse_loop p b = Inr (r, p', b') \<and> buffer_ready b' \<and>
     maximum_size b' = maximum_size b \<and> parse_bytes p (readableView b) = (r, p', readableView b')"
  using assms
proof (induction "length (readableView b)" arbitrary: p b rule: less_induct)
  case less
  have len: "readableBytes b = length (readableView b)"
    using less.prems by (simp add: length_readableView buffer_ready_def)
  consider (body) "p_state p = PS_Body" | (nocrlf) "p_state p \<noteq> PS_Body" "find_crlf (readableView b) = None"
    | (line) k where "p_state p \<noteq> PS_Body" "find_crlf (readableView b) = Some k"
    by (cases "find_crlf (readableView b)") auto
  then show ?case
  proof cases
    case body
    let ?n = "p_expected_body_bytes p"
    show ?thesis
    proof (cases "length (readableView b) < ?n")
      case True
      with body less.prems len show ?thesis
        by (subst parse_loop.simps, subst parse_bytes.simps) auto
    next
      case False
      then obtain b' where t: "takeString b ?n = Inr (take ?n (readableView b), b')"
          and c: "consume b ?n = Inr b'"
        using takeString_ok [OF less.prems] by (metis linorder_not_less)
      from buf.consume_InrD [OF less.prems c] buf.consume_capacity [OF less.prems c] False body t len
      show ?thesis by (subst parse_loop.simps, subst parse_bytes.simps) auto
    qed
  next
    case nocrlf
    with less.prems len show ?thesis
      by (subst parse_loop.simps, subst parse_bytes.simps)
        (auto simp: findCrlf_def pending_oversized_def Let_def)
  next
    case line
    then obtain b' where b': "consume b (k + 2) = Inr b'" "buffer_ready b'"
        "readableView b' = drop (k + 2) (readableView b)"
      using buf.consume_line [OF less.prems] by metis
    have cap: "maximum_size b' = maximum_size b"
      using buf.consume_capacity [OF less.prems b'(1)] .
    have k: "k \<le> length (readableView b)" using find_crlf_SomeD [OF line(2)] by simp
    show ?thesis
    proof (cases "line_oversized p k")
      case True
      with line less.prems show ?thesis
        by (subst parse_loop.simps, subst parse_bytes.simps)
          (auto simp: findCrlf_def line_oversized_def Let_def)
    next
      case False
      note loop = parse_loop_line [OF line(1) _ False b'(1) k]
      obtain p' o' where step: "line_step p (take k (readableView b)) = (p', o')" by fastforce
      have "length (readableView b') < length (readableView b)"
        using find_crlf_drop_less [OF line(2)] b'(3) by simp
      then have IH: "\<exists>r q c. parse_loop p' b' = Inr (r, q, c) \<and> buffer_ready c \<and>
          maximum_size c = maximum_size b' \<and> parse_bytes p' (readableView b') = (r, q, readableView c)"
        using less.hyps b'(2) by blast
      have spec: "parse_bytes p (readableView b) =
          (case o' of Some r \<Rightarrow> (r, p', readableView b') | None \<Rightarrow> parse_bytes p' (readableView b'))"
        using line False step b'(3) by (subst parse_bytes.simps) (simp split: option.splits)
      show ?thesis
        using loop IH spec step line(2) b'(2) cap by (cases o') (auto simp: findCrlf_def)
    qed
  qed
qed

end
