(* ===== verification/ParserProperties.thy ===== *)
theory ParserProperties
  imports HttpParser
begin

text \<open>
  Properties of the request parser: it refines its specification on the unread bytes, the
  result does not depend on how the bytes were cut into reads, what it accepts is framed by
  the configured limits, and printing a request and parsing it gives the request back.
\<close>

section \<open>The entry point\<close>

definition parse_view :: "HttpParser \<Rightarrow> string \<Rightarrow> ParseResult \<times> HttpParser \<times> string" where
  "parse_view p s =
     (if p_state p = PS_Complete then (PR_Complete, p, s)
      else if p_state p = PS_Error then (p_error_result p, p, s)
      else parse_bytes p s)"

lemma parse_on_view:
  assumes "buffer_ready b"
  shows "\<exists>r p' b'. parse p b = Inr (r, p', b') \<and> buffer_ready b' \<and>
     maximum_size b' = maximum_size b \<and> parse_view p (readableView b) = (r, p', readableView b')"
  using parse_loop_refines [OF assms, of p] assms
  by (auto simp: parse_def parse_view_def)

section \<open>What one step does\<close>

lemma fail_simps [simp]:
  "p_state (fail p r) = PS_Error" "p_error_result (fail p r) = r"
  "p_limits (fail p r) = p_limits p" "p_request (fail p r) = p_request p"
  "p_header_bytes (fail p r) = p_header_bytes p" "p_header_count (fail p r) = p_header_count p"
  "p_expected_body_bytes (fail p r) = p_expected_body_bytes p"
  by (simp_all add: fail_def)

lemma parseRequestLine_cases:
  assumes "parseRequestLine p line = (p', r)"
  obtains (bad) "p' = p" "r = PR_BadRequest"
    | (ok) meth target minor where "line = meth @ SP # target @ SP # ''HTTP/1.'' @ [minor]"
        "minor = CHR ''0'' \<or> minor = CHR ''1''" "isMethodTokenValid meth" "isRequestTargetValid target"
        "p' = p\<lparr>p_request := (p_request p)\<lparr>rq_method := parseHttpMethod meth, rq_target := target,
             rq_version_major := 1, rq_version_minor := int (char_code minor) - 48\<rparr>\<rparr>"
        "r = PR_Complete"
proof -
  consider "p' = p" "r = PR_BadRequest"
    | i j where "find_char SP line = Some i" "find_char_from SP (i + 1) line = Some j"
        "isMethodTokenValid (take i line)" "isRequestTargetValid (take (j - i - 1) (drop (i + 1) line))"
        "drop (j + 1) line = ''HTTP/1.1'' \<or> drop (j + 1) line = ''HTTP/1.0''" "r = PR_Complete"
        "p' = p\<lparr>p_request := (p_request p)\<lparr>rq_method := parseHttpMethod (take i line),
             rq_target := take (j - i - 1) (drop (i + 1) line), rq_version_major := 1,
             rq_version_minor := int (char_code (last (drop (j + 1) line))) - 48\<rparr>\<rparr>"
    using assms by (auto simp: parseRequestLine_def Let_def split: option.splits if_splits)
  then show thesis
  proof cases
    case 1
    then show thesis by (rule bad)
  next
    case 2
    from 2(2) obtain k where k: "find_char SP (drop (i + 1) line) = Some k" "j = i + 1 + k"
      by (auto simp: find_char_from_def)
    have l: "line = take i line @ SP # take k (drop (i + 1) line) @ SP # drop (j + 1) line"
      using find_char_split [OF 2(1)] find_char_split [OF k(1)] k(2) by (simp add: add.commute)
    have t: "take (j - i - 1) (drop (i + 1) line) = take k (drop (i + 1) line)" using k(2) by simp
    from 2(5) show thesis
    proof
      assume v: "drop (j + 1) line = ''HTTP/1.1''"
      show thesis
        by (rule ok [of "take i line" "take k (drop (i + 1) line)" "CHR ''1''"])
          (use l t v 2 in simp_all)
    next
      assume v: "drop (j + 1) line = ''HTTP/1.0''"
      show thesis
        by (rule ok [of "take i line" "take k (drop (i + 1) line)" "CHR ''0''"])
          (use l t v 2 in simp_all)
    qed
  qed
qed

lemma parseHeader_cases:
  assumes "parseHeader p line = (p', r)"
  obtains (bad) "p' = p\<lparr>p_header_count := p_header_count p + 1\<rparr>" "r = PR_BadRequest \<or> r = PR_HeaderTooLarge"
    | (ok) n v where "p_header_count p + 1 \<le> max_header_count (p_limits p)"
        "line = n @ CHR '':'' # v" "isValidHeaderName n" "isValidHeaderValue (trim v)"
        "p' = p\<lparr>p_header_count := p_header_count p + 1,
           p_request := (p_request p)\<lparr>rq_headers := headers_add (rq_headers (p_request p)) n (trim v)\<rparr>\<rparr>"
        "r = PR_Complete"
proof (cases "find_char (CHR '':'') line")
  case None
  with assms bad show thesis
    by (auto simp: parseHeader_def Let_def split: if_splits)
next
  case (Some k)
  note split = find_char_split [OF Some]
  show thesis
    using assms bad ok [OF _ split] Some
    by (auto simp: parseHeader_def Let_def trimOptionalWhitespace_def split: if_splits)
qed

lemma finishHeaders_cases:
  assumes "finishHeaders p = (p', r)"
  obtains (bad) "p' = p" "r = PR_BadRequest \<or> r = PR_UnsupportedTransferEncoding \<or> r = PR_BodyTooLarge"
    | (ok) n where "p' = p\<lparr>p_expected_body_bytes := n\<rparr>" "r = PR_Complete" "n \<le> max_body_bytes (p_limits p)"
        "rq_version_major (p_request p) = 1 \<and> rq_version_minor (p_request p) = 1 \<longrightarrow>
           headers_contains (rq_headers (p_request p)) ''host''"
        "\<not> headers_contains (rq_headers (p_request p)) ''transfer-encoding''"
        "headers_values (rq_headers (p_request p)) ''content-length'' = [] \<and> n = 0 \<or>
         (\<exists>v. headers_values (rq_headers (p_request p)) ''content-length'' = [v] \<and>
              from_chars_all 10 size_max v = Some n)"
proof -
  let ?cl = "headers_values (rq_headers (p_request p)) ''content-length''"
  have "xs = [] \<or> (\<exists>v. xs = [v]) \<or> xs \<noteq> [] \<and> length xs \<noteq> 1" for xs :: "string list"
    by (cases xs) auto
  then consider "?cl = []" | v where "?cl = [v]" | "?cl \<noteq> []" "length ?cl \<noteq> 1"
    by blast
  then show thesis
  proof cases
    case 1
    with assms bad ok [of 0] show thesis
      by (auto simp: finishHeaders_def Let_def split: if_splits)
  next
    case 2
    with assms bad ok show thesis
      by (auto simp: finishHeaders_def Let_def split: if_splits option.splits)
  next
    case 3
    with assms bad show thesis
      by (auto simp: finishHeaders_def Let_def split: if_splits)
  qed
qed

lemma line_step_cases:
  assumes "line_step p l = (q, res)"
  obtains
    (request_line) p1 where "p_state p = PS_RequestLine" "parseRequestLine p l = (p1, PR_Complete)"
      "q = p1\<lparr>p_state := PS_Headers, p_header_bytes := length l + 2\<rparr>" "res = None"
  | (header) "p_state p \<noteq> PS_RequestLine" "l \<noteq> []"
      "parseHeader (p\<lparr>p_header_bytes := p_header_bytes p + (length l + 2)\<rparr>) l = (q, PR_Complete)"
      "res = None"
  | (last_header) p1 where "p_state p \<noteq> PS_RequestLine" "l = []"
      "finishHeaders (p\<lparr>p_header_bytes := p_header_bytes p + 2\<rparr>) = (p1, PR_Complete)"
      "q = p1\<lparr>p_state := (if p_expected_body_bytes p1 = 0 then PS_Complete else PS_Body)\<rparr>"
      "res = (if p_expected_body_bytes p1 = 0 then Some PR_Complete else None)"
  | (rejected) p1 r where "q = fail p1 r" "res = Some r" "r \<noteq> PR_Complete" "r \<noteq> PR_NeedMore"
      "p_limits p1 = p_limits p"
proof (cases "p_state p = PS_RequestLine")
  case True
  obtain p1 r where l: "parseRequestLine p l = (p1, r)" by fastforce
  show thesis
  proof (cases "r = PR_Complete")
    case True
    with l \<open>p_state p = PS_RequestLine\<close> assms show thesis
      by (intro request_line) (auto simp: line_step_def)
  next
    case False
    with l \<open>p_state p = PS_RequestLine\<close> assms show thesis
      by (intro rejected [of p1 r]) (auto simp: line_step_def elim: parseRequestLine_cases)
  qed
next
  case hdr: False
  show thesis
  proof (cases "l = []")
    case True
    obtain p1 r where l: "finishHeaders (p\<lparr>p_header_bytes := p_header_bytes p + 2\<rparr>) = (p1, r)" by fastforce
    show thesis
    proof (cases "r = PR_Complete")
      case True
      with l hdr \<open>l = []\<close> assms show thesis
        by (intro last_header) (auto simp: line_step_def Let_def split: if_splits)
    next
      case False
      with l hdr \<open>l = []\<close> assms show thesis
        by (intro rejected [of p1 r]) (auto simp: line_step_def Let_def elim: finishHeaders_cases)
    qed
  next
    case ne: False
    obtain p1 r where l: "parseHeader (p\<lparr>p_header_bytes := p_header_bytes p + (length l + 2)\<rparr>) l = (p1, r)"
      by fastforce
    show thesis
    proof (cases "r = PR_Complete")
      case True
      with l hdr ne assms show thesis by (intro header) (auto simp: line_step_def Let_def)
    next
      case False
      with l hdr ne assms show thesis
        by (intro rejected [of p1 r]) (auto simp: line_step_def Let_def elim: parseHeader_cases)
    qed
  qed
qed

lemma line_step_Some:
  "line_step p l = (p', Some r) \<Longrightarrow>
     r = PR_Complete \<and> p_state p' = PS_Complete \<or>
     r \<noteq> PR_Complete \<and> r \<noteq> PR_NeedMore \<and> p_state p' = PS_Error \<and> p_error_result p' = r"
  by (erule line_step_cases) (auto split: if_splits)

text \<open>One line of the specification, and induction over a run of it, by how the run ends.\<close>

lemma parse_bytes_line:
  assumes "p_state p \<noteq> PS_Body" "find_crlf s = Some k" "\<not> line_oversized p k"
    and "line_step p (take k s) = (q, res)"
  shows "parse_bytes p (s @ t) = (case res of Some r \<Rightarrow> (r, q, drop (k + 2) s @ t)
        | None \<Rightarrow> parse_bytes q (drop (k + 2) s @ t))"
  using assms find_crlf_append [OF assms(2), of t] find_crlf_SomeD [OF assms(2)]
  by (subst parse_bytes.simps) (simp split: option.splits)

lemma parse_bytes_cases:
  assumes "parse_bytes p s = (r, p', s')"
  obtains
    (body_wait) "p_state p = PS_Body" "length s < p_expected_body_bytes p"
      "r = PR_NeedMore" "p' = p" "s' = s"
  | (body_done) "p_state p = PS_Body" "p_expected_body_bytes p \<le> length s" "r = PR_Complete"
      "p' = p\<lparr>p_request := (p_request p)\<lparr>rq_body := take (p_expected_body_bytes p) s\<rparr>,
             p_state := PS_Complete\<rparr>" "s' = drop (p_expected_body_bytes p) s"
  | (pending) "p_state p \<noteq> PS_Body" "find_crlf s = None" "\<not> pending_oversized p (length s)"
      "r = PR_NeedMore" "p' = p" "s' = s"
  | (too_large) "p_state p \<noteq> PS_Body" "r = PR_HeaderTooLarge" "p' = fail p PR_HeaderTooLarge" "s' = s"
  | (verdict) k where "p_state p \<noteq> PS_Body" "find_crlf s = Some k" "\<not> line_oversized p k"
      "line_step p (take k s) = (p', Some r)" "s' = drop (k + 2) s"
  | (more_lines) k q where "p_state p \<noteq> PS_Body" "find_crlf s = Some k" "\<not> line_oversized p k"
      "line_step p (take k s) = (q, None)" "parse_bytes q (drop (k + 2) s) = (r, p', s')"
proof (cases "p_state p = PS_Body")
  case True
  with assms body_wait body_done show thesis
    by (subst (asm) parse_bytes.simps) (auto split: if_splits)
next
  case body: False
  show thesis
  proof (cases "find_crlf s")
    case None
    with assms body pending too_large show thesis
      by (subst (asm) parse_bytes.simps) (auto split: if_splits)
  next
    case (Some k)
    show thesis
    proof (cases "line_oversized p k")
      case True
      with assms body Some too_large show thesis by (subst (asm) parse_bytes.simps) auto
    next
      case False
      obtain q res where "line_step p (take k s) = (q, res)" by fastforce
      with assms parse_bytes_line [OF body Some False this, of "[]"]
        verdict [OF body Some False] more_lines [OF body Some False]
      show thesis by (cases res) auto
    qed
  qed
qed

lemma parse_bytes_run_induct [consumes 1, case_names body_wait body_done pending too_large verdict more_lines]:
  assumes "parse_bytes p s = (r, p', s')"
    and "\<And>p s. p_state p = PS_Body \<Longrightarrow> length s < p_expected_body_bytes p \<Longrightarrow>
      r = PR_NeedMore \<Longrightarrow> p' = p \<Longrightarrow> s' = s \<Longrightarrow> P p s"
    and "\<And>p s. p_state p = PS_Body \<Longrightarrow> p_expected_body_bytes p \<le> length s \<Longrightarrow> r = PR_Complete \<Longrightarrow>
      p' = p\<lparr>p_request := (p_request p)\<lparr>rq_body := take (p_expected_body_bytes p) s\<rparr>,
             p_state := PS_Complete\<rparr> \<Longrightarrow> s' = drop (p_expected_body_bytes p) s \<Longrightarrow> P p s"
    and "\<And>p s. p_state p \<noteq> PS_Body \<Longrightarrow> find_crlf s = None \<Longrightarrow> \<not> pending_oversized p (length s) \<Longrightarrow>
      r = PR_NeedMore \<Longrightarrow> p' = p \<Longrightarrow> s' = s \<Longrightarrow> P p s"
    and "\<And>p s. p_state p \<noteq> PS_Body \<Longrightarrow> r = PR_HeaderTooLarge \<Longrightarrow>
      p' = fail p PR_HeaderTooLarge \<Longrightarrow> s' = s \<Longrightarrow> P p s"
    and "\<And>p s k. p_state p \<noteq> PS_Body \<Longrightarrow> find_crlf s = Some k \<Longrightarrow> \<not> line_oversized p k \<Longrightarrow>
      line_step p (take k s) = (p', Some r) \<Longrightarrow> s' = drop (k + 2) s \<Longrightarrow> P p s"
    and "\<And>p s k q. p_state p \<noteq> PS_Body \<Longrightarrow> find_crlf s = Some k \<Longrightarrow> \<not> line_oversized p k \<Longrightarrow>
      line_step p (take k s) = (q, None) \<Longrightarrow> parse_bytes q (drop (k + 2) s) = (r, p', s') \<Longrightarrow>
      P q (drop (k + 2) s) \<Longrightarrow> P p s"
  shows "P p s"
  using assms(1)
proof (induction "length s" arbitrary: p s rule: less_induct)
  case less
  from less.prems show ?case
  proof (cases rule: parse_bytes_cases)
    case (more_lines k q)
    then show ?thesis
      using assms(7) [OF more_lines] less.hyps [OF find_crlf_drop_less [OF more_lines(2)] more_lines(5)]
      by blast
  qed (use assms in blast)+
qed

section \<open>Reads may be cut anywhere\<close>

lemma parse_bytes_NeedMore_append:
  "parse_bytes p s = (PR_NeedMore, p', s') \<Longrightarrow> parse_bytes p (s @ t) = parse_bytes p' (s' @ t)"
proof (induction rule: parse_bytes_run_induct)
  case (more_lines p s k q)
  then show ?case using parse_bytes_line [OF more_lines(1-4)] by simp
qed (auto dest: line_step_Some)

text \<open>A verdict other than 431 is final: it does not depend on the bytes that follow.\<close>

lemma parse_bytes_verdict_append:
  assumes "parse_bytes p s = (r, p', s')" "r \<noteq> PR_NeedMore" "r \<noteq> PR_HeaderTooLarge"
  shows "parse_bytes p (s @ t) = (r, p', s' @ t)"
  using assms
proof (induction rule: parse_bytes_run_induct)
  case (body_done p s)
  then show ?case by (subst parse_bytes.simps) simp
next
  case (verdict p s k)
  then show ?case using parse_bytes_line [OF verdict(1-4)] by simp
next
  case (more_lines p s k q)
  then show ?case using parse_bytes_line [OF more_lines(1-4)] by simp
qed auto

text \<open>A connection's reads: each chunk goes behind the unread bytes and the parser runs again.\<close>

fun feed :: "HttpParser \<Rightarrow> string \<Rightarrow> string list \<Rightarrow> ParseResult \<times> HttpParser \<times> string" where
  "feed p s [] = (PR_NeedMore, p, s)"
| "feed p s (c # cs) =
     (case parse_view p (s @ c) of
        (PR_NeedMore, p', s') \<Rightarrow> if cs = [] then (PR_NeedMore, p', s') else feed p' s' cs
      | (r, p', s') \<Rightarrow> (r, p', s' @ concat cs))"

definition parser_active :: "HttpParser \<Rightarrow> bool" where
  "parser_active p \<longleftrightarrow> p_state p \<noteq> PS_Complete \<and> p_state p \<noteq> PS_Error"

lemma parse_view_active [simp]: "parser_active p \<Longrightarrow> parse_view p s = parse_bytes p s"
  by (simp add: parse_view_def parser_active_def)

lemma line_step_None_active: "line_step p l = (p', None) \<Longrightarrow> parser_active p \<Longrightarrow> parser_active p'"
  by (erule line_step_cases)
    (auto simp: parser_active_def elim!: parseHeader_cases split: if_splits)

lemma parse_bytes_NeedMore_active:
  "parse_bytes p s = (PR_NeedMore, p', s') \<Longrightarrow> parser_active p \<Longrightarrow> parser_active p'"
  by (induction rule: parse_bytes_run_induct) (auto dest: line_step_Some line_step_None_active)

lemma parse_bytes_shrinks: "parse_bytes p s = (r, p', s') \<Longrightarrow> length s' \<le> length s"
  by (induction rule: parse_bytes_run_induct) auto

text \<open>
  The reads of a connection on its buffer: room for a read of \<open>n\<close> bytes is prepared, what arrived is committed,
  and the parser runs; with a verdict the reads not yet made are returned.
\<close>

fun parse_reads :: "nat \<Rightarrow> HttpParser \<Rightarrow> buffer \<Rightarrow> string list \<Rightarrow>
    (ParseResult \<times> HttpParser \<times> buffer \<times> string list) outcome" where
  "parse_reads n p b [] = Inr (PR_NeedMore, p, b, [])"
| "parse_reads n p b (c # cs) =
     ebind (prepare b n) (\<lambda>(room, b1). ebind (commit (write_span b1 c) (length c)) (\<lambda>b2.
     ebind (parse p b2) (\<lambda>(r, p', b3).
       if r = PR_NeedMore then parse_reads n p' b3 cs else Inr (r, p', b3, cs))))"

lemma parse_reads_Cons:
  "parse_reads n p b (c # cs) = ebind (receive b n c) (\<lambda>b2. ebind (parse p b2) (\<lambda>(r, p', b3).
     if r = PR_NeedMore then parse_reads n p' b3 cs else Inr (r, p', b3, cs)))"
  by (cases "prepare b n") (auto simp: receive_def)

lemma parse_reads_whole:
  assumes "parser_active p" "buffer_ready b" "0 < n" "list_all (\<lambda>c. length c \<le> n) cs"
    and "length (readableView b) + length (concat cs) + n \<le> maximum_size b"
  shows "\<exists>r p' b' rest. parse_reads n p b cs = Inr (r, p', b', rest) \<and>
     (cs \<noteq> [] \<longrightarrow> r \<noteq> PR_HeaderTooLarge \<longrightarrow>
        parse_bytes p (readableView b @ concat cs) = (r, p', readableView b' @ concat rest))"
  using assms(1,2,4,5)
proof (induction cs arbitrary: p b)
  case (Cons c cs)
  from buf.receive_fits [OF Cons.prems(2) assms(3), of c] Cons.prems(3,4)
  obtain b1 where b1: "receive b n c = Inr b1" "buffer_ready b1" "readableView b1 = readableView b @ c"
    "maximum_size b1 = maximum_size b" by auto
  from parse_on_view [OF b1(2), of p] Cons.prems(1) b1(3,4)
  obtain r p1 b2 where b2: "parse p b1 = Inr (r, p1, b2)" "buffer_ready b2" "maximum_size b2 = maximum_size b"
    "parse_bytes p (readableView b @ c) = (r, p1, readableView b2)" by auto
  have step: "parse_reads n p b (c # cs) = (if r = PR_NeedMore then parse_reads n p1 b2 cs else Inr (r, p1, b2, cs))"
    unfolding parse_reads_Cons using b1(1) b2(1) by simp
  show ?case
  proof (cases "r = PR_NeedMore")
    case True
    have len: "length (readableView b2) \<le> length (readableView b) + length c" using parse_bytes_shrinks [OF b2(4)] by simp
    have act: "parser_active p1" using parse_bytes_NeedMore_active b2(4) True Cons.prems(1) by blast
    have app: "parse_bytes p (readableView b @ c @ t) = parse_bytes p1 (readableView b2 @ t)" for t
      using parse_bytes_NeedMore_append [of p "readableView b @ c" p1 "readableView b2" t] b2(4) True by simp
    from Cons.IH [OF act b2(2)] Cons.prems(3,4) b2(3) len
    obtain r' p' b' rest where ih: "parse_reads n p1 b2 cs = Inr (r', p', b', rest)"
      "cs \<noteq> [] \<Longrightarrow> r' \<noteq> PR_HeaderTooLarge \<Longrightarrow> parse_bytes p1 (readableView b2 @ concat cs) = (r', p', readableView b' @ concat rest)"
      by auto
    show ?thesis
    proof (cases "cs = []")
      case True
      with step \<open>r = PR_NeedMore\<close> b2(4) show ?thesis by simp
    next
      case False
      with step True ih app [of "concat cs"] show ?thesis by auto
    qed
  next
    case False
    with step b2(4) parse_bytes_verdict_append [of p "readableView b @ c" r p1 "readableView b2" "concat cs"] show ?thesis by auto
  qed
qed simp

section \<open>What an accepted request looks like\<close>

text \<open>Body framing: at most one \<open>Content-Length\<close>, no transfer coding, a host for HTTP/1.1.\<close>

definition framed :: "HttpParserLimits \<Rightarrow> HttpRequest \<Rightarrow> nat \<Rightarrow> bool" where
  "framed l rq n \<longleftrightarrow> n \<le> max_body_bytes l \<and>
     (rq_version_minor rq = 1 \<longrightarrow> headers_contains (rq_headers rq) ''host'') \<and>
     \<not> headers_contains (rq_headers rq) ''transfer-encoding'' \<and>
     (headers_values (rq_headers rq) ''content-length'' = [] \<and> n = 0 \<or>
      (\<exists>v. headers_values (rq_headers rq) ''content-length'' = [v] \<and>
           from_chars_all 10 size_max v = Some n))"

lemma framed_code [code]:
  "framed l rq n \<longleftrightarrow> n \<le> max_body_bytes l \<and>
     (rq_version_minor rq = 1 \<longrightarrow> headers_contains (rq_headers rq) ''host'') \<and>
     \<not> headers_contains (rq_headers rq) ''transfer-encoding'' \<and>
     (case headers_values (rq_headers rq) ''content-length'' of
        [] \<Rightarrow> n = 0 | [v] \<Rightarrow> from_chars_all 10 size_max v = Some n | _ \<Rightarrow> False)"
  by (auto simp: framed_def split: list.splits)

definition head_ok :: "HttpParserLimits \<Rightarrow> HttpRequest \<Rightarrow> bool" where
  "head_ok l rq \<longleftrightarrow> rq_version_major rq = 1 \<and> (rq_version_minor rq = 0 \<or> rq_version_minor rq = 1) \<and>
     isRequestTargetValid (rq_target rq) \<and> headers_wf (rq_headers rq) \<and>
     headers_normal (rq_headers rq) \<and> length (rq_headers rq) \<le> max_header_count l"

definition request_accepted :: "HttpParserLimits \<Rightarrow> HttpRequest \<Rightarrow> bool" where
  "request_accepted l rq \<longleftrightarrow> head_ok l rq \<and> framed l rq (length (rq_body rq))"

definition parser_inv :: "HttpParser \<Rightarrow> bool" where
  "parser_inv p \<longleftrightarrow> p_error_result p \<noteq> PR_NeedMore \<and> p_error_result p \<noteq> PR_Complete \<and>
     (let l = p_limits p; rq = p_request p; n = p_expected_body_bytes p in
      case p_state p of
        PS_RequestLine \<Rightarrow> rq_headers rq = [] \<and> rq_body rq = [] \<and> p_header_count p = 0
      | PS_Headers \<Rightarrow> head_ok l rq \<and> length (rq_headers rq) = p_header_count p \<and> rq_body rq = [] \<and>
          p_header_bytes p \<le> max_header_bytes l
      | PS_Body \<Rightarrow> head_ok l rq \<and> framed l rq n \<and> 0 < n \<and> rq_body rq = []
      | PS_Complete \<Rightarrow> request_accepted l rq
      | PS_Error \<Rightarrow> True)"

lemma parser_inv_make: "HttpParser_make l = Inr p \<Longrightarrow> parser_inv p \<and> p_limits p = l \<and> p_state p = PS_RequestLine"
  by (auto simp: HttpParser_make_def parser_inv_def HttpRequest_default_def split: if_splits)

lemma parser_inv_reset: "parser_inv (reset p)" "p_limits (reset p) = p_limits p"
    "p_state (reset p) = PS_RequestLine"
  by (simp_all add: reset_def parser_inv_def HttpRequest_default_def)

lemma parser_inv_fail: "r \<noteq> PR_NeedMore \<Longrightarrow> r \<noteq> PR_Complete \<Longrightarrow> parser_inv (fail p r)"
  by (simp add: parser_inv_def)

lemma line_step_inv:
  assumes "line_step p l = (q, res)" "parser_inv p" "parser_active p" "p_state p \<noteq> PS_Body"
    "\<not> line_oversized p (length l)"
  shows "parser_inv q \<and> p_limits q = p_limits p"
  using assms(1)
proof (cases rule: line_step_cases)
  case (request_line p1)
  have "length l + 2 \<le> max_header_bytes (p_limits p)"
    using request_line(1) assms(5) by (auto simp: line_oversized_def)
  note room = this
  from request_line(2) show ?thesis
    by (rule parseRequestLine_cases)
      (use assms(2) request_line(1,3) room in
        \<open>auto simp: parser_inv_def head_ok_def headers_wf_def char_code_def Let_def\<close>)
next
  case header
  then have s: "p_state p = PS_Headers" using assms(3,4) by (cases "p_state p") (auto simp: parser_active_def)
  from assms(5) have h: "p_header_bytes p + (length l + 2) \<le> max_header_bytes (p_limits p)"
    using s by (auto simp: line_oversized_def)
  from header(3) show ?thesis
    by (rule parseHeader_cases)
      (use assms(2) s h in \<open>auto simp: parser_inv_def head_ok_def Let_def\<close>, auto simp: headers_add_def)
next
  case (last_header p1)
  then have s: "p_state p = PS_Headers" using assms(3,4) by (cases "p_state p") (auto simp: parser_active_def)
  from last_header(3) show ?thesis
    by (rule finishHeaders_cases)
      (use assms(2) s last_header(4) in \<open>auto simp: parser_inv_def request_accepted_def framed_def head_ok_def Let_def\<close>)
next
  case (rejected p1 r)
  then show ?thesis using parser_inv_fail by simp
qed

lemma parse_bytes_inv:
  assumes "parse_bytes p s = (r, p', s')" "parser_inv p" "parser_active p"
  shows "parser_inv p' \<and> p_limits p' = p_limits p \<and>
     (r = PR_Complete \<longleftrightarrow> p_state p' = PS_Complete) \<and> (r = PR_NeedMore \<longleftrightarrow> parser_active p')"
  using assms
proof (induction rule: parse_bytes_run_induct)
  case (body_done p s)
  then show ?case by (auto simp: parser_inv_def request_accepted_def framed_def head_ok_def parser_active_def Let_def)
next
  case (verdict p s k)
  then have "length (take k s) = k" using find_crlf_SomeD [OF verdict(2)] by simp
  with verdict show ?case
    using line_step_inv [of p "take k s" p' "Some r"] line_step_Some [of p "take k s" p' r]
    by (auto simp: parser_active_def)
next
  case (more_lines p s k q)
  then have "length (take k s) = k" using find_crlf_SomeD [OF more_lines(2)] by simp
  with more_lines show ?case
    using line_step_inv [of p "take k s" q None] line_step_None_active [of p "take k s" q]
    by auto
qed (auto simp: parser_inv_def parser_active_def)

lemma parse_bytes_NeedMore_bound:
  assumes "parse_bytes p s = (PR_NeedMore, p', s')" "parser_inv p" "parser_active p"
  shows "length s' \<le> (case p_state p' of PS_RequestLine \<Rightarrow> max_request_line_bytes (p_limits p)
     | PS_Headers \<Rightarrow> max_header_bytes (p_limits p) - p_header_bytes p'
     | _ \<Rightarrow> max_body_bytes (p_limits p) - 1)"
proof -
  have "p_state p' = PS_Body \<and> length s' < p_expected_body_bytes p' \<or>
      p_state p' \<noteq> PS_Body \<and> \<not> pending_oversized p' (length s')"
    using assms(1) by (induction rule: parse_bytes_run_induct) (auto dest: line_step_Some)
  with parse_bytes_inv [OF assms] show ?thesis
    by (auto simp: parser_inv_def pending_oversized_def framed_def parser_active_def Let_def split: ParseState.splits)
qed

section \<open>Printing a request and parsing it back\<close>

text \<open>A request as a client writes it, and the request it stands for.\<close>

record client_request =
  cr_method :: string
  cr_target :: string
  cr_minor :: char
  cr_fields :: "(string \<times> string) list"
  cr_body :: string

definition request_line :: "client_request \<Rightarrow> string" where
  "request_line c = cr_method c @ SP # cr_target c @ SP # ''HTTP/1.'' @ [cr_minor c]"

definition client_field :: "string \<times> string \<Rightarrow> string" where
  "client_field f = fst f @ CHR '':'' # SP # snd f"

definition request_head :: "client_request \<Rightarrow> string" where
  "request_head c = join_lines (request_line c # map client_field (cr_fields c)) @ CRLF"

definition request_text :: "client_request \<Rightarrow> string" where
  "request_text c = request_head c @ cr_body c"

definition client_headers :: "client_request \<Rightarrow> headers" where
  "client_headers c = fold (\<lambda>(n, v) h. headers_add h n v) (cr_fields c) []"

definition request_of :: "client_request \<Rightarrow> HttpRequest" where
  "request_of c = \<lparr>rq_method = parseHttpMethod (cr_method c), rq_target = cr_target c,
     rq_version_major = 1, rq_version_minor = int (char_code (cr_minor c)) - 48,
     rq_headers = client_headers c, rq_body = cr_body c\<rparr>"

text \<open>Well formed and within the limits; the field values are written without outer blanks.\<close>

definition field_fits :: "HttpParserLimits \<Rightarrow> string \<times> string \<Rightarrow> bool" where
  "field_fits l f \<longleftrightarrow> isValidHeaderName (fst f) \<and> isValidHeaderValue (snd f) \<and>
     trim (SP # snd f) = snd f \<and> length (client_field f) \<le> max_header_line_bytes l"

definition client_fits :: "HttpParserLimits \<Rightarrow> client_request \<Rightarrow> bool" where
  "client_fits l c \<longleftrightarrow> isMethodTokenValid (cr_method c) \<and> isRequestTargetValid (cr_target c) \<and>
     (cr_minor c = CHR ''0'' \<or> cr_minor c = CHR ''1'') \<and>
     length (request_line c) \<le> max_request_line_bytes l \<and>
     length (request_head c) \<le> max_header_bytes l \<and>
     list_all (field_fits l) (cr_fields c) \<and> length (cr_fields c) \<le> max_header_count l \<and>
     framed l (request_of c) (length (cr_body c))"

lemma isMethodTokenValid_chars: "isMethodTokenValid m \<Longrightarrow> SP \<notin> set m \<and> CR \<notin> set m"
  by (auto simp: isMethodTokenValid_def isValidHeaderName_def list_all_iff dest: isTokenCharacter_not_special)

lemma isRequestTargetValid_chars: "isRequestTargetValid t \<Longrightarrow> SP \<notin> set t \<and> CR \<notin> set t"
  by (auto simp: isRequestTargetValid_def list_ex_iff char_code_def)

lemma parseRequestLine_print:
  assumes "isMethodTokenValid m" "isRequestTargetValid t" "c = CHR ''0'' \<or> c = CHR ''1''"
  shows "parseRequestLine p (m @ SP # t @ SP # ''HTTP/1.'' @ [c]) =
    (p\<lparr>p_request := (p_request p)\<lparr>rq_method := parseHttpMethod m, rq_target := t,
        rq_version_major := 1, rq_version_minor := int (char_code c) - 48\<rparr>\<rparr>, PR_Complete)"
  using assms isMethodTokenValid_chars [OF assms(1)] isRequestTargetValid_chars [OF assms(2)]
  by (auto simp: parseRequestLine_def find_char_from_def Let_def)

lemma parseHeader_print:
  assumes "field_fits l f" "p_limits p = l" "p_header_count p < max_header_count l"
  shows "parseHeader p (client_field f) =
    (p\<lparr>p_header_count := p_header_count p + 1, p_request := (p_request p)\<lparr>rq_headers :=
        headers_add (rq_headers (p_request p)) (fst f) (snd f)\<rparr>\<rparr>, PR_Complete)"
  using assms isValidHeaderName_no_colon [of "fst f"]
  by (auto simp: parseHeader_def client_field_def field_fits_def trimOptionalWhitespace_def)

lemma client_field_no_cr: "field_fits l f \<Longrightarrow> CR \<notin> set (client_field f)"
  by (auto simp: field_fits_def client_field_def
      dest: isValidHeaderName_no_crlf isValidHeaderValue_no_crlf)

text \<open>The fields, one line each.\<close>

lemma parse_bytes_fields:
  assumes "p_state p = PS_Headers" "p_limits p = l" "list_all (field_fits l) fs"
    and "p_header_bytes p + length (join_lines (map client_field fs)) \<le> max_header_bytes l"
    and "p_header_count p + length fs \<le> max_header_count l"
  shows "parse_bytes p (join_lines (map client_field fs) @ u) =
    parse_bytes (p\<lparr>p_header_bytes := p_header_bytes p + length (join_lines (map client_field fs)),
        p_header_count := p_header_count p + length fs,
        p_request := (p_request p)\<lparr>rq_headers :=
          fold (\<lambda>(n, v) h. headers_add h n v) fs (rq_headers (p_request p))\<rparr>\<rparr>) u"
  using assms
proof (induction fs arbitrary: p)
  case (Cons f fs)
  let ?l = "client_field f" and ?rest = "join_lines (map client_field fs) @ u"
  let ?p1 = "p\<lparr>p_header_bytes := p_header_bytes p + (length ?l + 2), p_header_count := p_header_count p + 1,
     p_request := (p_request p)\<lparr>rq_headers := headers_add (rq_headers (p_request p)) (fst f) (snd f)\<rparr>\<rparr>"
  have f: "field_fits l f" using Cons.prems(3) by simp
  have ne: "?l \<noteq> []" by (simp add: client_field_def)
  have "find_crlf (?l @ CRLF @ ?rest) = Some (length ?l)"
    using client_field_no_cr [OF f] find_crlf_no_cr by fastforce
  moreover have "\<not> line_oversized p (length ?l)"
    using Cons.prems f by (simp add: line_oversized_def field_fits_def)
  moreover have "line_step p ?l = (?p1, None)"
    using parseHeader_print [OF f, of "p\<lparr>p_header_bytes := p_header_bytes p + (length ?l + 2)\<rparr>"]
      Cons.prems ne by (simp add: line_step_def)
  ultimately have "parse_bytes p (?l @ CRLF @ ?rest) = parse_bytes ?p1 ?rest"
    using Cons.prems(1) parse_bytes_line [of p "?l @ CRLF @ ?rest" "length ?l" ?p1 None "[]"] by simp
  also have "\<dots> = parse_bytes (?p1\<lparr>p_header_bytes := p_header_bytes ?p1 + length (join_lines (map client_field fs)),
        p_header_count := p_header_count ?p1 + length fs,
        p_request := (p_request ?p1)\<lparr>rq_headers :=
          fold (\<lambda>(n, v) h. headers_add h n v) fs (rq_headers (p_request ?p1))\<rparr>\<rparr>) u"
    by (rule Cons.IH) (use Cons.prems in auto)
  finally show ?case by (cases f) (simp add: add_ac)
qed simp

lemma finishHeaders_framed:
  assumes "framed (p_limits p) (p_request p) n"
  shows "finishHeaders p = (p\<lparr>p_expected_body_bytes := n\<rparr>, PR_Complete)"
proof -
  have "v \<noteq> []" if "from_chars_all 10 size_max v = Some n" for v
    using that by (auto simp: from_chars_all_def from_chars_def)
  with assms show ?thesis by (auto simp: finishHeaders_def framed_def Let_def)
qed

lemma parse_bytes_request_line:
  assumes "client_fits l c" "p_limits p = l" "p_state p = PS_RequestLine"
  shows "parse_bytes p (request_line c @ CRLF @ u) =
    parse_bytes (p\<lparr>p_request := (p_request p)\<lparr>rq_method := parseHttpMethod (cr_method c),
        rq_target := cr_target c, rq_version_major := 1,
        rq_version_minor := int (char_code (cr_minor c)) - 48\<rparr>,
        p_state := PS_Headers, p_header_bytes := length (request_line c) + 2\<rparr>) u"
proof -
  let ?l = "request_line c"
  have "CR \<notin> set ?l"
    using assms(1) isMethodTokenValid_chars [of "cr_method c"] isRequestTargetValid_chars [of "cr_target c"]
    by (auto simp: client_fits_def request_line_def)
  then have "find_crlf (?l @ CRLF @ u) = Some (length ?l)" using find_crlf_no_cr by fastforce
  moreover have "\<not> line_oversized p (length ?l)"
    using assms by (auto simp: line_oversized_def client_fits_def request_head_def)
  moreover have "line_step p ?l = (p\<lparr>p_request := (p_request p)\<lparr>rq_method := parseHttpMethod (cr_method c),
        rq_target := cr_target c, rq_version_major := 1,
        rq_version_minor := int (char_code (cr_minor c)) - 48\<rparr>,
        p_state := PS_Headers, p_header_bytes := length ?l + 2\<rparr>, None)" (is "_ = (?q, None)")
    using assms parseRequestLine_print [of "cr_method c" "cr_target c" "cr_minor c" p]
    by (simp add: line_step_def client_fits_def request_line_def)
  ultimately show ?thesis
    using assms(3) parse_bytes_line [of p "?l @ CRLF @ u" "length ?l" ?q None "[]"] by simp
qed

lemma parse_bytes_end_of_headers:
  assumes "p_state p = PS_Headers" "p_header_bytes p + 2 \<le> max_header_bytes (p_limits p)"
    and "framed (p_limits p) (p_request p) (length body)" "rq_body (p_request p) = []"
  shows "\<exists>p'. parse_bytes p (CRLF @ body @ u) = (PR_Complete, p', u) \<and> p_state p' = PS_Complete \<and>
     p_limits p' = p_limits p \<and> p_request p' = (p_request p)\<lparr>rq_body := body\<rparr>"
proof -
  let ?p1 = "p\<lparr>p_header_bytes := p_header_bytes p + 2, p_expected_body_bytes := length body\<rparr>"
  have crlf: "find_crlf (CRLF @ body @ u) = Some 0" by simp
  have ov: "\<not> line_oversized p 0" using assms(1,2) by (simp add: line_oversized_def)
  have step: "line_step p (take 0 (CRLF @ body @ u)) =
      (?p1\<lparr>p_state := (if body = [] then PS_Complete else PS_Body)\<rparr>,
       if body = [] then Some PR_Complete else None)"
    using assms finishHeaders_framed [of "p\<lparr>p_header_bytes := p_header_bytes p + 2\<rparr>" "length body"]
    by (simp add: line_step_def)
  show ?thesis
    using parse_bytes_line [OF _ crlf ov step, of "[]"] assms(1,4)
    by (cases "body = []") (auto simp: parse_bytes.simps [of "_\<lparr>p_state := PS_Body\<rparr>"])
qed

lemma parse_bytes_request:
  assumes "client_fits (p_limits p) c" "p_state p = PS_RequestLine" "parser_inv p"
  shows "\<exists>p'. parse_bytes p (request_text c @ u) = (PR_Complete, p', u) \<and> p_state p' = PS_Complete \<and>
     p_limits p' = p_limits p \<and> p_request p' = request_of c"
proof -
  let ?fs = "join_lines (map client_field (cr_fields c))"
  let ?p1 = "p\<lparr>p_request := (p_request p)\<lparr>rq_method := parseHttpMethod (cr_method c),
        rq_target := cr_target c, rq_version_major := 1,
        rq_version_minor := int (char_code (cr_minor c)) - 48\<rparr>,
        p_state := PS_Headers, p_header_bytes := length (request_line c) + 2\<rparr>"
  let ?p2 = "?p1\<lparr>p_header_bytes := p_header_bytes ?p1 + length ?fs,
        p_header_count := p_header_count ?p1 + length (cr_fields c),
        p_request := (p_request ?p1)\<lparr>rq_headers :=
          fold (\<lambda>(n, v) h. headers_add h n v) (cr_fields c) (rq_headers (p_request ?p1))\<rparr>\<rparr>"
  have p: "rq_headers (p_request p) = []" "rq_body (p_request p) = []" "p_header_count p = 0"
    using assms(2,3) by (auto simp: parser_inv_def Let_def)
  have "parse_bytes p (request_text c @ u) = parse_bytes ?p1 (?fs @ CRLF @ cr_body c @ u)"
    using parse_bytes_request_line [OF assms(1) refl assms(2), of "?fs @ CRLF @ cr_body c @ u"]
    by (simp add: request_text_def request_head_def)
  also have "\<dots> = parse_bytes ?p2 (CRLF @ cr_body c @ u)"
    by (rule parse_bytes_fields [of ?p1 "p_limits p"])
      (use assms(1) p in \<open>auto simp: client_fits_def request_head_def\<close>)
  finally have "parse_bytes p (request_text c @ u) = parse_bytes ?p2 (CRLF @ cr_body c @ u)" .
  moreover have "(p_request ?p2)\<lparr>rq_body := cr_body c\<rparr> = request_of c"
    using p by (simp add: request_of_def client_headers_def)
  moreover have "framed (p_limits p) (p_request ?p2) (length (cr_body c))"
    using assms(1) p by (simp add: client_fits_def framed_def request_of_def client_headers_def)
  ultimately show ?thesis
    using parse_bytes_end_of_headers [of ?p2 "cr_body c" u] assms(1) p
    by (auto simp: client_fits_def request_head_def)
qed

text \<open>
  The session's use of the parser on a connection with pipelined requests: parse, take the
  request, reset, and go on with the unread bytes.
\<close>

fun take_requests :: "HttpRequest \<Rightarrow> nat \<Rightarrow> HttpParser \<Rightarrow> buffer \<Rightarrow>
    (HttpRequest list \<times> HttpParser \<times> buffer) outcome" where
  "take_requests moved_from 0 p b = Inr ([], p, b)"
| "take_requests moved_from (Suc n) p b =
     ebind (parse p b) (\<lambda>(r, p1, b1).
       if r \<noteq> PR_Complete then Inr ([], p1, b1)
       else ebind (takeRequest moved_from p1) (\<lambda>(rq, p2).
         ebind (take_requests moved_from n (reset p2) b1) (\<lambda>(rqs, p3, b3). Inr (rq # rqs, p3, b3))))"

lemma take_requests_pipeline:
  assumes "buffer_ready b" "readableView b = concat (map request_text cs) @ u"
    and "p_state p = PS_RequestLine" "parser_inv p" "list_all (client_fits (p_limits p)) cs"
  shows "\<exists>p' b'. take_requests m (length cs) p b = Inr (map request_of cs, p', b') \<and>
     buffer_ready b' \<and> readableView b' = u \<and> p_state p' = PS_RequestLine"
  using assms
proof (induction cs arbitrary: p b)
  case (Cons c cs)
  obtain p1 where spec: "parse_bytes p (readableView b) = (PR_Complete, p1, concat (map request_text cs) @ u)"
      and p1: "p_state p1 = PS_Complete" "p_limits p1 = p_limits p" "p_request p1 = request_of c"
    using parse_bytes_request [of p c "concat (map request_text cs) @ u"] Cons.prems by auto
  obtain b1 where b1: "parse p b = Inr (PR_Complete, p1, b1)" "buffer_ready b1"
      "readableView b1 = concat (map request_text cs) @ u"
    using parse_on_view [OF Cons.prems(1), of p] spec Cons.prems(3) by (auto simp: parse_view_def)
  let ?q = "reset (p1\<lparr>p_request := m\<rparr>)"
  have "\<exists>p' b'. take_requests m (length cs) ?q b1 = Inr (map request_of cs, p', b') \<and>
      buffer_ready b' \<and> readableView b' = u \<and> p_state p' = PS_RequestLine"
    using Cons.IH [OF b1(2,3), of ?q] Cons.prems(5) p1(2) parser_inv_reset by simp
  with b1(1) p1 show ?case by (auto simp: takeRequest_def)
qed auto

section \<open>Properties\<close>

definition sample_client :: client_request where
  "sample_client = \<lparr>cr_method = ''POST'', cr_target = ''/a'', cr_minor = CHR ''1'',
     cr_fields = [(''Host'', ''h''), (''Content-Length'', ''2'')], cr_body = ''ok''\<rparr>"

definition sample_parser :: HttpParser where
  "sample_parser = reset (fail \<lparr>p_limits = HttpParserLimits_default, p_state = PS_RequestLine,
     p_request = HttpRequest_default, p_expected_body_bytes = 0, p_header_bytes = 0,
     p_header_count = 0, p_error_result = PR_BadRequest\<rparr> PR_BadRequest)"

definition sample_input :: "string \<Rightarrow> buffer" where
  "sample_input s = \<lparr>storage = s @ ''x'', read_index = 0, write_index = length s,
     prepared_bytes = 0, maximum_size = 1000\<rparr>"

lemma sample_facts:
  "parser_inv sample_parser" "p_state sample_parser = PS_RequestLine" "parser_active sample_parser"
  "p_limits sample_parser = HttpParserLimits_default"
  "HttpParser_make HttpParserLimits_default = Inr sample_parser"
  "length s < 1000 \<Longrightarrow> buffer_ready (sample_input s)" "readableView (sample_input s) = s"
proof -
  show "parser_inv sample_parser" "p_state sample_parser = PS_RequestLine"
    unfolding sample_parser_def by (rule parser_inv_reset)+
  show "parser_active sample_parser" by (simp add: sample_parser_def reset_def parser_active_def)
  show "p_limits sample_parser = HttpParserLimits_default" by (simp add: sample_parser_def reset_def)
  show "HttpParser_make HttpParserLimits_default = Inr sample_parser"
    by (simp add: HttpParser_make_def HttpParserLimits_default_def sample_parser_def reset_def fail_def
        kAbsoluteRequestLineLimit_def kAbsoluteHeaderLimit_def kAbsoluteHeaderCountLimit_def
        kAbsoluteBodyLimit_def)
qed (simp_all add: sample_input_def buffer_defs)

lemma sample_client_fits: "client_fits HttpParserLimits_default sample_client"
  by code_simp

text \<open>
  C1: the parser refines its specification on the unread bytes. On every buffer in a
  consistent state the call returns (no exception, no endless loop), leaves the buffer
  consistent with its capacity unchanged, and result, next parser state and remaining bytes
  are those of the specification, whatever the positions of the bytes in the storage.
\<close>

theorem parse_refines_bytes:
  assumes "buffer_ready b"
  shows "\<exists>r p' b'. parse p b = Inr (r, p', b') \<and> buffer_ready b' \<and>
     maximum_size b' = maximum_size b \<and> parse_view p (readableView b) = (r, p', readableView b')"
  by (rule parse_on_view [OF assms])

theorem parse_refines_bytes_witness:
  "\<exists>r p' b'. parse sample_parser sample_buffer = Inr (r, p', b') \<and>
     parse_view sample_parser ''bc'' = (r, p', readableView b')"
proof -
  have "buffer_ready sample_buffer" "readableView sample_buffer = ''bc''"
    by (simp_all add: sample_buffer_def buffer_defs)
  then show ?thesis using parse_refines_bytes [of sample_buffer sample_parser] by auto
qed

text \<open>
  C19: how the network cuts a request into reads does not matter, but for the limit on an unfinished line. If the
  buffer has room for all the bytes and one more read, reading them in any cuts, the parser running after each
  read, never throws; and unless that ends in 431, running the parser once on all the bytes, wherever they lie in a
  buffer, gives the same result, the same parser state and the same bytes left over. After 431 it need
  not: the check of a line not yet complete counts a CR that ends a read.
\<close>

theorem reads_may_be_cut_anywhere:
  assumes "parser_active p" "buffer_ready b" "0 < n" "list_all (\<lambda>c. length c \<le> n) cs" "cs \<noteq> []"
    and "length (readableView b) + length (concat cs) + n \<le> maximum_size b"
    and "buffer_ready w" "readableView w = readableView b @ concat cs"
  shows "\<exists>r p' b' rest. parse_reads n p b cs = Inr (r, p', b', rest) \<and>
     (r = PR_HeaderTooLarge \<or>
      (\<exists>w'. parse p w = Inr (r, p', w') \<and> readableView w' = readableView b' @ concat rest))"
  using parse_reads_whole [OF assms(1-4,6)] parse_on_view [OF assms(7), of p] assms(1,5,8) by fastforce

theorem reads_may_be_cut_anywhere_witness:
  "\<exists>p' b' w' rest. parse_reads 32 sample_parser (sample_input []) [''PUT'', '' / HTTP/1.0'' @ [CR], LF # CRLF @ ''GE'', ''T''] =
     Inr (PR_Complete, p', b', rest) \<and>
   parse sample_parser (sample_input (concat [''PUT'', '' / HTTP/1.0'' @ [CR], LF # CRLF @ ''GE'', ''T''])) =
     Inr (PR_Complete, p', w') \<and> readableView w' = readableView b' @ concat rest"
proof -
  let ?cs = "[''PUT'', '' / HTTP/1.0'' @ [CR], LF # CRLF @ ''GE'', ''T'']"
  have "(case parse_reads 32 sample_parser (sample_input []) ?cs of Inr (r, x) \<Rightarrow> r = PR_Complete | Inl e \<Rightarrow> False)" by code_simp
  then obtain x where x: "parse_reads 32 sample_parser (sample_input []) ?cs = Inr (PR_Complete, x)"
    by (auto split: sum.splits prod.splits)
  have ready: "buffer_ready (sample_input [])" "buffer_ready (sample_input (concat ?cs))"
    by (rule sample_facts(6), simp)+
  have cs: "list_all (\<lambda>c. length c \<le> 32) ?cs" "maximum_size (sample_input []) = 1000"
    by (simp_all add: sample_input_def)
  from reads_may_be_cut_anywhere [OF sample_facts(3) ready(1) _ cs(1) _ _ ready(2)] cs(2) x show ?thesis
    by (auto simp: sample_facts(7))
qed



text \<open>
  C25: bounded memory. When the parser asks for more, the unread bytes are within the limit of
  the part being read (the request line, what is left for the header fields, or less than the body limit). So, given
  that the capacity of the buffer leaves room for one read on top of each of the three limits, it can take the
  next read: \<open>prepare\<close> does not throw and the bytes are appended.
\<close>

theorem needed_read_always_fits:
  assumes "buffer_ready b" "parser_inv p" "parser_active p" "parse p b = Inr (PR_NeedMore, p', b')"
    and "0 < chunk" "length bs \<le> chunk"
    and "max_request_line_bytes (p_limits p) + chunk \<le> maximum_size b"
    and "max_header_bytes (p_limits p) + chunk \<le> maximum_size b"
    and "max_body_bytes (p_limits p) + chunk \<le> maximum_size b"
  shows "length (readableView b') \<le> (case p_state p' of PS_RequestLine \<Rightarrow> max_request_line_bytes (p_limits p)
       | PS_Headers \<Rightarrow> max_header_bytes (p_limits p) - p_header_bytes p' | _ \<Rightarrow> max_body_bytes (p_limits p) - 1) \<and>
     (\<exists>b''. receive b' chunk bs = Inr b'' \<and> buffer_ready b'' \<and> readableView b'' = readableView b' @ bs)"
proof -
  from parse_on_view [OF assms(1), of p] assms(3,4)
  have b': "buffer_ready b'" "maximum_size b' = maximum_size b"
      and v: "parse_bytes p (readableView b) = (PR_NeedMore, p', readableView b')" by auto
  have "length (readableView b') + chunk \<le> maximum_size b'"
    using parse_bytes_NeedMore_bound [OF v assms(2,3)] b'(2) assms(7-9)
    by (auto split: ParseState.splits)
  with buf.receive_fits [OF b'(1) assms(5) _ assms(6)] parse_bytes_NeedMore_bound [OF v assms(2,3)] show ?thesis by blast
qed

theorem needed_read_always_fits_witness:
  "\<exists>b b' p' b''. parse (sample_parser\<lparr>p_limits := \<lparr>max_request_line_bytes = 90, max_header_bytes = 90,
       max_header_count = 2, max_header_line_bytes = 9, max_body_bytes = 90\<rparr>\<rparr>) b = Inr (PR_NeedMore, p', b') \<and>
     receive b' 900 ''/ HTTP'' = Inr b'' \<and> readableView b'' = readableView b' @ ''/ HTTP''"
proof -
  let ?p = "sample_parser\<lparr>p_limits := \<lparr>max_request_line_bytes = 90, max_header_bytes = 90,
       max_header_count = 2, max_header_line_bytes = 9, max_body_bytes = 90\<rparr>\<rparr>"
  have a: "parser_inv ?p" "parser_active ?p"
    by (simp_all add: sample_parser_def reset_def parser_inv_def parser_active_def HttpRequest_default_def)
  have ready: "buffer_ready (sample_input ''GET '')" using sample_facts(6) by simp
  have "fst (parse_view ?p (readableView (sample_input ''GET ''))) = PR_NeedMore" by code_simp
  then obtain p' b' where parse: "parse ?p (sample_input ''GET '') = Inr (PR_NeedMore, p', b')"
    using parse_on_view [OF ready, of ?p] by auto
  have "0 < (900 :: nat)" "length ''/ HTTP'' \<le> 900" "max_request_line_bytes (p_limits ?p) + 900 \<le> maximum_size (sample_input ''GET '')"
      "max_header_bytes (p_limits ?p) + 900 \<le> maximum_size (sample_input ''GET '')"
      "max_body_bytes (p_limits ?p) + 900 \<le> maximum_size (sample_input ''GET '')"
    by (simp_all add: sample_input_def)
  from needed_read_always_fits [OF ready a parse this] parse show ?thesis by blast
qed

text \<open>
  C20: round trip with pipelining. For any sequence of well-formed requests within the limits,
  written one after the other and followed by any bytes, the parser hands out exactly those
  requests in order, with every field and the body, and leaves the following bytes untouched.
\<close>

theorem pipelined_requests_round_trip:
  assumes "HttpParser_make l = Inr p" "list_all (client_fits l) cs" "buffer_ready b"
    and "readableView b = concat (map request_text cs) @ rest"
  shows "\<exists>p' b'. take_requests m (length cs) p b = Inr (map request_of cs, p', b') \<and>
     readableView b' = rest"
  using take_requests_pipeline [OF assms(3,4), of p m] parser_inv_make [OF assms(1)] assms(2) by auto

theorem pipelined_requests_round_trip_witness:
  "\<exists>p' b'. take_requests HttpRequest_default 2 sample_parser
     (sample_input (request_text sample_client @ request_text sample_client @ ''GET'')) =
     Inr ([request_of sample_client, request_of sample_client], p', b') \<and> readableView b' = ''GET''"
proof -
  let ?s = "request_text sample_client @ request_text sample_client @ ''GET''"
  have "length ?s < 1000"
    by (simp add: request_text_def request_head_def request_line_def client_field_def sample_client_def)
  then show ?thesis
    using pipelined_requests_round_trip [OF sample_facts(5), of "[sample_client, sample_client]"
        "sample_input ?s" "''GET''" HttpRequest_default] sample_client_fits sample_facts(6,7)
    by (simp add: numeral_2_eq_2)
qed

text \<open>
  the exception to the claim above on cuts. A request line exactly as long as the limit is accepted when it
  arrives with its CR LF, and refused with 431 when a read ends between the CR and the LF:
  the check for an unfinished line counts the CR as part of the line.
\<close>

theorem full_length_line_depends_on_cut:
  assumes "p_state p = PS_RequestLine" "client_fits (p_limits p) c"
    and "length (request_line c) = max_request_line_bytes (p_limits p)"
  shows "fst (parse_view p (request_line c @ CRLF)) = PR_NeedMore \<and>
     fst (feed p [] [request_line c @ [CR], [LF]]) = PR_HeaderTooLarge"
proof -
  have act: "parser_active p" using assms(1) by (simp add: parser_active_def)
  have cr: "CR \<notin> set (request_line c)"
    using assms(2) isMethodTokenValid_chars [of "cr_method c"] isRequestTargetValid_chars [of "cr_target c"]
    by (auto simp: client_fits_def request_line_def)
  have "find_crlf (l @ [CR]) = None" if "CR \<notin> set l" for l
    using that by (induction l rule: find_crlf.induct) auto
  with cr have none: "find_crlf (request_line c @ [CR]) = None" by blast
  have "parse_bytes p (request_line c @ [CR]) = (PR_HeaderTooLarge, fail p PR_HeaderTooLarge, request_line c @ [CR])"
    using none assms(1,3) by (subst parse_bytes.simps) (simp add: pending_oversized_def)
  moreover have "fst (parse_bytes p (request_line c @ CRLF)) = PR_NeedMore"
    unfolding parse_bytes_request_line [OF assms(2) refl assms(1), of "[]", simplified]
    by (subst parse_bytes.simps)
      (use assms(2) in \<open>simp add: pending_oversized_def client_fits_def request_head_def\<close>)
  ultimately show ?thesis using act by simp
qed

definition short_line_parser :: HttpParser where
  "short_line_parser = sample_parser\<lparr>p_limits := HttpParserLimits_default\<lparr>max_request_line_bytes := 16\<rparr>\<rparr>"

theorem full_length_line_depends_on_cut_witness:
  "fst (parse_view short_line_parser (request_line sample_client @ CRLF)) = PR_NeedMore \<and>
   fst (feed short_line_parser [] [request_line sample_client @ [CR], [LF]]) = PR_HeaderTooLarge"
proof (rule full_length_line_depends_on_cut)
  show "p_state short_line_parser = PS_RequestLine"
    using sample_facts(2) by (simp add: short_line_parser_def)
  show "client_fits (p_limits short_line_parser) sample_client" by code_simp
  show "length (request_line sample_client) = max_request_line_bytes (p_limits short_line_parser)"
    by code_simp
qed

end
