(* ===== verification/ResponseParser.thy ===== *)
theory ResponseParser
  imports Messages Buffer
begin

text \<open>
  The incremental parser for upstream responses, \<open>src/http/http_response_parser.cpp\<close>.
  \<open>response_step\<close> is one round of the loop in \<open>HttpResponseParser::parse\<close>, with its result
  when it returns and \<open>None\<close> when it goes round again. Sizes that come from the peer are added
  with the wrap-around of \<open>size_t\<close>, and an index outside a \<open>string_view\<close> is the error value
  \<open>Undefined_Behaviour\<close>.
\<close>

section \<open>State\<close>

record HttpResponseParserLimits =
  max_status_line_bytes :: nat
  rl_max_header_bytes :: nat
  rl_max_header_count :: nat
  rl_max_body_bytes :: nat

definition HttpResponseParserLimits_default :: HttpResponseParserLimits where
  "HttpResponseParserLimits_default = \<lparr>max_status_line_bytes = 8192, rl_max_header_bytes = 16 * 1024,
     rl_max_header_count = 100, rl_max_body_bytes = 1024 * 1024\<rparr>"

datatype ResponseParseState =
    RS_StatusLine | RS_Headers | RS_FixedBody | RS_ChunkSize | RS_ChunkBody | RS_Trailers
  | RS_EofBody | RS_Complete | RS_Error

datatype ResponseParseResult =
    RR_NeedMore | RR_Complete | RR_BadResponse | RR_HeaderTooLarge | RR_BodyTooLarge
  | RR_UnsupportedTransferEncoding | RR_PrematureEof

record HttpResponseParser =
  q_limits :: HttpResponseParserLimits
  q_state :: ResponseParseState
  q_response :: HttpResponse
  q_expected_body_bytes :: nat
  q_chunk_bytes :: nat
  q_header_bytes :: nat
  q_header_count :: nat
  q_head_request :: bool
  q_chunked :: bool
  q_eof_delimited :: bool
  q_error_result :: ResponseParseResult

definition rp_kAbsoluteHeaderLimit :: nat where "rp_kAbsoluteHeaderLimit = 64 * 1024"
definition rp_kAbsoluteBodyLimit :: nat where "rp_kAbsoluteBodyLimit = 16 * 1024 * 1024"

section \<open>Operations\<close>

definition noBodyStatus :: "int \<Rightarrow> bool" where
  "noBodyStatus status = (status sdiv 100 = 1 \<or> status = 204 \<or> status = 304)"

definition HttpResponseParser_make :: "HttpResponseParserLimits \<Rightarrow> bool \<Rightarrow> HttpResponseParser outcome" where
  "HttpResponseParser_make l head_request =
     (if max_status_line_bytes l = 0 \<or> rl_max_header_bytes l = 0 \<or> rl_max_header_count l = 0 \<or>
         rl_max_body_bytes l = 0 \<or> rp_kAbsoluteHeaderLimit < rl_max_header_bytes l \<or>
         rp_kAbsoluteBodyLimit < rl_max_body_bytes l
      then Inl Invalid_Argument
      else Inr \<lparr>q_limits = l, q_state = RS_StatusLine, q_response = HttpResponse_default,
                q_expected_body_bytes = 0, q_chunk_bytes = 0, q_header_bytes = 0, q_header_count = 0,
                q_head_request = head_request, q_chunked = False, q_eof_delimited = False,
                q_error_result = RR_BadResponse\<rparr>)"

definition rp_fail :: "HttpResponseParser \<Rightarrow> ResponseParseResult \<Rightarrow> HttpResponseParser" where
  "rp_fail q result = q\<lparr>q_state := RS_Error, q_error_result := result\<rparr>"

definition rp_appendBody :: "HttpResponseParser \<Rightarrow> string \<Rightarrow> HttpResponseParser \<times> ResponseParseResult" where
  "rp_appendBody q bytes =
     (if rl_max_body_bytes (q_limits q) - length (rs_body (q_response q)) < length bytes
      then (q, RR_BodyTooLarge)
      else (q\<lparr>q_response := (q_response q)\<lparr>rs_body := rs_body (q_response q) @ bytes\<rparr>\<rparr>, RR_Complete))"

definition parseStatusLine :: "HttpResponseParser \<Rightarrow> string \<Rightarrow> HttpResponseParser \<times> ResponseParseResult" where
  "parseStatusLine q line =
     (if take 7 line \<noteq> ''HTTP/1.'' then (q, RR_BadResponse)
      else (case find_char SP line of
          None \<Rightarrow> (q, RR_BadResponse)
        | Some first \<Rightarrow>
            if length line < first + 5 then (q, RR_BadResponse)
            else (case from_chars_int_all (take 3 (drop (first + 1) line)) of
                None \<Rightarrow> (q, RR_BadResponse)
              | Some status \<Rightarrow>
                  if line ! (first + 4) \<noteq> SP then (q, RR_BadResponse)
                  else
                    let q' = q\<lparr>q_response := (q_response q)\<lparr>rs_status_code := status,
                                 rs_reason := drop (first + 5) line\<rparr>\<rparr>
                    in (q', if rs_reason (q_response q') = [] \<or> \<not> isValidHeaderValue (rs_reason (q_response q'))
                            then RR_BadResponse else RR_Complete))))"

definition rp_parseHeader :: "HttpResponseParser \<Rightarrow> string \<Rightarrow> HttpResponseParser \<times> ResponseParseResult" where
  "rp_parseHeader q0 line =
     (let q = q0\<lparr>q_header_count := q_header_count q0 + 1\<rparr> in
      if rl_max_header_count (q_limits q) < q_header_count q then (q, RR_HeaderTooLarge)
      else
        (case find_char (CHR '':'') line of
           None \<Rightarrow> (q, RR_BadResponse)
         | Some colon \<Rightarrow>
             let name = take colon line; value = trim (drop (colon + 1) line)
             in if \<not> isValidHeaderName name \<or> \<not> isValidHeaderValue value then (q, RR_BadResponse)
                else (q\<lparr>q_response := (q_response q)\<lparr>rs_headers :=
                        headers_add (rs_headers (q_response q)) name value\<rparr>\<rparr>, RR_Complete)))"

definition rp_finishHeaders :: "HttpResponseParser \<Rightarrow> HttpResponseParser \<times> ResponseParseResult" where
  "rp_finishHeaders q =
     (let transfers = headers_values (rs_headers (q_response q)) ''transfer-encoding'';
          lengths = headers_values (rs_headers (q_response q)) ''content-length'';
          status = rs_status_code (q_response q)
      in if transfers \<noteq> [] \<and> lengths \<noteq> [] then (q, RR_BadResponse)
         else if 1 < length transfers \<or> (transfers \<noteq> [] \<and> \<not> containsToken (hd transfers) ''chunked'')
           then (q, RR_UnsupportedTransferEncoding)
         else if status sdiv 100 = 1 \<and> status \<noteq> 101 then
           (q\<lparr>q_response := HttpResponse_default, q_expected_body_bytes := 0, q_header_count := 0,
              q_header_bytes := 0, q_state := RS_StatusLine\<rparr>, RR_Complete)
         else if status = 101 then (q, RR_UnsupportedTransferEncoding)
         else if q_head_request q \<or> noBodyStatus status then (q\<lparr>q_state := RS_Complete\<rparr>, RR_Complete)
         else if transfers \<noteq> [] then (q\<lparr>q_chunked := True, q_state := RS_ChunkSize\<rparr>, RR_Complete)
         else if lengths = [] then
           (q\<lparr>q_eof_delimited := True, q_response := (q_response q)\<lparr>rs_close_connection := True\<rparr>,
              q_state := RS_EofBody\<rparr>, RR_Complete)
         else if length lengths \<noteq> 1 \<or> hd lengths = [] then (q, RR_BadResponse)
         else (case from_chars_all 10 size_max (hd lengths) of
                 None \<Rightarrow> (q, RR_BadResponse)
               | Some len \<Rightarrow>
                   if rl_max_body_bytes (q_limits q) < len then (q, RR_BodyTooLarge)
                   else (q\<lparr>q_expected_body_bytes := len,
                           q_state := (if len = 0 then RS_Complete else RS_FixedBody)\<rparr>, RR_Complete)))"

text \<open>\<open>bytes[i]\<close> on a \<open>string_view\<close>.\<close>

definition view_at :: "string \<Rightarrow> nat \<Rightarrow> char outcome" where
  "view_at s i = (if i < length s then Inr (s ! i) else Inl Undefined_Behaviour)"

type_synonym 'a response_flow = "(ResponseParseResult option \<times> HttpResponseParser \<times> 'a) outcome"

definition fixed_body_end :: "HttpResponseParser \<Rightarrow> 'a \<Rightarrow> 'a response_flow" where
  "fixed_body_end q input =
     (if length (rs_body (q_response q)) = q_expected_body_bytes q
      then Inr (Some RR_Complete, q\<lparr>q_state := RS_Complete\<rparr>, input)
      else Inr (Some RR_NeedMore, q, input))"

definition fixed_body_step :: "HttpResponseParser \<Rightarrow> buffer \<Rightarrow> buffer response_flow" where
  "fixed_body_step q input =
     (let remaining = q_expected_body_bytes q - length (rs_body (q_response q));
          count = min remaining (readableBytes input)
      in if count \<noteq> 0 then
           (case rp_appendBody q (take count (readableView input)) of (q', result) \<Rightarrow>
              if result \<noteq> RR_Complete then Inr (Some result, rp_fail q' result, input)
              else ebind (consume input count) (fixed_body_end q'))
         else fixed_body_end q input)"

definition chunk_body_step :: "HttpResponseParser \<Rightarrow> buffer \<Rightarrow> buffer response_flow" where
  "chunk_body_step q input =
     (if readableBytes input < sz_add (q_chunk_bytes q) 2 then Inr (Some RR_NeedMore, q, input)
      else
        let bytes = readableView input in
        ebind (view_at bytes (q_chunk_bytes q)) (\<lambda>c.
          if c \<noteq> CR then Inr (Some RR_BadResponse, rp_fail q RR_BadResponse, input)
          else ebind (view_at bytes (sz_add (q_chunk_bytes q) 1)) (\<lambda>d.
            if d \<noteq> LF then Inr (Some RR_BadResponse, rp_fail q RR_BadResponse, input)
            else (case rp_appendBody q (take (q_chunk_bytes q) bytes) of (q', result) \<Rightarrow>
              if result \<noteq> RR_Complete then Inr (Some result, rp_fail q' result, input)
              else ebind (consume input (sz_add (q_chunk_bytes q') 2)) (\<lambda>input'.
                     Inr (None, q'\<lparr>q_state := RS_ChunkSize\<rparr>, input'))))))"

definition eof_body_step :: "HttpResponseParser \<Rightarrow> buffer \<Rightarrow> buffer response_flow" where
  "eof_body_step q input =
     (if readableBytes input \<noteq> 0 then
        (case rp_appendBody q (readableView input) of (q', result) \<Rightarrow>
           if result \<noteq> RR_Complete then Inr (Some result, rp_fail q' result, input)
           else ebind (consume input (readableBytes input)) (\<lambda>input'. Inr (Some RR_NeedMore, q', input')))
      else Inr (Some RR_NeedMore, q, input))"

text \<open>What a complete line does, once it has been consumed.\<close>

definition status_line_step :: "HttpResponseParser \<Rightarrow> string \<Rightarrow> HttpResponseParser \<times> ResponseParseResult option" where
  "status_line_step q line =
     (if max_status_line_bytes (q_limits q) < length line
      then (rp_fail q RR_HeaderTooLarge, Some RR_HeaderTooLarge)
      else (case parseStatusLine q line of (q', result) \<Rightarrow>
        if result \<noteq> RR_Complete then (rp_fail q' result, Some result)
        else (q'\<lparr>q_state := RS_Headers, q_header_bytes := length line + 2\<rparr>, None)))"

definition chunk_size_step :: "HttpResponseParser \<Rightarrow> string \<Rightarrow> HttpResponseParser \<times> ResponseParseResult option" where
  "chunk_size_step q line =
     (let value = upto (find_char (CHR '';'') line) line in
      if value = [] \<or> 16 < length value then (rp_fail q RR_BadResponse, Some RR_BadResponse)
      else (case from_chars_all 16 size_max value of
              None \<Rightarrow> (rp_fail q RR_BadResponse, Some RR_BadResponse)
            | Some parsed \<Rightarrow>
                (q\<lparr>q_chunk_bytes := parsed,
                   q_state := (if parsed = 0 then RS_Trailers else RS_ChunkBody)\<rparr>, None)))"

definition header_line_step :: "HttpResponseParser \<Rightarrow> string \<Rightarrow> HttpResponseParser \<times> ResponseParseResult option" where
  "header_line_step q0 line =
     (let q = q0\<lparr>q_header_bytes := q_header_bytes q0 + (length line + 2)\<rparr> in
      if rl_max_header_bytes (q_limits q) < q_header_bytes q
        then (rp_fail q RR_HeaderTooLarge, Some RR_HeaderTooLarge)
      else if q_state q = RS_Trailers then
        (if line = [] then (q\<lparr>q_state := RS_Complete\<rparr>, Some RR_Complete)
         else if \<not> isValidHeaderName (upto (find_char (CHR '':'') line) line)
           then (rp_fail q RR_BadResponse, Some RR_BadResponse)
         else (q, None))
      else if line = [] then
        (case rp_finishHeaders q of (q', result) \<Rightarrow>
           if result \<noteq> RR_Complete then (rp_fail q' result, Some result)
           else if q_state q' = RS_Complete then (q', Some RR_Complete)
           else (q', None))
      else (case rp_parseHeader q line of (q', result) \<Rightarrow>
        if result \<noteq> RR_Complete then (rp_fail q' result, Some result) else (q', None)))"

definition response_line_step :: "HttpResponseParser \<Rightarrow> string \<Rightarrow> HttpResponseParser \<times> ResponseParseResult option" where
  "response_line_step q line =
     (if q_state q = RS_StatusLine then status_line_step q line
      else if q_state q = RS_ChunkSize then chunk_size_step q line
      else header_line_step q line)"

definition no_line_oversized :: "HttpResponseParser \<Rightarrow> nat \<Rightarrow> bool" where
  "no_line_oversized q pending =
     (q_state q = RS_StatusLine \<and> max_status_line_bytes (q_limits q) < pending \<or>
      (q_state q = RS_Headers \<or> q_state q = RS_Trailers) \<and>
        rl_max_header_bytes (q_limits q) < q_header_bytes q + pending)"

definition response_step :: "HttpResponseParser \<Rightarrow> buffer \<Rightarrow> buffer response_flow" where
  "response_step q input =
     (if q_state q = RS_FixedBody then fixed_body_step q input
      else if q_state q = RS_ChunkBody then chunk_body_step q input
      else if q_state q = RS_EofBody then eof_body_step q input
      else
        (case findCrlf input of
           None \<Rightarrow>
             if no_line_oversized q (readableBytes input)
             then Inr (Some RR_HeaderTooLarge, rp_fail q RR_HeaderTooLarge, input)
             else Inr (Some RR_NeedMore, q, input)
         | Some line_size \<Rightarrow>
             let line = take line_size (readableView input) in
             ebind (consume input (line_size + 2)) (\<lambda>input'.
               case response_line_step q line of (q', res) \<Rightarrow> Inr (res, q', input'))))"

text \<open>A round that does not return consumes a line, or leaves a chunk for its size line.\<close>

definition response_measure :: "HttpResponseParser \<Rightarrow> nat \<Rightarrow> nat" where
  "response_measure q n = 2 * n + (if q_state q = RS_ChunkBody then 1 else 0)"

lemma consume_readable_le: "consume b n = Inr b' \<Longrightarrow> readableBytes b' \<le> readableBytes b - n \<and> n \<le> readableBytes b"
  by (auto simp: consume_def clear_def readableBytes_def Let_def split: if_splits)

lemma response_step_decreases:
  assumes "response_step q b = Inr (None, q', b')"
  shows "response_measure q' (readableBytes b') < response_measure q (readableBytes b)"
proof (cases "q_state q = RS_ChunkBody")
  case True
  with assms have "chunk_body_step q b = Inr (None, q', b')" by (simp add: response_step_def)
  then have "q_state q' = RS_ChunkSize" "readableBytes b' \<le> readableBytes b"
    by (auto simp: chunk_body_step_def Let_def ebind_eq_Inr_iff split: if_splits prod.splits
        dest: consume_readable_le)
  with True show ?thesis by (simp add: response_measure_def)
next
  case False
  have "q_state q \<noteq> RS_FixedBody" "q_state q \<noteq> RS_EofBody"
    using assms by (auto simp: response_step_def fixed_body_step_def fixed_body_end_def eof_body_step_def
        Let_def ebind_eq_Inr_iff split: if_splits prod.splits)
  with False assms obtain k where "consume b (k + 2) = Inr b'"
    by (auto simp: response_step_def Let_def ebind_eq_Inr_iff case_prod_unfold
        split: if_splits option.splits)
  from consume_readable_le [OF this] have "readableBytes b' + 2 \<le> readableBytes b" by linarith
  then show ?thesis by (simp add: response_measure_def)
qed

function response_loop :: "HttpResponseParser \<Rightarrow> buffer \<Rightarrow>
    (ResponseParseResult \<times> HttpResponseParser \<times> buffer) outcome" where
  "response_loop q input =
     ebind (response_step q input) (\<lambda>(res, q', input').
       case res of Some r \<Rightarrow> Inr (r, q', input') | None \<Rightarrow> response_loop q' input')"
  by pat_completeness auto
termination
  by (relation "measure (\<lambda>(q, b). response_measure q (readableBytes b))")
    (auto dest: response_step_decreases)

declare response_loop.simps [simp del]

definition response_parse :: "HttpResponseParser \<Rightarrow> buffer \<Rightarrow>
    (ResponseParseResult \<times> HttpResponseParser \<times> buffer) outcome" where
  "response_parse q input =
     (if q_state q = RS_Complete then Inr (RR_Complete, q, input)
      else if q_state q = RS_Error then Inr (q_error_result q, q, input)
      else response_loop q input)"

definition finishOnEof :: "HttpResponseParser \<Rightarrow> HttpResponseParser \<times> ResponseParseResult" where
  "finishOnEof q =
     (if q_state q = RS_EofBody then (q\<lparr>q_state := RS_Complete\<rparr>, RR_Complete)
      else if q_state q = RS_Complete then (q, RR_Complete)
      else (rp_fail q RR_PrematureEof, RR_PrematureEof))"

definition headerComplete :: "HttpResponseParser \<Rightarrow> bool" where
  "headerComplete q = (q_state q \<noteq> RS_StatusLine \<and> q_state q \<noteq> RS_Headers \<and> q_state q \<noteq> RS_Error)"

definition messageComplete :: "HttpResponseParser \<Rightarrow> bool" where
  "messageComplete q = (q_state q = RS_Complete)"

definition response_reusable :: "HttpResponseParser \<Rightarrow> bool" where
  "response_reusable q =
     (messageComplete q \<and> \<not> q_eof_delimited q \<and> \<not> rs_close_connection (q_response q))"

definition takeResponse :: "HttpResponse \<Rightarrow> HttpResponseParser \<Rightarrow> (HttpResponse \<times> HttpResponseParser) outcome" where
  "takeResponse moved_from q =
     (if \<not> messageComplete q then Inl Logic_Error
      else Inr (q_response q, q\<lparr>q_response := moved_from\<rparr>))"

definition response_reset :: "HttpResponseParser \<Rightarrow> bool \<Rightarrow> HttpResponseParser" where
  "response_reset q head_request =
     q\<lparr>q_state := RS_StatusLine, q_response := HttpResponse_default, q_expected_body_bytes := 0,
       q_chunk_bytes := 0, q_header_bytes := 0, q_header_count := 0, q_head_request := head_request,
       q_chunked := False, q_eof_delimited := False, q_error_result := RR_BadResponse\<rparr>"

end
