(* ===== verification/ResponseProperties.thy ===== *)
theory ResponseProperties
  imports ResponseParser
begin

text \<open>
  Properties of the response parser. \<open>rstep\<close> is one round of its loop on the unread bytes,
  with the number of bytes it consumes; the buffer version is shown to implement it.
\<close>

section \<open>Specification on the unread bytes\<close>

definition rstep :: "HttpResponseParser \<Rightarrow> string \<Rightarrow> nat response_flow" where
  "rstep q s =
     (if q_state q = RS_FixedBody then
        (let count = min (q_expected_body_bytes q - length (rs_body (q_response q))) (length s) in
         if count = 0 then fixed_body_end q 0
         else (case rp_appendBody q (take count s) of (q', r) \<Rightarrow>
           if r \<noteq> RR_Complete then Inr (Some r, rp_fail q' r, 0) else fixed_body_end q' count))
      else if q_state q = RS_ChunkBody then
        (if length s < sz_add (q_chunk_bytes q) 2 then Inr (Some RR_NeedMore, q, 0)
         else ebind (view_at s (q_chunk_bytes q)) (\<lambda>c.
           if c \<noteq> CR then Inr (Some RR_BadResponse, rp_fail q RR_BadResponse, 0)
           else ebind (view_at s (sz_add (q_chunk_bytes q) 1)) (\<lambda>d.
             if d \<noteq> LF then Inr (Some RR_BadResponse, rp_fail q RR_BadResponse, 0)
             else (case rp_appendBody q (take (q_chunk_bytes q) s) of (q', r) \<Rightarrow>
               if r \<noteq> RR_Complete then Inr (Some r, rp_fail q' r, 0)
               else Inr (None, q'\<lparr>q_state := RS_ChunkSize\<rparr>, sz_add (q_chunk_bytes q) 2)))))
      else if q_state q = RS_EofBody then
        (if s = [] then Inr (Some RR_NeedMore, q, 0)
         else (case rp_appendBody q s of (q', r) \<Rightarrow>
           if r \<noteq> RR_Complete then Inr (Some r, rp_fail q' r, 0)
           else Inr (Some RR_NeedMore, q', length s)))
      else
        (case find_crlf s of
           None \<Rightarrow> if no_line_oversized q (length s)
                   then Inr (Some RR_HeaderTooLarge, rp_fail q RR_HeaderTooLarge, 0)
                   else Inr (Some RR_NeedMore, q, 0)
         | Some k \<Rightarrow> (case response_line_step q (take k s) of (q', res) \<Rightarrow> Inr (res, q', k + 2))))"

lemma appendBody_chunk_bytes: "rp_appendBody q bytes = (q', r) \<Longrightarrow> q_chunk_bytes q' = q_chunk_bytes q"
  by (auto simp: rp_appendBody_def split: if_splits)

lemma rstep_within: "rstep q s = Inr (res, q', n) \<Longrightarrow> n \<le> length s"
  by (auto simp: rstep_def fixed_body_end_def Let_def ebind_eq_Inr_iff split: if_splits prod.splits option.splits
      dest: find_crlf_SomeD)

text \<open>What a round on the buffer has to do, given what the specification says of its view.\<close>

definition implements :: "buffer \<Rightarrow> nat response_flow \<Rightarrow> buffer response_flow \<Rightarrow> bool" where
  "implements b spec impl \<longleftrightarrow>
     (case spec of
        Inl e \<Rightarrow> impl = Inl e
      | Inr (res, q', n) \<Rightarrow> \<exists>b'. impl = Inr (res, q', b') \<and> buffer_ready b' \<and>
          maximum_size b' = maximum_size b \<and> readableView b' = drop n (readableView b))"

lemma implements_stay [simp]: "buffer_ready b \<Longrightarrow> implements b (Inr (res, q, 0)) (Inr (res, q, b))"
  by (simp add: implements_def)

lemma implements_throw [simp]: "implements b (Inl e) (Inl e)"
  by (simp add: implements_def)

lemma implements_consume:
  assumes "buffer_ready b" "n \<le> length (readableView b)"
  shows "implements b (Inr (res, q, n)) (ebind (consume b n) (\<lambda>b'. Inr (res, q, b')))"
  using buf.consume_within [OF assms] buf.consume_capacity [OF assms(1)] by (auto simp: implements_def)

lemma fixed_body_end_implements:
  assumes "buffer_ready b" "n \<le> length (readableView b)"
  shows "implements b (fixed_body_end q n) (ebind (consume b n) (fixed_body_end q))"
  using buf.consume_within [OF assms] buf.consume_capacity [OF assms(1)]
  by (auto simp: implements_def fixed_body_end_def)

lemma response_step_implements:
  assumes "buffer_ready b"
  shows "implements b (rstep q (readableView b)) (response_step q b)"
proof -
  have len: "readableBytes b = length (readableView b)"
    using assms by (simp add: length_readableView buffer_ready_def)
  consider "q_state q = RS_FixedBody" | "q_state q = RS_ChunkBody" | "q_state q = RS_EofBody"
    | "q_state q \<notin> {RS_FixedBody, RS_ChunkBody, RS_EofBody}" by blast
  then show ?thesis
  proof cases
    case 1
    define n where "n = min (q_expected_body_bytes q - length (rs_body (q_response q)))
      (length (readableView b))"
    have n: "n \<le> length (readableView b)" by (simp add: n_def)
    obtain q' r where "rp_appendBody q (take n (readableView b)) = (q', r)" by fastforce
    moreover have "implements b (fixed_body_end q 0) (fixed_body_end q b)"
      using assms by (auto simp: fixed_body_end_def)
    ultimately show ?thesis
      using 1 assms fixed_body_end_implements [OF assms n, of q']
      unfolding rstep_def response_step_def fixed_body_step_def Let_def len n_def [symmetric]
      by simp
  next
    case 2
    have "implements b (Inr (res, q', sz_add c 2)) (ebind (consume b (sz_add c 2)) (\<lambda>b'. Inr (res, q', b')))"
      if "\<not> length (readableView b) < sz_add c 2" for res q' c
      using implements_consume [OF assms, of "sz_add c 2"] that by simp
    with 2 assms show ?thesis
      by (auto simp: rstep_def response_step_def chunk_body_step_def Let_def len view_at_def
          split: prod.splits dest: appendBody_chunk_bytes)
  next
    case 3
    with assms implements_consume [OF assms order_refl] show ?thesis
      by (auto simp: rstep_def response_step_def eof_body_step_def Let_def len split: prod.splits)
  next
    case 4
    show ?thesis
    proof (cases "find_crlf (readableView b)")
      case None
      with 4 assms show ?thesis by (auto simp: rstep_def response_step_def findCrlf_def len)
    next
      case (Some k)
      then have "k + 2 \<le> length (readableView b)" using find_crlf_SomeD by blast
      note implements_consume [OF assms this]
      with 4 Some show ?thesis
        by (auto simp: rstep_def response_step_def findCrlf_def Let_def split: prod.splits)
    qed
  qed
qed

lemma rstep_decreases:
  assumes "rstep q s = Inr (None, q', n)"
  shows "response_measure q' (length (drop n s)) < response_measure q (length s)"
proof (cases "q_state q = RS_ChunkBody")
  case True
  with assms have "q_state q' = RS_ChunkSize"
    by (auto simp: rstep_def ebind_eq_Inr_iff split: if_splits prod.splits)
  with True show ?thesis by (simp add: response_measure_def)
next
  case False
  have "q_state q \<noteq> RS_FixedBody" "q_state q \<noteq> RS_EofBody"
    using assms by (auto simp: rstep_def fixed_body_end_def Let_def split: if_splits prod.splits)
  with False assms obtain k where "find_crlf s = Some k" "n = k + 2"
    by (auto simp: rstep_def case_prod_unfold split: if_splits option.splits)
  with find_crlf_SomeD [of s k] have "n \<le> length s \<and> 2 \<le> n" by simp
  then have "length (drop n s) + 2 \<le> length s" by (simp, linarith)
  then show ?thesis unfolding response_measure_def by (simp split: if_split)
qed

function rparse :: "HttpResponseParser \<Rightarrow> string \<Rightarrow> (ResponseParseResult \<times> HttpResponseParser \<times> string) outcome" where
  "rparse q s =
     ebind (rstep q s) (\<lambda>(res, q', n).
       case res of Some r \<Rightarrow> Inr (r, q', drop n s) | None \<Rightarrow> rparse q' (drop n s))"
  by pat_completeness auto
termination
  by (relation "measure (\<lambda>(q, s). response_measure q (length s))") (auto dest: rstep_decreases)

declare rparse.simps [simp del]

lemma response_loop_refines:
  assumes "buffer_ready b"
  shows "case rparse q (readableView b) of
      Inl e \<Rightarrow> response_loop q b = Inl e
    | Inr (r, q', s') \<Rightarrow> \<exists>b'. response_loop q b = Inr (r, q', b') \<and> buffer_ready b' \<and>
        maximum_size b' = maximum_size b \<and> readableView b' = s'"
  using assms
proof (induction "response_measure q (length (readableView b))" arbitrary: q b rule: less_induct)
  case less
  note impl = response_step_implements [OF less.prems, of q]
  show ?case
  proof (cases "rstep q (readableView b)")
    case (Inl e)
    with impl show ?thesis
      by (simp add: implements_def rparse.simps [of q] response_loop.simps [of q])
  next
    case (Inr x)
    then obtain res q' n where st: "rstep q (readableView b) = Inr (res, q', n)" by (metis prod.exhaust)
    with impl obtain b' where b': "response_step q b = Inr (res, q', b')" "buffer_ready b'"
        "maximum_size b' = maximum_size b" "readableView b' = drop n (readableView b)"
      by (auto simp: implements_def)
    show ?thesis
    proof (cases res)
      case (Some r)
      with st b' show ?thesis by (simp add: rparse.simps [of q] response_loop.simps [of q])
    next
      case None
      have "rparse q (readableView b) = rparse q' (readableView b')"
        "response_loop q b = response_loop q' b'"
        using st b' None by (simp_all add: rparse.simps [of q] response_loop.simps [of q])
      moreover have "response_measure q' (length (readableView b')) < response_measure q (length (readableView b))"
        using rstep_decreases [of q "readableView b" q' n] st None b'(4) by simp
      ultimately show ?thesis using less.hyps [OF _ b'(2), of q'] b'(3) by (auto split: sum.splits)
    qed
  qed
qed

lemma rparse_Inl: "rparse q s = Inl e \<Longrightarrow> e = Undefined_Behaviour"
proof (induction q s rule: rparse.induct)
  case (1 q s)
  show ?case
  proof (cases "rstep q s")
    case (Inl e')
    then have "e' = Undefined_Behaviour"
      by (auto simp: rstep_def view_at_def fixed_body_end_def ebind_def Let_def
          split: if_splits prod.splits option.splits sum.splits)
    with Inl "1.prems" show ?thesis by (simp add: rparse.simps [of q])
  next
    case (Inr x)
    with "1.prems" "1.IH" show ?thesis
      by (cases x) (auto simp: rparse.simps [of q s] split: option.splits)
  qed
qed

section \<open>Chunked bodies\<close>

text \<open>One chunk, as a sender writes it.\<close>

definition chunk_text :: "string \<Rightarrow> string" where
  "chunk_text c = to_hex (length c) @ CRLF @ c @ CRLF"

definition last_chunk :: string where
  "last_chunk = ''0'' @ CRLF @ CRLF"

definition body_room :: "HttpResponseParser \<Rightarrow> nat" where
  "body_room q = rl_max_body_bytes (q_limits q) - length (rs_body (q_response q))"

lemma rparse_line:
  assumes "q_state q \<notin> {RS_FixedBody, RS_ChunkBody, RS_EofBody}" "CR \<notin> set l"
    and "response_line_step q l = (q', res)"
  shows "rparse q (l @ CR # LF # u) = (case res of Some r \<Rightarrow> Inr (r, q', u) | None \<Rightarrow> rparse q' u)"
  using assms find_crlf_no_cr [OF assms(2), of u]
  by (subst rparse.simps) (simp add: rstep_def split: option.splits)

lemma chunk_size_step_hex:
  assumes "n < 2 ^ 64"
  shows "chunk_size_step q (to_hex n) =
    (q\<lparr>q_chunk_bytes := n, q_state := (if n = 0 then RS_Trailers else RS_ChunkBody)\<rparr>, None)"
proof -
  have "find_char (CHR '';'') (to_hex n) = None"
    using to_hex_plain by (auto simp: find_char_None_iff)
  moreover have "length (to_hex n) \<le> 16" using length_to_hex [of n 16] assms by simp
  moreover have "from_chars_all 16 size_max (to_hex n) = Some n"
    using assms by (intro from_chars_to_hex) (simp add: size_max_def)
  ultimately show ?thesis by (simp add: chunk_size_step_def upto_def)
qed

lemma rparse_chunk:
  assumes "q_state q = RS_ChunkSize" "c \<noteq> []" "length c \<le> body_room q" "length c + 2 < 2 ^ 64"
  shows "rparse q (chunk_text c @ u) =
    rparse (q\<lparr>q_chunk_bytes := length c,
              q_response := (q_response q)\<lparr>rs_body := rs_body (q_response q) @ c\<rparr>\<rparr>) u"
proof -
  let ?q1 = "q\<lparr>q_chunk_bytes := length c, q_state := RS_ChunkBody\<rparr>"
  let ?q2 = "q\<lparr>q_chunk_bytes := length c,
              q_response := (q_response q)\<lparr>rs_body := rs_body (q_response q) @ c\<rparr>\<rparr>"
  have "CR \<notin> set (to_hex (length c))" using to_hex_plain by blast
  moreover have "response_line_step q (to_hex (length c)) = (?q1, None)"
    using assms chunk_size_step_hex [of "length c" q] by (simp add: response_line_step_def)
  ultimately have "rparse q (chunk_text c @ u) = rparse ?q1 (c @ CR # LF # u)"
    using rparse_line [of q "to_hex (length c)" ?q1 None "c @ CR # LF # u"] assms(1)
    by (simp add: chunk_text_def)
  also have "\<dots> = rparse ?q2 u"
  proof -
    have sz: "sz_add (length c) 2 = length c + 2" "sz_add (length c) (Suc 0) = length c + 1"
      using assms(4) by (simp_all add: sz_add_def)
    have "rstep ?q1 (c @ CR # LF # u) = Inr (None, ?q2, length c + 2)"
      using assms(1,3) by (simp add: rstep_def sz view_at_def rp_appendBody_def body_room_def nth_append)
    then show ?thesis by (subst rparse.simps) simp
  qed
  finally show ?thesis .
qed

lemma rparse_last_chunk:
  assumes "q_state q = RS_ChunkSize" "q_header_bytes q + 2 \<le> rl_max_header_bytes (q_limits q)"
  shows "rparse q (last_chunk @ u) =
    Inr (RR_Complete, q\<lparr>q_chunk_bytes := 0, q_state := RS_Complete,
                        q_header_bytes := q_header_bytes q + 2\<rparr>, u)"
proof -
  let ?q1 = "q\<lparr>q_chunk_bytes := 0, q_state := RS_Trailers\<rparr>"
  have hex: "to_hex 0 = ''0''" by (simp add: to_hex.simps hex_digit_def) code_simp
  have "rparse q (''0'' @ CR # LF # CRLF @ u) = rparse ?q1 (CRLF @ u)"
    using rparse_line [of q "''0''" ?q1 None "CRLF @ u"] chunk_size_step_hex [of 0 q] assms(1) hex
    by (simp add: response_line_step_def)
  also have "\<dots> = Inr (RR_Complete, q\<lparr>q_chunk_bytes := 0, q_state := RS_Complete,
                        q_header_bytes := q_header_bytes q + 2\<rparr>, u)"
    using rparse_line [of ?q1 "[]" _ _ u] assms(2)
    by (simp add: response_line_step_def header_line_step_def Let_def)
  finally show ?thesis by (simp add: last_chunk_def)
qed

lemma rparse_chunks:
  assumes "q_state q = RS_ChunkSize" "[] \<notin> set cs" "length (concat cs) \<le> body_room q"
    and "length (concat cs) + 2 < 2 ^ 64" "q_header_bytes q + 2 \<le> rl_max_header_bytes (q_limits q)"
  shows "\<exists>q'. rparse q (concat (map chunk_text cs) @ last_chunk @ u) = Inr (RR_Complete, q', u) \<and>
     q_state q' = RS_Complete \<and>
     q_response q' = (q_response q)\<lparr>rs_body := rs_body (q_response q) @ concat cs\<rparr>"
  using assms
proof (induction cs arbitrary: q)
  case Nil
  then show ?case using rparse_last_chunk [of q u] by simp
next
  case (Cons c cs)
  let ?q = "q\<lparr>q_chunk_bytes := length c,
              q_response := (q_response q)\<lparr>rs_body := rs_body (q_response q) @ c\<rparr>\<rparr>"
  have "rparse q (chunk_text c @ concat (map chunk_text cs) @ last_chunk @ u) =
      rparse ?q (concat (map chunk_text cs) @ last_chunk @ u)"
    by (rule rparse_chunk) (use Cons.prems in auto)
  moreover have "\<exists>q'. rparse ?q (concat (map chunk_text cs) @ last_chunk @ u) = Inr (RR_Complete, q', u) \<and>
     q_state q' = RS_Complete \<and>
     q_response q' = (q_response ?q)\<lparr>rs_body := rs_body (q_response ?q) @ concat cs\<rparr>"
    by (rule Cons.IH) (use Cons.prems in \<open>auto simp: body_room_def\<close>)
  ultimately show ?case by auto
qed

section \<open>Invariant\<close>

definition response_active :: "HttpResponseParser \<Rightarrow> bool" where
  "response_active q \<longleftrightarrow> q_state q \<noteq> RS_Complete \<and> q_state q \<noteq> RS_Error"

text \<open>How many body bytes the head announced, once it is complete.\<close>

definition announced :: "HttpResponseParser \<Rightarrow> bool" where
  "announced q \<longleftrightarrow> q_expected_body_bytes q \<le> rl_max_body_bytes (q_limits q) \<and>
     (\<exists>v. headers_values (rs_headers (q_response q)) ''content-length'' = [v] \<and>
          from_chars_all 10 size_max v = Some (q_expected_body_bytes q))"

text \<open>
  The body is within the limit; while a fixed body is read it is shorter than announced; and a
  complete response has exactly the announced length, or came as chunks, up to the end of the
  connection, or without a body because the status or the request method says so.
\<close>

definition response_inv :: "HttpResponseParser \<Rightarrow> bool" where
  "response_inv q \<longleftrightarrow>
     length (rs_body (q_response q)) \<le> rl_max_body_bytes (q_limits q) \<and>
     headers_wf (rs_headers (q_response q)) \<and> headers_normal (rs_headers (q_response q)) \<and>
     (case q_state q of
        RS_StatusLine \<Rightarrow> rs_body (q_response q) = [] \<and> rs_headers (q_response q) = []
      | RS_Headers \<Rightarrow> rs_body (q_response q) = []
      | RS_FixedBody \<Rightarrow> announced q \<and> length (rs_body (q_response q)) < q_expected_body_bytes q
      | RS_EofBody \<Rightarrow> rs_close_connection (q_response q) \<and> q_eof_delimited q
      | RS_ChunkSize \<Rightarrow> q_chunked q
      | RS_ChunkBody \<Rightarrow> q_chunked q
      | RS_Trailers \<Rightarrow> q_chunked q
      | RS_Complete \<Rightarrow> q_chunked q \<or> q_eof_delimited q \<or>
          (announced q \<and> length (rs_body (q_response q)) = q_expected_body_bytes q) \<or>
          ((q_head_request q \<or> noBodyStatus (rs_status_code (q_response q))) \<and> rs_body (q_response q) = [])
      | RS_Error \<Rightarrow> True)"

lemma rp_fail_simps [simp]:
  "q_state (rp_fail q r) = RS_Error" "q_limits (rp_fail q r) = q_limits q"
  "q_response (rp_fail q r) = q_response q" "q_error_result (rp_fail q r) = r"
  by (simp_all add: rp_fail_def)

lemma parseStatusLine_cases:
  assumes "parseStatusLine q l = (q', r)"
  obtains (bad) st rs where "r = RR_BadResponse"
      "q' = q \<or> q' = q\<lparr>q_response := (q_response q)\<lparr>rs_status_code := st, rs_reason := rs\<rparr>\<rparr>"
    | (ok) st rs where "r = RR_Complete"
      "q' = q\<lparr>q_response := (q_response q)\<lparr>rs_status_code := st, rs_reason := rs\<rparr>\<rparr>"
  using assms by (auto simp: parseStatusLine_def Let_def split: if_splits option.splits)

lemma rp_parseHeader_cases:
  assumes "rp_parseHeader q l = (q', r)"
  obtains (bad) "r = RR_BadResponse \<or> r = RR_HeaderTooLarge" "q' = q\<lparr>q_header_count := q_header_count q + 1\<rparr>"
    | (ok) n v where "r = RR_Complete" "isValidHeaderName n" "isValidHeaderValue v"
      "q' = q\<lparr>q_header_count := q_header_count q + 1,
        q_response := (q_response q)\<lparr>rs_headers := headers_add (rs_headers (q_response q)) n v\<rparr>\<rparr>"
  using assms by (auto simp: rp_parseHeader_def Let_def split: if_splits option.splits)

lemma rp_finishHeaders_inv:
  assumes "rp_finishHeaders q = (q', RR_Complete)" "response_inv q" "q_state q = RS_Headers"
  shows "response_inv q' \<and> q_limits q' = q_limits q"
proof -
  have "announced (q\<lparr>q_expected_body_bytes := n, q_state := st\<rparr>)"
    if "length (headers_values (rs_headers (q_response q)) ''content-length'') = 1"
      "from_chars_all 10 size_max (hd (headers_values (rs_headers (q_response q)) ''content-length'')) = Some n"
      "n \<le> rl_max_body_bytes (q_limits q)" for n st
    using that by (cases "headers_values (rs_headers (q_response q)) ''content-length''")
      (auto simp: announced_def)
  with assms show ?thesis
    by (auto simp: rp_finishHeaders_def response_inv_def Let_def headers_wf_def HttpResponse_default_def
        split: if_splits option.splits)
qed

lemma rp_finishHeaders_bad:
  "rp_finishHeaders q = (q', r) \<Longrightarrow> r \<noteq> RR_Complete \<Longrightarrow> q' = q \<and> r \<noteq> RR_NeedMore"
  by (auto simp: rp_finishHeaders_def Let_def split: if_splits option.splits)

lemma header_line_step_eq:
  assumes "q1 = q\<lparr>q_header_bytes := q_header_bytes q + (length l + 2)\<rparr>" "q_state q1 = RS_Headers"
    and "rp_finishHeaders q1 = (p1, r1)" "rp_parseHeader q1 l = (p2, r2)"
  shows "header_line_step q l =
      (if rl_max_header_bytes (q_limits q1) < q_header_bytes q1
       then (rp_fail q1 RR_HeaderTooLarge, Some RR_HeaderTooLarge)
       else if l = [] then if r1 \<noteq> RR_Complete then (rp_fail p1 r1, Some r1)
         else if q_state p1 = RS_Complete then (p1, Some RR_Complete) else (p1, None)
       else if r2 \<noteq> RR_Complete then (rp_fail p2 r2, Some r2) else (p2, None))"
  using assms(2-4) unfolding header_line_step_def Let_def assms(1) [symmetric] by simp

lemma response_line_step_inv:
  assumes "response_line_step q l = (q', res)" "response_inv q" "response_active q"
    "q_state q \<notin> {RS_FixedBody, RS_ChunkBody, RS_EofBody}"
  shows "response_inv q' \<and> q_limits q' = q_limits q \<and> res \<noteq> Some RR_NeedMore"
proof -
  consider "q_state q = RS_StatusLine" | "q_state q = RS_ChunkSize" | "q_state q = RS_Trailers" | "q_state q = RS_Headers"
    using assms(3,4) by (cases "q_state q") (auto simp: response_active_def)
  then show ?thesis
  proof cases
    case 1
    obtain p r where "parseStatusLine q l = (p, r)" by fastforce
    then show ?thesis
      by (rule parseStatusLine_cases)
        (use assms(1,2) 1 \<open>parseStatusLine q l = (p, r)\<close> in
          \<open>auto simp: response_line_step_def status_line_step_def response_inv_def split: if_splits\<close>)
  next
    case 2
    with assms(1,2) show ?thesis
      by (auto simp: response_line_step_def chunk_size_step_def response_inv_def Let_def
          split: if_splits option.splits)
  next
    case 3
    with assms(1,2) show ?thesis
      by (auto simp: response_line_step_def header_line_step_def response_inv_def Let_def split: if_splits)
  next
    case 4
    define q1 where "q1 = q\<lparr>q_header_bytes := q_header_bytes q + (length l + 2)\<rparr>"
    have inv: "response_inv q1" "q_state q1 = RS_Headers" "q_limits q1 = q_limits q"
      using assms(2) 4 by (simp_all add: response_inv_def q1_def)
    obtain p1 r1 where fin: "rp_finishHeaders q1 = (p1, r1)" by fastforce
    obtain p2 r2 where hdr: "rp_parseHeader q1 l = (p2, r2)" by fastforce
    have step: "header_line_step q l = (q', res)"
      using assms(1) 4 by (simp add: response_line_step_def)
    have fin_inv: "response_inv p1 \<and> q_limits p1 = q_limits q" if "r1 = RR_Complete"
      using rp_finishHeaders_inv [of q1 p1] fin that inv by simp
    have hdr_inv: "response_inv p2 \<and> q_limits p2 = q_limits q \<and> r2 \<noteq> RR_NeedMore"
      using hdr inv by (auto elim!: rp_parseHeader_cases simp: response_inv_def)
    have fail_inv: "response_inv (rp_fail p r)" if "response_inv p" for p r
      using that by (simp add: response_inv_def)
    show ?thesis
      using step fin_inv hdr_inv fail_inv [of q1] fail_inv [of p2] inv rp_finishHeaders_bad [OF fin]
      unfolding header_line_step_eq [OF q1_def inv(2) fin hdr] by (auto split: if_splits)
  qed
qed

lemma appendBody_Complete:
  "rp_appendBody q bs = (q', r) \<Longrightarrow>
     if length bs \<le> body_room q
     then r = RR_Complete \<and> q' = q\<lparr>q_response := (q_response q)\<lparr>rs_body := rs_body (q_response q) @ bs\<rparr>\<rparr>
     else r = RR_BodyTooLarge \<and> q' = q"
  by (auto simp: rp_appendBody_def body_room_def split: if_splits)

lemma rstep_inv:
  assumes "rstep q s = Inr (res, q', n)" "response_inv q" "response_active q"
  shows "response_inv q' \<and> q_limits q' = q_limits q"
proof -
  consider (fixed) "q_state q = RS_FixedBody" | (chunk) "q_state q = RS_ChunkBody" | (eof) "q_state q = RS_EofBody"
    | (line) "q_state q \<notin> {RS_FixedBody, RS_ChunkBody, RS_EofBody}" by blast
  then show ?thesis
  proof cases
    case fixed
    with assms show ?thesis
      by (auto simp: rstep_def response_inv_def rp_appendBody_def fixed_body_end_def announced_def Let_def
          split: if_splits)
  next
    case chunk
    with assms show ?thesis
      by (auto simp: rstep_def response_inv_def rp_appendBody_def Let_def ebind_eq_Inr_iff split: if_splits)
  next
    case eof
    with assms show ?thesis
      by (auto simp: rstep_def response_inv_def rp_appendBody_def split: if_splits)
  next
    case line
    have fail_inv: "response_inv (rp_fail q r)" for r using assms(2) by (simp add: response_inv_def)
    show ?thesis
    proof (cases "find_crlf s")
      case None
      with line assms(1,2) fail_inv show ?thesis by (auto simp: rstep_def split: if_splits)
    next
      case (Some k)
      then have "response_line_step q (take k s) = (q', res)"
        using line assms(1) by (auto simp: rstep_def split: prod.splits)
      with response_line_step_inv [OF this assms(2,3) line] show ?thesis by simp
    qed
  qed
qed

lemma rparse_cases:
  assumes "rparse q s = Inr (r, q', s')"
  obtains (stop) n where "rstep q s = Inr (Some r, q', n)" "s' = drop n s"
    | (again) q1 n where "rstep q s = Inr (None, q1, n)" "rparse q1 (drop n s) = Inr (r, q', s')"
proof -
  have eq: "ebind (rstep q s) (\<lambda>(res, q', n).
       case res of Some r \<Rightarrow> Inr (r, q', drop n s) | None \<Rightarrow> rparse q' (drop n s)) = Inr (r, q', s')"
    using assms unfolding rparse.simps [of q s] .
  show thesis
  proof (cases "rstep q s")
    case (Inr x)
    with eq stop again show thesis by (cases x; cases "fst x") auto
  qed (use eq in simp)
qed

lemma header_line_step_active:
  assumes "header_line_step q l = (q', None)" "q_state q = RS_Headers"
  shows "response_active q'"
proof -
  define q1 where "q1 = q\<lparr>q_header_bytes := q_header_bytes q + (length l + 2)\<rparr>"
  have st: "q_state q1 = RS_Headers" using assms(2) by (simp add: q1_def)
  obtain p1 r1 where fin: "rp_finishHeaders q1 = (p1, r1)" by fastforce
  obtain p2 r2 where hdr: "rp_parseHeader q1 l = (p2, r2)" by fastforce
  have "q_state p1 \<noteq> RS_Error"
    using fin st by (auto simp: rp_finishHeaders_def Let_def split: if_splits option.splits)
  moreover have "q_state p2 = RS_Headers" using hdr st by (auto elim: rp_parseHeader_cases)
  ultimately show ?thesis
    using assms(1) unfolding header_line_step_eq [OF q1_def st fin hdr]
    by (auto simp: response_active_def split: if_splits)
qed

lemma response_line_step_active:
  assumes "response_line_step q l = (q', None)" "response_active q"
    "q_state q \<notin> {RS_FixedBody, RS_ChunkBody, RS_EofBody}"
  shows "response_active q'"
proof -
  consider "q_state q = RS_StatusLine" | "q_state q = RS_ChunkSize" | "q_state q = RS_Trailers" | "q_state q = RS_Headers"
    using assms(2,3) by (cases "q_state q") (auto simp: response_active_def)
  then show ?thesis
  proof cases
    case 4
    with assms(1) header_line_step_active show ?thesis by (simp add: response_line_step_def)
  qed (use assms(1) in \<open>auto simp: response_line_step_def status_line_step_def chunk_size_step_def
      header_line_step_def response_active_def Let_def split: if_splits option.splits prod.splits\<close>)
qed

lemma rstep_line:
  assumes "q_state q \<notin> {RS_FixedBody, RS_ChunkBody, RS_EofBody}"
  shows "rstep q s = Inr (res, q', n) \<longleftrightarrow>
    (case find_crlf s of
       None \<Rightarrow> n = 0 \<and> (if no_line_oversized q (length s)
         then res = Some RR_HeaderTooLarge \<and> q' = rp_fail q RR_HeaderTooLarge
         else res = Some RR_NeedMore \<and> q' = q)
     | Some k \<Rightarrow> n = k + 2 \<and> response_line_step q (take k s) = (q', res))"
  using assms by (auto simp: rstep_def split: option.splits prod.splits)

lemma rstep_active:
  assumes "rstep q s = Inr (None, q', n)" "response_active q"
  shows "response_active q'"
proof (cases "q_state q \<in> {RS_FixedBody, RS_ChunkBody, RS_EofBody}")
  case True
  with assms(1) show ?thesis
    by (auto simp: rstep_def fixed_body_end_def Let_def ebind_eq_Inr_iff response_active_def
        split: if_splits prod.splits)
next
  case False
  with assms show ?thesis
    unfolding rstep_line [OF False] using response_line_step_active [OF _ assms(2) False]
    by (auto split: option.splits if_splits)
qed

lemma rparse_inv:
  "rparse q s = Inr (r, q', s') \<Longrightarrow> response_inv q \<Longrightarrow> response_active q \<Longrightarrow>
     response_inv q' \<and> q_limits q' = q_limits q"
proof (induction q s rule: rparse.induct)
  case (1 q s)
  from "1.prems"(1) show ?case
  proof (cases rule: rparse_cases)
    case (stop n)
    with "1.prems" rstep_inv show ?thesis by blast
  next
    case (again q1 n)
    with "1.IH" [OF again(1) refl refl refl] "1.prems" rstep_inv [OF again(1)] rstep_active [OF again(1)]
    show ?thesis by simp
  qed
qed

section \<open>Reads may be cut anywhere\<close>

lemma rstep_None_append:
  assumes "rstep q s = Inr (None, q1, n)"
  shows "rstep q (s @ t) = Inr (None, q1, n)" "n \<le> length s"
proof -
  show n: "n \<le> length s" using rstep_within [OF assms] .
  show "rstep q (s @ t) = Inr (None, q1, n)"
  proof (cases "q_state q \<in> {RS_FixedBody, RS_ChunkBody, RS_EofBody}")
    case True
    with assms have "q_state q = RS_ChunkBody"
      by (auto simp: rstep_def fixed_body_end_def Let_def split: if_splits prod.splits)
    with assms n show ?thesis
      by (auto simp: rstep_def view_at_def nth_append ebind_eq_Inr_iff split: if_splits prod.splits)
  next
    case False
    then obtain k where "find_crlf s = Some k"
      using assms by (auto simp: rstep_def split: option.splits if_splits)
    with False assms find_crlf_append [OF this, of t] find_crlf_SomeD [OF this] show ?thesis
      by (simp add: rstep_def)
  qed
qed

lemma rparse_again: "rstep q s = Inr (None, q1, n) \<Longrightarrow> rparse q (s @ t) = rparse q1 (drop n s @ t)"
  by (subst rparse.simps) (simp add: rstep_None_append)

text \<open>A fixed body takes what it still lacks.\<close>

definition add_body :: "HttpResponseParser \<Rightarrow> string \<Rightarrow> HttpResponseParser" where
  "add_body q u = q\<lparr>q_response := (q_response q)\<lparr>rs_body := rs_body (q_response q) @ u\<rparr>\<rparr>"

lemma add_body_simps [simp]:
  "add_body (add_body q u) v = add_body q (u @ v)" "add_body q [] = q"
  "q_state (add_body q u) = q_state q" "q_limits (add_body q u) = q_limits q"
  "q_expected_body_bytes (add_body q u) = q_expected_body_bytes q"
  "rs_body (q_response (add_body q u)) = rs_body (q_response q) @ u"
  by (simp_all add: add_body_def)

lemma rparse_fixed:
  assumes "q_state q = RS_FixedBody" "length (rs_body (q_response q)) + m = q_expected_body_bytes q"
    and "q_expected_body_bytes q \<le> rl_max_body_bytes (q_limits q)" "0 < m"
  shows "rstep q s = (if m \<le> length s
      then Inr (Some RR_Complete, (add_body q (take m s))\<lparr>q_state := RS_Complete\<rparr>, m)
      else Inr (Some RR_NeedMore, add_body q s, length s))"
    and "rparse q s = (if m \<le> length s
      then Inr (RR_Complete, (add_body q (take m s))\<lparr>q_state := RS_Complete\<rparr>, drop m s)
      else Inr (RR_NeedMore, add_body q s, []))"
proof -
  have m: "q_expected_body_bytes q - length (rs_body (q_response q)) = m" using assms(2) by simp
  have app: "rp_appendBody q (take c s) = (add_body q (take c s), RR_Complete)" if "c \<le> m" for c
    using that assms(2,3) by (auto simp: rp_appendBody_def add_body_def)
  show st: "rstep q s = (if m \<le> length s
      then Inr (Some RR_Complete, (add_body q (take m s))\<lparr>q_state := RS_Complete\<rparr>, m)
      else Inr (Some RR_NeedMore, add_body q s, length s))"
  proof (cases "m \<le> length s")
    case True
    then show ?thesis
      using app [of m] assms m by (simp add: rstep_def Let_def fixed_body_end_def min_absorb1)
  next
    case False
    then have "min m (length s) = length s" by simp
    then show ?thesis
      using app [of "length s"] assms m False
      by (cases "s = []") (auto simp: rstep_def Let_def fixed_body_end_def)
  qed
  show "rparse q s = (if m \<le> length s
      then Inr (RR_Complete, (add_body q (take m s))\<lparr>q_state := RS_Complete\<rparr>, drop m s)
      else Inr (RR_NeedMore, add_body q s, []))"
    by (subst rparse.simps) (simp add: st)
qed

text \<open>Waiting for more inside a body takes the bytes there are; appending twice is appending once.\<close>

lemma rstep_NeedMore_append:
  assumes "rstep q s = Inr (Some RR_NeedMore, q', n)" "response_inv q" "response_active q"
    and "rparse q' (drop n s @ t) = Inr (r, q'', s'')" "r \<noteq> RR_BodyTooLarge"
  shows "rparse q (s @ t) = Inr (r, q'', s'')"
proof -
  let ?app = "\<lambda>u. q\<lparr>q_response := (q_response q)\<lparr>rs_body := rs_body (q_response q) @ u\<rparr>\<rparr>"
  have "q' = q \<and> n = 0 \<or> q_state q = RS_EofBody \<or> q_state q = RS_FixedBody"
  proof (cases "q_state q \<in> {RS_FixedBody, RS_ChunkBody, RS_EofBody}")
    case True
    with assms(1) show ?thesis
      by (auto simp: rstep_def rp_appendBody_def ebind_eq_Inr_iff split: if_splits)
  next
    case False
    with assms(1) response_line_step_inv [OF _ assms(2,3) False] show ?thesis
      unfolding rstep_line [OF False] by (auto split: option.splits if_splits)
  qed
  moreover have "q' = q \<and> n = 0" if "q_state q = RS_EofBody" "s = []"
    using assms(1) that by (simp add: rstep_def)
  ultimately consider "q' = q" "n = 0" | (eof) "q_state q = RS_EofBody" "s \<noteq> []" "t \<noteq> []"
    | (eof_end) "q_state q = RS_EofBody" "t = []" | (fixed) "q_state q = RS_FixedBody" by blast
  then show ?thesis
  proof cases
    case 1
    with assms(4) show ?thesis by simp
  next
    case eof
    with assms(1) have q': "q' = ?app s" "n = length s" "length s \<le> body_room q"
      by (auto simp: rstep_def rp_appendBody_def body_room_def split: if_splits)
    with assms(4,5) eof show ?thesis
      by (auto simp: rparse.simps [of _ t] rparse.simps [of _ "s @ t"] rstep_def rp_appendBody_def
          body_room_def split: if_splits)
  next
    case eof_end
    with assms(1,4) show ?thesis
      by (auto simp: rparse.simps [of _ "[]"] rparse.simps [of _ s] rstep_def rp_appendBody_def
          split: if_splits)
  next
    case fixed
    let ?m = "q_expected_body_bytes q - length (rs_body (q_response q))"
    have e: "length (rs_body (q_response q)) + ?m = q_expected_body_bytes q"
        "q_expected_body_bytes q \<le> rl_max_body_bytes (q_limits q)" "0 < ?m"
      using assms(2) fixed by (auto simp: response_inv_def announced_def)
    have s: "length s < ?m" "q' = add_body q s" "n = length s"
      using assms(1) rparse_fixed(1) [OF fixed e] by (auto split: if_splits)
    have "rparse (add_body q s) t = (if ?m - length s \<le> length t
      then Inr (RR_Complete, (add_body (add_body q s) (take (?m - length s) t))\<lparr>q_state := RS_Complete\<rparr>,
        drop (?m - length s) t)
      else Inr (RR_NeedMore, add_body (add_body q s) t, []))"
      by (rule rparse_fixed(2)) (use fixed e s in auto)
    then have "rparse q' (drop n s @ t) = rparse q (s @ t)"
      using rparse_fixed(2) [OF fixed e, of "s @ t"] s by (auto simp: take_append)
    with assms(4) show ?thesis by simp
  qed
qed

lemma rparse_NeedMore_append:
  "rparse q s = Inr (RR_NeedMore, q', s') \<Longrightarrow> response_inv q \<Longrightarrow> response_active q \<Longrightarrow>
     rparse q' (s' @ t) = Inr (r, q'', s'') \<Longrightarrow> r \<noteq> RR_BodyTooLarge \<Longrightarrow>
     rparse q (s @ t) = Inr (r, q'', s'')"
proof (induction q s rule: rparse.induct)
  case (1 q s)
  from "1.prems"(1) show ?case
  proof (cases rule: rparse_cases)
    case (stop n)
    with rstep_NeedMore_append [OF stop(1) "1.prems"(2,3)] "1.prems"(4,5) show ?thesis by simp
  next
    case (again q1 n)
    have "rparse q1 (drop n s @ t) = Inr (r, q'', s'')"
      using "1.IH" [OF again(1) refl refl refl] again(2) "1.prems" rstep_inv [OF again(1)]
        rstep_active [OF again(1)] by simp
    with rparse_again [OF again(1)] show ?thesis by simp
  qed
qed

section \<open>Properties\<close>

lemma response_inv_make:
  "HttpResponseParser_make l h = Inr q \<Longrightarrow> response_inv q \<and> response_active q \<and> q_limits q = l"
  by (auto simp: HttpResponseParser_make_def response_inv_def response_active_def headers_wf_def
      HttpResponse_default_def split: if_splits)

lemma response_inv_reset: "response_inv (response_reset q h)" "response_active (response_reset q h)"
  by (simp_all add: response_reset_def response_inv_def response_active_def headers_wf_def HttpResponse_default_def)

text \<open>The sum of a chunk's size and its terminator wraps round, and the index that follows is out of range.\<close>

lemma rparse_huge_chunk:
  assumes "q_state q = RS_ChunkSize" "n = 2 ^ 64 - 2 \<or> n = 2 ^ 64 - 1" "length u < 2 ^ 64 - 2" "u \<noteq> []"
  shows "rparse q (to_hex n @ CRLF @ u) = Inl Undefined_Behaviour"
proof -
  let ?q1 = "q\<lparr>q_chunk_bytes := n, q_state := RS_ChunkBody\<rparr>"
  have n: "n < 2 ^ 64" "n \<noteq> 0" "sz_add n 2 \<le> 1" "length u \<le> n"
    using assms(2,3) by (auto simp: sz_add_def)
  have "CR \<notin> set (to_hex n)" using to_hex_plain by blast
  moreover have "response_line_step q (to_hex n) = (?q1, None)"
    using assms(1) chunk_size_step_hex [OF n(1), of q] n(2) by (simp add: response_line_step_def)
  ultimately have "rparse q (to_hex n @ CRLF @ u) = rparse ?q1 u"
    using rparse_line [of q "to_hex n" ?q1 None u] assms(1) by simp
  moreover have "\<not> length u < sz_add n 2" using n(3) assms(4) by (cases u) auto
  then have "rstep ?q1 u = Inl Undefined_Behaviour"
    using n(4) by (simp add: rstep_def view_at_def)
  ultimately show ?thesis by (simp add: rparse.simps [of ?q1])
qed

definition sample_response_parser :: HttpResponseParser where
  "sample_response_parser = \<lparr>q_limits = HttpResponseParserLimits_default, q_state = RS_StatusLine,
     q_response = HttpResponse_default, q_expected_body_bytes = 0, q_chunk_bytes = 0,
     q_header_bytes = 0, q_header_count = 0, q_head_request = False, q_chunked = False,
     q_eof_delimited = False, q_error_result = RR_BadResponse\<rparr>"

lemma sample_response_parser_make:
  "HttpResponseParser_make HttpResponseParserLimits_default False = Inr sample_response_parser"
  by code_simp

text \<open>
  C11: the response parser refines its specification on the unread bytes: on every consistent
  buffer the call returns with the specified result, state and remaining bytes. No exception of
  the buffer can escape; the one other outcome is an index outside the view.
\<close>

theorem response_parse_refines:
  assumes "buffer_ready b" "response_active q"
  shows "case rparse q (readableView b) of
      Inl e \<Rightarrow> e = Undefined_Behaviour \<and> response_parse q b = Inl e
    | Inr (r, q', s') \<Rightarrow> \<exists>b'. response_parse q b = Inr (r, q', b') \<and> buffer_ready b' \<and>
        maximum_size b' = maximum_size b \<and> readableView b' = s'"
  using response_loop_refines [OF assms(1), of q] assms(2) rparse_Inl [of q "readableView b"]
  by (auto simp: response_parse_def response_active_def split: sum.splits)

theorem response_parse_refines_witness:
  "buffer_ready sample_buffer \<and> response_active sample_response_parser \<and>
   (\<exists>b'. response_parse sample_response_parser sample_buffer =
      Inr (RR_NeedMore, sample_response_parser, b') \<and> readableView b' = ''bc'')"
proof -
  have a: "buffer_ready sample_buffer" "readableView sample_buffer = ''bc''"
    by (simp_all add: sample_buffer_def buffer_defs)
  have b: "response_active sample_response_parser"
    using response_inv_make [OF sample_response_parser_make] by simp
  have "rparse sample_response_parser ''bc'' = Inr (RR_NeedMore, sample_response_parser, ''bc'')"
    by code_simp
  with response_parse_refines [OF a(1) b] a b show ?thesis by auto
qed

text \<open>
  C26: what a response parser hands out. After any read its body is within the configured limit
  and its fields are well formed; a complete response has exactly the length its only
  \<open>Content-Length\<close> announced, or was chunked, or delimited by the end of the connection, or
  has no body because of the status or a HEAD request.
\<close>

theorem parsed_responses_are_framed:
  assumes "buffer_ready b" "response_inv q" "response_active q" "response_parse q b = Inr (r, q', b')"
  shows "response_inv q' \<and> length (rs_body (q_response q')) \<le> rl_max_body_bytes (q_limits q)"
proof -
  have "rparse q (readableView b) = Inr (r, q', readableView b')"
    using response_loop_refines [OF assms(1), of q] assms(3,4)
    by (auto simp: response_parse_def response_active_def split: sum.splits)
  from rparse_inv [OF this assms(2,3)] show ?thesis by (auto simp: response_inv_def)
qed

definition sample_reply :: buffer where
  "sample_reply = (let s = ''HTTP/1.1 200 OK'' @ CRLF @ ''Content-Length: 2'' @ CRLF @ CRLF @ ''hiX'' in
     \<lparr>storage = s, read_index = 0, write_index = length s, prepared_bytes = 0, maximum_size = 64\<rparr>)"

theorem parsed_responses_are_framed_witness:
  "\<exists>q' b'. response_parse sample_response_parser sample_reply = Inr (RR_Complete, q', b') \<and>
     rs_body (q_response q') = ''hi'' \<and> readableView b' = ''X'' \<and> response_inv q'"
proof -
  have a: "buffer_ready sample_reply" by code_simp
  have "(case response_parse sample_response_parser sample_reply of Inl e \<Rightarrow> False
      | Inr (r, q', b') \<Rightarrow> r = RR_Complete \<and> rs_body (q_response q') = ''hi'' \<and> readableView b' = ''X'')"
    by code_simp
  then obtain q' b' where p: "response_parse sample_response_parser sample_reply = Inr (RR_Complete, q', b')"
      "rs_body (q_response q') = ''hi''" "readableView b' = ''X''"
    by (auto split: sum.splits)
  with parsed_responses_are_framed [OF a _ _ p(1)] response_inv_make [OF sample_response_parser_make]
  show ?thesis by auto
qed

text \<open>
  the upstream's reads may be cut anywhere too. If the parser asked for more and the bytes
  that follow bring it to a verdict, parsing everything at once gives the same verdict, the same
  response and the same bytes left over. (A body over the limit is refused either way, with the
  part that fitted kept or not.)
\<close>

theorem response_reads_may_be_cut_anywhere:
  assumes "response_inv q" "response_active q" "rparse q s = Inr (RR_NeedMore, q', s')"
    and "rparse q' (s' @ t) = Inr (r, q'', s'')" "r \<noteq> RR_BodyTooLarge"
  shows "rparse q (s @ t) = Inr (r, q'', s'')"
  by (rule rparse_NeedMore_append [OF assms(3,1,2,4,5)])

theorem response_reads_may_be_cut_anywhere_witness:
  "\<exists>q''. rparse sample_response_parser
     (''HTTP/1.0 200 OK'' @ CRLF @ ''Content-Length: 3'' @ CRLF @ CRLF @ ''ab'' @ ''cd'') =
     Inr (RR_Complete, q'', ''d'') \<and> rs_body (q_response q'') = ''abc''"
proof -
  let ?s = "''HTTP/1.0 200 OK'' @ CRLF @ ''Content-Length: 3'' @ CRLF @ CRLF @ ''ab''"
  have "(case rparse sample_response_parser ?s of Inl e \<Rightarrow> False
      | Inr (r, q', s') \<Rightarrow> r = RR_NeedMore \<and> (case rparse q' (s' @ ''cd'') of Inl e \<Rightarrow> False
        | Inr (r2, q2, s2) \<Rightarrow> r2 = RR_Complete \<and> s2 = ''d'' \<and> rs_body (q_response q2) = ''abc''))"
    by code_simp
  then obtain q' s' where one: "rparse sample_response_parser ?s = Inr (RR_NeedMore, q', s')"
      and two: "case rparse q' (s' @ ''cd'') of Inl e \<Rightarrow> False
        | Inr (r2, q2, s2) \<Rightarrow> r2 = RR_Complete \<and> s2 = ''d'' \<and> rs_body (q_response q2) = ''abc''"
    by (cases "rparse sample_response_parser ?s") auto
  from two obtain q2 where "rparse q' (s' @ ''cd'') = Inr (RR_Complete, q2, ''d'')"
      "rs_body (q_response q2) = ''abc''"
    by (cases "rparse q' (s' @ ''cd'')") auto
  note p = one this
  with response_reads_may_be_cut_anywhere [OF _ _ p(1,2)] response_inv_make [OF sample_response_parser_make]
  show ?thesis by simp
qed

text \<open>
  chunked bodies round trip. Any division of a body within the limit into non-empty chunks,
  each written as its size in hexadecimal and its bytes, followed by the last chunk, is decoded
  to exactly that body, and the bytes behind it are left untouched.
\<close>

theorem chunked_body_round_trip:
  assumes "q_state q = RS_ChunkSize" "[] \<notin> set cs"
    and "length (rs_body (q_response q)) + length (concat cs) \<le> rl_max_body_bytes (q_limits q)"
    and "rl_max_body_bytes (q_limits q) \<le> rp_kAbsoluteBodyLimit"
    and "q_header_bytes q + 2 \<le> rl_max_header_bytes (q_limits q)"
  shows "\<exists>q'. rparse q (concat (map chunk_text cs) @ last_chunk @ rest) = Inr (RR_Complete, q', rest) \<and>
     q_response q' = (q_response q)\<lparr>rs_body := rs_body (q_response q) @ concat cs\<rparr>"
proof -
  have "length (concat cs) \<le> body_room q" "length (concat cs) + 2 < 2 ^ 64"
    using assms(3,4) by (auto simp: body_room_def rp_kAbsoluteBodyLimit_def)
  from rparse_chunks [OF assms(1,2) this assms(5)] show ?thesis by blast
qed

theorem chunked_body_round_trip_witness:
  "\<exists>q'. rparse (sample_response_parser\<lparr>q_state := RS_ChunkSize\<rparr>)
     (chunk_text ''hello '' @ chunk_text ''world'' @ last_chunk @ ''H'') = Inr (RR_Complete, q', ''H'') \<and>
     rs_body (q_response q') = ''hello world''"
  using chunked_body_round_trip [of "sample_response_parser\<lparr>q_state := RS_ChunkSize\<rparr>"
      "[''hello '', ''world'']" "''H''"]
  by (auto simp: sample_response_parser_def HttpResponseParserLimits_default_def HttpResponse_default_def
      rp_kAbsoluteBodyLimit_def)

text \<open>
  C27: a chunk of announced size \<open>2^64 - 2\<close> or \<open>2^64 - 1\<close> breaks the bounds check: the sum
  with the two bytes of the terminator wraps round, so the parser, in whatever way the bytes lie in its buffer,
  does not wait for the chunk and indexes the view far outside the bytes it holds.
\<close>

theorem huge_chunk_indexes_outside:
  assumes "buffer_ready b" "q_state q = RS_ChunkSize" "n = 2 ^ 64 - 2 \<or> n = 2 ^ 64 - 1"
    and "readableView b = to_hex n @ CRLF @ u" "length u < 2 ^ 64 - 2" "u \<noteq> []"
  shows "response_parse q b = Inl Undefined_Behaviour"
  using response_loop_refines [OF assms(1), of q] rparse_huge_chunk [OF assms(2,3,5,6)] assms(2,4)
  by (simp add: response_parse_def)

definition huge_chunk_input :: buffer where
  "huge_chunk_input = (let s = to_hex (2 ^ 64 - 2) @ CRLF @ ''x'' in
     \<lparr>storage = s @ ''x'', read_index = 0, write_index = length s, prepared_bytes = 0, maximum_size = 4096\<rparr>)"

theorem huge_chunk_indexes_outside_witness:
  "response_parse (sample_response_parser\<lparr>q_state := RS_ChunkSize\<rparr>) huge_chunk_input = Inl Undefined_Behaviour"
proof (rule huge_chunk_indexes_outside)
  show "buffer_ready huge_chunk_input" by code_simp
  show "readableView huge_chunk_input = to_hex (2 ^ 64 - 2) @ CRLF @ ''x''"
    by (simp add: huge_chunk_input_def Let_def buffer_defs)
qed simp_all

end
