(* ===== verification/RateLimiter.thy ===== *)
theory RateLimiter
  imports Complex_Main Prelude
begin

text \<open>
  Token buckets and the rate limiter of \<open>src/http/rate_limiter.cpp\<close>. A configured \<open>double\<close> is a
  value of the type \<open>double\<close>: a real number, an infinity or NaN, compared as C++ compares them. A bucket
  exists only if its rate and capacity are finite, so its fields are reals, and every arithmetic
  result goes through the argument \<open>rnd\<close>, the rounding of the machine (the identity is exact
  arithmetic). Times are nanoseconds. A shard's hash map is an association list, and
  the hash function is the argument \<open>hash\<close>. A check runs as one step: it holds the mutex of its
  shard, and the atomic key count only ever changes by one key at a time.
\<close>

section \<open>Doubles\<close>

datatype double = Finite real | Pos_Infinity | Neg_Infinity | NaN

fun isfinite :: "double \<Rightarrow> bool" where
  "isfinite (Finite x) = True"
| "isfinite d = False"

text \<open>The comparisons of C++: every comparison with NaN is false, equality included.\<close>

fun double_le :: "double \<Rightarrow> double \<Rightarrow> bool" where
  "double_le NaN e = False"
| "double_le d NaN = False"
| "double_le Neg_Infinity e = True"
| "double_le d Pos_Infinity = True"
| "double_le (Finite x) (Finite y) = (x \<le> y)"
| "double_le d e = False"

definition double_less :: "double \<Rightarrow> double \<Rightarrow> bool" where
  "double_less d e = (double_le d e \<and> \<not> double_le e d)"

definition double_eq :: "double \<Rightarrow> double \<Rightarrow> bool" where
  "double_eq d e = (double_le d e \<and> double_le e d)"

text \<open>The real number of a double that is known to be finite.\<close>

fun finite_value :: "double \<Rightarrow> real" where
  "finite_value (Finite x) = x"
| "finite_value d = 0"

lemma double_less_simps [simp]:
  "double_less (Finite x) (Finite y) \<longleftrightarrow> x < y" "double_less (Finite x) Pos_Infinity"
  "\<not> double_less d Neg_Infinity" "\<not> double_less d NaN" "\<not> double_less NaN d"
  by (cases d; force simp: double_less_def)+

lemma double_eq_iff: "double_eq d e \<longleftrightarrow> d = e \<and> d \<noteq> NaN"
  by (cases d; cases e) (auto simp: double_eq_def)

section \<open>Token buckets\<close>

record TokenBucket =
  rate_per_second :: real
  capacity :: real
  available_tokens :: real
  last_refill :: int

definition validPositive :: "double \<Rightarrow> bool" where
  "validPositive v = (isfinite v \<and> double_less (Finite 0) v)"

lemma validPositive_Finite [simp]: "validPositive (Finite x) \<longleftrightarrow> 0 < x"
  by (simp add: validPositive_def)

definition TokenBucket_make :: "double \<Rightarrow> double \<Rightarrow> int \<Rightarrow> TokenBucket outcome" where
  "TokenBucket_make rate burst initial_time =
     (if \<not> validPositive rate \<or> \<not> validPositive burst then Inl Invalid_Argument
      else Inr \<lparr>rate_per_second = finite_value rate, capacity = finite_value burst,
                available_tokens = finite_value burst, last_refill = initial_time\<rparr>)"

definition refill :: "(real \<Rightarrow> real) \<Rightarrow> TokenBucket \<Rightarrow> int \<Rightarrow> TokenBucket" where
  "refill rnd b now =
     (if now \<le> last_refill b then b
      else
        let elapsed = rnd (rnd (of_int (now - last_refill b)) / 1000000000)
        in b\<lparr>available_tokens := min (capacity b)
               (rnd (available_tokens b + rnd (elapsed * rate_per_second b))),
             last_refill := now\<rparr>)"

definition bucket_allow :: "(real \<Rightarrow> real) \<Rightarrow> TokenBucket \<Rightarrow> double \<Rightarrow> int \<Rightarrow> (bool \<times> TokenBucket) outcome" where
  "bucket_allow rnd b tokens now =
     (if \<not> validPositive tokens then Inl Invalid_Argument
      else
        let b1 = refill rnd b now
        in if double_less (Finite (available_tokens b1)) tokens then Inr (False, b1)
           else Inr (True, b1\<lparr>available_tokens := rnd (available_tokens b1 - finite_value tokens)\<rparr>))"

definition retryAfter :: "(real \<Rightarrow> real) \<Rightarrow> TokenBucket \<Rightarrow> double \<Rightarrow> int \<Rightarrow> (int \<times> TokenBucket) outcome" where
  "retryAfter rnd b tokens now =
     (if \<not> validPositive tokens then Inl Invalid_Argument
      else
        let b1 = refill rnd b now
        in if double_le tokens (Finite (available_tokens b1)) then Inr (0, b1)
           else
             let seconds = rnd (rnd (finite_value tokens - available_tokens b1) / rate_per_second b1)
             in Inr (\<lceil>rnd (seconds * 1000)\<rceil>, b1))"

section \<open>The limiter\<close>

record RateLimitConfig =
  requests_per_second :: double
  burst :: double
  per_client :: bool
  shard_count :: nat
  max_keys :: nat
  idle_ttl :: int

record RateLimitDecision =
  allowed :: bool
  retry_after :: int
  key_capacity_exhausted :: bool

record ClientBucket =
  bucket :: TokenBucket
  last_seen :: int

type_synonym Shard = "(string \<times> ClientBucket) list"

record RateLimiter =
  rl_config :: RateLimitConfig
  global_bucket :: "TokenBucket option"
  rl_shards :: "Shard list"
  key_count :: nat
  allowed_count :: nat
  rejected_count :: nat
  rejected_key_capacity_count :: nat

definition RateLimiter_make :: "RateLimitConfig \<Rightarrow> int \<Rightarrow> RateLimiter outcome" where
  "RateLimiter_make c initial_time =
     (if \<not> validPositive (requests_per_second c) \<or> \<not> validPositive (burst c) \<or> shard_count c = 0 \<or>
         max_keys c = 0 \<or> idle_ttl c \<le> 0
      then Inl Invalid_Argument
      else
        let empty = \<lparr>rl_config = c, global_bucket = None, rl_shards = [], key_count = 0,
                     allowed_count = 0, rejected_count = 0, rejected_key_capacity_count = 0\<rparr>
        in if per_client c then Inr (empty\<lparr>rl_shards := replicate (shard_count c) []\<rparr>)
           else ebind (TokenBucket_make (requests_per_second c) (burst c) initial_time)
                  (\<lambda>b. Inr (empty\<lparr>global_bucket := Some b\<rparr>)))"

text \<open>\<open>idle_ttl\<close> is in milliseconds, the clock in nanoseconds.\<close>

definition expired :: "RateLimitConfig \<Rightarrow> int \<Rightarrow> ClientBucket \<Rightarrow> bool" where
  "expired c now cb = (idle_ttl c * 1000000 \<le> now - last_seen cb)"

fun pruneExpired :: "RateLimitConfig \<Rightarrow> Shard \<Rightarrow> nat \<Rightarrow> int \<Rightarrow> Shard \<times> nat" where
  "pruneExpired c [] count now = ([], count)"
| "pruneExpired c ((k, cb) # rest) count now =
     (if expired c now cb then pruneExpired c rest (count - 1) now
      else (case pruneExpired c rest count now of (rest', count') \<Rightarrow> ((k, cb) # rest', count')))"

fun shard_update :: "string \<Rightarrow> ClientBucket \<Rightarrow> Shard \<Rightarrow> Shard" where
  "shard_update k v [] = []"
| "shard_update k v ((k', v') # rest) = (if k' = k then (k, v) # rest else (k', v') # shard_update k v rest)"

text \<open>The bucket's part of a check: the time is noted, a token asked for, and the wait computed.\<close>

definition check_bucket :: "(real \<Rightarrow> real) \<Rightarrow> TokenBucket \<Rightarrow> int \<Rightarrow> (RateLimitDecision \<times> TokenBucket) outcome" where
  "check_bucket rnd b now =
     ebind (bucket_allow rnd b (Finite 1) now) (\<lambda>(ok, b1).
       if ok then Inr (\<lparr>allowed = True, retry_after = 0, key_capacity_exhausted = False\<rparr>, b1)
       else ebind (retryAfter rnd b1 (Finite 1) now) (\<lambda>(wait, b2).
         Inr (\<lparr>allowed = False, retry_after = wait, key_capacity_exhausted = False\<rparr>, b2)))"

definition checkClient :: "(real \<Rightarrow> real) \<Rightarrow> (string \<Rightarrow> nat) \<Rightarrow> RateLimiter \<Rightarrow> string \<Rightarrow> int \<Rightarrow>
    (RateLimitDecision \<times> RateLimiter) outcome" where
  "checkClient rnd hash l client_key now =
     (let c = rl_config l;
          key = (if client_key = [] then ''unknown'' else client_key);
          i = hash key mod length (rl_shards l);
          (shard, count) = pruneExpired c (rl_shards l ! i) (key_count l) now
      in case map_of shard key of
           None \<Rightarrow>
             if max_keys c \<le> count then
               Inr (\<lparr>allowed = False, retry_after = 1000, key_capacity_exhausted = True\<rparr>,
                    l\<lparr>rl_shards := (rl_shards l)[i := shard], key_count := count\<rparr>)
             else
               ebind (TokenBucket_make (requests_per_second c) (burst c) now) (\<lambda>fresh.
                 ebind (check_bucket rnd fresh now) (\<lambda>(d, b1).
                   Inr (d, l\<lparr>rl_shards := (rl_shards l)[i := (key, \<lparr>bucket = b1, last_seen = now\<rparr>) # shard],
                             key_count := count + 1\<rparr>)))
         | Some cb \<Rightarrow>
             ebind (check_bucket rnd (bucket cb) now) (\<lambda>(d, b1).
               Inr (d, l\<lparr>rl_shards := (rl_shards l)[i := shard_update key \<lparr>bucket = b1, last_seen = now\<rparr> shard],
                         key_count := count\<rparr>)))"

definition record_decision :: "RateLimitDecision \<Rightarrow> RateLimiter \<Rightarrow> RateLimiter" where
  "record_decision d l =
     (if allowed d then l\<lparr>allowed_count := u64_inc (allowed_count l)\<rparr>
      else
        let l1 = l\<lparr>rejected_count := u64_inc (rejected_count l)\<rparr>
        in if key_capacity_exhausted d
           then l1\<lparr>rejected_key_capacity_count := u64_inc (rejected_key_capacity_count l1)\<rparr> else l1)"

text \<open>Without \<open>per_client\<close> the global bucket is there; the model names its absence.\<close>

definition check :: "(real \<Rightarrow> real) \<Rightarrow> (string \<Rightarrow> nat) \<Rightarrow> RateLimiter \<Rightarrow> string \<Rightarrow> int \<Rightarrow>
    (RateLimitDecision \<times> RateLimiter) outcome" where
  "check rnd hash l client_key now =
     ebind (if per_client (rl_config l) then checkClient rnd hash l client_key now
            else (case global_bucket l of
                    None \<Rightarrow> Inl Undefined_Behaviour
                  | Some b \<Rightarrow> ebind (check_bucket rnd b now) (\<lambda>(d, b1).
                      Inr (d, l\<lparr>global_bucket := Some b1\<rparr>))))
       (\<lambda>(d, l1). Inr (d, record_decision d l1))"

section \<open>Bucket lemmas\<close>

text \<open>What the model needs of the machine's rounding: it is monotone and keeps zero.\<close>

definition rounding :: "(real \<Rightarrow> real) \<Rightarrow> bool" where
  "rounding rnd \<longleftrightarrow> mono rnd \<and> rnd 0 = 0"

lemma rounding_nonneg: "rounding rnd \<Longrightarrow> 0 \<le> x \<Longrightarrow> 0 \<le> rnd x"
  using monoD [of rnd 0 x] by (simp add: rounding_def)

definition bucket_inv :: "TokenBucket \<Rightarrow> bool" where
  "bucket_inv b \<longleftrightarrow> 0 < rate_per_second b \<and> 0 \<le> available_tokens b \<and> available_tokens b \<le> capacity b \<and> 0 < capacity b"

lemma bucket_inv_refill:
  assumes "rounding rnd" "bucket_inv b"
  shows "bucket_inv (refill rnd b now)"
proof (cases "now \<le> last_refill b")
  case False
  note nonneg = rounding_nonneg [OF assms(1)]
  define e where "e = rnd (rnd (of_int (now - last_refill b)) / 1000000000)"
  have "0 \<le> e"
    unfolding e_def using False by (intro nonneg divide_nonneg_nonneg) auto
  then have "0 \<le> rnd (available_tokens b + rnd (e * rate_per_second b))"
    using assms(2) by (intro nonneg add_nonneg_nonneg mult_nonneg_nonneg) (auto simp: bucket_inv_def)
  with False assms(2) show ?thesis
    unfolding refill_def Let_def e_def [symmetric] by (simp add: bucket_inv_def)
qed (use assms(2) in \<open>simp add: refill_def\<close>)

lemma refill_static [simp]:
  "rate_per_second (refill rnd b now) = rate_per_second b" "capacity (refill rnd b now) = capacity b"
  by (simp_all add: refill_def Let_def)

lemma refill_same [simp]: "refill rnd (refill rnd b now) now = refill rnd b now"
  by (simp add: refill_def Let_def)

lemma last_refill_max: "last_refill (refill rnd b now) = max now (last_refill b)"
  by (simp add: refill_def Let_def)

lemma bucket_allow_Finite:
  "bucket_allow rnd b (Finite x) now =
     (if x \<le> 0 then Inl Invalid_Argument
      else if available_tokens (refill rnd b now) < x then Inr (False, refill rnd b now)
      else Inr (True, (refill rnd b now)\<lparr>available_tokens := rnd (available_tokens (refill rnd b now) - x)\<rparr>))"
  by (simp add: bucket_allow_def Let_def)

lemma bucket_allow_cases:
  assumes "bucket_allow rnd b tokens now = Inr (ok, b')"
  obtains x where "tokens = Finite x" "0 < x" "ok = (x \<le> available_tokens (refill rnd b now))"
    "b' = (if ok then (refill rnd b now)\<lparr>available_tokens := rnd (available_tokens (refill rnd b now) - x)\<rparr> else refill rnd b now)"
proof (cases tokens)
  case (Finite x)
  with assms that show ?thesis by (auto simp: bucket_allow_Finite split: if_splits)
qed (use assms in \<open>simp_all add: bucket_allow_def validPositive_def\<close>)

lemma bucket_allow_inv:
  assumes "rounding rnd" "rnd (capacity b) = capacity b" "bucket_inv b" "bucket_allow rnd b t now = Inr (ok, b')"
  shows "bucket_inv b' \<and> capacity b' = capacity b \<and> rate_per_second b' = rate_per_second b"
proof -
  have inv: "bucket_inv (refill rnd b now)" using bucket_inv_refill [OF assms(1,3)] .
  from bucket_allow_cases [OF assms(4)] obtain x where x: "0 < x" "ok = (x \<le> available_tokens (refill rnd b now))"
    "b' = (if ok then (refill rnd b now)\<lparr>available_tokens := rnd (available_tokens (refill rnd b now) - x)\<rparr> else refill rnd b now)"
    by blast
  show ?thesis
  proof (cases ok)
    case True
    then have "0 \<le> rnd (available_tokens (refill rnd b now) - x)" using x(2) rounding_nonneg [OF assms(1)] by simp
    moreover have "available_tokens (refill rnd b now) - x \<le> capacity b"
      using x(1) inv by (auto simp: bucket_inv_def)
    then have "rnd (available_tokens (refill rnd b now) - x) \<le> capacity b"
      using assms(1,2) monoD by (fastforce simp: rounding_def)
    ultimately show ?thesis using x(3) True inv by (simp add: bucket_inv_def)
  qed (use x(3) inv in simp)
qed

text \<open>Requests asking for one token each, at the given times.\<close>

fun bucket_run :: "(real \<Rightarrow> real) \<Rightarrow> TokenBucket \<Rightarrow> int list \<Rightarrow> (nat \<times> TokenBucket) outcome" where
  "bucket_run rnd b [] = Inr (0, b)"
| "bucket_run rnd b (t # ts) =
     ebind (bucket_allow rnd b (Finite 1) t) (\<lambda>(ok, b1).
       ebind (bucket_run rnd b1 ts) (\<lambda>(n, b2). Inr (if ok then n + 1 else n, b2)))"

lemma bucket_allow_total: "0 < x \<Longrightarrow> \<exists>ok b'. bucket_allow rnd b (Finite x) now = Inr (ok, b')"
  by (auto simp: bucket_allow_Finite)

lemma bucket_run_total: "\<exists>n b'. bucket_run rnd b ts = Inr (n, b')"
proof (induction ts arbitrary: b)
  case (Cons t ts)
  obtain ok b1 where "bucket_allow rnd b (Finite 1) t = Inr (ok, b1)" using bucket_allow_total [of 1] by fastforce
  with Cons.IH [of b1] show ?case by auto
qed simp

lemma rounding_exact: "rounding (\<lambda>x. x)"
  by (simp add: rounding_def mono_def)

section \<open>Rounding errors\<close>

text \<open>
  A rounding with relative error \<open>u\<close> and absolute error \<open>h\<close>: for IEEE doubles 2 to the -53 and the
  rounding of the subnormal numbers, for exact arithmetic both zero.
\<close>

definition rounding_error :: "(real \<Rightarrow> real) \<Rightarrow> real \<Rightarrow> real \<Rightarrow> bool" where
  "rounding_error rnd u h \<longleftrightarrow> 0 \<le> u \<and> 0 \<le> h \<and> (\<forall>x. 0 \<le> x \<longrightarrow> \<bar>rnd x - x\<bar> \<le> u * x + h)"

lemma rounding_above:
  assumes "rounding_error rnd u h" "0 \<le> x"
  shows "rnd x \<le> (1 + u) * x + h"
proof -
  have "\<bar>rnd x - x\<bar> \<le> u * x + h" using assms by (simp add: rounding_error_def)
  then show ?thesis by (simp add: distrib_right)
qed

text \<open>What the roundings of one refill may add to what the elapsed time grants, and those of one subtraction.\<close>

definition refill_error :: "real \<Rightarrow> real \<Rightarrow> TokenBucket \<Rightarrow> real" where
  "refill_error u h b = u * capacity b + h +
     (1 + u) * (h + (1 + u) * (h + (1 + u) * (h / 1000000000)) * rate_per_second b)"

definition request_error :: "real \<Rightarrow> real \<Rightarrow> TokenBucket \<Rightarrow> real" where
  "request_error u h b = refill_error u h b + (u * capacity b + h)"

lemma refill_error_nonneg: "bucket_inv b \<Longrightarrow> 0 \<le> u \<Longrightarrow> 0 \<le> h \<Longrightarrow> 0 \<le> refill_error u h b"
  by (simp add: refill_error_def bucket_inv_def)

text \<open>The tokens the time that passed grants.\<close>

definition granted :: "TokenBucket \<Rightarrow> int \<Rightarrow> real" where
  "granted b t = of_int (t - last_refill b) / 1000000000 * rate_per_second b"

lemma refill_grows:
  assumes "rounding rnd" "rounding_error rnd u h" "bucket_inv b"
  shows "available_tokens (refill rnd b now) \<le>
     available_tokens b + (1 + u) ^ 4 * granted b (last_refill (refill rnd b now)) + refill_error u h b"
proof (cases "now \<le> last_refill b")
  case True
  have "0 \<le> refill_error u h b" using refill_error_nonneg assms(2,3) by (simp add: rounding_error_def)
  with True show ?thesis by (simp add: refill_def granted_def)
next
  case False
  note nonneg = rounding_nonneg [OF assms(1)] and above = rounding_above [OF assms(2)]
  define d where "d = (of_int (now - last_refill b) :: real)"
  define e where "e = rnd (rnd d / 1000000000)"
  let ?r = "rate_per_second b" and ?a = "available_tokens b"
  have b: "0 < ?r" "0 \<le> ?a" "?a \<le> capacity b" using assms(3) by (simp_all add: bucket_inv_def)
  have u: "0 \<le> u" "0 \<le> h" using assms(2) by (simp_all add: rounding_error_def)
  have d: "0 \<le> d" using False by (simp add: d_def)
  have e: "0 \<le> e" unfolding e_def using d by (intro nonneg divide_nonneg_nonneg) auto
  have "e \<le> (1 + u) * (rnd d / 1000000000) + h" unfolding e_def using nonneg [OF d] by (intro above) simp
  also have "\<dots> \<le> (1 + u) * (((1 + u) * d + h) / 1000000000) + h"
    using above [OF d] u by (intro add_right_mono mult_left_mono divide_right_mono) auto
  finally have e_le: "e \<le> (1 + u) * (((1 + u) * d + h) / 1000000000) + h" .
  have "rnd (e * ?r) \<le> (1 + u) * (e * ?r) + h" using e b(1) by (intro above) simp
  also have "\<dots> \<le> (1 + u) * (((1 + u) * (((1 + u) * d + h) / 1000000000) + h) * ?r) + h"
    using e_le b(1) u by (intro add_right_mono mult_left_mono mult_right_mono) auto
  finally have p_le: "rnd (e * ?r) \<le> (1 + u) * (((1 + u) * (((1 + u) * d + h) / 1000000000) + h) * ?r) + h" .
  have p: "0 \<le> rnd (e * ?r)" using e b(1) by (intro nonneg) simp
  have "rnd (?a + rnd (e * ?r)) \<le> (1 + u) * (?a + rnd (e * ?r)) + h" using p b(2) by (intro above) simp
  also have "\<dots> = ?a + u * ?a + (1 + u) * rnd (e * ?r) + h" by (simp add: algebra_simps)
  also have "\<dots> \<le> ?a + u * capacity b +
      (1 + u) * ((1 + u) * (((1 + u) * (((1 + u) * d + h) / 1000000000) + h) * ?r) + h) + h"
    using p_le b(3) u by (intro add_mono mult_left_mono) auto
  also have "\<dots> = ?a + (1 + u) ^ 4 * (d / 1000000000 * ?r) + refill_error u h b"
    by (simp add: refill_error_def power4_eq_xxxx field_simps)
  finally have "rnd (?a + rnd (e * ?r)) \<le> ?a + (1 + u) ^ 4 * (d / 1000000000 * ?r) + refill_error u h b" .
  moreover have "refill rnd b now = b\<lparr>available_tokens := min (capacity b) (rnd (?a + rnd (e * ?r))), last_refill := now\<rparr>"
    unfolding refill_def Let_def e_def d_def using False by simp
  ultimately show ?thesis by (simp add: granted_def d_def min_le_iff_disj del: of_int_diff)
qed

lemma bucket_allow_potential:
  assumes "rounding rnd" "rounding_error rnd u h" "bucket_inv b"
    and "bucket_allow rnd b (Finite 1) t = Inr (ok, b')"
  shows "(if ok then 1 else 0) + available_tokens b' \<le>
     available_tokens b + (1 + u) ^ 4 * granted b (last_refill b') + request_error u h b"
proof -
  let ?b1 = "refill rnd b t"
  have u: "0 \<le> u" "0 \<le> h" using assms(2) by (simp_all add: rounding_error_def)
  have inv: "bucket_inv ?b1" using bucket_inv_refill [OF assms(1,3)] .
  have grows: "available_tokens ?b1 \<le> available_tokens b + (1 + u) ^ 4 * granted b (last_refill ?b1) + refill_error u h b"
    by (rule refill_grows [OF assms(1-3)])
  have err: "0 \<le> u * capacity b + h" using u assms(3) by (simp add: bucket_inv_def)
  have b': "ok = (1 \<le> available_tokens ?b1)"
    "b' = (if ok then ?b1\<lparr>available_tokens := rnd (available_tokens ?b1 - 1)\<rparr> else ?b1)"
    using assms(4) by (auto simp: bucket_allow_Finite split: if_splits)
  show ?thesis
  proof (cases ok)
    case True
    let ?x = "available_tokens ?b1 - 1"
    have x: "0 \<le> ?x" "?x \<le> capacity b" using True b'(1) inv by (simp_all add: bucket_inv_def)
    have "rnd ?x \<le> ?x + (u * ?x + h)" using rounding_above [OF assms(2) x(1)] by (simp add: algebra_simps)
    also have "u * ?x \<le> u * capacity b" using x(2) u(1) by (rule mult_left_mono)
    finally have "rnd ?x \<le> ?x + (u * capacity b + h)" by simp
    with True b'(2) grows show ?thesis by (simp add: request_error_def)
  qed (use b'(2) grows err in \<open>simp add: request_error_def\<close>)
qed

lemma bucket_run_potential:
  assumes "rounding rnd" "rounding_error rnd u h" "rnd (capacity b) = capacity b" "bucket_inv b"
    and "bucket_run rnd b ts = Inr (n, b')"
  shows "real n + available_tokens b' \<le> available_tokens b + (1 + u) ^ 4 * granted b (last_refill b') +
     real (length ts) * request_error u h b \<and> bucket_inv b'"
  using assms(3-)
proof (induction ts arbitrary: b n)
  case (Cons t ts)
  then obtain ok b1 m where st: "bucket_allow rnd b (Finite 1) t = Inr (ok, b1)"
      and run: "bucket_run rnd b1 ts = Inr (m, b')" and n: "n = (if ok then m + 1 else m)"
    by (auto simp: ebind_eq_Inr_iff)
  have inv: "bucket_inv b1" "rate_per_second b1 = rate_per_second b" "capacity b1 = capacity b"
    using bucket_allow_inv [OF assms(1) Cons.prems(1,2) st] by auto
  have err: "request_error u h b1 = request_error u h b" by (simp add: request_error_def refill_error_def inv)
  have "(if ok then 1 else 0) + available_tokens b1 \<le>
      available_tokens b + (1 + u) ^ 4 * granted b (last_refill b1) + request_error u h b"
    by (rule bucket_allow_potential [OF assms(1,2) Cons.prems(2) st])
  moreover have "real m + available_tokens b' \<le> available_tokens b1 + (1 + u) ^ 4 * granted b1 (last_refill b') +
      real (length ts) * request_error u h b" "bucket_inv b'"
    using Cons.IH [OF _ inv(1) run] inv(3) Cons.prems(1) err by auto
  moreover have "granted b (last_refill b') = granted b (last_refill b1) + granted b1 (last_refill b')"
    by (simp add: granted_def inv(2) field_simps)
  then have "(1 + u) ^ 4 * granted b (last_refill b') =
      (1 + u) ^ 4 * granted b (last_refill b1) + (1 + u) ^ 4 * granted b1 (last_refill b')"
    by (simp add: distrib_left)
  moreover have "real n = real m + (if ok then 1 else 0)" using n by simp
  moreover have "real (length (t # ts)) * request_error u h b = request_error u h b + real (length ts) * request_error u h b"
    by (simp add: distrib_right)
  ultimately show ?case by linarith
qed (simp add: granted_def)

section \<open>Limiter invariant\<close>

definition total_keys :: "Shard list \<Rightarrow> nat" where
  "total_keys ss = sum_list (map length ss)"

definition limiter_inv :: "RateLimiter \<Rightarrow> bool" where
  "limiter_inv l \<longleftrightarrow>
     validPositive (requests_per_second (rl_config l)) \<and> validPositive (burst (rl_config l)) \<and>
     (if per_client (rl_config l)
      then rl_shards l \<noteq> [] \<and> key_count l = total_keys (rl_shards l) \<and> key_count l \<le> max_keys (rl_config l) \<and>
        list_all (\<lambda>s. distinct (map fst s)) (rl_shards l)
      else global_bucket l \<noteq> None)"

lemma pruneExpired_eq:
  "length s \<le> n \<Longrightarrow> pruneExpired c s n now =
     (filter (\<lambda>(k, cb). \<not> expired c now cb) s, n - (length s - length (filter (\<lambda>(k, cb). \<not> expired c now cb) s)))"
proof (induction s arbitrary: n)
  case (Cons x s)
  have le: "length (filter (\<lambda>(k, cb). \<not> expired c now cb) s) \<le> length s" by (rule length_filter_le)
  obtain k cb where x: "x = (k, cb)" by fastforce
  with Cons le show ?case by (auto simp: Suc_diff_le)
qed simp

lemma total_keys_update:
  "i < length ss \<Longrightarrow> total_keys (ss[i := s]) + length (ss ! i) = total_keys ss + length s"
  unfolding total_keys_def
proof (induction ss arbitrary: i)
  case (Cons a ss)
  then show ?case by (cases i) auto
qed simp

lemma total_keys_nth: "i < length ss \<Longrightarrow> length (ss ! i) \<le> total_keys ss"
  unfolding total_keys_def by (metis elem_le_sum_list length_map nth_map)

lemma shard_update_keys [simp]: "map fst (shard_update k v s) = map fst s"
  by (induction s) auto

lemma length_shard_update [simp]: "length (shard_update k v s) = length s"
  by (metis length_map shard_update_keys)

lemma check_bucket_total: "\<exists>d b'. check_bucket rnd b now = Inr (d, b') \<and> \<not> key_capacity_exhausted d"
  by (auto simp: check_bucket_def bucket_allow_def retryAfter_def Let_def ebind_def)

lemma record_decision_simps [simp]:
  "rl_config (record_decision d l) = rl_config l" "rl_shards (record_decision d l) = rl_shards l"
  "key_count (record_decision d l) = key_count l" "global_bucket (record_decision d l) = global_bucket l"
  by (simp_all add: record_decision_def Let_def)

lemma limiter_inv_record [simp]: "limiter_inv (record_decision d l) = limiter_inv l"
  by (simp add: limiter_inv_def)

lemma limiter_inv_make: "RateLimiter_make c t = Inr l \<Longrightarrow> limiter_inv l \<and> rl_config l = c"
  by (auto simp: RateLimiter_make_def limiter_inv_def TokenBucket_make_def total_keys_def
      list_all_iff Let_def split: if_splits)

text \<open>A pruned shard put in the place of the old one, with the key count that goes with it.\<close>

lemma limiter_inv_prune:
  assumes "limiter_inv l" "per_client (rl_config l)" "i < length (rl_shards l)"
    and "pruneExpired (rl_config l) (rl_shards l ! i) (key_count l) now = (s, n)"
  shows "distinct (map fst s)" "n \<le> max_keys (rl_config l)"
    and "length s' = length s + k \<Longrightarrow> distinct (map fst s') \<Longrightarrow> n + k \<le> max_keys (rl_config l) \<Longrightarrow>
      limiter_inv (l\<lparr>rl_shards := (rl_shards l)[i := s'], key_count := n + k\<rparr>)"
proof -
  let ?s = "rl_shards l ! i"
  have inv: "key_count l = total_keys (rl_shards l)" "key_count l \<le> max_keys (rl_config l)"
      "list_all (\<lambda>s. distinct (map fst s)) (rl_shards l)"
    using assms(1,2) by (simp_all add: limiter_inv_def)
  have len: "length ?s \<le> key_count l" using total_keys_nth [OF assms(3)] inv(1) by simp
  have s: "s = filter (\<lambda>(k, cb). \<not> expired (rl_config l) now cb) ?s" "n = key_count l - (length ?s - length s)"
    using assms(4) unfolding pruneExpired_eq [OF len] by auto
  have dist: "distinct (map fst ?s)" using inv(3) assms(3) by (simp add: list_all_length)
  then show "distinct (map fst s)" unfolding s(1) by (rule distinct_map_filter)
  show "n \<le> max_keys (rl_config l)" using s(2) inv(2) by simp
  assume s': "length s' = length s + k" "distinct (map fst s')" "n + k \<le> max_keys (rl_config l)"
  have "length s \<le> length ?s" unfolding s(1) by (rule length_filter_le)
  then have "n + k = total_keys ((rl_shards l)[i := s'])"
    using total_keys_update [OF assms(3), of s'] s(2) s'(1) inv(1) len by linarith
  moreover have "list_all (\<lambda>s. distinct (map fst s)) ((rl_shards l)[i := s'])"
    using inv(3) s'(2) set_update_subset_insert [of "rl_shards l" i s'] by (auto simp: list_all_iff)
  ultimately show "limiter_inv (l\<lparr>rl_shards := (rl_shards l)[i := s'], key_count := n + k\<rparr>)"
    using assms(1,2) s'(3) by (simp add: limiter_inv_def)
qed

lemma checkClient_inv:
  assumes "limiter_inv l" "per_client (rl_config l)"
  shows "\<exists>d l'. checkClient rnd hash l key now = Inr (d, l') \<and> limiter_inv l' \<and> rl_config l' = rl_config l"
proof -
  let ?c = "rl_config l" and ?k = "if key = [] then ''unknown'' else key"
  define i where "i = hash ?k mod length (rl_shards l)"
  have i: "i < length (rl_shards l)" using assms by (simp add: i_def limiter_inv_def)
  obtain s n where p: "pruneExpired ?c (rl_shards l ! i) (key_count l) now = (s, n)" by fastforce
  note inv = limiter_inv_prune [OF assms i p]
  have eq: "checkClient rnd hash l key now = (case map_of s ?k of
      None \<Rightarrow> if max_keys ?c \<le> n
        then Inr (\<lparr>allowed = False, retry_after = 1000, key_capacity_exhausted = True\<rparr>,
                  l\<lparr>rl_shards := (rl_shards l)[i := s], key_count := n\<rparr>)
        else ebind (TokenBucket_make (requests_per_second ?c) (burst ?c) now) (\<lambda>fresh.
          ebind (check_bucket rnd fresh now) (\<lambda>(d, b1).
            Inr (d, l\<lparr>rl_shards := (rl_shards l)[i := (?k, \<lparr>bucket = b1, last_seen = now\<rparr>) # s],
                      key_count := n + 1\<rparr>)))
    | Some cb \<Rightarrow> ebind (check_bucket rnd (bucket cb) now) (\<lambda>(d, b1).
        Inr (d, l\<lparr>rl_shards := (rl_shards l)[i := shard_update ?k \<lparr>bucket = b1, last_seen = now\<rparr> s],
                  key_count := n\<rparr>)))"
    using p unfolding checkClient_def Let_def i_def [symmetric] by simp
  show ?thesis
  proof (cases "map_of s ?k")
    case None
    show ?thesis
    proof (cases "max_keys ?c \<le> n")
      case True
      with None inv(3) [of s 0] inv(1,2) show ?thesis unfolding eq by simp
    next
      case False
      obtain fresh where f: "TokenBucket_make (requests_per_second ?c) (burst ?c) now = Inr fresh"
        using assms(1) by (auto simp: TokenBucket_make_def limiter_inv_def)
      obtain d b1 where "check_bucket rnd fresh now = Inr (d, b1)" using check_bucket_total by blast
      moreover have "?k \<notin> fst ` set s" using None by (simp add: map_of_eq_None_iff)
      ultimately show ?thesis
        unfolding eq using None False f inv(3) [of "(?k, \<lparr>bucket = b1, last_seen = now\<rparr>) # s" 1] inv(1)
        by simp
    qed
  next
    case (Some cb)
    obtain d b1 where "check_bucket rnd (bucket cb) now = Inr (d, b1)" using check_bucket_total by blast
    with Some inv(3) [of "shard_update ?k \<lparr>bucket = b1, last_seen = now\<rparr> s" 0] inv(1,2) show ?thesis
      unfolding eq by simp
  qed
qed

lemma check_inv:
  assumes "limiter_inv l"
  shows "\<exists>d l'. check rnd hash l key now = Inr (d, l') \<and> limiter_inv l' \<and> rl_config l' = rl_config l"
proof (cases "per_client (rl_config l)")
  case True
  with checkClient_inv [OF assms True, of rnd hash key now] show ?thesis by (auto simp: check_def)
next
  case False
  then obtain b where "global_bucket l = Some b" using assms by (auto simp: limiter_inv_def)
  moreover obtain d b' where "check_bucket rnd b now = Inr (d, b')" using check_bucket_total by blast
  ultimately have "check rnd hash l key now = Inr (d, record_decision d (l\<lparr>global_bucket := Some b'\<rparr>))"
    using False by (simp add: check_def)
  with False assms show ?thesis by (simp add: limiter_inv_def)
qed

section \<open>Properties\<close>

definition sample_bucket :: TokenBucket where
  "sample_bucket = \<lparr>rate_per_second = 2, capacity = 3, available_tokens = 0, last_refill = 0\<rparr>"

lemma sample_bucket_inv: "bucket_inv sample_bucket"
  by (simp add: bucket_inv_def sample_bucket_def)

text \<open>
  C30: the rate is enforced, rounding included. For any monotone rounding with relative error u and
  absolute error h that keeps zero and the capacity, and whatever the times of the requests (also out of
  order), a bucket never admits more than its capacity plus what the rate grants for the time that passed,
  the latter up to the factor (1 + u)^4 of the four roundings of a refill, plus for each request asked the
  rounding errors of one refill and one subtraction, which \<open>request_error\<close> writes out. With u = h = 0,
  exact arithmetic, that is the burst plus the rate over any period.
\<close>

theorem bucket_enforces_rate:
  assumes "rounding rnd" "rounding_error rnd u h" "rnd (capacity b) = capacity b"
    and "bucket_inv b" "bucket_run rnd b ts = Inr (n, b')"
  shows "real n \<le> capacity b +
     (1 + u) ^ 4 * (of_int (last_refill b' - last_refill b) / 1000000000 * rate_per_second b) +
     real (length ts) * request_error u h b"
  using bucket_run_potential [OF assms] assms(4) by (auto simp: bucket_inv_def granted_def)

text \<open>A rounding that is not exact: down to multiples of an eighth.\<close>

definition round_eighth :: "real \<Rightarrow> real" where
  "round_eighth x = of_int \<lfloor>8 * x\<rfloor> / 8"

lemma round_eighth: "rounding round_eighth" "rounding_error round_eighth 0 (1 / 8)"
proof -
  show "rounding round_eighth" by (auto simp: rounding_def round_eighth_def mono_def floor_mono divide_right_mono)
  have "\<bar>round_eighth x - x\<bar> \<le> 1 / 8" for x :: real
  proof -
    have "of_int \<lfloor>8 * x\<rfloor> \<le> 8 * x" "8 * x < of_int \<lfloor>8 * x\<rfloor> + 1" by linarith+
    then show ?thesis by (simp add: round_eighth_def abs_le_iff field_simps)
  qed
  then show "rounding_error round_eighth 0 (1 / 8)" by (simp add: rounding_error_def)
qed

theorem bucket_enforces_rate_witness:
  "\<exists>n b'. bucket_run round_eighth sample_bucket [500000000, 500000001, 1000000000] = Inr (n, b') \<and>
     real n \<le> 3 + of_int (last_refill b') / 1000000000 * 2 + 3 * request_error 0 (1 / 8) sample_bucket"
proof -
  obtain n b' where run: "bucket_run round_eighth sample_bucket [500000000, 500000001, 1000000000] = Inr (n, b')"
    using bucket_run_total by blast
  have "round_eighth (capacity sample_bucket) = capacity sample_bucket" by (simp add: round_eighth_def sample_bucket_def)
  from bucket_enforces_rate [OF round_eighth this sample_bucket_inv run] run show ?thesis
    by (auto simp: sample_bucket_def)
qed

text \<open>
  with any monotone rounding that keeps zero and the (representable) capacity, a bucket holds
  between nothing and its capacity after every request, admitted or not.
\<close>

theorem bucket_stays_within_capacity:
  assumes "rounding rnd" "rnd (capacity b) = capacity b" "bucket_inv b"
    and "bucket_allow rnd b tokens now = Inr (ok, b')"
  shows "0 \<le> available_tokens b' \<and> available_tokens b' \<le> capacity b \<and> capacity b' = capacity b"
  using bucket_allow_inv [OF assms] by (auto simp: bucket_inv_def)

text \<open>A coarse rounding, down to integers, as an instance that is not exact arithmetic.\<close>

definition round_down :: "real \<Rightarrow> real" where
  "round_down x = of_int \<lfloor>x\<rfloor>"

theorem bucket_stays_within_capacity_witness:
  "\<exists>ok b'. bucket_allow round_down sample_bucket (Finite 1) 9000000000 = Inr (ok, b') \<and>
     0 \<le> available_tokens b' \<and> available_tokens b' \<le> 3"
proof -
  have "rounding round_down" by (auto simp: rounding_def round_down_def mono_def floor_mono)
  moreover have "round_down (capacity sample_bucket) = capacity sample_bucket"
    by (simp add: round_down_def sample_bucket_def)
  moreover obtain ok b' where r: "bucket_allow round_down sample_bucket (Finite 1) 9000000000 = Inr (ok, b')"
    using bucket_allow_total [of 1] by fastforce
  ultimately show ?thesis
    using bucket_stays_within_capacity [OF _ _ sample_bucket_inv r] by (auto simp: sample_bucket_def)
qed

lemma refill_wait:
  assumes "bucket_inv b" "last_refill b = now" "now \<le> now'"
  shows "available_tokens (refill (\<lambda>x. x) b now') =
     min (capacity b) (available_tokens b + of_int (now' - now) / 1000000000 * rate_per_second b)"
  using assms by (auto simp: refill_def Let_def bucket_inv_def min_def)

text \<open>
  the wait announced to a rejected client is right to the millisecond. In exact arithmetic,
  for a burst of at least one request, a request after the announced wait is admitted if the
  bucket was not used in between, and any request a millisecond or more earlier is rejected.
\<close>

theorem retry_after_is_exact:
  assumes "bucket_inv b" "last_refill b \<le> now" "1 \<le> capacity b"
    and "bucket_allow (\<lambda>x. x) b (Finite 1) now = Inr (False, b1)" "retryAfter (\<lambda>x. x) b1 (Finite 1) now = Inr (wait, b2)"
    and "now \<le> now'"
  shows "(now + wait * 1000000 \<le> now' \<longrightarrow> (\<exists>b3. bucket_allow (\<lambda>x. x) b2 (Finite 1) now' = Inr (True, b3))) \<and>
     (now' \<le> now + (wait - 1) * 1000000 \<longrightarrow> (\<exists>b3. bucket_allow (\<lambda>x. x) b2 (Finite 1) now' = Inr (False, b3)))"
proof -
  have b1: "b1 = refill (\<lambda>x. x) b now" "available_tokens b1 < 1"
    using assms(4) by (auto simp: bucket_allow_def Let_def split: if_splits)
  let ?r = "rate_per_second b" and ?a = "available_tokens b1"
  have inv: "bucket_inv b1" using bucket_inv_refill [OF rounding_exact assms(1)] b1(1) by simp
  then have r: "0 < ?r" using b1(1) by (simp add: bucket_inv_def)
  have b2: "b2 = b1" "wait = \<lceil>(1 - ?a) / ?r * 1000\<rceil>"
    using assms(5) b1 by (auto simp: retryAfter_def Let_def split: if_splits)
  have now: "last_refill b1 = now" using b1(1) assms(2) by (simp add: last_refill_max)
  have avail: "available_tokens (refill (\<lambda>x. x) b1 now') =
      min (capacity b) (?a + of_int (now' - now) / 1000000000 * ?r)"
    using refill_wait [OF inv now assms(6)] b1(1) by simp
  define x where "x = (1 - ?a) / ?r * 1000"
  have w: "x \<le> of_int wait" "of_int wait - 1 < x"
    unfolding b2(2) x_def [symmetric] by linarith+
  have "1 \<le> ?a + of_int (now' - now) / 1000000000 * ?r" if "now + wait * 1000000 \<le> now'"
  proof -
    have "of_int (wait * 1000000) \<le> (of_int (now' - now) :: real)"
      using that unfolding of_int_le_iff by linarith
    then have "x * 1000000 \<le> of_int (now' - now)"
      using w(1) unfolding of_int_mult of_int_numeral by linarith
    then have "(1 - ?a) * 1000000000 \<le> of_int (now' - now) * ?r"
      using r by (simp add: x_def field_simps)
    then show ?thesis by (simp add: field_simps)
  qed
  moreover have "?a + of_int (now' - now) / 1000000000 * ?r < 1" if "now' \<le> now + (wait - 1) * 1000000"
  proof -
    have "of_int (now' - now) \<le> (of_int ((wait - 1) * 1000000) :: real)"
      using that unfolding of_int_le_iff by linarith
    also have "\<dots> = (of_int wait - 1) * (1000000::real)" by simp
    also have "\<dots> < x * 1000000" using w(2) by simp
    finally have "of_int (now' - now) < x * 1000000" .
    then have "of_int (now' - now) * ?r < (1 - ?a) * 1000000000"
      using r by (simp add: x_def field_simps)
    then show ?thesis by (simp add: field_simps)
  qed
  ultimately show ?thesis
    using avail b2(1) assms(3) by (auto simp: bucket_allow_def Let_def)
qed

theorem retry_after_is_exact_witness:
  "\<exists>b1 wait b2. bucket_allow (\<lambda>x. x) sample_bucket (Finite 1) 0 = Inr (False, b1) \<and>
     retryAfter (\<lambda>x. x) b1 (Finite 1) 0 = Inr (wait, b2) \<and> wait = 500 \<and>
     (\<exists>b3. bucket_allow (\<lambda>x. x) b2 (Finite 1) 500000000 = Inr (True, b3))"
proof -
  have a: "bucket_allow (\<lambda>x. x) sample_bucket (Finite 1) 0 = Inr (False, sample_bucket)"
    by (simp add: bucket_allow_def refill_def sample_bucket_def)
  have r: "retryAfter (\<lambda>x. x) sample_bucket (Finite 1) 0 = Inr (500, sample_bucket)"
    by (simp add: retryAfter_def refill_def sample_bucket_def)
  from retry_after_is_exact [OF sample_bucket_inv _ _ a r, of 500000000] a r show ?thesis
    by (simp add: sample_bucket_def)
qed

fun check_all :: "(real \<Rightarrow> real) \<Rightarrow> (string \<Rightarrow> nat) \<Rightarrow> RateLimiter \<Rightarrow> (string \<times> int) list \<Rightarrow> RateLimiter outcome" where
  "check_all rnd hash l [] = Inr l"
| "check_all rnd hash l ((k, t) # rest) = ebind (check rnd hash l k t) (\<lambda>(d, l1). check_all rnd hash l1 rest)"

lemma check_all_inv:
  "limiter_inv l \<Longrightarrow> \<exists>l'. check_all rnd hash l reqs = Inr l' \<and> limiter_inv l' \<and> rl_config l' = rl_config l"
proof (induction reqs arbitrary: l)
  case (Cons x reqs)
  obtain k t where x: "x = (k, t)" by fastforce
  from check_inv [OF Cons.prems, of rnd hash k t] obtain d l1 where
    "check rnd hash l k t = Inr (d, l1)" "limiter_inv l1" "rl_config l1 = rl_config l" by blast
  with Cons.IH [of l1] x show ?case by auto
qed simp

text \<open>
  bounded memory per limiter. Whatever keys clients present and whatever the clock says, every
  check of a limiter that was constructed succeeds without throwing, the shared key count is
  exactly the number of buckets in all shards, and it never exceeds the configured maximum.
\<close>

theorem limiter_memory_is_bounded:
  assumes "RateLimiter_make c t0 = Inr l" "per_client c"
  shows "\<exists>l'. check_all rnd hash l reqs = Inr l' \<and> key_count l' = total_keys (rl_shards l') \<and>
     total_keys (rl_shards l') \<le> max_keys c"
  using check_all_inv [of l rnd hash reqs] limiter_inv_make [OF assms(1)] assms(2)
  by (auto simp: limiter_inv_def)

definition sample_limit_config :: RateLimitConfig where
  "sample_limit_config = \<lparr>requests_per_second = Finite 2, burst = Finite 3, per_client = True, shard_count = 2,
     max_keys = 1, idle_ttl = 1000\<rparr>"

theorem limiter_memory_is_bounded_witness:
  "\<exists>l l'. RateLimiter_make sample_limit_config 0 = Inr l \<and>
     check_all (\<lambda>x. x) length l [(''a'', 1), (''bb'', 2), ([], 3)] = Inr l' \<and> total_keys (rl_shards l') \<le> 1"
proof -
  obtain l where l: "RateLimiter_make sample_limit_config 0 = Inr l"
    by (simp add: RateLimiter_make_def sample_limit_config_def)
  from limiter_memory_is_bounded [OF l, of "\<lambda>x. x" length "[(''a'', 1), (''bb'', 2), ([], 3)]"] l
  show ?thesis by (auto simp: sample_limit_config_def)
qed

end
