(* ===== verification/ResponseCache.thy ===== *)
theory ResponseCache
  imports Messages
begin

text \<open>
  The response cache of \<open>src/http/response_cache.cpp\<close>: shards with an LRU list, a hash index
  into the list and a byte budget; what may be cached; and the cache key. A list iterator is the
  identity of its node, a number that is never reused; an iterator whose node is gone would be
  \<open>Undefined_Behaviour\<close>. The hash function is the argument \<open>hash\<close>. Times are nanoseconds.
\<close>

section \<open>State\<close>

record ResponseCacheConfig =
  ttl :: int
  max_entry_bytes :: nat
  max_bytes :: nat
  cc_shard_count :: nat
  vary_headers :: "string list"

record CacheEntry =
  ce_response :: HttpResponse
  expires_at :: int
  ce_charge :: nat

record cache_node =
  nd_id :: nat
  nd_key :: string
  nd_entry :: CacheEntry

record CacheShard =
  lru :: "cache_node list"
  index :: "string \<rightharpoonup> nat"
  current_bytes :: nat
  sh_max_bytes :: nat
  next_id :: nat

record ResponseCache =
  rc_config :: ResponseCacheConfig
  rc_shards :: "CacheShard list"
  hits :: nat
  misses :: nat
  stores :: nat
  evictions :: nat
  expired_entries :: nat

section \<open>What may be cached\<close>

function containsDirective :: "string \<Rightarrow> string \<Rightarrow> bool" where
  "containsDirective value directive =
     (if value = [] then False
      else
        let comma = find_char (CHR '','') value;
            item0 = trim (upto comma value);
            item = trim (upto (find_char (CHR ''='') item0) item0)
        in if lower item = directive then True
           else (case comma of
                   None \<Rightarrow> False
                 | Some k \<Rightarrow> containsDirective (drop (k + 1) value) directive))"
  by pat_completeness auto
termination
  by (relation "measure (\<lambda>(value, d). length value)") auto

declare containsDirective.simps [simp del]

definition hasSensitiveResponseHeaders :: "headers \<Rightarrow> bool" where
  "hasSensitiveResponseHeaders h =
     (headers_contains h ''set-cookie'' \<or>
      list_ex (\<lambda>v. containsDirective v ''no-store'' \<or> containsDirective v ''private'')
        (headers_values h ''cache-control''))"

function vary_value_covered :: "string \<Rightarrow> ResponseCacheConfig \<Rightarrow> bool" where
  "vary_value_covered pending c =
     (if pending = [] then True
      else
        let comma = find_char (CHR '','') pending;
            name = normalizeHeaderName (trim (upto comma pending))
        in if \<not> isValidHeaderName name \<or> name = ''*'' \<or>
              \<not> list_ex (\<lambda>h. normalizeHeaderName h = name) (vary_headers c)
           then False
           else (case comma of
                   None \<Rightarrow> True
                 | Some k \<Rightarrow> vary_value_covered (drop (k + 1) pending) c))"
  by pat_completeness auto
termination
  by (relation "measure (\<lambda>(pending, c). length pending)") auto

declare vary_value_covered.simps [simp del]

definition varyIsCovered :: "headers \<Rightarrow> ResponseCacheConfig \<Rightarrow> bool" where
  "varyIsCovered h c = list_all (\<lambda>v. vary_value_covered v c) (headers_values h ''vary'')"

definition cacheableRequest :: "HttpRequest \<Rightarrow> bool" where
  "cacheableRequest rq =
     ((rq_method rq = Get \<or> rq_method rq = Head) \<and> \<not> headers_contains (rq_headers rq) ''authorization'' \<and>
      \<not> headers_contains (rq_headers rq) ''cookie'')"

definition cacheableResponse :: "HttpResponse \<Rightarrow> ResponseCacheConfig \<Rightarrow> bool" where
  "cacheableResponse r c =
     (rs_status_code r = 200 \<and> \<not> rs_already_written r \<and> length (rs_body r) < max_entry_bytes c \<and>
      \<not> hasSensitiveResponseHeaders (rs_headers r) \<and> varyIsCovered (rs_headers r) c)"

section \<open>Keys\<close>

definition appendField :: "string \<Rightarrow> string \<Rightarrow> string" where
  "appendField output value = output @ to_string (length value) @ '':'' @ value @ ''|''"

fun append_values :: "string \<Rightarrow> string list \<Rightarrow> string" where
  "append_values key [] = key"
| "append_values key (v # vs) = append_values (appendField key v) vs"

fun append_vary :: "string \<Rightarrow> HttpRequest \<Rightarrow> string list \<Rightarrow> string" where
  "append_vary key rq [] = key"
| "append_vary key rq (h # hs) =
     append_vary (appendField (append_values (appendField key h) (headers_values (rq_headers rq) h)) []) rq hs"

definition makeKey :: "HttpRequest \<Rightarrow> ResponseCacheConfig \<Rightarrow> string" where
  "makeKey rq c =
     (let question = find_char (CHR ''?'') (rq_target rq);
          path0 = upto question (rq_target rq);
          path = (if path0 = [] then ''/'' else path0);
          query = (case question of None \<Rightarrow> [] | Some k \<Rightarrow> drop (k + 1) (rq_target rq));
          host = lower (case headers_get (rq_headers rq) ''host'' of None \<Rightarrow> [] | Some h \<Rightarrow> h);
          key = appendField (appendField (appendField (appendField [] ''http'') host) path) query
      in append_vary key rq (vary_headers c))"

section \<open>Construction\<close>

fun normalize_vary :: "string list \<Rightarrow> string list outcome" where
  "normalize_vary [] = Inr []"
| "normalize_vary (h # hs) =
     (if \<not> isValidHeaderName (normalizeHeaderName h) then Inl Invalid_Argument
      else ebind (normalize_vary hs) (\<lambda>rest. Inr (normalizeHeaderName h # rest)))"

definition shard_make :: "nat \<Rightarrow> CacheShard" where
  "shard_make byte_limit = \<lparr>lru = [], index = Map.empty, current_bytes = 0, sh_max_bytes = byte_limit,
     next_id = 0\<rparr>"

definition ResponseCache_make :: "ResponseCacheConfig \<Rightarrow> ResponseCache outcome" where
  "ResponseCache_make c0 =
     (if ttl c0 \<le> 0 \<or> max_entry_bytes c0 = 0 \<or> max_bytes c0 < max_entry_bytes c0 \<or> max_bytes c0 = 0 \<or>
         cc_shard_count c0 = 0 \<or> max_bytes c0 < cc_shard_count c0 \<or>
         max_bytes c0 div cc_shard_count c0 < max_entry_bytes c0
      then Inl Invalid_Argument
      else ebind (normalize_vary (vary_headers c0)) (\<lambda>names.
        let c = c0\<lparr>vary_headers := remdups_adj (sort names)\<rparr>;
            base = max_bytes c div cc_shard_count c;
            remainder = max_bytes c mod cc_shard_count c
        in Inr \<lparr>rc_config = c,
                rc_shards = map (\<lambda>i. shard_make (base + (if i < remainder then 1 else 0))) [0..<cc_shard_count c],
                hits = 0, misses = 0, stores = 0, evictions = 0, expired_entries = 0\<rparr>))"

section \<open>Operations\<close>

definition shardFor :: "(string \<Rightarrow> nat) \<Rightarrow> ResponseCache \<Rightarrow> string \<Rightarrow> nat" where
  "shardFor hash c key = hash key mod length (rc_shards c)"

fun charge_headers :: "headers \<Rightarrow> nat \<Rightarrow> nat" where
  "charge_headers [] result = result"
| "charge_headers (h # hs) result =
     (if size_max - result < length (h_name h) \<or> size_max - result - length (h_name h) < length (h_value h)
      then size_max
      else charge_headers hs (result + (length (h_name h) + length (h_value h))))"

definition charge :: "string \<Rightarrow> HttpResponse \<Rightarrow> nat" where
  "charge key r =
     (if size_max - length (rs_reason r) < length key \<or>
         size_max - length key - length (rs_reason r) < length (rs_body r)
      then size_max
      else charge_headers (rs_headers r) (length key + length (rs_reason r) + length (rs_body r)))"

text \<open>The node an iterator stands for; erasing unlinks it and forgets its key.\<close>

definition node_at :: "CacheShard \<Rightarrow> nat \<Rightarrow> cache_node outcome" where
  "node_at sh i = (case find (\<lambda>n. nd_id n = i) (lru sh) of None \<Rightarrow> Inl Undefined_Behaviour | Some n \<Rightarrow> Inr n)"

definition cache_erase :: "CacheShard \<Rightarrow> nat \<Rightarrow> CacheShard outcome" where
  "cache_erase sh i =
     ebind (node_at sh i) (\<lambda>n.
       Inr (sh\<lparr>current_bytes := current_bytes sh - ce_charge (nd_entry n),
               index := (index sh)(nd_key n := None),
               lru := filter (\<lambda>m. nd_id m \<noteq> i) (lru sh)\<rparr>))"

lemma node_at_Inr: "node_at sh i = Inr n \<Longrightarrow> n \<in> set (lru sh) \<and> nd_id n = i"
  by (auto simp: node_at_def find_Some_iff split: option.splits)

lemma cache_erase_shorter:
  assumes "cache_erase sh i = Inr sh'"
  shows "length (lru sh') < length (lru sh)"
proof -
  from assms obtain n where n: "node_at sh i = Inr n" "lru sh' = filter (\<lambda>m. nd_id m \<noteq> i) (lru sh)"
    by (auto simp: cache_erase_def ebind_eq_Inr_iff)
  from node_at_Inr [OF n(1)] have "length (filter (\<lambda>m. nd_id m \<noteq> i) (lru sh)) < length (lru sh)"
    by (intro length_filter_less [of n]) auto
  with n(2) show ?thesis by simp
qed

definition cache_get :: "(string \<Rightarrow> nat) \<Rightarrow> ResponseCache \<Rightarrow> string \<Rightarrow> int \<Rightarrow>
    (HttpResponse option \<times> ResponseCache) outcome" where
  "cache_get hash c key now =
     (let i = shardFor hash c key; sh = rc_shards c ! i in
      case index sh key of
        None \<Rightarrow> Inr (None, c\<lparr>misses := u64_inc (misses c)\<rparr>)
      | Some it \<Rightarrow>
          ebind (node_at sh it) (\<lambda>n.
            if expires_at (nd_entry n) \<le> now then
              ebind (cache_erase sh it) (\<lambda>sh'.
                Inr (None, c\<lparr>rc_shards := (rc_shards c)[i := sh'],
                             expired_entries := u64_inc (expired_entries c),
                             misses := u64_inc (misses c)\<rparr>))
            else
              Inr (Some (ce_response (nd_entry n)),
                   c\<lparr>rc_shards := (rc_shards c)[i := sh\<lparr>lru := n # filter (\<lambda>m. nd_id m \<noteq> it) (lru sh)\<rparr>],
                     hits := u64_inc (hits c)\<rparr>)))"

text \<open>The eviction loop of \<open>put\<close>, with the number of entries it evicted.\<close>

function evict_loop :: "CacheShard \<Rightarrow> nat \<Rightarrow> nat \<Rightarrow> (CacheShard \<times> nat) outcome" where
  "evict_loop sh entry_charge evicted =
     (if lru sh \<noteq> [] \<and> sh_max_bytes sh - entry_charge < current_bytes sh then
        ebind (cache_erase sh (nd_id (last (lru sh)))) (\<lambda>sh'. evict_loop sh' entry_charge (u64_inc evicted))
      else Inr (sh, evicted))"
  by pat_completeness auto
termination
  by (relation "measure (\<lambda>(sh, e, n). length (lru sh))") (auto dest: cache_erase_shorter)

declare evict_loop.simps [simp del]

definition cache_put :: "(string \<Rightarrow> nat) \<Rightarrow> ResponseCache \<Rightarrow> string \<Rightarrow> HttpResponse \<Rightarrow> int \<Rightarrow>
    (bool \<times> ResponseCache) outcome" where
  "cache_put hash c key r now =
     (let entry_charge = charge key r; i = shardFor hash c key; sh = rc_shards c ! i in
      if sh_max_bytes sh < entry_charge then Inr (False, c)
      else
        ebind (case index sh key of None \<Rightarrow> Inr sh | Some it \<Rightarrow> cache_erase sh it) (\<lambda>sh1.
          ebind (evict_loop sh1 entry_charge (evictions c)) (\<lambda>(sh2, evicted).
            let entry = \<lparr>ce_response = r, expires_at = now + ttl (rc_config c) * 1000000, ce_charge = entry_charge\<rparr>;
                node = \<lparr>nd_id = next_id sh2, nd_key = key, nd_entry = entry\<rparr>;
                sh3 = sh2\<lparr>lru := node # lru sh2, index := (index sh2)(key \<mapsto> next_id sh2),
                          current_bytes := current_bytes sh2 + entry_charge, next_id := next_id sh2 + 1\<rparr>
            in Inr (True, c\<lparr>rc_shards := (rc_shards c)[i := sh3], evictions := evicted,
                            stores := u64_inc (stores c)\<rparr>))))"

section \<open>The shard as an LRU list\<close>

text \<open>The abstract shard: keys with their entries, most recently used first.\<close>

type_synonym lru_list = "(string \<times> CacheEntry) list"

definition shard_view :: "CacheShard \<Rightarrow> lru_list" where
  "shard_view sh = map (\<lambda>n. (nd_key n, nd_entry n)) (lru sh)"

definition bytes_of :: "lru_list \<Rightarrow> nat" where
  "bytes_of v = sum_list (map (\<lambda>(k, e). ce_charge e) v)"

definition lru_remove :: "string \<Rightarrow> lru_list \<Rightarrow> lru_list" where
  "lru_remove k v = filter (\<lambda>(k', e). k' \<noteq> k) v"

definition lru_get :: "lru_list \<Rightarrow> string \<Rightarrow> int \<Rightarrow> HttpResponse option \<times> lru_list" where
  "lru_get v k now =
     (case map_of v k of
        None \<Rightarrow> (None, v)
      | Some e \<Rightarrow> if expires_at e \<le> now then (None, lru_remove k v)
                  else (Some (ce_response e), (k, e) # lru_remove k v))"

text \<open>Evicting drops least recently used entries until the rest fits.\<close>

fun lru_evict :: "nat \<Rightarrow> lru_list \<Rightarrow> lru_list" where
  "lru_evict budget [] = []"
| "lru_evict budget v = (if budget < bytes_of v then lru_evict budget (butlast v) else v)"

definition lru_put :: "lru_list \<Rightarrow> nat \<Rightarrow> string \<Rightarrow> CacheEntry \<Rightarrow> lru_list" where
  "lru_put v limit k e = (k, e) # lru_evict (limit - ce_charge e) (lru_remove k v)"

definition shard_inv :: "CacheShard \<Rightarrow> bool" where
  "shard_inv sh \<longleftrightarrow> distinct (map nd_id (lru sh)) \<and> distinct (map nd_key (lru sh)) \<and>
     list_all (\<lambda>n. nd_id n < next_id sh) (lru sh) \<and>
     index sh = map_of (map (\<lambda>n. (nd_key n, nd_id n)) (lru sh)) \<and>
     current_bytes sh = bytes_of (shard_view sh) \<and> current_bytes sh \<le> sh_max_bytes sh"

subsection \<open>Refinement\<close>

lemma bytes_of_simps [simp]:
  "bytes_of [] = 0" "bytes_of ((k, e) # v) = ce_charge e + bytes_of v" "bytes_of (u @ v) = bytes_of u + bytes_of v"
  by (simp_all add: bytes_of_def)

lemma bytes_of_butlast: "bytes_of (butlast v) \<le> bytes_of v"
  by (induction v rule: rev_induct) auto

lemma lru_evict_rec:
  "lru_evict b v = (if v \<noteq> [] \<and> b < bytes_of v then lru_evict b (butlast v) else v)"
  by (cases v) (simp_all only: lru_evict.simps, simp_all)

lemma lru_evict_bound: "bytes_of (lru_evict budget v) \<le> budget"
  by (induction budget v rule: lru_evict.induct) auto

lemma lru_evict_prefix: "prefix (lru_evict budget v) v"
proof (induction budget v rule: lru_evict.induct)
  case (2 budget x v)
  show ?case
  proof (cases "budget < bytes_of (x # v)")
    case True
    from prefix_order.trans [OF "2" [OF True] prefixeq_butlast] True show ?thesis by simp
  qed simp
qed simp

lemma map_of_view:
  "distinct (map nd_key ns) \<Longrightarrow> n \<in> set ns \<Longrightarrow>
     map_of (map (\<lambda>n. (nd_key n, f n)) ns) (nd_key n) = Some (f n)"
  by (induction ns) (auto simp: image_iff)

lemma map_of_view_SomeD:
  "map_of (map (\<lambda>n. (nd_key n, f n)) ns) k = Some x \<Longrightarrow> \<exists>n \<in> set ns. nd_key n = k \<and> f n = x"
  by (induction ns) (auto split: if_splits)

lemma map_of_view_None: "map_of (map (\<lambda>n. (nd_key n, f n)) ns) k = None \<longleftrightarrow> k \<notin> nd_key ` set ns"
  by (auto simp: map_of_eq_None_iff image_iff)

text \<open>In a consistent shard an iterator of the index always finds its node, and ids and keys agree.\<close>

lemma node_at_member:
  assumes "shard_inv sh" "n \<in> set (lru sh)"
  shows "node_at sh (nd_id n) = Inr n"
proof -
  have "find (\<lambda>m. nd_id m = nd_id n) ns = Some n" if "distinct (map nd_id ns)" "n \<in> set ns" for ns
    using that by (induction ns) (auto simp: image_iff)
  with assms show ?thesis by (simp add: node_at_def shard_inv_def)
qed

lemma same_node:
  assumes "shard_inv sh" "n \<in> set (lru sh)" "m \<in> set (lru sh)"
  shows "nd_id m = nd_id n \<longleftrightarrow> nd_key m = nd_key n"
proof -
  have "inj_on nd_id (set (lru sh))" "inj_on nd_key (set (lru sh))"
    using assms(1) by (simp_all add: shard_inv_def distinct_map)
  with assms(2,3) show ?thesis by (metis inj_onD)
qed

lemma filter_by_id:
  assumes "shard_inv sh" "n \<in> set (lru sh)"
  shows "filter (\<lambda>m. nd_id m \<noteq> nd_id n) (lru sh) = filter (\<lambda>m. nd_key m \<noteq> nd_key n) (lru sh)"
  by (rule filter_cong) (use same_node [OF assms] in auto)

lemma view_remove: "map (\<lambda>n. (nd_key n, nd_entry n)) (filter (\<lambda>m. nd_key m \<noteq> k) ns) =
    lru_remove k (map (\<lambda>n. (nd_key n, nd_entry n)) ns)"
  by (induction ns) (auto simp: lru_remove_def)

lemma index_remove:
  "map_of (map (\<lambda>n. (nd_key n, nd_id n)) (filter (\<lambda>m. nd_key m \<noteq> k) ns)) =
     (map_of (map (\<lambda>n. (nd_key n, nd_id n)) ns))(k := None)"
  by (induction ns) auto

lemma bytes_remove:
  "distinct (map nd_key ns) \<Longrightarrow> n \<in> set ns \<Longrightarrow>
     bytes_of (lru_remove (nd_key n) (map (\<lambda>n. (nd_key n, nd_entry n)) ns)) + ce_charge (nd_entry n) =
     bytes_of (map (\<lambda>n. (nd_key n, nd_entry n)) ns)"
proof (induction ns)
  case (Cons m ns)
  have none: "lru_remove k (map (\<lambda>n. (nd_key n, nd_entry n)) ns) = map (\<lambda>n. (nd_key n, nd_entry n)) ns"
    if "k \<notin> nd_key ` set ns" for k
    using that by (auto simp: lru_remove_def filter_id_conv)
  show ?case
  proof (cases "m = n")
    case True
    with Cons.prems none [of "nd_key n"] show ?thesis by (auto simp: lru_remove_def)
  next
    case False
    with Cons show ?thesis by (auto simp: lru_remove_def image_iff)
  qed
qed simp

lemma cache_erase_ok:
  assumes "shard_inv sh" "n \<in> set (lru sh)"
  shows "\<exists>sh'. cache_erase sh (nd_id n) = Inr sh' \<and> shard_inv sh' \<and>
     shard_view sh' = lru_remove (nd_key n) (shard_view sh) \<and> sh_max_bytes sh' = sh_max_bytes sh \<and>
     next_id sh' = next_id sh \<and> index sh' (nd_key n) = None"
proof -
  let ?f = "filter (\<lambda>m. nd_key m \<noteq> nd_key n) (lru sh)"
  let ?sh = "sh\<lparr>current_bytes := current_bytes sh - ce_charge (nd_entry n),
               index := (index sh)(nd_key n := None), lru := ?f\<rparr>"
  have e: "cache_erase sh (nd_id n) = Inr ?sh"
    using node_at_member [OF assms] filter_by_id [OF assms] by (simp add: cache_erase_def)
  have v: "shard_view ?sh = lru_remove (nd_key n) (shard_view sh)"
    by (simp add: shard_view_def view_remove)
  have "bytes_of (shard_view ?sh) + ce_charge (nd_entry n) = bytes_of (shard_view sh)"
    using bytes_remove [of "lru sh" n] assms unfolding v by (simp add: shard_inv_def shard_view_def)
  then have "shard_inv ?sh"
    using assms(1) index_remove [of "nd_key n" "lru sh"]
    by (auto simp: shard_inv_def distinct_map_filter list_all_iff)
  with e v show ?thesis by simp
qed

lemma lru_remove_last:
  "distinct (map nd_key ns) \<Longrightarrow> lru_remove (nd_key (last ns)) (map (\<lambda>n. (nd_key n, nd_entry n)) ns) =
     butlast (map (\<lambda>n. (nd_key n, nd_entry n)) ns)"
  by (induction ns rule: rev_induct) (auto simp: lru_remove_def filter_id_conv butlast_append image_iff)

lemma evict_loop_ok:
  assumes "shard_inv sh"
  shows "\<exists>sh' m. evict_loop sh c n = Inr (sh', m) \<and> shard_inv sh' \<and>
     shard_view sh' = lru_evict (sh_max_bytes sh - c) (shard_view sh) \<and>
     sh_max_bytes sh' = sh_max_bytes sh \<and> next_id sh' = next_id sh"
  using assms
proof (induction "length (lru sh)" arbitrary: sh n rule: less_induct)
  case less
  have view: "shard_view sh = [] \<longleftrightarrow> lru sh = []" "current_bytes sh = bytes_of (shard_view sh)"
    using less.prems by (simp_all add: shard_inv_def shard_view_def)
  show ?case
  proof (cases "lru sh \<noteq> [] \<and> sh_max_bytes sh - c < current_bytes sh")
    case True
    let ?l = "last (lru sh)"
    have l: "?l \<in> set (lru sh)" using True by simp
    from cache_erase_ok [OF less.prems l] obtain sh1 where sh1: "cache_erase sh (nd_id ?l) = Inr sh1" "shard_inv sh1"
        "shard_view sh1 = lru_remove (nd_key ?l) (shard_view sh)" "sh_max_bytes sh1 = sh_max_bytes sh"
        "next_id sh1 = next_id sh" by blast
    have "distinct (map nd_key (lru sh))" using less.prems by (simp add: shard_inv_def)
    from lru_remove_last [OF this] have v: "shard_view sh1 = butlast (shard_view sh)"
      unfolding sh1(3) unfolding shard_view_def .
    have "\<exists>sh' m. evict_loop sh1 c (u64_inc n) = Inr (sh', m) \<and> shard_inv sh' \<and>
        shard_view sh' = lru_evict (sh_max_bytes sh1 - c) (shard_view sh1) \<and>
        sh_max_bytes sh' = sh_max_bytes sh1 \<and> next_id sh' = next_id sh1"
      using less.hyps [OF cache_erase_shorter [OF sh1(1)] sh1(2)] .
    moreover have "evict_loop sh c n = evict_loop sh1 c (u64_inc n)"
      using True sh1(1) by (subst evict_loop.simps) simp
    moreover have "lru_evict (sh_max_bytes sh - c) (shard_view sh) = lru_evict (sh_max_bytes sh - c) (butlast (shard_view sh))"
      using True view by (subst lru_evict_rec) simp
    ultimately show ?thesis using sh1(4,5) v by simp
  next
    case False
    then have "lru_evict (sh_max_bytes sh - c) (shard_view sh) = shard_view sh"
      using view by (subst lru_evict_rec) auto
    moreover have "evict_loop sh c n = Inr (sh, n)" using False by (subst evict_loop.simps) auto
    ultimately show ?thesis using less.prems by simp
  qed
qed

subsection \<open>The whole cache\<close>

definition cache_inv :: "ResponseCache \<Rightarrow> bool" where
  "cache_inv c \<longleftrightarrow> rc_shards c \<noteq> [] \<and> list_all shard_inv (rc_shards c) \<and>
     sum_list (map sh_max_bytes (rc_shards c)) \<le> max_bytes (rc_config c)"

definition cache_views :: "ResponseCache \<Rightarrow> lru_list list" where
  "cache_views c = map shard_view (rc_shards c)"

definition total_bytes :: "ResponseCache \<Rightarrow> nat" where
  "total_bytes c = sum_list (map bytes_of (cache_views c))"

lemma shardFor_less: "cache_inv c \<Longrightarrow> shardFor hash c k < length (rc_shards c)"
  by (simp add: cache_inv_def shardFor_def)

lemma cache_inv_shard: "cache_inv c \<Longrightarrow> i < length (rc_shards c) \<Longrightarrow> shard_inv (rc_shards c ! i)"
  by (simp add: cache_inv_def list_all_length)

lemma cache_inv_update:
  assumes "cache_inv c" "i < length (rc_shards c)" "shard_inv sh" "sh_max_bytes sh = sh_max_bytes (rc_shards c ! i)"
    and "rc_shards c' = (rc_shards c)[i := sh]" "rc_config c' = rc_config c"
  shows "cache_inv c'" "cache_views c' = (cache_views c)[i := shard_view sh]"
    "map sh_max_bytes (rc_shards c') = map sh_max_bytes (rc_shards c)"
proof -
  show m: "map sh_max_bytes (rc_shards c') = map sh_max_bytes (rc_shards c)"
    using assms(2,4,5) by (metis list_update_id map_update nth_map length_map)
  have "list_all shard_inv (rc_shards c')"
    using assms(1,3,5) set_update_subset_insert [of "rc_shards c" i sh]
    by (auto simp: cache_inv_def list_all_iff)
  with assms m show "cache_inv c'" by (auto simp: cache_inv_def)
  show "cache_views c' = (cache_views c)[i := shard_view sh]"
    using assms(5) by (simp add: cache_views_def map_update)
qed

lemma total_bytes_bound: "cache_inv c \<Longrightarrow> total_bytes c \<le> max_bytes (rc_config c)"
proof -
  assume c: "cache_inv c"
  have "sum_list (map bytes_of (map shard_view ss)) \<le> sum_list (map sh_max_bytes ss)" if "list_all shard_inv ss" for ss
    using that by (induction ss) (auto simp: shard_inv_def intro: add_mono)
  with c show ?thesis unfolding cache_inv_def total_bytes_def cache_views_def by (meson order_trans)
qed

lemma index_view: "shard_inv sh \<Longrightarrow> index sh k = None \<longleftrightarrow> map_of (shard_view sh) k = None"
  by (simp add: shard_inv_def shard_view_def map_of_view_None)

lemma index_node:
  assumes "shard_inv sh" "index sh k = Some it"
  obtains n where "n \<in> set (lru sh)" "nd_key n = k" "nd_id n = it" "map_of (shard_view sh) k = Some (nd_entry n)"
proof -
  from assms obtain n where n: "n \<in> set (lru sh)" "nd_key n = k" "nd_id n = it"
    using map_of_view_SomeD by (fastforce simp: shard_inv_def)
  moreover have "map_of (shard_view sh) k = Some (nd_entry n)"
    using map_of_view [of "lru sh" n nd_entry] n assms(1) by (simp add: shard_inv_def shard_view_def)
  ultimately show thesis by (rule that)
qed

lemma shard_touch:
  assumes "shard_inv sh" "n \<in> set (lru sh)"
  shows "shard_inv (sh\<lparr>lru := n # filter (\<lambda>m. nd_id m \<noteq> nd_id n) (lru sh)\<rparr>)"
    and "shard_view (sh\<lparr>lru := n # filter (\<lambda>m. nd_id m \<noteq> nd_id n) (lru sh)\<rparr>) =
      (nd_key n, nd_entry n) # lru_remove (nd_key n) (shard_view sh)"
proof -
  let ?f = "filter (\<lambda>m. nd_key m \<noteq> nd_key n) (lru sh)"
  note eq = filter_by_id [OF assms]
  show v: "shard_view (sh\<lparr>lru := n # filter (\<lambda>m. nd_id m \<noteq> nd_id n) (lru sh)\<rparr>) =
      (nd_key n, nd_entry n) # lru_remove (nd_key n) (shard_view sh)"
    unfolding eq by (simp add: shard_view_def view_remove)
  have bytes: "bytes_of (lru_remove (nd_key n) (shard_view sh)) + ce_charge (nd_entry n) = bytes_of (shard_view sh)"
    using bytes_remove [of "lru sh" n] assms by (simp add: shard_inv_def shard_view_def)
  have idx: "map_of (map (\<lambda>n. (nd_key n, nd_id n)) (lru sh)) =
      map_of (map (\<lambda>n. (nd_key n, nd_id n)) (n # ?f))"
    using index_remove [of "nd_key n" "lru sh"] map_of_view [of "lru sh" n nd_id] assms
    by (auto simp: shard_inv_def fun_eq_iff)
  have "nd_id n \<notin> nd_id ` set ?f" using same_node [OF assms] by (auto, metis)
  then show "shard_inv (sh\<lparr>lru := n # filter (\<lambda>m. nd_id m \<noteq> nd_id n) (lru sh)\<rparr>)"
    using assms idx bytes v unfolding eq
    by (auto simp: shard_inv_def distinct_map_filter list_all_iff)
qed

lemma cache_get_refines:
  assumes "cache_inv c" and i_def: "i = shardFor hash c k"
  shows "\<exists>c'. cache_get hash c k now = Inr (fst (lru_get (cache_views c ! i) k now), c') \<and> cache_inv c' \<and>
     rc_config c' = rc_config c \<and> cache_views c' = (cache_views c)[i := snd (lru_get (cache_views c ! i) k now)] \<and>
     map sh_max_bytes (rc_shards c') = map sh_max_bytes (rc_shards c)"
proof -
  let ?sh = "rc_shards c ! i"
  have i: "i < length (rc_shards c)" unfolding i_def by (rule shardFor_less [OF assms(1)])
  have sh: "shard_inv ?sh" by (rule cache_inv_shard [OF assms(1) i])
  have v: "cache_views c ! i = shard_view ?sh" using i by (simp add: cache_views_def)
  show ?thesis
  proof (cases "index ?sh k")
    case None
    then have "lru_get (shard_view ?sh) k now = (None, shard_view ?sh)"
      using index_view [OF sh] by (simp add: lru_get_def)
    moreover have "cache_views (c\<lparr>misses := u64_inc (misses c)\<rparr>) = (cache_views c)[i := shard_view ?sh]"
      unfolding v [symmetric] by (simp add: cache_views_def)
    moreover have "cache_get hash c k now = Inr (None, c\<lparr>misses := u64_inc (misses c)\<rparr>)"
      using None by (simp add: cache_get_def i_def [symmetric])
    ultimately show ?thesis unfolding v using assms(1) by (simp add: cache_inv_def)
  next
    case (Some it)
    from index_node [OF sh Some] obtain n where n: "n \<in> set (lru ?sh)" "nd_key n = k" "nd_id n = it"
        "map_of (shard_view ?sh) k = Some (nd_entry n)" .
    have at: "node_at ?sh it = Inr n" using node_at_member [OF sh n(1)] n(3) by simp
    show ?thesis
    proof (cases "expires_at (nd_entry n) \<le> now")
      case True
      from cache_erase_ok [OF sh n(1)] n(2,3) obtain sh' where sh': "cache_erase ?sh it = Inr sh'" "shard_inv sh'"
          "shard_view sh' = lru_remove k (shard_view ?sh)" "sh_max_bytes sh' = sh_max_bytes ?sh" by auto
      let ?c = "c\<lparr>rc_shards := (rc_shards c)[i := sh'], expired_entries := u64_inc (expired_entries c),
        misses := u64_inc (misses c)\<rparr>"
      have "cache_get hash c k now = Inr (None, ?c)"
        using Some at True sh'(1) by (simp add: cache_get_def i_def [symmetric])
      with cache_inv_update [OF assms(1) i sh'(2,4), of ?c] sh'(3) n(4) True v show ?thesis
        by (simp add: lru_get_def)
    next
      case False
      let ?sh' = "?sh\<lparr>lru := n # filter (\<lambda>m. nd_id m \<noteq> nd_id n) (lru ?sh)\<rparr>"
      let ?c = "c\<lparr>rc_shards := (rc_shards c)[i := ?sh'], hits := u64_inc (hits c)\<rparr>"
      have "cache_get hash c k now = Inr (Some (ce_response (nd_entry n)), ?c)"
        using Some at False n(3) by (simp add: cache_get_def i_def [symmetric] Let_def)
      with cache_inv_update [OF assms(1) i shard_touch(1) [OF sh n(1)], of ?c] shard_touch(2) [OF sh n(1)] n(2,4) False v
      show ?thesis by (simp add: lru_get_def)
    qed
  qed
qed

lemma lru_remove_map_of: "map_of (lru_remove k v) k' = (if k' = k then None else map_of v k')"
  by (induction v) (auto simp: lru_remove_def)

lemma lru_remove_absent: "map_of v k = None \<Longrightarrow> lru_remove k v = v"
  by (auto simp: lru_remove_def map_of_eq_None_iff image_iff filter_id_conv)

lemma lru_evict_keys: "set (lru_evict b v) \<subseteq> set v"
  using set_mono_prefix [OF lru_evict_prefix] .

definition new_entry :: "ResponseCache \<Rightarrow> string \<Rightarrow> HttpResponse \<Rightarrow> int \<Rightarrow> CacheEntry" where
  "new_entry c k r now = \<lparr>ce_response = r, expires_at = now + ttl (rc_config c) * 1000000,
     ce_charge = charge k r\<rparr>"

lemma shard_insert:
  assumes "shard_inv sh" "map_of (shard_view sh) k = None" "bytes_of (shard_view sh) + ce_charge e \<le> sh_max_bytes sh"
  defines "sh' \<equiv> sh\<lparr>lru := \<lparr>nd_id = next_id sh, nd_key = k, nd_entry = e\<rparr> # lru sh,
      index := (index sh)(k \<mapsto> next_id sh), current_bytes := current_bytes sh + ce_charge e,
      next_id := next_id sh + 1\<rparr>"
  shows "shard_inv sh'" "shard_view sh' = (k, e) # shard_view sh"
proof -
  show v: "shard_view sh' = (k, e) # shard_view sh" by (simp add: sh'_def shard_view_def)
  have "k \<notin> nd_key ` set (lru sh)" using assms(2) by (simp add: shard_view_def map_of_view_None)
  moreover have "next_id sh \<notin> nd_id ` set (lru sh)" using assms(1) by (auto simp: shard_inv_def list_all_iff)
  ultimately show "shard_inv sh'"
    using assms(1,3) v unfolding shard_inv_def sh'_def by (auto simp: list_all_iff)
qed

lemma cache_put_refines:
  assumes "cache_inv c" and i_def: "i = shardFor hash c k"
  shows "if sh_max_bytes (rc_shards c ! i) < charge k r then cache_put hash c k r now = Inr (False, c)
    else \<exists>c'. cache_put hash c k r now = Inr (True, c') \<and> cache_inv c' \<and> rc_config c' = rc_config c \<and>
      cache_views c' = (cache_views c)[i := lru_put (cache_views c ! i) (sh_max_bytes (rc_shards c ! i)) k
        (new_entry c k r now)] \<and>
      map sh_max_bytes (rc_shards c') = map sh_max_bytes (rc_shards c)"
proof (cases "sh_max_bytes (rc_shards c ! i) < charge k r")
  case True
  then show ?thesis by (simp add: cache_put_def i_def [symmetric])
next
  case False
  let ?sh = "rc_shards c ! i" and ?e = "new_entry c k r now"
  have i: "i < length (rc_shards c)" unfolding i_def by (rule shardFor_less [OF assms(1)])
  have sh: "shard_inv ?sh" by (rule cache_inv_shard [OF assms(1) i])
  have v: "cache_views c ! i = shard_view ?sh" using i by (simp add: cache_views_def)
  obtain sh1 where sh1: "(case index ?sh k of None \<Rightarrow> Inr ?sh | Some it \<Rightarrow> cache_erase ?sh it) = Inr sh1"
      "shard_inv sh1" "shard_view sh1 = lru_remove k (shard_view ?sh)" "sh_max_bytes sh1 = sh_max_bytes ?sh"
  proof (cases "index ?sh k")
    case None
    with that [of ?sh] sh index_view [OF sh, of k] lru_remove_absent show thesis by simp
  next
    case (Some it)
    from index_node [OF sh Some] obtain n where n: "n \<in> set (lru ?sh)" "nd_key n = k" "nd_id n = it" .
    from cache_erase_ok [OF sh n(1)] n Some show thesis by (auto intro: that)
  qed
  from evict_loop_ok [OF sh1(2), of "charge k r" "evictions c"] obtain sh2 m where
    sh2: "evict_loop sh1 (charge k r) (evictions c) = Inr (sh2, m)" "shard_inv sh2"
      "shard_view sh2 = lru_evict (sh_max_bytes ?sh - charge k r) (lru_remove k (shard_view ?sh))"
      "sh_max_bytes sh2 = sh_max_bytes ?sh" using sh1(3,4) by auto
  let ?sh3 = "sh2\<lparr>lru := \<lparr>nd_id = next_id sh2, nd_key = k, nd_entry = ?e\<rparr> # lru sh2,
      index := (index sh2)(k \<mapsto> next_id sh2), current_bytes := current_bytes sh2 + ce_charge ?e,
      next_id := next_id sh2 + 1\<rparr>"
  have "map_of (lru_remove k (shard_view ?sh)) k = None" by (simp add: lru_remove_map_of)
  then have "map_of (shard_view sh2) k = None"
    using lru_evict_keys [of "sh_max_bytes ?sh - charge k r" "lru_remove k (shard_view ?sh)"]
    unfolding sh2(3) map_of_eq_None_iff by blast
  moreover have "bytes_of (shard_view sh2) + ce_charge ?e \<le> sh_max_bytes sh2"
    using lru_evict_bound [of "sh_max_bytes ?sh - charge k r" "lru_remove k (shard_view ?sh)"] False
    unfolding sh2(3,4) by (simp add: new_entry_def)
  ultimately have ins: "shard_inv ?sh3" "shard_view ?sh3 = (k, ?e) # shard_view sh2"
    using shard_insert [OF sh2(2)] by blast+
  let ?c = "c\<lparr>rc_shards := (rc_shards c)[i := ?sh3], evictions := m, stores := u64_inc (stores c)\<rparr>"
  have "cache_put hash c k r now = Inr (True, ?c)"
    using False sh1(1) sh2(1) by (simp add: cache_put_def i_def [symmetric] new_entry_def Let_def)
  moreover have "lru_put (cache_views c ! i) (sh_max_bytes ?sh) k ?e = shard_view ?sh3"
    using ins(2) sh2(3) v by (simp add: lru_put_def new_entry_def)
  ultimately show ?thesis
    using cache_inv_update [OF assms(1) i ins(1), of ?c] sh2(4) False by simp
qed

subsection \<open>The contract the router relies on\<close>

definition cache_peek :: "(string \<Rightarrow> nat) \<Rightarrow> ResponseCache \<Rightarrow> string \<Rightarrow> int \<Rightarrow> HttpResponse option" where
  "cache_peek hash c k t = fst (lru_get (cache_views c ! shardFor hash c k) k t)"

definition lifetime_ns :: "ResponseCache \<Rightarrow> int" where
  "lifetime_ns c = ttl (rc_config c) * 1000000"

definition view_peek :: "lru_list \<Rightarrow> string \<Rightarrow> int \<Rightarrow> HttpResponse option" where
  "view_peek v k t = (case map_of v k of None \<Rightarrow> None
     | Some e \<Rightarrow> if expires_at e \<le> t then None else Some (ce_response e))"

lemma cache_peek_view: "cache_peek hash c k t = view_peek (cache_views c ! shardFor hash c k) k t"
  by (simp add: cache_peek_def view_peek_def lru_get_def split: option.splits)

lemma view_peek_get:
  "view_peek (snd (lru_get v k t)) k' t' = view_peek v k' t' \<or> view_peek (snd (lru_get v k t)) k' t' = None"
  "t \<le> t' \<Longrightarrow> view_peek (snd (lru_get v k t)) k' t' = view_peek v k' t'"
  by (auto simp: view_peek_def lru_get_def lru_remove_map_of split: option.splits)

lemma map_of_prefix: "distinct (map fst v) \<Longrightarrow> prefix u v \<Longrightarrow> map_of u k = map_of v k \<or> map_of u k = None"
  by (auto simp: prefix_def map_of_append split: option.splits)

lemma distinct_view: "shard_inv sh \<Longrightarrow> distinct (map fst (shard_view sh))"
  by (simp add: shard_inv_def shard_view_def comp_def)

lemma view_peek_put:
  assumes "distinct (map fst v)"
  shows "view_peek (lru_put v limit k e) k t' = (if t' < expires_at e then Some (ce_response e) else None)"
    and "k' \<noteq> k \<Longrightarrow> view_peek (lru_put v limit k e) k' t' = view_peek v k' t' \<or>
      view_peek (lru_put v limit k e) k' t' = None"
proof -
  show "view_peek (lru_put v limit k e) k t' = (if t' < expires_at e then Some (ce_response e) else None)"
    by (simp add: view_peek_def lru_put_def)
  have "distinct (map fst (lru_remove k v))" unfolding lru_remove_def by (rule distinct_map_filter [OF assms])
  from map_of_prefix [OF this lru_evict_prefix, of "limit - ce_charge e" k']
  show "view_peek (lru_put v limit k e) k' t' = view_peek v k' t' \<or> view_peek (lru_put v limit k e) k' t' = None"
    if "k' \<noteq> k"
    using that by (auto simp: view_peek_def lru_put_def lru_remove_map_of)
qed

lemma shardFor_same: "length (cache_views c') = length (cache_views c) \<Longrightarrow> shardFor hash c' k = shardFor hash c k"
  by (simp add: shardFor_def cache_views_def)

interpretation cch: expiring_store "cache_put hash" "cache_get hash" "cache_peek hash" cache_inv lifetime_ns
  for hash
proof unfold_locales
  fix c k t assume c: "cache_inv c"
  let ?i = "shardFor hash c k"
  from cache_get_refines [OF c refl, of hash k t] obtain c' where
    c': "cache_get hash c k t = Inr (cache_peek hash c k t, c')" "cache_inv c'" "rc_config c' = rc_config c"
      "cache_views c' = (cache_views c)[?i := snd (lru_get (cache_views c ! ?i) k t)]"
    by (auto simp: cache_peek_def)
  have s: "shardFor hash c' k' = shardFor hash c k'" for k' using c'(4) by (intro shardFor_same) simp
  have i: "?i < length (cache_views c)" using shardFor_less [OF c] by (simp add: cache_views_def)
  show "\<exists>c'. cache_get hash c k t = Inr (cache_peek hash c k t, c') \<and> cache_inv c' \<and>
      lifetime_ns c' = lifetime_ns c \<and>
      (\<forall>k' t'. cache_peek hash c' k' t' = cache_peek hash c k' t' \<or> cache_peek hash c' k' t' = None) \<and>
      (\<forall>k' t'. t \<le> t' \<longrightarrow> cache_peek hash c' k' t' = cache_peek hash c k' t')"
    using c' i view_peek_get
    by (intro exI [of _ c']) (auto simp: cache_peek_view lifetime_ns_def s nth_list_update)
next
  fix c k r t assume c: "cache_inv c"
  let ?i = "shardFor hash c k"
  have i: "?i < length (cache_views c)" using shardFor_less [OF c] by (simp add: cache_views_def)
  have d: "distinct (map fst (cache_views c ! ?i))"
    using distinct_view [OF cache_inv_shard [OF c shardFor_less [OF c]]] i by (simp add: cache_views_def)
  note put = cache_put_refines [OF c refl, of hash k r t]
  show "\<exists>ok c'. cache_put hash c k r t = Inr (ok, c') \<and> cache_inv c' \<and> lifetime_ns c' = lifetime_ns c \<and>
      (if ok then (\<forall>t'. cache_peek hash c' k t' = (if t' < t + lifetime_ns c then Some r else None)) \<and>
          (\<forall>k' t'. k' \<noteq> k \<longrightarrow> cache_peek hash c' k' t' = cache_peek hash c k' t' \<or> cache_peek hash c' k' t' = None)
       else c' = c)"
  proof (cases "sh_max_bytes (rc_shards c ! ?i) < charge k r")
    case True
    with put c show ?thesis by auto
  next
    case False
    with put obtain c' where c': "cache_put hash c k r t = Inr (True, c')" "cache_inv c'" "rc_config c' = rc_config c"
        "cache_views c' = (cache_views c)[?i := lru_put (cache_views c ! ?i) (sh_max_bytes (rc_shards c ! ?i)) k
          (new_entry c k r t)]" by auto
    have s: "shardFor hash c' k' = shardFor hash c k'" for k' using c'(4) by (intro shardFor_same) simp
    have same: "cache_peek hash c' k t' = (if t' < t + lifetime_ns c then Some r else None)" for t'
      using c'(4) i view_peek_put(1) [OF d] by (simp add: cache_peek_view s new_entry_def lifetime_ns_def)
    have other: "cache_peek hash c' k' t' = cache_peek hash c k' t' \<or> cache_peek hash c' k' t' = None"
      if "k' \<noteq> k" for k' t'
      using c'(4) i view_peek_put(2) [OF d that, of "sh_max_bytes (rc_shards c ! ?i)" "new_entry c k r t" t']
      by (auto simp: cache_peek_view s nth_list_update)
    show ?thesis
      by (intro exI [of _ True] exI [of _ c']) (use c' same other in \<open>simp add: lifetime_ns_def\<close>)
  qed
qed

text \<open>A history of the cache's two operations, with the last successful store of each key.\<close>

fun cache_history :: "(string \<Rightarrow> nat) \<Rightarrow> ResponseCache \<Rightarrow> (string, HttpResponse) store_op list \<Rightarrow>
    (string \<rightharpoonup> HttpResponse \<times> int) \<Rightarrow> (ResponseCache \<times> (string \<rightharpoonup> HttpResponse \<times> int)) outcome" where
  "cache_history hash c [] m = Inr (c, m)"
| "cache_history hash c (Store k r t # ops) m =
     ebind (cache_put hash c k r t) (\<lambda>(ok, c'). cache_history hash c' ops (if ok then m(k \<mapsto> (r, t)) else m))"
| "cache_history hash c (Lookup k t # ops) m =
     ebind (cache_get hash c k t) (\<lambda>(r, c'). cache_history hash c' ops m)"

lemma cache_history_eq: "cache_history hash c ops m = cch.history hash c ops m"
  by (induction hash c ops m rule: cache_history.induct)
    (auto simp: ebind_def split: sum.splits prod.splits)

lemma cache_history_config:
  "cache_inv c \<Longrightarrow> cache_history hash c ops m = Inr (c', m') \<Longrightarrow> cache_inv c' \<and> rc_config c' = rc_config c"
proof (induction hash c ops m rule: cache_history.induct)
  case (2 hash c k r t ops m)
  then obtain ok c1 where st: "cache_put hash c k r t = Inr (ok, c1)"
      and rest: "cache_history hash c1 ops (if ok then m(k \<mapsto> (r, t)) else m) = Inr (c', m')"
    by (auto simp: ebind_eq_Inr_iff)
  have "cache_inv c1 \<and> rc_config c1 = rc_config c"
    using cache_put_refines [OF "2.prems"(1) refl, of hash k r t] st "2.prems"(1) by (auto split: if_splits)
  with "2.IH" [OF st refl _ rest] show ?case by simp
next
  case (3 hash c k t ops m)
  then obtain res c1 where st: "cache_get hash c k t = Inr (res, c1)"
      and rest: "cache_history hash c1 ops m = Inr (c', m')"
    by (auto simp: ebind_eq_Inr_iff)
  have "cache_inv c1 \<and> rc_config c1 = rc_config c"
    using cache_get_refines [OF "3.prems"(1) refl, of hash k t] st by auto
  with "3.IH" [OF st refl _ rest] show ?case by simp
qed auto

lemma shard_sizes_sum:
  assumes "0 < n"
  shows "sum_list (map (\<lambda>i. m div n + (if i < m mod n then 1 else 0)) [0..<n]) = (m::nat)"
proof -
  have "sum_list (map (\<lambda>i. a + (if i < r then 1 else 0)) [0..<k]) = k * a + min k r" for a r k :: nat
    by (induction k) auto
  with mod_less_divisor [OF assms, of m] show ?thesis by simp
qed

lemma cache_inv_make:
  assumes "ResponseCache_make c0 = Inr c"
  shows "cache_inv c \<and> max_bytes (rc_config c) = max_bytes c0 \<and> ttl (rc_config c) = ttl c0 \<and>
     cch.explained hash c Map.empty"
proof -
  let ?limits = "map (\<lambda>i. max_bytes c0 div cc_shard_count c0 + (if i < max_bytes c0 mod cc_shard_count c0 then 1 else 0))
     [0..<cc_shard_count c0]"
  from assms have c: "0 < cc_shard_count c0" "rc_shards c = map shard_make ?limits"
      "max_bytes (rc_config c) = max_bytes c0" "ttl (rc_config c) = ttl c0"
    by (auto simp: ResponseCache_make_def ebind_eq_Inr_iff Let_def split: if_splits)
  have "shard_inv (shard_make b)" for b by (simp add: shard_inv_def shard_make_def shard_view_def)
  moreover have "map sh_max_bytes (rc_shards c) = ?limits" unfolding c(2) by (simp add: shard_make_def comp_def)
  ultimately have inv: "cache_inv c"
    using c shard_sizes_sum [OF c(1), of "max_bytes c0"]
    by (auto simp: cache_inv_def list_all_iff simp del: map_map)
  have "cache_views c ! shardFor hash c k = []" for k
    using shardFor_less [OF inv, of hash k] unfolding cache_views_def c(2)
    by (simp add: shard_view_def shard_make_def)
  then have "cch.explained hash c Map.empty"
    by (simp add: cch.explained_def cache_peek_view view_peek_def)
  with inv c(3,4) show ?thesis by simp
qed

section \<open>Keys identify requests\<close>

definition key_field :: "string \<Rightarrow> string" where
  "key_field v = to_string (length v) @ CHR '':'' # v @ ''|''"

lemma appendField_eq: "appendField out v = out @ key_field v"
  by (simp add: appendField_def key_field_def)

lemma append_values_eq: "append_values key vs = key @ concat (map key_field vs)"
  by (induction vs arbitrary: key) (simp_all add: appendField_eq)

lemma append_vary_eq:
  "append_vary key rq hs = key @ concat (map key_field
     (concat (map (\<lambda>h. h # headers_values (rq_headers rq) h @ [[]]) hs)))"
  by (induction hs arbitrary: key) (simp_all add: appendField_eq append_values_eq)

text \<open>What a key stands for: host without case, path, query, and the values of the varying fields.\<close>

definition cache_host :: "HttpRequest \<Rightarrow> string" where
  "cache_host rq = lower (case headers_get (rq_headers rq) ''host'' of None \<Rightarrow> [] | Some h \<Rightarrow> h)"

definition cache_path :: "HttpRequest \<Rightarrow> string" where
  "cache_path rq = (let p = takeWhile (\<lambda>ch. ch \<noteq> CHR ''?'') (rq_target rq) in if p = [] then ''/'' else p)"

definition cache_query :: "HttpRequest \<Rightarrow> string" where
  "cache_query rq = drop 1 (dropWhile (\<lambda>ch. ch \<noteq> CHR ''?'') (rq_target rq))"

lemma find_char_takeWhile:
  "upto (find_char c s) s = takeWhile (\<lambda>x. x \<noteq> c) s"
  "(case find_char c s of None \<Rightarrow> [] | Some k \<Rightarrow> drop (k + 1) s) = drop 1 (dropWhile (\<lambda>x. x \<noteq> c) s)"
  by (induction s) (auto simp: upto_def split: option.splits)

lemma makeKey_eq:
  "makeKey rq c = concat (map key_field ([''http'', cache_host rq, cache_path rq, cache_query rq] @
     concat (map (\<lambda>h. h # headers_values (rq_headers rq) h @ [[]]) (vary_headers c))))"
  by (simp add: makeKey_def append_vary_eq appendField_eq find_char_takeWhile cache_host_def cache_path_def
      cache_query_def Let_def del: One_nat_def)

lemma key_field_inject: "key_field a @ x = key_field b @ y \<Longrightarrow> a = b \<and> x = y"
proof -
  assume eq: "key_field a @ x = key_field b @ y"
  have "CHR '':'' \<notin> set (to_string n)" for n
    using to_string_isalnum by (force simp: isalnum_def char_code_def)
  then have f: "find_char (CHR '':'') (to_string n @ CHR '':'' # r) = Some (length (to_string n))" for n r by simp
  from eq have eq': "to_string (length a) @ CHR '':'' # a @ ''|'' @ x = to_string (length b) @ CHR '':'' # b @ ''|'' @ y"
    by (simp add: key_field_def)
  from arg_cong [OF this, of "find_char (CHR '':'')"] have "length (to_string (length a)) = length (to_string (length b))"
    unfolding f by simp
  with eq' have "to_string (length a) = to_string (length b)" "a @ ''|'' @ x = b @ ''|'' @ y" by auto
  then have "length a = length b" "a @ ''|'' @ x = b @ ''|'' @ y" using to_string_inject by auto
  then show ?thesis by auto
qed

lemma key_fields_inject: "concat (map key_field xs) = concat (map key_field ys) \<Longrightarrow> xs = ys"
proof (induction xs arbitrary: ys)
  case Nil
  then show ?case by (cases ys) (auto simp: key_field_def)
next
  case (Cons x xs)
  then obtain y ys' where "ys = y # ys'" by (cases ys) (auto simp: key_field_def)
  with Cons key_field_inject [of x "concat (map key_field xs)" y "concat (map key_field ys')"] show ?case by auto
qed

lemma terminated_inject:
  assumes "[] \<notin> set u" "[] \<notin> set v" "u @ [] # x = v @ [] # y"
  shows "u = v \<and> x = y"
proof -
  have "takeWhile (\<lambda>w. w \<noteq> []) (u @ [] # x) = u" "takeWhile (\<lambda>w. w \<noteq> []) (v @ [] # y) = v"
    using assms(1,2) by (auto simp: takeWhile_append)
  with assms(3) show ?thesis by auto
qed

lemma vary_fields_inject:
  assumes "concat (map (\<lambda>h. h # f h @ [[]]) hs) = concat (map (\<lambda>h. h # g h @ [[]]) hs)"
    and "\<And>h. h \<in> set hs \<Longrightarrow> [] \<notin> set (f h) \<and> [] \<notin> set (g h)"
  shows "map f hs = map g hs"
  using assms
proof (induction hs)
  case (Cons h hs)
  from Cons.prems have "f h @ [] # concat (map (\<lambda>h. h # f h @ [[]]) hs) = g h @ [] # concat (map (\<lambda>h. h # g h @ [[]]) hs)"
    by simp
  from terminated_inject [OF _ _ this] Cons show ?case by simp
qed simp

section \<open>Properties\<close>

text \<open>
  C18: the cache is a sharded LRU cache. On a consistent cache both operations return (an iterator
  of the index never dangles), keep it consistent, and act on the one shard of the key exactly as
  the reference list does: a hit moves the entry to the front, an expired entry is dropped, a store
  replaces the key's entry and evicts only least recently used ones, only as many as it must.
\<close>

theorem cache_refines_lru:
  assumes "cache_inv c" "i = shardFor hash c k"
  shows "(\<exists>c'. cache_get hash c k now = Inr (fst (lru_get (cache_views c ! i) k now), c') \<and> cache_inv c' \<and>
       cache_views c' = (cache_views c)[i := snd (lru_get (cache_views c ! i) k now)]) \<and>
     (if sh_max_bytes (rc_shards c ! i) < charge k r then cache_put hash c k r now = Inr (False, c)
      else \<exists>c'. cache_put hash c k r now = Inr (True, c') \<and> cache_inv c' \<and>
        cache_views c' = (cache_views c)[i := lru_put (cache_views c ! i) (sh_max_bytes (rc_shards c ! i)) k
          (new_entry c k r now)])"
  using cache_get_refines [OF assms, of now] cache_put_refines [OF assms, of r now] by (auto split: if_splits)

definition sample_cache_config :: ResponseCacheConfig where
  "sample_cache_config = \<lparr>ttl = 10, max_entry_bytes = 20, max_bytes = 50, cc_shard_count = 2,
     vary_headers = [''Accept'', ''accept'']\<rparr>"

definition sample_cache :: ResponseCache where
  "sample_cache = \<lparr>rc_config = sample_cache_config\<lparr>vary_headers := [''accept'']\<rparr>,
     rc_shards = [shard_make 25, shard_make 25], hits = 0, misses = 0, stores = 0, evictions = 0,
     expired_entries = 0\<rparr>"

lemma sample_cache_make: "ResponseCache_make sample_cache_config = Inr sample_cache"
proof -
  have n: "normalize_vary [''Accept'', ''accept''] = Inr [''accept'', ''accept'']" by code_simp
  have upt: "[0..<2] = [0, Suc 0]" by (simp add: upt_rec)
  show ?thesis
    using n upt by (simp add: ResponseCache_make_def sample_cache_config_def sample_cache_def
        del: normalize_vary.simps)
qed

theorem cache_refines_lru_witness:
  "\<exists>c'. cache_put length sample_cache ''k'' (HttpResponse_default\<lparr>rs_body := ''hello''\<rparr>) 0 = Inr (True, c') \<and>
     cache_inv c' \<and> length (cache_views c' ! 1) = 1"
proof -
  have "cache_inv sample_cache" using cache_inv_make [OF sample_cache_make] by blast
  moreover have "shardFor length sample_cache ''k'' = 1" by code_simp
  moreover have "\<not> sh_max_bytes (rc_shards sample_cache ! 1) < charge ''k'' (HttpResponse_default\<lparr>rs_body := ''hello''\<rparr>)"
    by code_simp
  moreover have "cache_views sample_cache = [[], []]"
    by (simp add: cache_views_def sample_cache_def shard_make_def shard_view_def)
  ultimately show ?thesis
    using cache_refines_lru [of sample_cache 1 length "''k''" 0 "HttpResponse_default\<lparr>rs_body := ''hello''\<rparr>"]
    by (auto simp: lru_put_def lru_remove_def)
qed

text \<open>
  a hit is never stale or foreign. In any history of stores and lookups of a constructed cache,
  at any times and with any hash function, a lookup that hits returns the response of the last
  successful store under exactly that key, less than the time to live after it.
\<close>

theorem cache_hit_is_last_store:
  assumes "ResponseCache_make c0 = Inr c" "cache_history hash c ops Map.empty = Inr (c', m')"
    and "cache_get hash c' k t = Inr (Some r, c'')"
  shows "\<exists>t0. m' k = Some (r, t0) \<and> t < t0 + ttl c0 * 1000000"
proof -
  have inv: "cache_inv c" "cch.explained hash c Map.empty" "ttl (rc_config c) = ttl c0"
    using cache_inv_make [OF assms(1)] by auto
  have "lifetime_ns c' = ttl c0 * 1000000"
    using cache_history_config [OF inv(1) assms(2)] inv(3) by (simp add: lifetime_ns_def)
  with cch.hit_is_last_store [OF inv(1,2) _ assms(3)] assms(2) show ?thesis
    unfolding cache_history_eq by auto
qed

definition sample_ops :: "(string, HttpResponse) store_op list" where
  "sample_ops = [Store ''k'' (HttpResponse_default\<lparr>rs_body := ''one''\<rparr>) 0, Lookup ''k'' 1,
     Store ''k'' (HttpResponse_default\<lparr>rs_body := ''two''\<rparr>) 2]"

theorem cache_hit_is_last_store_witness:
  "\<exists>c' m' c'' r t0. cache_history length sample_cache sample_ops Map.empty = Inr (c', m') \<and>
     cache_get length c' ''k'' 5 = Inr (Some r, c'') \<and> m' ''k'' = Some (r, t0) \<and> 5 < t0 + 10000000"
proof -
  have "(case cache_history length sample_cache sample_ops Map.empty of Inl e \<Rightarrow> False
      | Inr (c', m') \<Rightarrow> (case cache_get length c' ''k'' 5 of Inl e \<Rightarrow> False
        | Inr (res, c'') \<Rightarrow> res \<noteq> None))"
    by code_simp
  then obtain c' m' r c'' where h: "cache_history length sample_cache sample_ops Map.empty = Inr (c', m')"
      "cache_get length c' ''k'' 5 = Inr (Some r, c'')"
    by (cases "cache_history length sample_cache sample_ops Map.empty") (auto split: sum.splits)
  from cache_hit_is_last_store [OF sample_cache_make h] h show ?thesis by (auto simp: sample_cache_config_def)
qed

text \<open>
  the byte budget holds. After any history of stores and lookups, the charges of all entries in
  all shards together are at most the configured \<open>max_bytes\<close>.
\<close>

theorem cache_stays_within_budget:
  assumes "ResponseCache_make c0 = Inr c" "cache_history hash c ops Map.empty = Inr (c', m')"
  shows "total_bytes c' \<le> max_bytes c0"
proof -
  have "cache_inv c" "max_bytes (rc_config c) = max_bytes c0" using cache_inv_make [OF assms(1)] by auto
  with cache_history_config [OF _ assms(2)] total_bytes_bound [of c'] show ?thesis by auto
qed

theorem cache_stays_within_budget_witness:
  "\<exists>c' m'. cache_history length sample_cache sample_ops Map.empty = Inr (c', m') \<and> total_bytes c' \<le> 50"
proof -
  have "\<not> Sum_Type.isl (cache_history length sample_cache sample_ops Map.empty)" by code_simp
  then obtain c' m' where h: "cache_history length sample_cache sample_ops Map.empty = Inr (c', m')"
    by (cases "cache_history length sample_cache sample_ops Map.empty") auto
  from cache_stays_within_budget [OF sample_cache_make h] h show ?thesis by (auto simp: sample_cache_config_def)
qed

text \<open>
  cache keys identify requests. Two requests whose varying fields have no empty value get the
  same key exactly when they agree on the host (without case), the path, the query and, for every
  configured varying field, the list of its values.
\<close>

theorem makeKey_identifies_request:
  assumes "\<forall>h \<in> set (vary_headers c). [] \<notin> set (headers_values (rq_headers rq1) h) \<and>
     [] \<notin> set (headers_values (rq_headers rq2) h)"
  shows "makeKey rq1 c = makeKey rq2 c \<longleftrightarrow>
     cache_host rq1 = cache_host rq2 \<and> cache_path rq1 = cache_path rq2 \<and> cache_query rq1 = cache_query rq2 \<and>
     (\<forall>h \<in> set (vary_headers c). headers_values (rq_headers rq1) h = headers_values (rq_headers rq2) h)"
proof
  assume "makeKey rq1 c = makeKey rq2 c"
  from key_fields_inject [OF this [unfolded makeKey_eq]]
  have "cache_host rq1 = cache_host rq2" "cache_path rq1 = cache_path rq2" "cache_query rq1 = cache_query rq2"
    and v: "concat (map (\<lambda>h. h # headers_values (rq_headers rq1) h @ [[]]) (vary_headers c)) =
      concat (map (\<lambda>h. h # headers_values (rq_headers rq2) h @ [[]]) (vary_headers c))" by simp_all
  with vary_fields_inject [OF v] assms
  show "cache_host rq1 = cache_host rq2 \<and> cache_path rq1 = cache_path rq2 \<and> cache_query rq1 = cache_query rq2 \<and>
     (\<forall>h \<in> set (vary_headers c). headers_values (rq_headers rq1) h = headers_values (rq_headers rq2) h)"
    by auto
next
  assume r: "cache_host rq1 = cache_host rq2 \<and> cache_path rq1 = cache_path rq2 \<and> cache_query rq1 = cache_query rq2 \<and>
     (\<forall>h \<in> set (vary_headers c). headers_values (rq_headers rq1) h = headers_values (rq_headers rq2) h)"
  then have v: "map (\<lambda>h. h # headers_values (rq_headers rq1) h @ [[]]) (vary_headers c) =
      map (\<lambda>h. h # headers_values (rq_headers rq2) h @ [[]]) (vary_headers c)" by auto
  show "makeKey rq1 c = makeKey rq2 c" unfolding makeKey_eq v using r by simp
qed

definition sample_get :: "string \<Rightarrow> string \<Rightarrow> HttpRequest" where
  "sample_get target accept = HttpRequest_default\<lparr>rq_method := Get, rq_target := target,
     rq_headers := headers_add (headers_add [] ''Host'' ''Example'') ''Accept'' accept\<rparr>"

theorem makeKey_identifies_request_witness:
  "makeKey (sample_get ''/a'' ''x'') (rc_config sample_cache) \<noteq> makeKey (sample_get ''/a'' ''y'') (rc_config sample_cache)"
proof -
  have v: "headers_values (rq_headers (sample_get ''/a'' ''x'')) ''accept'' = [''x'']"
    "headers_values (rq_headers (sample_get ''/a'' ''y'')) ''accept'' = [''y'']" by code_simp+
  have c: "vary_headers (rc_config sample_cache) = [''accept'']" by (simp add: sample_cache_def)
  show ?thesis
    using makeKey_identifies_request [of "rc_config sample_cache" "sample_get ''/a'' ''x''" "sample_get ''/a'' ''y''"] v c
    by simp
qed

text \<open>
  with empty values keys collide. The empty string closes the list of a field's values in the
  key, and an empty value looks the same: for any two varying fields there are requests that send
  different values for them and share a key.
\<close>

theorem makeKey_collides_on_empty_values:
  assumes "vary_headers c = [a, b]" "normalizeHeaderName a = a" "normalizeHeaderName b = b" "a \<noteq> b"
    and "a \<noteq> ''host''" "b \<noteq> ''host''"
  shows "\<exists>rq1 rq2. headers_values (rq_headers rq1) a \<noteq> headers_values (rq_headers rq2) a \<and>
     rq_target rq1 = rq_target rq2 \<and> makeKey rq1 c = makeKey rq2 c"
proof -
  let ?h1 = "headers_add (headers_add [] a []) a b" and ?h2 = "headers_add (headers_add [] b []) b b"
  let ?rq1 = "HttpRequest_default\<lparr>rq_headers := ?h1\<rparr>" and ?rq2 = "HttpRequest_default\<lparr>rq_headers := ?h2\<rparr>"
  have v: "headers_values ?h1 a = [[], b]" "headers_values ?h1 b = []"
    "headers_values ?h2 a = []" "headers_values ?h2 b = [[], b]"
    using assms by (simp_all add: hdr.vals_add hdr.vals_empty)
  have host: "normalizeHeaderName ''host'' = ''host''" by code_simp
  then have "cache_host ?rq1 = cache_host ?rq2"
    using assms by (simp add: cache_host_def headers_get_values hdr.vals_add hdr.vals_empty)
  then have "makeKey ?rq1 c = makeKey ?rq2 c"
    unfolding makeKey_eq using assms(1) v by (simp add: cache_path_def cache_query_def)
  with v show ?thesis by (intro exI [of _ ?rq1] exI [of _ ?rq2]) simp
qed

theorem makeKey_collides_on_empty_values_witness:
  "\<exists>rq1 rq2. headers_values (rq_headers rq1) ''accept'' \<noteq> headers_values (rq_headers rq2) ''accept'' \<and>
     rq_target rq1 = rq_target rq2 \<and>
     makeKey rq1 (sample_cache_config\<lparr>vary_headers := [''accept'', ''x-lang'']\<rparr>) =
     makeKey rq2 (sample_cache_config\<lparr>vary_headers := [''accept'', ''x-lang'']\<rparr>)"
proof (rule makeKey_collides_on_empty_values)
  show "normalizeHeaderName ''accept'' = ''accept''" "normalizeHeaderName ''x-lang'' = ''x-lang''" by code_simp+
qed simp_all

end
