(* ===== verification/Observability.thy ===== *)
theory Observability
  imports Complex_Main Prelude "HOL-Library.Char_ord" "HOL-Library.List_Lexorder"
begin

text \<open>
  Logging and metrics, \<open>src/http/observability.cpp\<close>: escaping, the histogram and counter registry with its
  Prometheus rendering, and the asynchronous access log with its bounded queue and worker thread.
  The maps of the registry are \<open>std::map\<close>s, modelled as association lists in key order. Doubles
  are reals with an explicit rounding function; printing one is a parameter.
\<close>

section \<open>Escaping\<close>

definition escape_char :: "char \<Rightarrow> string" where
  "escape_char c =
     (if c = CHR 0x22 then [CHR 0x5C, CHR 0x22]
      else if c = CHR 0x5C then [CHR 0x5C, CHR 0x5C]
      else if c = LF then [CHR 0x5C, CHR ''n'']
      else if c = CR then [CHR 0x5C, CHR ''r'']
      else if c = HT then [CHR 0x5C, CHR ''t'']
      else if char_code c < 0x20 then ''?''
      else [c])"

definition jsonEscape :: "string \<Rightarrow> string" where
  "jsonEscape v = concat (map escape_char v)"

definition escapedLabel :: "string \<Rightarrow> string" where
  "escapedLabel v = jsonEscape v"

abbreviation DQ :: string where "DQ \<equiv> [CHR 0x22]"

section \<open>Histograms\<close>

record Histogram =
  h_count :: nat
  h_sum :: real
  le_1ms :: nat
  le_5ms :: nat
  le_25ms :: nat
  le_100ms :: nat
  le_1s :: nat

definition Histogram_default :: Histogram where
  "Histogram_default = \<lparr>h_count = 0, h_sum = 0, le_1ms = 0, le_5ms = 0, le_25ms = 0, le_100ms = 0, le_1s = 0\<rparr>"

definition bump :: "bool \<Rightarrow> nat \<Rightarrow> nat" where
  "bump b n = (if b then u64_inc n else n)"

definition updateHistogram :: "(real \<Rightarrow> real) \<Rightarrow> Histogram \<Rightarrow> int \<Rightarrow> Histogram" where
  "updateHistogram rnd h duration =
     (let seconds = rnd (rnd (of_int duration) / 1000000)
      in \<lparr>h_count = u64_inc (h_count h), h_sum = rnd (h_sum h + seconds),
          le_1ms = bump (seconds \<le> rnd (1 / 1000)) (le_1ms h),
          le_5ms = bump (seconds \<le> rnd (5 / 1000)) (le_5ms h),
          le_25ms = bump (seconds \<le> rnd (25 / 1000)) (le_25ms h),
          le_100ms = bump (seconds \<le> rnd (1 / 10)) (le_100ms h),
          le_1s = bump (seconds \<le> rnd 1) (le_1s h)\<rparr>)"

definition bucket_line :: "string \<Rightarrow> string \<Rightarrow> string \<Rightarrow> nat \<Rightarrow> string" where
  "bucket_line name labels limit count =
     name @ ''_bucket{'' @ labels @ '',le='' @ DQ @ limit @ DQ @ ''} '' @ to_string count @ [LF]"

definition renderHistogram :: "(real \<Rightarrow> string) \<Rightarrow> string \<Rightarrow> string \<Rightarrow> string \<Rightarrow> Histogram \<Rightarrow> string" where
  "renderHistogram show output name labels h =
     output @
     concat (map (\<lambda>(limit, count). bucket_line name labels limit count)
       [(''0.001'', le_1ms h), (''0.005'', le_5ms h), (''0.025'', le_25ms h), (''0.1'', le_100ms h), (''1'', le_1s h)]) @
     bucket_line name labels ''+Inf'' (h_count h) @
     name @ ''_sum{'' @ labels @ ''} '' @ show (h_sum h) @ [LF] @
     name @ ''_count{'' @ labels @ ''} '' @ to_string (h_count h) @ [LF]"

section \<open>The metrics registry\<close>

text \<open>\<open>operator[]\<close> of a \<open>std::map\<close> followed by an update: the missing entry is default-constructed.\<close>

fun smap_update :: "'v \<Rightarrow> ('v \<Rightarrow> 'v) \<Rightarrow> string \<Rightarrow> (string \<times> 'v) list \<Rightarrow> (string \<times> 'v) list" where
  "smap_update d f k [] = [(k, f d)]"
| "smap_update d f k ((k', v) # rest) =
     (if k = k' then (k', f v) # rest
      else if k < k' then (k, f d) # (k', v) # rest
      else (k', v) # smap_update d f k rest)"

record MetricsRegistry =
  http_requests :: "(string \<times> nat) list"
  http_duration :: "(string \<times> Histogram) list"
  rejected_connections :: "(string \<times> nat) list"
  upstream_requests :: "(string \<times> nat) list"
  upstream_connect_duration :: "(string \<times> Histogram) list"
  cache_requests :: "(string \<times> nat) list"
  rate_limit_rejections :: "(string \<times> nat) list"
  circuit_states :: "(string \<times> string) list"
  active_connections :: nat
  accepted_connections :: nat
  runtime_active_coroutines :: nat
  upstream_pool_waiters :: nat
  output_buffer_bytes :: nat
  logs_dropped :: nat

definition MetricsRegistry_default :: MetricsRegistry where
  "MetricsRegistry_default =
     \<lparr>http_requests = [], http_duration = [], rejected_connections = [], upstream_requests = [],
      upstream_connect_duration = [], cache_requests = [], rate_limit_rejections = [],
      circuit_states = [], active_connections = 0, accepted_connections = 0,
      runtime_active_coroutines = 0, upstream_pool_waiters = 0, output_buffer_bytes = 0,
      logs_dropped = 0\<rparr>"

definition clamp :: "int \<Rightarrow> int \<Rightarrow> int \<Rightarrow> int" where
  "clamp v lo hi = (if v < lo then lo else if hi < v then hi else v)"

definition http_labels :: "string \<Rightarrow> int \<Rightarrow> string \<Rightarrow> string" where
  "http_labels meth status route =
     ''method='' @ DQ @ escapedLabel meth @ DQ @ '',status_class='' @ DQ @
     int_to_string (clamp (status sdiv 100) 0 9) @ ''xx'' @ DQ @ '',route='' @ DQ @ escapedLabel route @ DQ"

definition recordHttp :: "(real \<Rightarrow> real) \<Rightarrow> MetricsRegistry \<Rightarrow> string \<Rightarrow> int \<Rightarrow> string \<Rightarrow> int \<Rightarrow> MetricsRegistry" where
  "recordHttp rnd r meth status route duration =
     (let labels = http_labels meth status route
      in r\<lparr>http_requests := smap_update 0 u64_inc labels (http_requests r),
           http_duration := smap_update Histogram_default (\<lambda>h. updateHistogram rnd h duration) labels (http_duration r)\<rparr>)"

definition u64_dec :: "nat \<Rightarrow> nat" where
  "u64_dec n = (n + (2 ^ 64 - 1)) mod 2 ^ 64"

definition u64_sub :: "nat \<Rightarrow> nat \<Rightarrow> nat" where
  "u64_sub n k = (n + (2 ^ 64 - k mod 2 ^ 64)) mod 2 ^ 64"

definition connectionAccepted :: "MetricsRegistry \<Rightarrow> MetricsRegistry" where
  "connectionAccepted r = r\<lparr>accepted_connections := u64_inc (accepted_connections r),
     active_connections := u64_inc (active_connections r)\<rparr>"

definition connectionClosed :: "MetricsRegistry \<Rightarrow> MetricsRegistry" where
  "connectionClosed r = r\<lparr>active_connections := u64_dec (active_connections r)\<rparr>"

definition connectionRejected :: "MetricsRegistry \<Rightarrow> string \<Rightarrow> MetricsRegistry" where
  "connectionRejected r reason =
     r\<lparr>rejected_connections := smap_update 0 u64_inc (''reason='' @ DQ @ escapedLabel reason @ DQ) (rejected_connections r)\<rparr>"

definition recordUpstream :: "(real \<Rightarrow> real) \<Rightarrow> MetricsRegistry \<Rightarrow> string \<Rightarrow> string \<Rightarrow> int \<Rightarrow> MetricsRegistry" where
  "recordUpstream rnd r upstream result connect_duration =
     (let labels = ''upstream='' @ DQ @ escapedLabel upstream @ DQ @ '',result='' @ DQ @ escapedLabel result @ DQ;
          r1 = r\<lparr>upstream_requests := smap_update 0 u64_inc labels (upstream_requests r)\<rparr>
      in if 0 < connect_duration
         then r1\<lparr>upstream_connect_duration :=
                smap_update Histogram_default (\<lambda>h. updateHistogram rnd h connect_duration) labels (upstream_connect_duration r1)\<rparr>
         else r1)"

definition recordCache :: "MetricsRegistry \<Rightarrow> string \<Rightarrow> MetricsRegistry" where
  "recordCache r result =
     r\<lparr>cache_requests := smap_update 0 u64_inc (''result='' @ DQ @ escapedLabel result @ DQ) (cache_requests r)\<rparr>"

definition recordRateLimitRejection :: "MetricsRegistry \<Rightarrow> string \<Rightarrow> MetricsRegistry" where
  "recordRateLimitRejection r route =
     r\<lparr>rate_limit_rejections := smap_update 0 u64_inc (''route='' @ DQ @ escapedLabel route @ DQ) (rate_limit_rejections r)\<rparr>"

definition setCircuitState :: "MetricsRegistry \<Rightarrow> string \<Rightarrow> string \<Rightarrow> MetricsRegistry" where
  "setCircuitState r upstream state =
     r\<lparr>circuit_states := smap_update [] (\<lambda>_. state) upstream (circuit_states r)\<rparr>"

definition setRuntimeActiveCoroutines :: "MetricsRegistry \<Rightarrow> nat \<Rightarrow> MetricsRegistry" where
  "setRuntimeActiveCoroutines r v = r\<lparr>runtime_active_coroutines := v\<rparr>"

definition coroutineStarted :: "MetricsRegistry \<Rightarrow> MetricsRegistry" where
  "coroutineStarted r = r\<lparr>runtime_active_coroutines := u64_inc (runtime_active_coroutines r)\<rparr>"

definition coroutineFinished :: "MetricsRegistry \<Rightarrow> MetricsRegistry" where
  "coroutineFinished r = r\<lparr>runtime_active_coroutines := u64_dec (runtime_active_coroutines r)\<rparr>"

definition setUpstreamPoolWaiters :: "MetricsRegistry \<Rightarrow> nat \<Rightarrow> MetricsRegistry" where
  "setUpstreamPoolWaiters r v = r\<lparr>upstream_pool_waiters := v\<rparr>"

definition setOutputBufferBytes :: "MetricsRegistry \<Rightarrow> nat \<Rightarrow> MetricsRegistry" where
  "setOutputBufferBytes r v = r\<lparr>output_buffer_bytes := v\<rparr>"

definition addOutputBufferBytes :: "MetricsRegistry \<Rightarrow> nat \<Rightarrow> MetricsRegistry" where
  "addOutputBufferBytes r v = r\<lparr>output_buffer_bytes := sz_add (output_buffer_bytes r) v\<rparr>"

definition removeOutputBufferBytes :: "MetricsRegistry \<Rightarrow> nat \<Rightarrow> MetricsRegistry" where
  "removeOutputBufferBytes r v = r\<lparr>output_buffer_bytes := u64_sub (output_buffer_bytes r) v\<rparr>"

definition recordLogDrop :: "MetricsRegistry \<Rightarrow> MetricsRegistry" where
  "recordLogDrop r = r\<lparr>logs_dropped := u64_inc (logs_dropped r)\<rparr>"

subsection \<open>Rendering\<close>

definition counter_lines :: "string \<Rightarrow> (string \<times> nat) list \<Rightarrow> string" where
  "counter_lines name m =
     concat (map (\<lambda>(labels, v). name @ ''{'' @ labels @ ''} '' @ to_string v @ [LF]) m)"

definition histogram_lines :: "(real \<Rightarrow> string) \<Rightarrow> string \<Rightarrow> (string \<times> Histogram) list \<Rightarrow> string" where
  "histogram_lines show name m = concat (map (\<lambda>(labels, h). renderHistogram show [] name labels h) m)"

definition circuit_lines :: "(string \<times> string) list \<Rightarrow> string" where
  "circuit_lines m =
     concat (map (\<lambda>(upstream, state). concat (map (\<lambda>candidate.
       ''pulsegate_circuit_state{upstream='' @ DQ @ escapedLabel upstream @ DQ @ '',state='' @ DQ @ candidate @ DQ @ ''} '' @
       (if state = candidate then ''1'' else ''0'') @ [LF]) [''closed'', ''open'', ''half_open''])) m)"

definition gauge_lines :: "string \<Rightarrow> string \<Rightarrow> nat \<Rightarrow> string" where
  "gauge_lines name kind v = ''# TYPE '' @ name @ '' '' @ kind @ [LF] @ name @ '' '' @ to_string v @ [LF]"

definition renderPrometheus :: "(real \<Rightarrow> string) \<Rightarrow> MetricsRegistry \<Rightarrow> string" where
  "renderPrometheus show r =
     ''# HELP pulsegate_http_requests_total Total HTTP requests.'' @ [LF] @
     ''# TYPE pulsegate_http_requests_total counter'' @ [LF] @
     counter_lines ''pulsegate_http_requests_total'' (http_requests r) @
     ''# HELP pulsegate_http_request_duration_seconds HTTP request duration.'' @ [LF] @
     ''# TYPE pulsegate_http_request_duration_seconds histogram'' @ [LF] @
     histogram_lines show ''pulsegate_http_request_duration_seconds'' (http_duration r) @
     ''# TYPE pulsegate_rejected_connections_total counter'' @ [LF] @
     counter_lines ''pulsegate_rejected_connections_total'' (rejected_connections r) @
     ''# TYPE pulsegate_upstream_requests_total counter'' @ [LF] @
     counter_lines ''pulsegate_upstream_requests_total'' (upstream_requests r) @
     ''# TYPE pulsegate_upstream_connect_duration_seconds histogram'' @ [LF] @
     histogram_lines show ''pulsegate_upstream_connect_duration_seconds'' (upstream_connect_duration r) @
     ''# TYPE pulsegate_cache_requests_total counter'' @ [LF] @
     counter_lines ''pulsegate_cache_requests_total'' (cache_requests r) @
     ''# TYPE pulsegate_rate_limit_rejections_total counter'' @ [LF] @
     counter_lines ''pulsegate_rate_limit_rejections_total'' (rate_limit_rejections r) @
     ''# TYPE pulsegate_circuit_state gauge'' @ [LF] @
     circuit_lines (circuit_states r) @
     gauge_lines ''pulsegate_active_connections'' ''gauge'' (active_connections r) @
     gauge_lines ''pulsegate_accepted_connections_total'' ''counter'' (accepted_connections r) @
     gauge_lines ''pulsegate_runtime_active_coroutines'' ''gauge'' (runtime_active_coroutines r) @
     gauge_lines ''pulsegate_upstream_pool_waiters'' ''gauge'' (upstream_pool_waiters r) @
     gauge_lines ''pulsegate_output_buffer_bytes'' ''gauge'' (output_buffer_bytes r) @
     gauge_lines ''pulsegate_logs_dropped_total'' ''counter'' (logs_dropped r)"

section \<open>The access log\<close>

datatype LogLevel = Trace | Debug | Info | Warn | Error | Critical

fun level_number :: "LogLevel \<Rightarrow> nat" where
  "level_number Trace = 0" | "level_number Debug = 1" | "level_number Info = 2"
| "level_number Warn = 3" | "level_number Error = 4" | "level_number Critical = 5"

text \<open>The code compares levels by the numbers of the enumeration.\<close>

lemma level_number_inject: "level_number a = level_number b \<Longrightarrow> a = b"
  by (cases a; cases b) simp_all

instantiation LogLevel :: linorder
begin

definition less_eq_LogLevel :: "LogLevel \<Rightarrow> LogLevel \<Rightarrow> bool" where
  "less_eq_LogLevel a b \<longleftrightarrow> level_number a \<le> level_number b"

definition less_LogLevel :: "LogLevel \<Rightarrow> LogLevel \<Rightarrow> bool" where
  "less_LogLevel a b \<longleftrightarrow> level_number a < level_number b"

instance
  by standard (auto simp: less_eq_LogLevel_def less_LogLevel_def level_number_inject)

end

definition parseLogLevel :: "string \<Rightarrow> LogLevel outcome" where
  "parseLogLevel v =
     (if v = ''trace'' then Inr Trace else if v = ''debug'' then Inr Debug
      else if v = ''info'' then Inr Info else if v = ''warn'' \<or> v = ''warning'' then Inr Warn
      else if v = ''error'' then Inr Error else if v = ''critical'' then Inr Critical
      else Inl Invalid_Argument)"

record LoggerConfig =
  lc_level :: LogLevel
  lc_json :: bool
  queue_capacity :: nat

definition LoggerConfig_default :: LoggerConfig where
  "LoggerConfig_default = \<lparr>lc_level = Info, lc_json = True, queue_capacity = 4096\<rparr>"

record RequestLog =
  l_request_id :: string
  l_method :: string
  l_target :: string
  l_status :: int
  l_duration :: int
  l_bytes_in :: nat
  l_bytes_out :: nat
  l_upstream :: string
  l_cache_status :: string

text \<open>\<open>in_hand\<close> is the entry the worker has taken from the queue and not yet written.\<close>

record AsyncLogger =
  lg_config :: LoggerConfig
  level :: LogLevel
  json :: bool
  queue :: "RequestLog list"
  dropped :: nat
  in_hand :: "RequestLog option"

definition AsyncLogger_make :: "LoggerConfig \<Rightarrow> AsyncLogger outcome" where
  "AsyncLogger_make c =
     (if queue_capacity c = 0 then Inl Invalid_Argument
      else Inr \<lparr>lg_config = c, level = lc_level c, json = lc_json c, queue = [], dropped = 0, in_hand = None\<rparr>)"

definition logAccess :: "AsyncLogger \<Rightarrow> RequestLog \<Rightarrow> bool \<times> AsyncLogger" where
  "logAccess lg e =
     (if Info < level lg then (True, lg)
      else if queue_capacity (lg_config lg) \<le> length (queue lg)
      then (False, lg\<lparr>dropped := u64_inc (dropped lg)\<rparr>)
      else (True, lg\<lparr>queue := queue lg @ [e]\<rparr>))"

definition setLogging :: "AsyncLogger \<Rightarrow> LogLevel \<Rightarrow> bool \<Rightarrow> AsyncLogger" where
  "setLogging lg lv js = lg\<lparr>level := lv, json := js\<rparr>"

definition log_format :: "bool \<Rightarrow> RequestLog \<Rightarrow> string" where
  "log_format js e =
     (if \<not> js then
        ''level=info request_id='' @ l_request_id e @ '' method='' @ l_method e @ '' target='' @ l_target e @
        '' status='' @ int_to_string (l_status e) @ '' duration_us='' @ int_to_string (l_duration e) @
        '' bytes_in='' @ to_string (l_bytes_in e) @ '' bytes_out='' @ to_string (l_bytes_out e) @
        '' upstream='' @ l_upstream e @ '' cache='' @ l_cache_status e
      else
        ''{'' @ DQ @ ''level'' @ DQ @ '':'' @ DQ @ ''info'' @ DQ @ '','' @ DQ @ ''request_id'' @ DQ @ '':'' @ DQ @ jsonEscape (l_request_id e) @ DQ @
        '','' @ DQ @ ''method'' @ DQ @ '':'' @ DQ @ jsonEscape (l_method e) @ DQ @
        '','' @ DQ @ ''target'' @ DQ @ '':'' @ DQ @ jsonEscape (l_target e) @ DQ @
        '','' @ DQ @ ''status'' @ DQ @ '':'' @ int_to_string (l_status e) @
        '','' @ DQ @ ''duration_us'' @ DQ @ '':'' @ int_to_string (l_duration e) @
        '','' @ DQ @ ''bytes_in'' @ DQ @ '':'' @ to_string (l_bytes_in e) @
        '','' @ DQ @ ''bytes_out'' @ DQ @ '':'' @ to_string (l_bytes_out e) @
        '','' @ DQ @ ''upstream'' @ DQ @ '':'' @ DQ @ jsonEscape (l_upstream e) @ DQ @
        '','' @ DQ @ ''cache'' @ DQ @ '':'' @ DQ @ jsonEscape (l_cache_status e) @ DQ @ ''}'')"

datatype worker_action = Wait | Take | Sink string | Exit

text \<open>
  One turn of the worker: it writes the entry in hand, or looks at the queue under the lock. It exits
  only with an empty queue and a stop request.
\<close>

definition run_turn :: "AsyncLogger \<Rightarrow> bool \<Rightarrow> worker_action \<times> AsyncLogger" where
  "run_turn lg stop_requested =
     (case in_hand lg of
        Some e \<Rightarrow> (Sink (log_format (json lg) e), lg\<lparr>in_hand := None\<rparr>)
      | None \<Rightarrow>
          (case queue lg of
             [] \<Rightarrow> if stop_requested then (Exit, lg) else (Wait, lg)
           | e # q \<Rightarrow> (Take, lg\<lparr>in_hand := Some e, queue := q\<rparr>)))"

section \<open>Escaped text reads back\<close>

text \<open>
  A reader of quoted strings as JSON and the Prometheus text format define them: a backslash escapes the
  next character, the first bare quote ends the string, and a line break inside it is an error.
\<close>

fun read_quoted :: "string \<Rightarrow> (string \<times> string) option" where
  "read_quoted [] = None"
| "read_quoted (c # cs) =
     (if c = CHR 0x22 then Some ([], cs)
      else if c = CHR 0x5C then
        (case cs of
           [] \<Rightarrow> None
         | d # ds \<Rightarrow>
             (case read_quoted ds of
                None \<Rightarrow> None
              | Some (v, rest) \<Rightarrow>
                  Some ((if d = CHR ''n'' then LF else if d = CHR ''r'' then CR else if d = CHR ''t'' then HT else d) # v, rest)))
      else if char_code c < 0x20 then None
      else map_option (\<lambda>(v, rest). (c # v, rest)) (read_quoted cs))"

text \<open>What escaping loses: control characters other than line feed, return and tab become a question mark.\<close>

definition printable :: "string \<Rightarrow> string" where
  "printable v = map (\<lambda>c. if char_code c < 0x20 \<and> c \<noteq> LF \<and> c \<noteq> CR \<and> c \<noteq> HT then CHR ''?'' else c) v"

lemma jsonEscape_simps [simp]:
  "jsonEscape [] = []" "jsonEscape (c # v) = escape_char c @ jsonEscape v"
  by (simp_all add: jsonEscape_def)

lemma char_code_consts [simp]:
  "char_code LF = 10" "char_code CR = 13" "char_code HT = 9" "char_code (CHR ''?'') = 63"
  by (simp_all add: char_code_def)

lemma read_quoted_escape_char:
  "read_quoted (escape_char c @ rest) =
     map_option (\<lambda>(v, r). ((if char_code c < 0x20 \<and> c \<noteq> LF \<and> c \<noteq> CR \<and> c \<noteq> HT then CHR ''?'' else c) # v, r)) (read_quoted rest)"
proof -
  consider "c = CHR 0x22" | "c = CHR 0x5C" | "c = LF" | "c = CR" | "c = HT"
    | (control) "c \<noteq> CHR 0x22" "c \<noteq> CHR 0x5C" "c \<noteq> LF" "c \<noteq> CR" "c \<noteq> HT" "char_code c < 0x20"
    | (plain) "c \<noteq> CHR 0x22" "c \<noteq> CHR 0x5C" "c \<noteq> LF" "c \<noteq> CR" "c \<noteq> HT" "\<not> char_code c < 0x20"
    by blast
  then show ?thesis
  proof cases
    case control
    then show ?thesis by (simp add: escape_char_def)
  next
    case plain
    then show ?thesis by (simp add: escape_char_def)
  qed (simp add: escape_char_def char_code_def, cases "read_quoted rest", simp, fastforce)+
qed

lemma read_quoted_escape: "read_quoted (jsonEscape v @ CHR 0x22 # rest) = Some (printable v, rest)"
  by (induction v) (simp_all add: read_quoted_escape_char printable_def)

lemma escape_char_single_line: "d \<in> set (escape_char c) \<Longrightarrow> 0x20 \<le> char_code d"
  by (auto simp: escape_char_def char_code_def split: if_splits)

lemma jsonEscape_single_line: "d \<in> set (jsonEscape v) \<Longrightarrow> 0x20 \<le> char_code d"
  by (induction v) (auto dest: escape_char_single_line)

section \<open>Registry invariant\<close>

definition smap_sorted :: "(string \<times> 'v) list \<Rightarrow> bool" where
  "smap_sorted m \<longleftrightarrow> sorted_wrt (<) (map fst m)"

lemma smap_update_keys: "set (map fst (smap_update d f k m)) = insert k (set (map fst m))"
  by (induction d f k m rule: smap_update.induct) auto

lemma smap_update_sorted: "smap_sorted m \<Longrightarrow> smap_sorted (smap_update d f k m)"
proof (induction d f k m rule: smap_update.induct)
  case (2 d f k k' v rest)
  then show ?case
    using smap_update_keys [of d f k rest] by (auto simp: smap_sorted_def not_less_iff_gr_or_eq simp del: set_map)
qed (simp add: smap_sorted_def)

text \<open>Lookup in the map: after an update the key has the updated value and no other key changes.\<close>

lemma map_of_smap_update:
  assumes "smap_sorted m"
  shows "map_of (smap_update d f k m) k' =
    (if k' = k then Some (f (case map_of m k of None \<Rightarrow> d | Some v \<Rightarrow> v)) else map_of m k')"
  using assms
proof (induction d f k m rule: smap_update.induct)
  case (2 d f k j v rest)
  have gt: "map_of rest k = None" if "k < j"
    using that 2(2) by (auto simp: smap_sorted_def map_of_eq_None_iff)
  show ?case using 2 gt by (auto simp: smap_sorted_def)
qed simp

text \<open>Cumulative buckets: each bound's count includes the smaller bounds' counts.\<close>

definition hist_inv :: "Histogram \<Rightarrow> bool" where
  "hist_inv h \<longleftrightarrow> le_1ms h \<le> le_5ms h \<and> le_5ms h \<le> le_25ms h \<and> le_25ms h \<le> le_100ms h \<and>
     le_100ms h \<le> le_1s h \<and> le_1s h \<le> h_count h"

lemma u64_inc_small: "n < 2 ^ 64 - 1 \<Longrightarrow> u64_inc n = n + 1"
  by (simp add: u64_inc_def)

lemma bump_mono: "(b \<longrightarrow> c) \<Longrightarrow> m \<le> n \<Longrightarrow> n < 2 ^ 64 - 1 \<Longrightarrow> bump b m \<le> bump c n"
  by (auto simp: bump_def u64_inc_small)

lemma updateHistogram_inv:
  assumes "mono rnd" "hist_inv h" "h_count h < 2 ^ 64 - 1"
  shows "hist_inv (updateHistogram rnd h d) \<and> h_count (updateHistogram rnd h d) = h_count h + 1"
proof -
  define s where "s = rnd (rnd (of_int d) / 1000000)"
  have r: "rnd (1 / 1000) \<le> rnd (5 / 1000)" "rnd (5 / 1000) \<le> rnd (25 / 1000)"
      "rnd (25 / 1000) \<le> rnd (1 / 10)" "rnd (1 / 10) \<le> rnd 1"
    using assms(1) by (auto intro!: monoD [OF assms(1)])
  have "u64_inc (h_count h) = bump True (h_count h)" by (simp add: bump_def)
  then show ?thesis
    using assms(2,3) r unfolding hist_inv_def updateHistogram_def Let_def s_def [symmetric]
    by (auto simp: u64_inc_small [of "h_count h"] intro!: bump_mono)
qed

definition counted :: "nat \<Rightarrow> nat option \<Rightarrow> Histogram option \<Rightarrow> bool" where
  "counted n c ho = (case (c, ho) of (None, None) \<Rightarrow> True
     | (Some v, Some h) \<Rightarrow> hist_inv h \<and> h_count h = v \<and> v \<le> n | _ \<Rightarrow> False)"

definition http_inv :: "nat \<Rightarrow> MetricsRegistry \<Rightarrow> bool" where
  "http_inv n r \<longleftrightarrow> smap_sorted (http_requests r) \<and> smap_sorted (http_duration r) \<and>
     (\<forall>k. counted n (map_of (http_requests r) k) (map_of (http_duration r) k))"

lemma counted_mono: "counted n c ho \<Longrightarrow> counted (Suc n) c ho"
  by (auto simp: counted_def split: option.splits)

lemma counted_update:
  assumes "mono rnd" "counted n c ho" "n < 2 ^ 64 - 1"
  shows "counted (Suc n) (Some (u64_inc (case c of None \<Rightarrow> 0 | Some v \<Rightarrow> v)))
     (Some (updateHistogram rnd (case ho of None \<Rightarrow> Histogram_default | Some h \<Rightarrow> h) du))"
proof -
  let ?h = "case ho of None \<Rightarrow> Histogram_default | Some h \<Rightarrow> h"
  have "hist_inv ?h \<and> h_count ?h = (case c of None \<Rightarrow> 0 | Some v \<Rightarrow> v) \<and> h_count ?h \<le> n"
    using assms(2) by (auto simp: counted_def hist_inv_def Histogram_default_def split: option.splits)
  with updateHistogram_inv [OF assms(1), of ?h du] assms(3) show ?thesis
    by (simp add: counted_def u64_inc_small)
qed

fun record_all :: "(real \<Rightarrow> real) \<Rightarrow> MetricsRegistry \<Rightarrow> (string \<times> int \<times> string \<times> int) list \<Rightarrow> MetricsRegistry" where
  "record_all rnd r [] = r"
| "record_all rnd r ((me, st, ro, du) # rs) = record_all rnd (recordHttp rnd r me st ro du) rs"

lemma recordHttp_inv:
  assumes "mono rnd" "http_inv n r" "n < 2 ^ 64 - 1"
  shows "http_inv (n + 1) (recordHttp rnd r me st ro du)"
  using assms unfolding http_inv_def recordHttp_def Let_def
  by (simp add: smap_update_sorted map_of_smap_update counted_mono counted_update)

lemma record_all_inv:
  "mono rnd \<Longrightarrow> http_inv n r \<Longrightarrow> n + length rs < 2 ^ 64 \<Longrightarrow> http_inv (n + length rs) (record_all rnd r rs)"
proof (induction rnd r rs arbitrary: n rule: record_all.induct)
  case (2 rnd r me st ro du rs)
  have "http_inv (n + 1) (recordHttp rnd r me st ro du)" using 2(2-) by (intro recordHttp_inv) simp_all
  with 2(1) [of "n + 1"] 2(2,4) show ?case by simp
qed simp

definition recorded :: "(string \<times> nat) list \<Rightarrow> string \<Rightarrow> nat" where
  "recorded m k = (case map_of m k of None \<Rightarrow> 0 | Some v \<Rightarrow> v)"

lemma record_all_counts:
  "smap_sorted (http_requests r) \<Longrightarrow> recorded (http_requests r) k + length rs < 2 ^ 64 \<Longrightarrow>
   recorded (http_requests (record_all rnd r rs)) k =
     recorded (http_requests r) k + length (filter (\<lambda>(me, st, ro, du). http_labels me st ro = k) rs)"
proof (induction rnd r rs rule: record_all.induct)
  case (2 rnd r me st ro du rs)
  let ?r = "recordHttp rnd r me st ro du"
  have "smap_sorted (http_requests ?r)" using 2(2) by (simp add: recordHttp_def Let_def smap_update_sorted)
  moreover have "recorded (http_requests ?r) k = recorded (http_requests r) k + (if http_labels me st ro = k then 1 else 0)"
    using 2(2,3) by (auto simp: recordHttp_def Let_def map_of_smap_update recorded_def u64_inc_def split: option.splits)
  ultimately show ?case using 2(1,3) by auto
qed simp

section \<open>The log queue\<close>

datatype log_event = Log_Access RequestLog | Set_Logging LogLevel bool | Worker_Turn bool

text \<open>The history of a logger: the entries it admitted, the number it refused, the entries written and their lines.\<close>

record log_world =
  logger :: AsyncLogger
  admitted :: "RequestLog list"
  refused :: nat
  written :: "RequestLog list"
  lines :: "string list"

fun log_step :: "log_world \<Rightarrow> log_event \<Rightarrow> log_world" where
  "log_step w (Log_Access e) =
     (case logAccess (logger w) e of (ok, lg) \<Rightarrow>
        w\<lparr>logger := lg,
          admitted := (if ok \<and> level (logger w) \<le> Info then admitted w @ [e] else admitted w),
          refused := (if ok then refused w else refused w + 1)\<rparr>)"
| "log_step w (Set_Logging lv js) = w\<lparr>logger := setLogging (logger w) lv js\<rparr>"
| "log_step w (Worker_Turn stop) =
     (case run_turn (logger w) stop of (act, lg) \<Rightarrow>
        (case act of
           Sink line \<Rightarrow> w\<lparr>logger := lg, written := written w @ (case in_hand (logger w) of None \<Rightarrow> [] | Some e \<Rightarrow> [e]),
                         lines := lines w @ [line]\<rparr>
         | _ \<Rightarrow> w\<lparr>logger := lg\<rparr>))"

definition log_start :: "AsyncLogger \<Rightarrow> log_world" where
  "log_start lg = \<lparr>logger = lg, admitted = [], refused = 0, written = [], lines = []\<rparr>"

definition log_inv :: "LoggerConfig \<Rightarrow> log_world \<Rightarrow> bool" where
  "log_inv c w \<longleftrightarrow> lg_config (logger w) = c \<and>
     written w @ (case in_hand (logger w) of None \<Rightarrow> [] | Some e \<Rightarrow> [e]) @ queue (logger w) = admitted w \<and>
     list_all2 (\<lambda>e l. l = log_format True e \<or> l = log_format False e) (written w) (lines w) \<and>
     length (queue (logger w)) \<le> queue_capacity c \<and> dropped (logger w) = refused w mod 2 ^ 64"

lemma log_step_inv: "log_inv c w \<Longrightarrow> log_inv c (log_step w e)"
proof (cases e)
  case (Log_Access r)
  assume "log_inv c w"
  with Log_Access show ?thesis
    by (auto simp: log_inv_def logAccess_def u64_inc_def mod_Suc_eq)
next
  case (Worker_Turn stop)
  assume inv: "log_inv c w"
  show ?thesis
  proof (cases "in_hand (logger w)")
    case None
    with Worker_Turn inv show ?thesis by (auto simp: log_inv_def run_turn_def split: list.splits)
  next
    case (Some e)
    have "log_format (json (logger w)) e = log_format True e \<or> log_format (json (logger w)) e = log_format False e"
      by (cases "json (logger w)") simp_all
    with Some Worker_Turn inv show ?thesis by (simp add: log_inv_def run_turn_def list_all2_appendI)
  qed
qed (simp add: log_inv_def setLogging_def)

lemma log_run_inv:
  assumes "AsyncLogger_make c = Inr lg"
  shows "log_inv c (fold (\<lambda>e w. log_step w e) es (log_start lg))"
proof -
  have "log_inv c (log_start lg)"
    using assms by (auto simp: AsyncLogger_make_def log_start_def log_inv_def split: if_splits)
  then have "log_inv c (fold (\<lambda>e w. log_step w e) es w)" if "w = log_start lg" for w
    using that by (induction es rule: rev_induct) (simp_all add: log_step_inv)
  then show ?thesis by simp
qed

text \<open>Draining after the stop request: two turns per entry, then the worker exits.\<close>

lemma worker_drains:
  "log_inv c w \<Longrightarrow> n = 2 * length (queue (logger w)) + (if in_hand (logger w) = None then 0 else 1) \<Longrightarrow>
   (let w' = ((\<lambda>v. log_step v (Worker_Turn True)) ^^ n) w
    in written w' = admitted w \<and> admitted w' = admitted w \<and> fst (run_turn (logger w') True) = Exit)"
proof (induction n arbitrary: w)
  case 0
  then show ?case by (auto simp: log_inv_def run_turn_def Let_def split: if_splits)
next
  case (Suc n)
  let ?w = "log_step w (Worker_Turn True)"
  have "n = 2 * length (queue (logger ?w)) + (if in_hand (logger ?w) = None then 0 else 1)" "admitted ?w = admitted w"
    using Suc.prems(2) by (auto simp: run_turn_def split: option.splits list.splits)
  with Suc.IH [of ?w] log_step_inv [OF Suc.prems(1)] show ?case
    by (simp add: funpow_Suc_right del: funpow.simps log_step.simps)
qed

section \<open>Properties\<close>

text \<open>
  Whatever requests are recorded, the metrics of a label set count exactly the requests recorded
  with it, and its latency histogram agrees with the counter and has cumulative buckets, for
  every monotone rounding of the machine's doubles.
\<close>

theorem http_metrics_are_consistent:
  assumes "mono rnd" "length rs < 2 ^ 64"
  shows "recorded (http_requests (record_all rnd MetricsRegistry_default rs)) k =
      length (filter (\<lambda>(me, st, ro, du). http_labels me st ro = k) rs) \<and>
    (\<forall>h. map_of (http_duration (record_all rnd MetricsRegistry_default rs)) k = Some h \<longrightarrow>
      hist_inv h \<and> map_of (http_requests (record_all rnd MetricsRegistry_default rs)) k = Some (h_count h))"
proof -
  have "http_inv 0 MetricsRegistry_default"
    by (simp add: http_inv_def MetricsRegistry_default_def smap_sorted_def counted_def)
  from record_all_inv [OF assms(1) this, of rs] assms(2)
  have "counted (length rs) (map_of (http_requests (record_all rnd MetricsRegistry_default rs)) k)
      (map_of (http_duration (record_all rnd MetricsRegistry_default rs)) k)"
    by (simp add: http_inv_def)
  moreover have "recorded (http_requests (record_all rnd MetricsRegistry_default rs)) k =
      length (filter (\<lambda>(me, st, ro, du). http_labels me st ro = k) rs)"
    using record_all_counts [of MetricsRegistry_default k rs rnd] assms(2)
    by (simp add: MetricsRegistry_default_def smap_sorted_def recorded_def)
  ultimately show ?thesis by (auto simp: counted_def split: option.splits)
qed

theorem http_metrics_are_consistent_witness:
  "recorded (http_requests (record_all (\<lambda>x. x) MetricsRegistry_default [(''GET'', 200, ''r'', 7), (''GET'', 204, ''r'', 9)]))
     (http_labels ''GET'' 200 ''r'') = 2"
proof -
  have "length (filter (\<lambda>(me, st, ro, du). http_labels me st ro = http_labels ''GET'' 200 ''r'')
      [(''GET'', 200 :: int, ''r'', 7 :: int), (''GET'', 204, ''r'', 9)]) = 2"
    by code_simp
  with http_metrics_are_consistent [of "\<lambda>x. x" "[(''GET'', 200, ''r'', 7), (''GET'', 204, ''r'', 9)]" "http_labels ''GET'' 200 ''r''"]
  show ?thesis by (simp add: mono_def)
qed

text \<open>
  Text from outside cannot break out of a quoted position: an escaped label or log field, followed by
  its closing quote, reads back as the text itself up to control characters shown as question
  marks, leaves the rest of the line untouched, and never contains a line break.
\<close>

theorem escaped_text_reads_back:
  "read_quoted (escapedLabel v @ DQ @ rest) = Some (printable v, rest) \<and>
   (\<forall>d. char_code d < 0x20 \<longrightarrow> d \<notin> set (escapedLabel v))"
  using read_quoted_escape [of v rest] jsonEscape_single_line [of _ v]
  by (auto simp: escapedLabel_def leD)

theorem escaped_text_reads_back_witness:
  "LF \<notin> set (escapedLabel [CHR ''a'', LF, CHR 0x22])"
  using escaped_text_reads_back [of "[CHR ''a'', LF, CHR 0x22]" "[]"] char_code_consts(1) by fastforce

text \<open>
  C32: Under any interleaving of requests, reconfigurations and worker turns, the access log admits entries
  up to its capacity, counts every refused one, and writes the admitted entries in order, each
  exactly once; once a stop is requested the worker writes everything still queued before it exits.
\<close>

theorem access_log_is_fifo:
  assumes "AsyncLogger_make c = Inr lg" "w = fold (\<lambda>e v. log_step v e) es (log_start lg)"
    and "n = 2 * length (queue (logger w)) + (if in_hand (logger w) = None then 0 else 1)"
    and "w' = ((\<lambda>v. log_step v (Worker_Turn True)) ^^ n) w"
  shows "length (queue (logger w)) \<le> queue_capacity c \<and> dropped (logger w) = refused w mod 2 ^ 64 \<and>
    (\<exists>pending. written w @ pending = admitted w) \<and>
    list_all2 (\<lambda>e l. l = log_format True e \<or> l = log_format False e) (written w) (lines w) \<and>
    written w' = admitted w \<and> fst (run_turn (logger w') True) = Exit"
proof -
  have inv: "log_inv c w" unfolding assms(2) by (rule log_run_inv [OF assms(1)])
  from worker_drains [OF inv assms(3)] have "written w' = admitted w" "fst (run_turn (logger w') True) = Exit"
    by (simp_all add: assms(4) Let_def)
  with inv show ?thesis by (auto simp: log_inv_def)
qed

definition sample_log :: RequestLog where
  "sample_log = \<lparr>l_request_id = ''1'', l_method = ''GET'', l_target = ''/'', l_status = 200, l_duration = 5,
     l_bytes_in = 10, l_bytes_out = 20, l_upstream = [], l_cache_status = ''HIT''\<rparr>"

theorem access_log_is_fifo_witness:
  "refused (fold (\<lambda>e v. log_step v e) [Log_Access sample_log, Log_Access sample_log]
     (log_start \<lparr>lg_config = LoggerConfig_default\<lparr>queue_capacity := 1\<rparr>, level = Info, json = True, queue = [],
        dropped = 0, in_hand = None\<rparr>)) = 1 \<and>
   dropped (logger (fold (\<lambda>e v. log_step v e) [Log_Access sample_log, Log_Access sample_log]
     (log_start \<lparr>lg_config = LoggerConfig_default\<lparr>queue_capacity := 1\<rparr>, level = Info, json = True, queue = [],
        dropped = 0, in_hand = None\<rparr>))) = 1"
proof -
  let ?lg = "\<lparr>lg_config = LoggerConfig_default\<lparr>queue_capacity := 1\<rparr>, level = Info, json = True, queue = [],
        dropped = 0, in_hand = None\<rparr>"
  have "AsyncLogger_make (LoggerConfig_default\<lparr>queue_capacity := 1\<rparr>) = Inr ?lg"
    by (simp add: AsyncLogger_make_def LoggerConfig_default_def)
  moreover have "refused (fold (\<lambda>e v. log_step v e) [Log_Access sample_log, Log_Access sample_log] (log_start ?lg)) = 1"
    by code_simp
  ultimately show ?thesis
    using access_log_is_fifo [OF _ refl refl refl, of "LoggerConfig_default\<lparr>queue_capacity := 1\<rparr>" ?lg
      "[Log_Access sample_log, Log_Access sample_log]"] by auto
qed

end
