(* ===== verification/Router.thy ===== *)
theory Router
  imports RateLimiter ResponseCache Observability "HOL-Library.AList"
begin

text \<open>
  The router, \<open>src/http/router.cpp\<close>: the route table, and the request path through the global limiter, the
  route match, the route's limiter and the route's response cache around the handler. Limiters and
  caches are shared objects, so they live in stores and the tables hold their addresses. The
  handler is a parameter: it is a coroutine that may let other requests run, so it takes and
  returns the whole router, the request context and, unless it throws, a response.
\<close>

section \<open>State\<close>

record RequestContext =
  request_id :: string
  peer_unspecified :: bool
  peer_address :: string
  buffer_response_for_cache :: bool
  route_name :: string
  cache_status :: string

definition RequestContext_default :: RequestContext where
  "RequestContext_default = \<lparr>request_id = [], peer_unspecified = True, peer_address = ''0.0.0.0'',
     buffer_response_for_cache = False, route_name = ''unmatched'', cache_status = ''BYPASS''\<rparr>"

record Route =
  rt_method :: HttpMethod
  pattern :: string
  rt_name :: string
  prefix_match :: bool
  handler :: "nat option"

record Router =
  routes :: "Route list"
  limiter_store :: "RateLimiter list"
  cache_store :: "ResponseCache list"
  route_limiters :: "(string \<times> nat) list"
  route_caches :: "(string \<times> nat) list"
  global_limiter :: "nat option"
  metrics :: "MetricsRegistry option"
  next_request_id :: nat

definition Router_make :: "RateLimitConfig option \<Rightarrow> int \<Rightarrow> Router outcome" where
  "Router_make global_rate_limit now =
     (let empty = \<lparr>routes = [], limiter_store = [], cache_store = [], route_limiters = [], route_caches = [],
                   global_limiter = None, metrics = None, next_request_id = 1\<rparr>
      in case global_rate_limit of
           None \<Rightarrow> Inr empty
         | Some c \<Rightarrow> ebind (RateLimiter_make c now) (\<lambda>l. Inr (empty\<lparr>limiter_store := [l], global_limiter := Some 0\<rparr>)))"

definition router_add :: "Router \<Rightarrow> Route \<Rightarrow> RateLimitConfig option \<Rightarrow> ResponseCacheConfig option \<Rightarrow> int \<Rightarrow> Router outcome" where
  "router_add r route rate_limit cache now =
     (if pattern route = [] \<or> hd (pattern route) \<noteq> CHR ''/'' \<or> rt_name route = [] \<or> handler route = None
      then Inl Invalid_Argument
      else
        ebind (case rate_limit of
                 None \<Rightarrow> Inr r
               | Some c \<Rightarrow> ebind (RateLimiter_make c now) (\<lambda>l.
                   Inr (r\<lparr>limiter_store := limiter_store r @ [l],
                          route_limiters := AList.update (rt_name route) (length (limiter_store r)) (route_limiters r)\<rparr>)))
        (\<lambda>r1. ebind (case cache of
                 None \<Rightarrow> Inr r1
               | Some c \<Rightarrow> ebind (ResponseCache_make c) (\<lambda>k.
                   Inr (r1\<lparr>cache_store := cache_store r1 @ [k],
                           route_caches := AList.update (rt_name route) (length (cache_store r1)) (route_caches r1)\<rparr>)))
        (\<lambda>r2. Inr (r2\<lparr>routes := routes r2 @ [route]\<rparr>))))"

definition nextRequestId :: "Router \<Rightarrow> string \<times> Router" where
  "nextRequestId r = (to_string (next_request_id r), r\<lparr>next_request_id := u64_inc (next_request_id r)\<rparr>)"

section \<open>Matching\<close>

definition pathPart :: "string \<Rightarrow> string" where
  "pathPart target = upto (find_char (CHR ''?'') target) target"

definition routeMatches :: "Route \<Rightarrow> HttpMethod \<Rightarrow> string \<Rightarrow> bool" where
  "routeMatches route meth path =
     (if rt_method route \<noteq> Unknown \<and> rt_method route \<noteq> meth then False
      else if prefix_match route then take (length (pattern route)) path = pattern route
      else path = pattern route)"

definition router_match :: "Router \<Rightarrow> HttpMethod \<Rightarrow> string \<Rightarrow> Route option" where
  "router_match r meth target = find (\<lambda>route. routeMatches route meth (pathPart target)) (routes r)"

definition path_known :: "Route \<Rightarrow> string \<Rightarrow> bool" where
  "path_known route path = (pattern route = path \<or> (prefix_match route \<and> take (length (pattern route)) path = pattern route))"

text \<open>The loop that collects the methods of the routes for this path.\<close>

fun allow_loop :: "Route list \<Rightarrow> string \<Rightarrow> bool \<Rightarrow> string \<Rightarrow> bool \<times> string" where
  "allow_loop [] path path_exists allow = (path_exists, allow)"
| "allow_loop (route # rest) path path_exists allow =
     (if path_known route path
      then allow_loop rest path True ((if allow = [] then allow else allow @ '', '') @ methodName (rt_method route))
      else allow_loop rest path path_exists allow)"

section \<open>Responses of the router\<close>

definition makeError :: "int \<Rightarrow> string \<Rightarrow> string \<Rightarrow> HttpResponse" where
  "makeError status reason body =
     HttpResponse_default\<lparr>rs_status_code := status, rs_reason := reason, rs_body := body,
       rs_headers := headers_add [] ''Content-Type'' ''text/plain''\<rparr>"

definition with_header :: "HttpResponse \<Rightarrow> string \<Rightarrow> string \<Rightarrow> HttpResponse" where
  "with_header resp n v = resp\<lparr>rs_headers := headers_set (rs_headers resp) n v\<rparr>"

definition added_header :: "HttpResponse \<Rightarrow> string \<Rightarrow> string \<Rightarrow> HttpResponse" where
  "added_header resp n v = resp\<lparr>rs_headers := headers_add (rs_headers resp) n v\<rparr>"

definition makeRateLimited :: "RateLimitDecision \<Rightarrow> HttpResponse" where
  "makeRateLimited d =
     (let seconds = max 1 ((retry_after d + 999) sdiv 1000)
      in added_header (makeError 429 ''Too Many Requests'' (''rate limit exceeded'' @ [LF])) ''Retry-After'' (int_to_string seconds))"

definition clientKey :: "RequestContext \<Rightarrow> string" where
  "clientKey ctx = (if peer_unspecified ctx then ''unknown'' else peer_address ctx)"

section \<open>Handling a request\<close>

type_synonym 'a routed = "(Router \<times> RequestContext \<times> 'a) outcome"

definition check_limiter :: "(real \<Rightarrow> real) \<Rightarrow> (string \<Rightarrow> nat) \<Rightarrow> Router \<Rightarrow> nat \<Rightarrow> string \<Rightarrow> int \<Rightarrow>
    (RateLimitDecision \<times> Router) outcome" where
  "check_limiter rnd hash r i key now =
     (if i < length (limiter_store r)
      then ebind (check rnd hash (limiter_store r ! i) key now) (\<lambda>(d, l).
             Inr (d, r\<lparr>limiter_store := (limiter_store r)[i := l]\<rparr>))
      else Inl Undefined_Behaviour)"

definition note_rejection :: "Router \<Rightarrow> string \<Rightarrow> Router" where
  "note_rejection r name = r\<lparr>metrics := map_option (\<lambda>m. recordRateLimitRejection m name) (metrics r)\<rparr>"

definition note_cache :: "Router \<Rightarrow> string \<Rightarrow> Router" where
  "note_cache r result = r\<lparr>metrics := map_option (\<lambda>m. recordCache m result) (metrics r)\<rparr>"

definition unmatched_response :: "Router \<Rightarrow> string \<Rightarrow> HttpResponse" where
  "unmatched_response r path =
     (case allow_loop (routes r) path False [] of
        (True, allow) \<Rightarrow> added_header (makeError 405 ''Method Not Allowed'' (''method not allowed'' @ [LF])) ''Allow'' allow
      | (False, _) \<Rightarrow> makeError 404 ''Not Found'' (''not found'' @ [LF]))"

text \<open>What remains to be done when the handler is called: the route's cache, if any, and the key of a cacheable request.\<close>

record pending =
  pd_cache :: "nat option"
  pd_key :: "string option"
  can_store_response :: bool

datatype progress = Answered HttpResponse | Calling nat HttpRequest pending

text \<open>From the start of \<open>handle\<close> to the handler; the clock is read by the two limiters and the cache.\<close>

definition consult_cache :: "(string \<Rightarrow> nat) \<Rightarrow> Router \<Rightarrow> RequestContext \<Rightarrow> HttpRequest \<Rightarrow> Route \<Rightarrow> int \<Rightarrow>
    progress routed" where
  "consult_cache hash r ctx rq route now =
     (let h = the (handler route); store = (rq_method rq = Get)
      in case map_of (route_caches r) (rt_name route) of
           None \<Rightarrow> Inr (r, ctx, Calling h rq \<lparr>pd_cache = None, pd_key = None, can_store_response = store\<rparr>)
         | Some c \<Rightarrow>
             if \<not> cacheableRequest rq
             then Inr (r, ctx, Calling h rq \<lparr>pd_cache = Some c, pd_key = None, can_store_response = store\<rparr>)
             else if \<not> c < length (cache_store r) then Inl Undefined_Behaviour
             else
               let key = makeKey rq (rc_config (cache_store r ! c))
               in ebind (cache_get hash (cache_store r ! c) key now) (\<lambda>(found, k).
                    let r1 = r\<lparr>cache_store := (cache_store r)[c := k]\<rparr>
                    in case found of
                         Some cached \<Rightarrow>
                           Inr (note_cache r1 ''hit'', ctx\<lparr>cache_status := ''HIT''\<rparr>,
                                Answered (with_header (with_header cached ''X-Cache'' ''HIT'') ''X-Request-Id'' (request_id ctx)))
                       | None \<Rightarrow>
                           Inr (r1, ctx\<lparr>buffer_response_for_cache := True\<rparr>,
                                Calling h rq \<lparr>pd_cache = Some c, pd_key = Some key, can_store_response = store\<rparr>)))"

definition dispatch :: "(real \<Rightarrow> real) \<Rightarrow> (string \<Rightarrow> nat) \<Rightarrow> Router \<Rightarrow> RequestContext \<Rightarrow> HttpRequest \<Rightarrow>
    int \<Rightarrow> int \<Rightarrow> progress routed" where
  "dispatch rnd hash r ctx rq now_route now_cache =
     (let path = pathPart (rq_target rq)
      in case find (\<lambda>route. routeMatches route (rq_method rq) path) (routes r) of
           None \<Rightarrow> Inr (r, ctx, Answered (with_header (unmatched_response r path) ''X-Request-Id'' (request_id ctx)))
         | Some route \<Rightarrow>
             let ctx1 = ctx\<lparr>route_name := rt_name route\<rparr>
             in case map_of (route_limiters r) (rt_name route) of
                  None \<Rightarrow> consult_cache hash r ctx1 rq route now_cache
                | Some l \<Rightarrow>
                    ebind (check_limiter rnd hash r l (clientKey ctx1) now_route) (\<lambda>(d, r1).
                      if allowed d then consult_cache hash r1 ctx1 rq route now_cache
                      else Inr (note_rejection r1 (rt_name route), ctx1,
                                Answered (with_header (makeRateLimited d) ''X-Request-Id'' (request_id ctx1)))))"

definition handle_begin :: "(real \<Rightarrow> real) \<Rightarrow> (string \<Rightarrow> nat) \<Rightarrow> Router \<Rightarrow> RequestContext \<Rightarrow> HttpRequest \<Rightarrow>
    int \<Rightarrow> int \<Rightarrow> int \<Rightarrow> progress routed" where
  "handle_begin rnd hash r ctx rq now_global now_route now_cache =
     (case global_limiter r of
        None \<Rightarrow> dispatch rnd hash r ctx rq now_route now_cache
      | Some g \<Rightarrow>
          ebind (check_limiter rnd hash r g (clientKey ctx) now_global) (\<lambda>(d, r1).
            if allowed d then dispatch rnd hash r1 ctx rq now_route now_cache
            else Inr (note_rejection r1 ''global'', ctx\<lparr>route_name := ''global''\<rparr>,
                      Answered (with_header (makeRateLimited d) ''X-Request-Id'' (request_id ctx)))))"

text \<open>After the handler: the response it returned, or the 500 response when it threw.\<close>

definition bypass :: "Router \<Rightarrow> RequestContext \<Rightarrow> HttpResponse \<Rightarrow> HttpResponse routed" where
  "bypass r ctx resp =
     Inr (note_cache r ''bypass'', ctx\<lparr>cache_status := ''BYPASS''\<rparr>, with_header resp ''X-Cache'' ''BYPASS'')"

definition store_response :: "(string \<Rightarrow> nat) \<Rightarrow> Router \<Rightarrow> RequestContext \<Rightarrow> pending \<Rightarrow> HttpResponse \<Rightarrow> int \<Rightarrow>
    HttpResponse routed" where
  "store_response hash r ctx pd resp now =
     (case pd_cache pd of
        None \<Rightarrow> Inr (r, ctx, resp)
      | Some c \<Rightarrow>
          (case pd_key pd of
             None \<Rightarrow> bypass r ctx resp
           | Some key \<Rightarrow>
               if \<not> c < length (cache_store r) then Inl Undefined_Behaviour
               else if can_store_response pd \<and> cacheableResponse resp (rc_config (cache_store r ! c)) then
                 ebind (cache_put hash (cache_store r ! c) key resp now) (\<lambda>(stored, k).
                   let r1 = r\<lparr>cache_store := (cache_store r)[c := k]\<rparr>
                   in if stored
                      then Inr (note_cache r1 ''miss'', ctx\<lparr>cache_status := ''MISS''\<rparr>, with_header resp ''X-Cache'' ''MISS'')
                      else bypass r1 ctx resp)
               else bypass r ctx resp))"

definition handle_end :: "(string \<Rightarrow> nat) \<Rightarrow> Router \<Rightarrow> RequestContext \<Rightarrow> pending \<Rightarrow> HttpResponse option \<Rightarrow> int \<Rightarrow>
    HttpResponse routed" where
  "handle_end hash r ctx pd returned now =
     (let resp = (case returned of
                    Some x \<Rightarrow> x
                  | None \<Rightarrow> makeError 500 ''Internal Server Error'' (''internal server error'' @ [LF]))
      in ebind (store_response hash r (ctx\<lparr>buffer_response_for_cache := False\<rparr>) pd resp now) (\<lambda>(r1, ctx1, resp1).
           Inr (r1, ctx1, with_header resp1 ''X-Request-Id'' (request_id ctx1))))"

type_synonym handler_run = "nat \<Rightarrow> Router \<Rightarrow> RequestContext \<Rightarrow> HttpRequest \<Rightarrow> Router \<times> RequestContext \<times> HttpResponse option"

definition router_handle :: "(real \<Rightarrow> real) \<Rightarrow> (string \<Rightarrow> nat) \<Rightarrow> handler_run \<Rightarrow> Router \<Rightarrow> RequestContext \<Rightarrow> HttpRequest \<Rightarrow>
    int \<Rightarrow> int \<Rightarrow> int \<Rightarrow> int \<Rightarrow> HttpResponse routed" where
  "router_handle rnd hash run r ctx rq now_global now_route now_cache now_end =
     ebind (handle_begin rnd hash r ctx rq now_global now_route now_cache) (\<lambda>(r1, ctx1, pr).
       case pr of
         Answered resp \<Rightarrow> Inr (r1, ctx1, resp)
       | Calling h rq1 pd \<Rightarrow>
           (case run h r1 ctx1 rq1 of (r2, ctx2, returned) \<Rightarrow> handle_end hash r2 ctx2 pd returned now_end))"

section \<open>Metrics\<close>

definition limit_line :: "string \<Rightarrow> string \<Rightarrow> nat \<Rightarrow> string" where
  "limit_line scope outcome v =
     ''pulsegate_rate_limit_requests_total{scope='' @ DQ @ scope @ DQ @ '',outcome='' @ DQ @ outcome @ DQ @ ''} '' @
     to_string v @ [LF]"

definition limit_lines :: "string \<Rightarrow> nat \<Rightarrow> nat \<Rightarrow> nat \<Rightarrow> string" where
  "limit_lines scope n_ok n_rejected n_capacity =
     limit_line scope ''allowed'' n_ok @ limit_line scope ''rejected'' n_rejected @ limit_line scope ''key_capacity'' n_capacity"

definition sum64 :: "nat list \<Rightarrow> nat" where
  "sum64 ns = foldl sz_add 0 ns"

definition rateLimitMetrics :: "Router \<Rightarrow> string" where
  "rateLimitMetrics r =
     (let stats = map (\<lambda>(name, i). limiter_store r ! i) (route_limiters r)
      in ''# TYPE pulsegate_rate_limit_requests_total counter'' @ [LF] @
         (case global_limiter r of
            None \<Rightarrow> []
          | Some g \<Rightarrow> (let l = limiter_store r ! g
                      in limit_lines ''global'' (allowed_count l) (rejected_count l) (rejected_key_capacity_count l))) @
         (if route_limiters r = [] then []
          else limit_lines ''route'' (sum64 (map allowed_count stats)) (sum64 (map rejected_count stats))
                 (sum64 (map rejected_key_capacity_count stats))))"

definition cache_line :: "string \<Rightarrow> nat \<Rightarrow> string" where
  "cache_line operation v =
     ''pulsegate_response_cache_operations_total{operation='' @ DQ @ operation @ DQ @ ''} '' @ to_string v @ [LF]"

definition cacheMetrics :: "Router \<Rightarrow> string" where
  "cacheMetrics r =
     (if route_caches r = [] then []
      else
        let cs = map (\<lambda>(name, i). cache_store r ! i) (route_caches r)
        in ''# TYPE pulsegate_response_cache_operations_total counter'' @ [LF] @
           cache_line ''hit'' (sum64 (map hits cs)) @ cache_line ''miss'' (sum64 (map misses cs)) @
           cache_line ''store'' (sum64 (map stores cs)) @ cache_line ''eviction'' (sum64 (map evictions cs)) @
           cache_line ''expired'' (sum64 (map expired_entries cs)))"

end
