(* ===== verification/RouterProperties.thy ===== *)
theory RouterProperties
  imports Router
begin

text \<open>
  What the router promises: every request is answered, unmatched requests get 404 or 405 with the methods
  that exist, rejected requests never reach a handler, and an answer from a cache is a response a
  handler gave earlier to an equivalent request without credentials, within its lifetime.
\<close>

section \<open>Routing\<close>

lemma methodName_nonempty [simp]: "methodName me \<noteq> []"
  by (cases me) simp_all

fun join_comma :: "string list \<Rightarrow> string" where
  "join_comma [] = []"
| "join_comma [x] = x"
| "join_comma (x # y # xs) = x @ '', '' @ join_comma (y # xs)"

lemma allow_loop_acc:
  "allow \<noteq> [] \<Longrightarrow> allow_loop rs path True allow =
     (True, allow @ concat (map (\<lambda>route. '', '' @ methodName (rt_method route)) (filter (\<lambda>route. path_known route path) rs)))"
  by (induction rs arbitrary: allow) simp_all

lemma join_comma_Cons: "join_comma (x # xs) = x @ concat (map (\<lambda>y. '', '' @ y) xs)"
  by (induction xs arbitrary: x) simp_all

lemma allow_loop_eq:
  "allow_loop rs path False [] =
     (list_ex (\<lambda>route. path_known route path) rs,
      join_comma (map (\<lambda>route. methodName (rt_method route)) (filter (\<lambda>route. path_known route path) rs)))"
  by (induction rs) (simp_all add: allow_loop_acc join_comma_Cons comp_def)

lemma routeMatches_iff:
  "routeMatches route me path \<longleftrightarrow> (rt_method route = Unknown \<or> rt_method route = me) \<and>
     (if prefix_match route then take (length (pattern route)) path = pattern route else pattern route = path)"
  by (auto simp: routeMatches_def)

lemma path_known_iff:
  "path_known route path \<longleftrightarrow>
     (if prefix_match route then take (length (pattern route)) path = pattern route else pattern route = path)"
  by (auto simp: path_known_def)

lemma get_with_header:
  "headers_get (rs_headers (with_header resp n v)) k =
     (if normalizeHeaderName k = normalizeHeaderName n then Some v else headers_get (rs_headers resp) k)"
  by (simp add: with_header_def get_set)

lemma with_header_simps [simp]:
  "rs_status_code (with_header resp n v) = rs_status_code resp" "rs_body (with_header resp n v) = rs_body resp"
  "rs_reason (with_header resp n v) = rs_reason resp"
  by (simp_all add: with_header_def)

lemma note_simps [simp]:
  "cache_store (note_cache r x) = cache_store r" "cache_store (note_rejection r x) = cache_store r"
  "limiter_store (note_cache r x) = limiter_store r" "limiter_store (note_rejection r x) = limiter_store r"
  "route_caches (note_cache r x) = route_caches r" "route_caches (note_rejection r x) = route_caches r"
  "route_limiters (note_cache r x) = route_limiters r" "route_limiters (note_rejection r x) = route_limiters r"
  "global_limiter (note_cache r x) = global_limiter r" "global_limiter (note_rejection r x) = global_limiter r"
  by (simp_all add: note_cache_def note_rejection_def)

section \<open>The request path, case by case\<close>

lemma check_limiter_cache:
  assumes "check_limiter rnd hash r i key now = Inr (d, r1)"
  shows "cache_store r1 = cache_store r \<and> route_caches r1 = route_caches r \<and> routes r1 = routes r \<and>
     route_limiters r1 = route_limiters r \<and> global_limiter r1 = global_limiter r"
  using assms by (auto simp: check_limiter_def ebind_eq_Inr_iff split: if_splits)

lemma consult_cache_cases:
  assumes "consult_cache hash r ctx rq route now = Inr (r', ctx', pr)"
  obtains (uncached) pc where "pr = Calling (the (handler route)) rq \<lparr>pd_cache = pc, pd_key = None, can_store_response = (rq_method rq = Get)\<rparr>"
      "cache_store r' = cache_store r"
    | (hit) c cached k where "c < length (cache_store r)" "cacheableRequest rq"
      "cache_get hash (cache_store r ! c) (makeKey rq (rc_config (cache_store r ! c))) now = Inr (Some cached, k)"
      "cache_store r' = (cache_store r)[c := k]"
      "pr = Answered (with_header (with_header cached ''X-Cache'' ''HIT'') ''X-Request-Id'' (request_id ctx))"
    | (miss) c k where "c < length (cache_store r)" "cacheableRequest rq"
      "cache_get hash (cache_store r ! c) (makeKey rq (rc_config (cache_store r ! c))) now = Inr (None, k)"
      "cache_store r' = (cache_store r)[c := k]"
      "pr = Calling (the (handler route)) rq \<lparr>pd_cache = Some c, pd_key = Some (makeKey rq (rc_config (cache_store r ! c))),
         can_store_response = (rq_method rq = Get)\<rparr>"
proof (cases "map_of (route_caches r) (rt_name route)")
  case None
  with assms show ?thesis by (intro uncached [of None]) (auto simp: consult_cache_def Let_def)
next
  case (Some c)
  show ?thesis
  proof (cases "cacheableRequest rq \<and> c < length (cache_store r)")
    case False
    with Some assms uncached show ?thesis by (auto simp: consult_cache_def Let_def split: if_splits)
  next
    case True
    with Some assms obtain found k where
      g: "cache_get hash (cache_store r ! c) (makeKey rq (rc_config (cache_store r ! c))) now = Inr (found, k)"
      by (auto simp: consult_cache_def Let_def ebind_eq_Inr_iff)
    show ?thesis
    proof (cases found)
      case None
      with g Some True assms show ?thesis by (intro miss [of c k]) (auto simp: consult_cache_def Let_def)
    next
      case (Some cached)
      with g \<open>map_of (route_caches r) (rt_name route) = Some c\<close> True assms show ?thesis
        by (intro hit [of c cached k]) (auto simp: consult_cache_def Let_def)
    qed
  qed
qed

lemma consult_cache_context:
  "consult_cache hash r ctx rq route now = Inr (r', ctx', pr) \<Longrightarrow> request_id ctx' = request_id ctx"
  by (auto simp: consult_cache_def Let_def ebind_eq_Inr_iff split: option.splits if_splits)

definition refusal :: "HttpResponse \<Rightarrow> bool" where
  "refusal resp \<longleftrightarrow> rs_status_code resp \<in> {404, 405, 429} \<and> headers_get (rs_headers resp) ''X-Cache'' = None"

lemma header_names [simp]:
  "normalizeHeaderName ''X-Cache'' = ''x-cache''" "normalizeHeaderName ''X-Request-Id'' = ''x-request-id''"
  "normalizeHeaderName ''Content-Type'' = ''content-type''" "normalizeHeaderName ''Allow'' = ''allow''"
  "normalizeHeaderName ''Retry-After'' = ''retry-after''"
  by code_simp+

lemma get_empty [simp]: "headers_get [] k = None"
  by (simp add: headers_get_def)

lemma get_add:
  "headers_get (headers_add h n v) k = (case headers_get h k of Some x \<Rightarrow> Some x
     | None \<Rightarrow> if normalizeHeaderName k = normalizeHeaderName n then Some v else None)"
  by (induction h) (auto simp: headers_get_def headers_add_def Let_def)

lemma router_responses [simp]:
  "headers_get (rs_headers (makeError st re b)) k = (if normalizeHeaderName k = ''content-type'' then Some ''text/plain'' else None)"
  "rs_status_code (makeError st re b) = st" "rs_body (makeError st re b) = b"
  "headers_get (rs_headers (added_header resp n v)) k = (case headers_get (rs_headers resp) k of Some x \<Rightarrow> Some x
     | None \<Rightarrow> if normalizeHeaderName k = normalizeHeaderName n then Some v else None)"
  "rs_status_code (added_header resp n v) = rs_status_code resp" "rs_body (added_header resp n v) = rs_body resp"
  by (simp_all add: makeError_def added_header_def get_add HttpResponse_default_def)

lemma refusal_responses:
  "refusal (with_header (unmatched_response r path) ''X-Request-Id'' i)"
  "refusal (with_header (makeRateLimited d) ''X-Request-Id'' i)"
  by (auto simp: refusal_def get_with_header unmatched_response_def makeRateLimited_def
      Let_def split: prod.splits bool.splits)

lemma handle_begin_cases:
  assumes "handle_begin rnd hash r ctx rq t1 t2 t3 = Inr (r', ctx', pr)"
  obtains (refused) resp where "pr = Answered resp" "refusal resp" "cache_store r' = cache_store r"
      "headers_get (rs_headers resp) ''X-Request-Id'' = Some (request_id ctx')"
    | (consulted) r1 ctx1 route where "consult_cache hash r1 ctx1 rq route t3 = Inr (r', ctx', pr)"
      "cache_store r1 = cache_store r" "route \<in> set (routes r)" "route_caches r1 = route_caches r"
      "routeMatches route (rq_method rq) (pathPart (rq_target rq))"
proof -
  have disp: "(\<exists>resp. pr = Answered resp \<and> refusal resp \<and> cache_store r' = cache_store q \<and>
        headers_get (rs_headers resp) ''X-Request-Id'' = Some (request_id ctx')) \<or>
      (\<exists>r1 ctx1 route. consult_cache hash r1 ctx1 rq route t3 = Inr (r', ctx', pr) \<and> cache_store r1 = cache_store q \<and>
        route \<in> set (routes q) \<and> route_caches r1 = route_caches q \<and>
        routeMatches route (rq_method rq) (pathPart (rq_target rq)))"
    if d: "dispatch rnd hash q ctx rq t2 t3 = Inr (r', ctx', pr)" for q
  proof (cases "find (\<lambda>route. routeMatches route (rq_method rq) (pathPart (rq_target rq))) (routes q)")
    case None
    with d show ?thesis by (auto simp: dispatch_def Let_def refusal_responses get_with_header)
  next
    case (Some route)
    then have route: "route \<in> set (routes q)" "routeMatches route (rq_method rq) (pathPart (rq_target rq))"
      by (auto simp: find_Some_iff)
    let ?ctx = "ctx\<lparr>route_name := rt_name route\<rparr>"
    show ?thesis
    proof (cases "map_of (route_limiters q) (rt_name route)")
      case None
      with d Some have "consult_cache hash q ?ctx rq route t3 = Inr (r', ctx', pr)" by (simp add: dispatch_def Let_def)
      with route show ?thesis by blast
    next
      case (Some l)
      with d \<open>find _ _ = Some route\<close> obtain dec q1 where q1: "check_limiter rnd hash q l (clientKey ?ctx) t2 = Inr (dec, q1)"
          "(if allowed dec then consult_cache hash q1 ?ctx rq route t3
            else Inr (note_rejection q1 (rt_name route), ?ctx,
              Answered (with_header (makeRateLimited dec) ''X-Request-Id'' (request_id ?ctx)))) = Inr (r', ctx', pr)"
        by (auto simp: dispatch_def Let_def ebind_eq_Inr_iff)
      show ?thesis
      proof (cases "allowed dec")
        case True
        with q1 check_limiter_cache [OF q1(1)] route show ?thesis by auto
      next
        case False
        with q1(2) check_limiter_cache [OF q1(1)] show ?thesis by (auto simp: refusal_responses get_with_header)
      qed
    qed
  qed
  show ?thesis
  proof (cases "global_limiter r")
    case None
    with assms disp [of r] show ?thesis using refused consulted by (auto simp: handle_begin_def)
  next
    case (Some g)
    with assms obtain dec q1 where q1: "check_limiter rnd hash r g (clientKey ctx) t1 = Inr (dec, q1)"
        "(if allowed dec then dispatch rnd hash q1 ctx rq t2 t3
          else Inr (note_rejection q1 ''global'', ctx\<lparr>route_name := ''global''\<rparr>,
            Answered (with_header (makeRateLimited dec) ''X-Request-Id'' (request_id ctx)))) = Inr (r', ctx', pr)"
      by (auto simp: handle_begin_def ebind_eq_Inr_iff)
    show ?thesis
    proof (cases "allowed dec")
      case True
      with q1 check_limiter_cache [OF q1(1)] disp [of q1] show ?thesis using refused consulted by auto
    next
      case False
      with q1(2) check_limiter_cache [OF q1(1)] show ?thesis
        by (intro refused) (auto simp: refusal_responses get_with_header)
    qed
  qed
qed

lemma store_response_cases:
  assumes "store_response hash r ctx pd resp now = Inr (r', ctx', resp')"
  obtains (kept) "cache_store r' = cache_store r"
    | (tried) c key stored k where "pd_cache pd = Some c" "pd_key pd = Some key" "c < length (cache_store r)"
      "can_store_response pd" "cacheableResponse resp (rc_config (cache_store r ! c))"
      "cache_put hash (cache_store r ! c) key resp now = Inr (stored, k)" "cache_store r' = (cache_store r)[c := k]"
proof (cases "\<exists>c key. pd_cache pd = Some c \<and> pd_key pd = Some key \<and> c < length (cache_store r) \<and>
    can_store_response pd \<and> cacheableResponse resp (rc_config (cache_store r ! c))")
  case True
  then obtain c key where ck: "pd_cache pd = Some c" "pd_key pd = Some key" "c < length (cache_store r)"
      "can_store_response pd" "cacheableResponse resp (rc_config (cache_store r ! c))" by blast
  with assms obtain stored k where "cache_put hash (cache_store r ! c) key resp now = Inr (stored, k)"
    by (auto simp: store_response_def ebind_eq_Inr_iff)
  with ck assms show ?thesis
    by (intro tried [of c key stored k]) (auto simp: store_response_def Let_def bypass_def split: if_splits)
next
  case False
  with assms show ?thesis
    by (intro kept) (auto simp: store_response_def bypass_def split: option.splits if_splits)
qed

section \<open>Histories of a router\<close>

text \<open>
  The requests whose handler is running, and the responses handed to a cache: the cache, the key, the
  response, the request it answered and the time.
\<close>

record router_world =
  the_router :: Router
  calls :: "(HttpRequest \<times> pending) list"
  offered :: "(nat \<times> string \<times> HttpResponse \<times> HttpRequest \<times> int) list"

definition offer :: "HttpRequest \<Rightarrow> pending \<Rightarrow> HttpResponse option \<Rightarrow> int \<Rightarrow> (nat \<times> string \<times> HttpResponse \<times> HttpRequest \<times> int) list" where
  "offer rq pd returned now =
     (case (pd_cache pd, pd_key pd, returned) of
        (Some c, Some key, Some resp) \<Rightarrow> if can_store_response pd then [(c, key, resp, rq, now)] else []
      | _ \<Rightarrow> [])"

inductive router_reachable :: "(real \<Rightarrow> real) \<Rightarrow> (string \<Rightarrow> nat) \<Rightarrow> router_world \<Rightarrow> bool" for rnd hash where
  start: "Router_make g now = Inr r \<Longrightarrow> router_reachable rnd hash \<lparr>the_router = r, calls = [], offered = []\<rparr>"
| add: "router_reachable rnd hash w \<Longrightarrow> router_add (the_router w) route rl cc now = Inr r \<Longrightarrow>
    router_reachable rnd hash (w\<lparr>the_router := r\<rparr>)"
| answer: "router_reachable rnd hash w \<Longrightarrow>
    handle_begin rnd hash (the_router w) ctx rq t1 t2 t3 = Inr (r, ctx', Answered resp) \<Longrightarrow>
    router_reachable rnd hash (w\<lparr>the_router := r\<rparr>)"
| call: "router_reachable rnd hash w \<Longrightarrow>
    handle_begin rnd hash (the_router w) ctx rq t1 t2 t3 = Inr (r, ctx', Calling h rq' pd) \<Longrightarrow>
    router_reachable rnd hash (w\<lparr>the_router := r, calls := (rq, pd) # calls w\<rparr>)"
| finish: "router_reachable rnd hash w \<Longrightarrow> (rq, pd) \<in> set (calls w) \<Longrightarrow>
    handle_end hash (the_router w) ctx pd returned now = Inr (r, ctx', resp) \<Longrightarrow>
    router_reachable rnd hash (w\<lparr>the_router := r, calls := remove1 (rq, pd) (calls w), offered := offer rq pd returned now @ offered w\<rparr>)"

text \<open>A cache entry is justified by a response offered for an equivalent request.\<close>

definition justified :: "(nat \<times> string \<times> HttpResponse \<times> HttpRequest \<times> int) list \<Rightarrow> nat \<Rightarrow> ResponseCacheConfig \<Rightarrow> string \<Rightarrow> HttpResponse \<Rightarrow> int \<Rightarrow> bool" where
  "justified off c cfg key resp t0 \<longleftrightarrow> (\<exists>rq. (c, key, resp, rq, t0) \<in> set off \<and> key = makeKey rq cfg \<and>
     rq_method rq = Get \<and> cacheableRequest rq \<and> cacheableResponse resp cfg)"

definition cache_ok :: "(string \<Rightarrow> nat) \<Rightarrow> (nat \<times> string \<times> HttpResponse \<times> HttpRequest \<times> int) list \<Rightarrow> nat \<Rightarrow> ResponseCache \<Rightarrow> bool" where
  "cache_ok hash off c k \<longleftrightarrow> cache_inv k \<and>
     (\<forall>key t resp. cache_peek hash k key t = Some resp \<longrightarrow>
        (\<exists>t0. justified off c (rc_config k) key resp t0 \<and> t < t0 + lifetime_ns k))"

definition call_ok :: "ResponseCache list \<Rightarrow> HttpRequest \<times> pending \<Rightarrow> bool" where
  "call_ok cs x = (case x of (rq, pd) \<Rightarrow>
     can_store_response pd = (rq_method rq = Get) \<and>
     (\<forall>c key. pd_cache pd = Some c \<longrightarrow> pd_key pd = Some key \<longrightarrow>
        c < length cs \<and> cacheableRequest rq \<and> key = makeKey rq (rc_config (cs ! c))))"

definition router_inv :: "(string \<Rightarrow> nat) \<Rightarrow> router_world \<Rightarrow> bool" where
  "router_inv hash w \<longleftrightarrow>
     (\<forall>c < length (cache_store (the_router w)). cache_ok hash (offered w) c (cache_store (the_router w) ! c)) \<and>
     (\<forall>x \<in> set (calls w). call_ok (cache_store (the_router w)) x)"

lemma cache_ok_more: "cache_ok hash off c k \<Longrightarrow> cache_ok hash (new @ off) c k"
  unfolding cache_ok_def justified_def by (metis Un_iff set_append)

lemma cache_ok_peek:
  "cache_ok hash off c k \<Longrightarrow> cache_peek hash k key t = Some resp \<Longrightarrow>
     \<exists>t0. justified off c (rc_config k) key resp t0 \<and> t < t0 + lifetime_ns k"
  unfolding cache_ok_def by metis

lemma cache_ok_get:
  assumes "cache_ok hash off c k" "cache_get hash k key now = Inr (found, k')"
  shows "cache_ok hash off c k' \<and> rc_config k' = rc_config k \<and> found = cache_peek hash k key now"
proof -
  have inv: "cache_inv k" using assms(1) by (simp add: cache_ok_def)
  from cch.lookup_law [OF inv, of hash key now] assms(2)
  have law: "cache_inv k'" "lifetime_ns k' = lifetime_ns k" "found = cache_peek hash k key now"
      "\<And>key' t'. cache_peek hash k' key' t' = cache_peek hash k key' t' \<or> cache_peek hash k' key' t' = None"
    by auto
  have cfg: "rc_config k' = rc_config k"
    using cache_get_refines [OF inv refl, of hash key now] assms(2) by auto
  have "\<exists>t0. justified off c (rc_config k') key' resp t0 \<and> t < t0 + lifetime_ns k'"
    if "cache_peek hash k' key' t = Some resp" for key' t resp
    using that law(4) [of key' t] assms(1) law(2) cfg by (auto simp: cache_ok_def)
  with law cfg show ?thesis by (simp add: cache_ok_def)
qed

lemma cache_ok_put:
  assumes "cache_ok hash off c k" "cache_put hash k key resp now = Inr (stored, k')"
    and "justified off c (rc_config k) key resp now"
  shows "cache_ok hash off c k' \<and> rc_config k' = rc_config k"
proof -
  have inv: "cache_inv k" using assms(1) by (simp add: cache_ok_def)
  have cfg: "rc_config k' = rc_config k"
    using cache_put_refines [OF inv refl, of hash key resp now] assms(2) by (auto split: if_splits)
  from cch.store_law [OF inv, of hash key resp now] assms(2)
  have law: "cache_inv k'" "lifetime_ns k' = lifetime_ns k"
      "if stored then (\<forall>t'. cache_peek hash k' key t' = (if t' < now + lifetime_ns k then Some resp else None)) \<and>
          (\<forall>key' t'. key' \<noteq> key \<longrightarrow> cache_peek hash k' key' t' = cache_peek hash k key' t' \<or> cache_peek hash k' key' t' = None)
       else k' = k" by auto
  show ?thesis
  proof (cases stored)
    case False
    with law(3) assms(1) show ?thesis by simp
  next
    case True
    have same: "cache_peek hash k' key t' = (if t' < now + lifetime_ns k then Some resp else None)" for t'
      using law(3) True by simp
    have other: "cache_peek hash k' key' t' = cache_peek hash k key' t' \<or> cache_peek hash k' key' t' = None"
      if "key' \<noteq> key" for key' t' using law(3) True that by simp
    have "\<exists>t0. justified off c (rc_config k') key' resp' t0 \<and> t < t0 + lifetime_ns k'"
      if p: "cache_peek hash k' key' t = Some resp'" for key' t resp'
    proof (cases "key' = key")
      case True
      with p same [of t] assms(3) law(2) cfg show ?thesis by (auto split: if_splits)
    next
      case False
      with p other [OF False, of t] assms(1) law(2) cfg show ?thesis by (auto simp: cache_ok_def)
    qed
    with law(1) cfg show ?thesis by (simp add: cache_ok_def)
  qed
qed

lemma call_ok_update: "rc_config k = rc_config (cs ! c) \<Longrightarrow> call_ok (cs[c := k]) x = call_ok cs x"
  by (cases "c < length cs") (auto simp: call_ok_def nth_list_update split: prod.splits)

lemma router_inv_update:
  assumes "router_inv hash w" "cache_store r = (cache_store (the_router w))[c := k]"
    and "c < length (cache_store (the_router w)) \<Longrightarrow> cache_ok hash (new @ offered w) c k \<and> rc_config k = rc_config (cache_store (the_router w) ! c)"
    and "set cl \<subseteq> set (calls w)"
  shows "router_inv hash (w\<lparr>the_router := r, calls := cl, offered := new @ offered w\<rparr>)"
proof (cases "c < length (cache_store (the_router w))")
  case True
  with assms show ?thesis
    by (auto simp: router_inv_def nth_list_update cache_ok_more call_ok_update)
next
  case False
  with assms show ?thesis by (auto simp: router_inv_def cache_ok_more list_update_beyond)
qed

lemma router_inv_same:
  assumes "router_inv hash w" "cache_store r = cache_store (the_router w)" "set cl \<subseteq> set (calls w)"
  shows "router_inv hash (w\<lparr>the_router := r, calls := cl, offered := new @ offered w\<rparr>)"
  using assms by (auto simp: router_inv_def cache_ok_more)

lemma router_inv_add:
  assumes "router_inv hash w" "router_add (the_router w) route rl cc now = Inr r"
  shows "router_inv hash (w\<lparr>the_router := r\<rparr>)"
proof -
  let ?cs = "cache_store (the_router w)"
  have "cache_store r = ?cs \<or> (\<exists>cfg k. ResponseCache_make cfg = Inr k \<and> cache_store r = ?cs @ [k])"
    using assms(2) by (auto simp: router_add_def ebind_eq_Inr_iff split: if_splits option.splits)
  then show ?thesis
  proof
    assume "cache_store r = ?cs"
    with assms(1) show ?thesis by (simp add: router_inv_def)
  next
    assume "\<exists>cfg k. ResponseCache_make cfg = Inr k \<and> cache_store r = ?cs @ [k]"
    then obtain cfg k where k: "ResponseCache_make cfg = Inr k" "cache_store r = ?cs @ [k]" by blast
    from cache_inv_make [OF k(1), of hash] have fresh: "cache_inv k" "\<And>key t. cache_peek hash k key t = None"
      by (auto simp: cch.explained_def)
    then have "cache_ok hash (offered w) c k" for c by (simp add: cache_ok_def)
    moreover have "call_ok (?cs @ [k]) x" if "call_ok ?cs x" for x
      using that by (auto simp: call_ok_def nth_append split: prod.splits)
    ultimately show ?thesis using assms(1) k(2) by (auto simp: router_inv_def nth_append less_Suc_eq)
  qed
qed

lemma router_inv_begin:
  assumes "router_inv hash w" "handle_begin rnd hash (the_router w) ctx rq t1 t2 t3 = Inr (r, ctx', pr)"
  shows "router_inv hash (w\<lparr>the_router := r, calls := (case pr of Answered resp \<Rightarrow> calls w | Calling h rq' pd \<Rightarrow> (rq, pd) # calls w)\<rparr>)"
  using assms(2)
proof (cases rule: handle_begin_cases)
  case (refused resp)
  with assms(1) show ?thesis by (simp add: router_inv_def)
next
  case (consulted r1 ctx1 route)
  let ?cs = "cache_store (the_router w)"
  have ok: "cache_ok hash (offered w) c (?cs ! c)" if "c < length ?cs" for c using assms(1) that by (simp add: router_inv_def)
  from consulted(1) show ?thesis
  proof (cases rule: consult_cache_cases)
    case (uncached pc)
    with consulted(2) assms(1) show ?thesis by (simp add: router_inv_def call_ok_def)
  next
    case (hit c cached k)
    have "cache_ok hash (offered w) c k \<and> rc_config k = rc_config (?cs ! c)"
      using cache_ok_get [OF ok] hit(1,3) consulted(2) by auto
    with router_inv_update [OF assms(1), of r c k "[]" "calls w"] hit consulted(2) show ?thesis by simp
  next
    case (miss c k)
    have k: "cache_ok hash (offered w) c k \<and> rc_config k = rc_config (?cs ! c)"
      using cache_ok_get [OF ok] miss(1,3) consulted(2) by auto
    with router_inv_update [OF assms(1), of r c k "[]" "calls w"] miss consulted(2)
    have "router_inv hash (w\<lparr>the_router := r\<rparr>)" by simp
    with miss consulted(2) k show ?thesis by (auto simp: router_inv_def call_ok_def)
  qed
qed

lemma router_inv_end:
  assumes "router_inv hash w" "(rq, pd) \<in> set (calls w)"
    and "handle_end hash (the_router w) ctx pd returned now = Inr (r, ctx', resp)"
  shows "router_inv hash (w\<lparr>the_router := r, calls := remove1 (rq, pd) (calls w), offered := offer rq pd returned now @ offered w\<rparr>)"
proof -
  define resp0 where "resp0 = (case returned of Some x \<Rightarrow> x
    | None \<Rightarrow> makeError 500 ''Internal Server Error'' (''internal server error'' @ [LF]))"
  from assms(3) obtain ctx1 resp1 where
    st: "store_response hash (the_router w) (ctx\<lparr>buffer_response_for_cache := False\<rparr>) pd resp0 now = Inr (r, ctx1, resp1)"
    by (auto simp: handle_end_def resp0_def Let_def ebind_eq_Inr_iff)
  have sub: "set (remove1 (rq, pd) (calls w)) \<subseteq> set (calls w)" by (rule set_remove1_subset)
  let ?cs = "cache_store (the_router w)"
  from st show ?thesis
  proof (cases rule: store_response_cases)
    case kept
    from router_inv_same [OF assms(1) kept sub] show ?thesis .
  next
    case (tried c key stored k)
    have "returned = Some resp0"
      using tried(5) by (cases returned) (auto simp: resp0_def cacheableResponse_def)
    moreover have "call_ok ?cs (rq, pd)" using assms(1,2) by (auto simp: router_inv_def)
    ultimately have "justified (offer rq pd returned now @ offered w) c (rc_config (?cs ! c)) key resp0 now"
      using tried unfolding justified_def
      by (intro exI [of _ rq]) (auto simp: call_ok_def offer_def)
    moreover have "cache_ok hash (offer rq pd returned now @ offered w) c (?cs ! c)"
      using assms(1) tried(3) by (simp add: router_inv_def cache_ok_more)
    ultimately show ?thesis
      using router_inv_update [OF assms(1) tried(7) _ sub] cache_ok_put [OF _ tried(6)] by blast
  qed
qed

lemma router_reachable_inv: "router_reachable rnd hash w \<Longrightarrow> router_inv hash w"
proof (induction rule: router_reachable.induct)
  case (start g now r)
  then have "cache_store r = []" by (auto simp: Router_make_def ebind_eq_Inr_iff Let_def split: option.splits)
  then show ?case by (simp add: router_inv_def)
next
  case (add w route rl cc now r)
  from router_inv_add [OF add.IH add.hyps(2)] show ?case .
next
  case (answer w ctx rq t1 t2 t3 r ctx' resp)
  from router_inv_begin [OF answer.IH answer.hyps(2)] show ?case by simp
next
  case (call w ctx rq t1 t2 t3 r ctx' h rq' pd)
  from router_inv_begin [OF call.IH call.hyps(2)] show ?case by simp
next
  case (finish w rq pd ctx returned now r ctx' resp)
  from router_inv_end [OF finish.IH finish.hyps(2,3)] show ?case .
qed

section \<open>Every request is answered\<close>

definition router_wf :: "Router \<Rightarrow> bool" where
  "router_wf r \<longleftrightarrow> list_all limiter_inv (limiter_store r) \<and> list_all cache_inv (cache_store r) \<and>
     (\<forall>i \<in> snd ` set (route_limiters r). i < length (limiter_store r)) \<and>
     (\<forall>i \<in> snd ` set (route_caches r). i < length (cache_store r)) \<and>
     (\<forall>g. global_limiter r = Some g \<longrightarrow> g < length (limiter_store r))"

lemma map_of_snd: "map_of m k = Some i \<Longrightarrow> i \<in> snd ` set m"
  by (force dest: map_of_SomeD)

lemma check_limiter_total:
  assumes "router_wf r" "i < length (limiter_store r)"
  shows "\<exists>d r1. check_limiter rnd hash r i key now = Inr (d, r1) \<and> router_wf r1 \<and> cache_store r1 = cache_store r \<and>
     route_limiters r1 = route_limiters r \<and> route_caches r1 = route_caches r"
proof -
  have "limiter_inv (limiter_store r ! i)" using assms by (auto simp: router_wf_def list_all_length)
  from check_inv [OF this, of rnd hash key now] obtain d l where
    "check rnd hash (limiter_store r ! i) key now = Inr (d, l)" "limiter_inv l" by blast
  with assms show ?thesis
    by (auto simp: check_limiter_def router_wf_def list_all_length nth_list_update)
qed

lemma router_wf_cache: "router_wf r \<Longrightarrow> c < length (cache_store r) \<Longrightarrow> cache_inv (cache_store r ! c)"
  by (simp add: router_wf_def list_all_length)

lemma router_wf_cache_update: "router_wf r \<Longrightarrow> cache_inv k \<Longrightarrow> router_wf (r\<lparr>cache_store := (cache_store r)[c := k]\<rparr>)"
  by (cases "c < length (cache_store r)") (auto simp: router_wf_def list_all_length nth_list_update)

lemma router_wf_note [simp]: "router_wf (note_cache r x) = router_wf r" "router_wf (note_rejection r x) = router_wf r"
  by (simp_all add: router_wf_def)

definition call_in_range :: "Router \<Rightarrow> progress \<Rightarrow> bool" where
  "call_in_range r pr = (case pr of Answered resp \<Rightarrow> True
     | Calling h rq pd \<Rightarrow> (case pd_cache pd of None \<Rightarrow> True | Some c \<Rightarrow> c < length (cache_store r)))"

definition begun :: "Router \<Rightarrow> progress routed \<Rightarrow> bool" where
  "begun r out \<longleftrightarrow> (\<exists>r1 ctx1 pr. out = Inr (r1, ctx1, pr) \<and> router_wf r1 \<and> call_in_range r1 pr \<and>
     (\<forall>resp. pr = Answered resp \<longrightarrow> headers_get (rs_headers resp) ''X-Request-Id'' = Some (request_id ctx1)))"

lemma consult_cache_total:
  assumes "router_wf r"
  shows "begun r (consult_cache hash r ctx rq route now)"
proof (cases "map_of (route_caches r) (rt_name route)")
  case None
  with assms show ?thesis by (simp add: begun_def consult_cache_def Let_def call_in_range_def)
next
  case (Some c)
  then have c: "c < length (cache_store r)" using assms map_of_snd by (fastforce simp: router_wf_def)
  let ?key = "makeKey rq (rc_config (cache_store r ! c))"
  from cch.lookup_law [OF router_wf_cache [OF assms c], of hash ?key now] obtain k where
    k: "cache_get hash (cache_store r ! c) ?key now = Inr (cache_peek hash (cache_store r ! c) ?key now, k)" "cache_inv k" by blast
  with Some c assms show ?thesis
    by (auto simp: begun_def consult_cache_def Let_def call_in_range_def router_wf_cache_update get_with_header split: option.splits)
qed

lemma dispatch_total:
  assumes "router_wf r"
  shows "begun r (dispatch rnd hash r ctx rq t2 t3)"
proof (cases "find (\<lambda>route. routeMatches route (rq_method rq) (pathPart (rq_target rq))) (routes r)")
  case None
  with assms show ?thesis by (simp add: begun_def dispatch_def Let_def call_in_range_def get_with_header)
next
  case (Some route)
  let ?ctx = "ctx\<lparr>route_name := rt_name route\<rparr>"
  show ?thesis
  proof (cases "map_of (route_limiters r) (rt_name route)")
    case None
    with Some consult_cache_total [OF assms] show ?thesis by (simp add: dispatch_def Let_def)
  next
    case (Some l)
    then have "l < length (limiter_store r)" using assms map_of_snd by (fastforce simp: router_wf_def)
    from check_limiter_total [OF assms this, of rnd hash "clientKey ?ctx" t2] obtain d r1 where
      "check_limiter rnd hash r l (clientKey ?ctx) t2 = Inr (d, r1)" "router_wf r1" by blast
    with Some \<open>find _ _ = Some route\<close> consult_cache_total [of r1 hash ?ctx rq route t3] show ?thesis
      by (auto simp: dispatch_def Let_def begun_def call_in_range_def get_with_header)
  qed
qed

lemma handle_begin_total:
  assumes "router_wf r"
  shows "begun r (handle_begin rnd hash r ctx rq t1 t2 t3)"
proof (cases "global_limiter r")
  case None
  with dispatch_total [OF assms] show ?thesis by (simp add: handle_begin_def)
next
  case (Some g)
  then have "g < length (limiter_store r)" using assms by (simp add: router_wf_def)
  from check_limiter_total [OF assms this, of rnd hash "clientKey ctx" t1] obtain d r1 where
    "check_limiter rnd hash r g (clientKey ctx) t1 = Inr (d, r1)" "router_wf r1" by blast
  with Some dispatch_total [of r1 rnd hash ctx rq t2 t3] show ?thesis
    by (auto simp: handle_begin_def begun_def call_in_range_def get_with_header)
qed

lemma handle_end_total:
  assumes "router_wf r" "case pd_cache pd of None \<Rightarrow> True | Some c \<Rightarrow> c < length (cache_store r)"
  shows "\<exists>r1 ctx1 resp. handle_end hash r ctx pd returned now = Inr (r1, ctx1, resp) \<and> router_wf r1 \<and>
     headers_get (rs_headers resp) ''X-Request-Id'' = Some (request_id ctx1)"
proof -
  have "\<exists>r1 ctx1 resp1. store_response hash r cx pd resp now = Inr (r1, ctx1, resp1) \<and> router_wf r1" for cx resp
  proof (cases "pd_cache pd")
    case None
    with assms show ?thesis by (simp add: store_response_def)
  next
    case (Some c)
    with assms(2) have c: "c < length (cache_store r)" by simp
    show ?thesis
    proof (cases "pd_key pd")
      case None
      with Some assms show ?thesis by (simp add: store_response_def bypass_def)
    next
      case key: (Some key)
      from cch.store_law [OF router_wf_cache [OF assms(1) c], of hash key resp now] obtain ok k where
        "cache_put hash (cache_store r ! c) key resp now = Inr (ok, k)" "cache_inv k" by blast
      with Some key c assms(1) show ?thesis
        by (auto simp: store_response_def bypass_def Let_def router_wf_cache_update)
    qed
  qed
  note total = this
  obtain r1 ctx1 resp1 where "store_response hash r (ctx\<lparr>buffer_response_for_cache := False\<rparr>) pd
      (case returned of Some x \<Rightarrow> x | None \<Rightarrow> makeError 500 ''Internal Server Error'' (''internal server error'' @ [LF])) now =
      Inr (r1, ctx1, resp1)" "router_wf r1" using total by blast
  then show ?thesis by (simp add: handle_end_def Let_def get_with_header)
qed

section \<open>Properties\<close>

text \<open>
  C33: The router answers every request: whatever the limiters, caches and handlers do, and
  even when the handler throws, \<open>handle\<close> returns a response that carries the request's id, and
  leaves its limiters and caches consistent.
\<close>

theorem router_answers_every_request:
  assumes "router_wf r"
    and "\<And>h q cx rq1. router_wf q \<Longrightarrow> router_wf (fst (run h q cx rq1)) \<and> length (cache_store q) \<le> length (cache_store (fst (run h q cx rq1)))"
  shows "\<exists>r' ctx' resp. router_handle rnd hash run r ctx rq t1 t2 t3 t4 = Inr (r', ctx', resp) \<and> router_wf r' \<and>
     headers_get (rs_headers resp) ''X-Request-Id'' = Some (request_id ctx')"
proof -
  from handle_begin_total [OF assms(1), of rnd hash ctx rq t1 t2 t3] obtain r1 ctx1 pr where
    b: "handle_begin rnd hash r ctx rq t1 t2 t3 = Inr (r1, ctx1, pr)" "router_wf r1" "call_in_range r1 pr"
      "\<And>resp. pr = Answered resp \<Longrightarrow> headers_get (rs_headers resp) ''X-Request-Id'' = Some (request_id ctx1)"
    unfolding begun_def by blast
  show ?thesis
  proof (cases pr)
    case (Answered resp)
    with b show ?thesis by (simp add: router_handle_def)
  next
    case (Calling h rq1 pd)
    obtain r2 ctx2 returned where run: "run h r1 ctx1 rq1 = (r2, ctx2, returned)" by (cases "run h r1 ctx1 rq1")
    have "router_wf r2" "case pd_cache pd of None \<Rightarrow> True | Some c \<Rightarrow> c < length (cache_store r2)"
      using assms(2) [OF b(2), of h ctx1 rq1] run b(3) Calling by (auto simp: call_in_range_def split: option.splits)
    from handle_end_total [OF this, of hash ctx2 returned t4] show ?thesis
      using b(1) Calling run by (simp add: router_handle_def)
  qed
qed

definition hello_route :: Route where
  "hello_route = \<lparr>rt_method = Get, pattern = ''/hello'', rt_name = ''hello'', prefix_match = False, handler = Some 0\<rparr>"

definition hello_config :: ResponseCacheConfig where
  "hello_config = \<lparr>ttl = 10, max_entry_bytes = 500, max_bytes = 1000, cc_shard_count = 1, vary_headers = []\<rparr>"

definition hello_router :: Router where
  "hello_router = \<lparr>routes = [hello_route], limiter_store = [],
     cache_store = [\<lparr>rc_config = hello_config, rc_shards = [shard_make 1000], hits = 0, misses = 0, stores = 0,
        evictions = 0, expired_entries = 0\<rparr>],
     route_limiters = [], route_caches = [(''hello'', 0)], global_limiter = None, metrics = None, next_request_id = 1\<rparr>"

lemma hello_router_make:
  "\<exists>r0. Router_make None 0 = Inr r0 \<and> router_add r0 hello_route None (Some hello_config) 0 = Inr hello_router"
  by (simp add: Router_make_def router_add_def hello_route_def hello_router_def ResponseCache_make_def hello_config_def)

lemma hello_reachable: "router_reachable rnd hash \<lparr>the_router = hello_router, calls = [], offered = []\<rparr>"
proof -
  from hello_router_make obtain r0 where r0: "Router_make None 0 = Inr r0"
    "router_add r0 hello_route None (Some hello_config) 0 = Inr hello_router" by blast
  from router_reachable.add [OF router_reachable.start [OF r0(1)]] r0(2) show ?thesis by fastforce
qed

definition hello_request :: HttpRequest where
  "hello_request = HttpRequest_default\<lparr>rq_method := Get, rq_target := ''/hello''\<rparr>"

definition hello_response :: HttpResponse where
  "hello_response = HttpResponse_default\<lparr>rs_body := ''hi''\<rparr>"

theorem router_answers_every_request_witness:
  "\<exists>r' ctx' resp. router_handle (\<lambda>x. x) length (\<lambda>h q cx rq. (q, cx, None)) hello_router RequestContext_default
      hello_request 0 0 0 0 = Inr (r', ctx', resp) \<and> router_wf r'"
proof -
  have "cache_inv \<lparr>rc_config = hello_config, rc_shards = [shard_make 1000], hits = 0, misses = 0, stores = 0,
        evictions = 0, expired_entries = 0\<rparr>"
    by (simp add: cache_inv_def shard_inv_def shard_make_def shard_view_def hello_config_def)
  then have "router_wf hello_router" by (simp add: router_wf_def hello_router_def)
  from router_answers_every_request [OF this, of "\<lambda>h q cx rq. (q, cx, None)"] show ?thesis by fastforce
qed

text \<open>
  C7: A response marked as a cache hit is a response a handler returned earlier to a GET request with the same
  cache key, neither request carried credentials, the response was cacheable, and it is younger
  than the lifetime of the cache, whatever requests ran in between and however they interleaved.
\<close>

theorem cache_hits_are_fresh_and_equivalent:
  assumes "router_reachable rnd hash w"
    and "handle_begin rnd hash (the_router w) ctx rq t1 t2 t3 = Inr (r, ctx', Answered resp)"
    and "headers_get (rs_headers resp) ''X-Cache'' = Some ''HIT''"
  shows "\<exists>c cfg resp0 rq0 t0. c < length (cache_store (the_router w)) \<and> cfg = rc_config (cache_store (the_router w) ! c) \<and>
     (c, makeKey rq cfg, resp0, rq0, t0) \<in> set (offered w) \<and> makeKey rq0 cfg = makeKey rq cfg \<and>
     rq_method rq0 = Get \<and> cacheableRequest rq0 \<and> cacheableRequest rq \<and> cacheableResponse resp0 cfg \<and>
     t3 < t0 + ttl cfg * 1000000 \<and> rs_body resp = rs_body resp0 \<and> rs_status_code resp = rs_status_code resp0"
proof -
  have inv: "router_inv hash w" by (rule router_reachable_inv [OF assms(1)])
  from assms(2) show ?thesis
  proof (cases rule: handle_begin_cases)
    case (refused resp')
    with assms(3) show ?thesis by (simp add: refusal_def)
  next
    case (consulted r1 ctx1 route)
    from consulted(1) show ?thesis
    proof (cases rule: consult_cache_cases)
      case (hit c cached k)
      let ?k = "cache_store (the_router w) ! c"
      have ok: "cache_ok hash (offered w) c ?k" using inv hit(1) consulted(2) by (simp add: router_inv_def)
      from cache_ok_get [OF this] hit(3) consulted(2) have "cache_peek hash ?k (makeKey rq (rc_config ?k)) t3 = Some cached"
        by auto
      with ok obtain t0 where "justified (offered w) c (rc_config ?k) (makeKey rq (rc_config ?k)) cached t0" and
        t0: "t3 < t0 + lifetime_ns ?k" using cache_ok_peek by metis
      then obtain rq0 where rq0: "(c, makeKey rq (rc_config ?k), cached, rq0, t0) \<in> set (offered w)"
          "makeKey rq (rc_config ?k) = makeKey rq0 (rc_config ?k)" "rq_method rq0 = Get" "cacheableRequest rq0"
          "cacheableResponse cached (rc_config ?k)" unfolding justified_def by blast
      show ?thesis
        by (intro exI [of _ c] exI [of _ "rc_config ?k"] exI [of _ cached] exI [of _ rq0] exI [of _ t0])
          (use hit consulted(2) rq0 t0 in \<open>simp add: lifetime_ns_def\<close>)
    qed simp_all
  qed
qed

theorem cache_hits_are_fresh_and_equivalent_witness:
  "\<exists>w r ctx' resp. router_reachable (\<lambda>x. x) length w \<and>
     handle_begin (\<lambda>x. x) length (the_router w) RequestContext_default hello_request 0 0 2 = Inr (r, ctx', Answered resp) \<and>
     (\<exists>x. x \<in> set (offered w))"
proof -
  have run: "(case handle_begin (\<lambda>x. x) length hello_router RequestContext_default hello_request 0 0 0 of
      Inr (r1, c1, Calling h q pd) \<Rightarrow>
        (case handle_end length r1 c1 pd (Some hello_response) 1 of
           Inr (r2, c2, resp2) \<Rightarrow>
             (case handle_begin (\<lambda>x. x) length r2 RequestContext_default hello_request 0 0 2 of
                Inr (r3, c3, Answered resp3) \<Rightarrow> headers_get (rs_headers resp3) ''X-Cache'' = Some ''HIT''
              | _ \<Rightarrow> False)
         | _ \<Rightarrow> False)
    | _ \<Rightarrow> False)" by code_simp
  let ?w0 = "\<lparr>the_router = hello_router, calls = [], offered = []\<rparr>"
  obtain r1 c1 pr where h1: "handle_begin (\<lambda>x. x) length hello_router RequestContext_default hello_request 0 0 0 = Inr (r1, c1, pr)"
    using run by (cases "handle_begin (\<lambda>x. x) length hello_router RequestContext_default hello_request 0 0 0") auto
  obtain h q pd where pr: "pr = Calling h q pd" using run h1 by (cases pr) auto
  have s1: "handle_begin (\<lambda>x. x) length (the_router ?w0) RequestContext_default hello_request 0 0 0 = Inr (r1, c1, Calling h q pd)"
    using h1 pr by simp
  obtain r2 c2 resp2 where s2: "handle_end length r1 c1 pd (Some hello_response) 1 = Inr (r2, c2, resp2)"
    using run h1 pr by (cases "handle_end length r1 c1 pd (Some hello_response) 1") auto
  obtain r3 c3 pr3 where h3: "handle_begin (\<lambda>x. x) length r2 RequestContext_default hello_request 0 0 2 = Inr (r3, c3, pr3)"
    using run h1 pr s2 by (cases "handle_begin (\<lambda>x. x) length r2 RequestContext_default hello_request 0 0 2") auto
  obtain resp3 where s3: "handle_begin (\<lambda>x. x) length r2 RequestContext_default hello_request 0 0 2 = Inr (r3, c3, Answered resp3)"
      "headers_get (rs_headers resp3) ''X-Cache'' = Some ''HIT''"
    using run h1 pr s2 h3 by (cases pr3) auto
  note w1 = router_reachable.call [OF hello_reachable s1]
  define w1 where "w1 = \<lparr>the_router = r1, calls = [(hello_request, pd)], offered = []\<rparr>"
  have r1: "router_reachable (\<lambda>x. x) length w1" using w1 by (simp add: w1_def)
  define w2 where "w2 = w1\<lparr>the_router := r2, calls := remove1 (hello_request, pd) (calls w1),
      offered := offer hello_request pd (Some hello_response) 1 @ offered w1\<rparr>"
  have "router_reachable (\<lambda>x. x) length w2" unfolding w2_def
    by (rule router_reachable.finish [OF r1, of _ _ c1 _ _ _ c2 resp2]) (simp_all add: w1_def s2)
  moreover have "handle_begin (\<lambda>x. x) length (the_router w2) RequestContext_default hello_request 0 0 2 = Inr (r3, c3, Answered resp3)"
    using s3(1) by (simp add: w2_def)
  ultimately show ?thesis
    using cache_hits_are_fresh_and_equivalent [of "\<lambda>x. x" length w2 RequestContext_default hello_request 0 0 2 r3 c3 resp3] s3(2)
    by blast
qed

text \<open>
  A request no route accepts is answered 404 when no route has its path, and otherwise 405 with an
  \<open>Allow\<close> header listing the methods of the routes for that path, in table order; none of them is the wildcard.
\<close>

theorem unmatched_requests_get_404_or_405:
  assumes "global_limiter r = None" "router_match r (rq_method rq) (rq_target rq) = None"
  shows "\<exists>resp. router_handle rnd hash run r ctx rq t1 t2 t3 t4 = Inr (r, ctx, resp) \<and>
    (let known = filter (\<lambda>route. path_known route (pathPart (rq_target rq))) (routes r)
     in (if known = [] then rs_status_code resp = 404
         else rs_status_code resp = 405 \<and> Unknown \<notin> set (map rt_method known) \<and> rq_method rq \<notin> set (map rt_method known) \<and>
           headers_get (rs_headers resp) ''Allow'' = Some (join_comma (map (\<lambda>route. methodName (rt_method route)) known))))"
proof -
  let ?path = "pathPart (rq_target rq)"
  let ?known = "filter (\<lambda>route. path_known route ?path) (routes r)"
  have "rt_method route \<noteq> Unknown \<and> rt_method route \<noteq> rq_method rq" if "route \<in> set ?known" for route
    using assms(2) that by (auto simp: router_match_def find_None_iff path_known_iff routeMatches_iff)
  then have "Unknown \<notin> set (map rt_method ?known)" "rq_method rq \<notin> set (map rt_method ?known)"
    unfolding set_map by (metis imageE)+
  moreover have "list_ex (\<lambda>route. path_known route ?path) (routes r) \<longleftrightarrow> ?known \<noteq> []"
    by (auto simp: list_ex_iff filter_empty_conv)
  ultimately show ?thesis
    using assms by (auto simp: router_handle_def handle_begin_def dispatch_def router_match_def Let_def
        unmatched_response_def allow_loop_eq get_with_header)
qed

theorem unmatched_requests_get_404_or_405_witness:
  "\<exists>resp. router_handle (\<lambda>x. x) length (\<lambda>h q cx rq. (q, cx, None)) hello_router RequestContext_default
      (hello_request\<lparr>rq_method := Post\<rparr>) 0 0 0 0 = Inr (hello_router, RequestContext_default, resp) \<and> rs_status_code resp = 405"
proof -
  have "global_limiter hello_router = None" by (simp add: hello_router_def)
  moreover have "(case router_match hello_router (rq_method (hello_request\<lparr>rq_method := Post\<rparr>)) (rq_target (hello_request\<lparr>rq_method := Post\<rparr>))
     of None \<Rightarrow> True | Some x \<Rightarrow> False)" by code_simp
  then have "router_match hello_router (rq_method (hello_request\<lparr>rq_method := Post\<rparr>)) (rq_target (hello_request\<lparr>rq_method := Post\<rparr>)) = None"
    by (simp split: option.splits)
  moreover have "filter (\<lambda>route. path_known route (pathPart (rq_target (hello_request\<lparr>rq_method := Post\<rparr>)))) (routes hello_router) = [hello_route]"
    by code_simp
  ultimately show ?thesis
    using unmatched_requests_get_404_or_405 [of hello_router "hello_request\<lparr>rq_method := Post\<rparr>" "\<lambda>x. x" length
      "\<lambda>h q cx rq. (q, cx, None)" RequestContext_default 0 0 0 0] by (auto simp: Let_def)
qed

text \<open>
  A request its route's limiter rejects is answered 429 without running the handler or touching a cache, and
  the announced \<open>Retry-After\<close> is the limiter's wait in whole seconds, rounded up and at least one.
\<close>

theorem rejected_requests_stop_early:
  assumes "global_limiter r = None" "router_match r (rq_method rq) (rq_target rq) = Some route"
    and "map_of (route_limiters r) (rt_name route) = Some l"
    and "check_limiter rnd hash r l (clientKey ctx) t2 = Inr (d, r1)" "\<not> allowed d"
  shows "\<exists>resp s. router_handle rnd hash run r ctx rq t1 t2 t3 t4 =
       Inr (note_rejection r1 (rt_name route), ctx\<lparr>route_name := rt_name route\<rparr>, resp) \<and>
     rs_status_code resp = 429 \<and> cache_store r1 = cache_store r \<and>
     headers_get (rs_headers resp) ''Retry-After'' = Some (int_to_string s) \<and>
     1 \<le> s \<and> retry_after d \<le> s * 1000 \<and> (1 < s \<longrightarrow> (s - 1) * 1000 < retry_after d)"
proof -
  have key: "clientKey (ctx\<lparr>route_name := rt_name route\<rparr>) = clientKey ctx" by (simp add: clientKey_def)
  define s where "s = max 1 ((retry_after d + 999) sdiv 1000)"
  have "(retry_after d + 999) sdiv 1000 = (retry_after d + 999) div 1000" if "0 < retry_after d"
    using that by (simp add: signed_divide_int_def)
  moreover have "(retry_after d + 999) sdiv 1000 \<le> 0" if "\<not> 0 < retry_after d"
    using that by (auto simp: signed_divide_int_def sgn_if)
  ultimately have "1 \<le> s \<and> retry_after d \<le> s * 1000 \<and> (1 < s \<longrightarrow> (s - 1) * 1000 < retry_after d)"
    by (cases "0 < retry_after d") (auto simp: s_def)
  with key show ?thesis
    using assms check_limiter_cache [OF assms(4)]
    by (intro exI [of _ "with_header (makeRateLimited d) ''X-Request-Id'' (request_id ctx)"] exI [of _ s])
      (simp add: router_handle_def handle_begin_def dispatch_def router_match_def Let_def get_with_header makeRateLimited_def s_def)
qed

definition busy_router :: Router where
  "busy_router = hello_router\<lparr>limiter_store := [\<lparr>rl_config = \<lparr>requests_per_second = Finite 1, burst = Finite 1, per_client = False,
       shard_count = 1, max_keys = 1, idle_ttl = 1\<rparr>,
     global_bucket = Some \<lparr>rate_per_second = 1, capacity = 1, available_tokens = 0, last_refill = 0\<rparr>,
     rl_shards = [], key_count = 0, allowed_count = 0, rejected_count = 0, rejected_key_capacity_count = 0\<rparr>],
     route_limiters := [(''hello'', 0)]\<rparr>"

theorem rejected_requests_stop_early_witness:
  "\<exists>r' ctx' resp. router_handle (\<lambda>x. x) length (\<lambda>h q cx rq. (q, cx, None)) busy_router RequestContext_default
      hello_request 0 0 0 0 = Inr (r', ctx', resp) \<and> rs_status_code resp = 429"
proof -
  have "(case check_limiter (\<lambda>x. x) length busy_router 0 (clientKey RequestContext_default) 0 of
      Inr (d, r1) \<Rightarrow> \<not> allowed d | _ \<Rightarrow> False)" by code_simp
  then obtain d r1 where "check_limiter (\<lambda>x. x) length busy_router 0 (clientKey RequestContext_default) 0 = Inr (d, r1)" "\<not> allowed d"
    by (auto split: sum.splits)
  moreover have "(case router_match busy_router (rq_method hello_request) (rq_target hello_request) of
      Some x \<Rightarrow> x = hello_route | None \<Rightarrow> False)" by code_simp
  then have "router_match busy_router (rq_method hello_request) (rq_target hello_request) = Some hello_route"
    by (simp split: option.splits)
  ultimately show ?thesis
    using rejected_requests_stop_early [of busy_router hello_request hello_route 0 "\<lambda>x. x" length RequestContext_default 0 d r1
      "\<lambda>h q cx rq. (q, cx, None)" 0 0 0]
    by (auto simp: busy_router_def hello_router_def hello_route_def)
qed

end
