(* ===== verification/CircuitBreaker.thy ===== *)
theory CircuitBreaker
  imports Prelude
begin

text \<open>
  The circuit breaker of \<open>src/http/circuit_breaker.cpp\<close>. Every operation runs under the
  breaker's mutex, so a concurrent history is a sequence of events; \<open>breaker_run\<close> folds one
  over the state and counts the requests it let through. Times are nanoseconds of the steady
  clock, passed in where the code reads it.
\<close>

section \<open>State and operations\<close>

datatype CircuitState = CS_Closed | CS_Open | CS_HalfOpen

record CircuitBreakerLimits =
  failure_threshold :: nat
  cooldown :: int
  half_open_max_probes :: nat

definition CircuitBreakerLimits_default :: CircuitBreakerLimits where
  "CircuitBreakerLimits_default = \<lparr>failure_threshold = 3, cooldown = 5000, half_open_max_probes = 1\<rparr>"

record CircuitBreaker =
  cb_limits :: CircuitBreakerLimits
  cb_state :: CircuitState
  consecutive_failures :: nat
  probes_in_flight :: nat
  retry_at :: int

text \<open>Milliseconds as a duration of the steady clock.\<close>

definition ms :: "int \<Rightarrow> int" where
  "ms n = n * 1000000"

definition CircuitBreaker_make :: "CircuitBreakerLimits \<Rightarrow> CircuitBreaker outcome" where
  "CircuitBreaker_make l =
     (if failure_threshold l = 0 \<or> cooldown l \<le> 0 \<or> half_open_max_probes l = 0
      then Inl Invalid_Argument
      else Inr \<lparr>cb_limits = l, cb_state = CS_Closed, consecutive_failures = 0,
                probes_in_flight = 0, retry_at = 0\<rparr>)"

definition open_circuit :: "CircuitBreaker \<Rightarrow> int \<Rightarrow> CircuitBreaker" where
  "open_circuit b now = b\<lparr>cb_state := CS_Open, consecutive_failures := 0, probes_in_flight := 0,
     retry_at := now + ms (cooldown (cb_limits b))\<rparr>"

definition allowRequest :: "CircuitBreaker \<Rightarrow> int \<Rightarrow> bool \<times> CircuitBreaker" where
  "allowRequest b now =
     (if cb_state b = CS_Open \<and> now < retry_at b then (False, b)
      else
        let b1 = (if cb_state b = CS_Open then b\<lparr>cb_state := CS_HalfOpen, probes_in_flight := 0\<rparr> else b)
        in if cb_state b1 = CS_HalfOpen then
             if half_open_max_probes (cb_limits b1) \<le> probes_in_flight b1 then (False, b1)
             else (True, b1\<lparr>probes_in_flight := probes_in_flight b1 + 1\<rparr>)
           else (True, b1))"

definition recordSuccess :: "CircuitBreaker \<Rightarrow> CircuitBreaker" where
  "recordSuccess b = b\<lparr>consecutive_failures := 0, probes_in_flight := 0, cb_state := CS_Closed,
     retry_at := 0\<rparr>"

definition recordFailure :: "CircuitBreaker \<Rightarrow> int \<Rightarrow> CircuitBreaker" where
  "recordFailure b now =
     (if cb_state b = CS_HalfOpen then open_circuit b now
      else if cb_state b = CS_Open then b
      else
        let b1 = b\<lparr>consecutive_failures := u32_inc (consecutive_failures b)\<rparr>
        in if failure_threshold (cb_limits b1) \<le> consecutive_failures b1 then open_circuit b1 now else b1)"

definition recordNeutral :: "CircuitBreaker \<Rightarrow> CircuitBreaker" where
  "recordNeutral b =
     (if cb_state b = CS_HalfOpen \<and> 0 < probes_in_flight b
      then b\<lparr>probes_in_flight := probes_in_flight b - 1\<rparr> else b)"

record CircuitBreakerSnapshot =
  cs_state :: CircuitState
  cs_consecutive_failures :: nat
  cs_probes_in_flight :: nat
  cs_retry_at :: int

definition breaker_snapshot :: "CircuitBreaker \<Rightarrow> CircuitBreakerSnapshot" where
  "breaker_snapshot b = \<lparr>cs_state = cb_state b, cs_consecutive_failures = consecutive_failures b,
     cs_probes_in_flight = probes_in_flight b, cs_retry_at = retry_at b\<rparr>"

section \<open>Histories\<close>

datatype breaker_event = Ask int | Success | Failure int | Neutral

fun breaker_step :: "CircuitBreaker \<Rightarrow> breaker_event \<Rightarrow> nat \<times> CircuitBreaker" where
  "breaker_step b (Ask now) = (case allowRequest b now of (ok, b') \<Rightarrow> (if ok then 1 else 0, b'))"
| "breaker_step b Success = (0, recordSuccess b)"
| "breaker_step b (Failure now) = (0, recordFailure b now)"
| "breaker_step b Neutral = (0, recordNeutral b)"

fun breaker_run :: "CircuitBreaker \<Rightarrow> breaker_event list \<Rightarrow> nat \<times> CircuitBreaker" where
  "breaker_run b [] = (0, b)"
| "breaker_run b (e # es) =
     (case breaker_step b e of (n, b1) \<Rightarrow> case breaker_run b1 es of (m, b2) \<Rightarrow> (n + m, b2))"

lemma breaker_run_append:
  "breaker_run b (xs @ ys) =
     (case breaker_run b xs of (n, b1) \<Rightarrow> case breaker_run b1 ys of (m, b2) \<Rightarrow> (n + m, b2))"
  by (induction xs arbitrary: b) (auto split: prod.splits)

text \<open>The time an event carries, if any.\<close>

fun event_before :: "int \<Rightarrow> breaker_event \<Rightarrow> bool" where
  "event_before t (Ask now) = (now < t)"
| "event_before t (Failure now) = (now < t)"
| "event_before t e = True"

definition breaker_inv :: "CircuitBreaker \<Rightarrow> bool" where
  "breaker_inv b \<longleftrightarrow> 0 < failure_threshold (cb_limits b) \<and> failure_threshold (cb_limits b) < 2 ^ 32 \<and>
     0 < half_open_max_probes (cb_limits b) \<and> 0 < cooldown (cb_limits b) \<and>
     consecutive_failures b < failure_threshold (cb_limits b) \<and>
     probes_in_flight b \<le> half_open_max_probes (cb_limits b) \<and>
     (cb_state b \<noteq> CS_HalfOpen \<longrightarrow> probes_in_flight b = 0) \<and>
     (cb_state b \<noteq> CS_Closed \<longrightarrow> consecutive_failures b = 0)"

lemmas breaker_defs = allowRequest_def recordSuccess_def recordFailure_def recordNeutral_def
  open_circuit_def Let_def

lemma breaker_inv_make:
  "CircuitBreaker_make l = Inr b \<Longrightarrow> failure_threshold l < 2 ^ 32 \<Longrightarrow>
     breaker_inv b \<and> cb_limits b = l \<and> cb_state b = CS_Closed \<and> consecutive_failures b = 0"
  by (auto simp: CircuitBreaker_make_def breaker_inv_def split: if_splits)

lemma breaker_step_inv:
  assumes "breaker_inv b" "breaker_step b e = (n, b')"
  shows "breaker_inv b' \<and> cb_limits b' = cb_limits b"
proof (cases e)
  case (Failure now)
  have "u32_inc (consecutive_failures b) = consecutive_failures b + 1"
    using assms(1) by (intro u32_inc_exact) (auto simp: breaker_inv_def)
  with Failure assms show ?thesis
    by (cases "cb_state b") (auto simp: breaker_inv_def recordFailure_def open_circuit_def Let_def split: if_splits)
qed (use assms in \<open>auto simp: breaker_inv_def allowRequest_def recordSuccess_def recordNeutral_def Let_def
    split: if_splits\<close>)

lemma breaker_run_inv:
  "breaker_inv b \<Longrightarrow> breaker_run b es = (n, b') \<Longrightarrow> breaker_inv b' \<and> cb_limits b' = cb_limits b"
proof (induction es arbitrary: b n)
  case (Cons e es)
  obtain k b1 where st: "breaker_step b e = (k, b1)" by fastforce
  with Cons.prems(2) obtain m where "breaker_run b1 es = (m, b')" by (auto split: prod.splits)
  with Cons.IH breaker_step_inv [OF Cons.prems(1) st] show ?case by fastforce
qed auto

lemma open_stays_shut:
  assumes "cb_state b = CS_Open" "list_all (event_before (retry_at b)) es" "Success \<notin> set es"
  shows "breaker_run b es = (0, b)"
  using assms(2,3)
proof (induction es)
  case (Cons e es)
  then show ?case using assms(1) by (cases e) (auto simp: allowRequest_def recordFailure_def recordNeutral_def)
qed simp

text \<open>Probes: with no outcome recorded, what was let through is what is in flight.\<close>

fun is_ask :: "breaker_event \<Rightarrow> bool" where
  "is_ask (Ask now) = True"
| "is_ask e = False"

lemma half_open_budget:
  assumes "cb_state b = CS_HalfOpen" "list_all is_ask es" "breaker_run b es = (n, b')"
    and "probes_in_flight b \<le> half_open_max_probes (cb_limits b)"
  shows "probes_in_flight b + n \<le> half_open_max_probes (cb_limits b)"
  using assms
proof (induction es arbitrary: b n)
  case (Cons e es)
  then obtain now where e: "e = Ask now" by (cases e) auto
  obtain k b1 where st: "breaker_step b e = (k, b1)" by fastforce
  with Cons.prems(3) obtain m where m: "breaker_run b1 es = (m, b')" "n = k + m"
    by (auto split: prod.splits)
  from st e Cons.prems(1,4) have b1: "cb_state b1 = CS_HalfOpen" "cb_limits b1 = cb_limits b"
      "probes_in_flight b1 = probes_in_flight b + k" "probes_in_flight b1 \<le> half_open_max_probes (cb_limits b1)"
    by (auto simp: allowRequest_def split: if_splits)
  with Cons.IH [OF b1(1) _ m(1)] Cons.prems(2) m(2) show ?case by simp
qed simp

section \<open>Properties\<close>

definition sample_breaker :: CircuitBreaker where
  "sample_breaker = \<lparr>cb_limits = CircuitBreakerLimits_default, cb_state = CS_Closed,
     consecutive_failures = 0, probes_in_flight = 0, retry_at = 0\<rparr>"

lemma sample_breaker_make: "CircuitBreaker_make CircuitBreakerLimits_default = Inr sample_breaker"
  by code_simp

lemma sample_breaker_inv: "breaker_inv sample_breaker" "breaker_inv (open_circuit sample_breaker now)"
  using breaker_inv_make [OF sample_breaker_make]
  by (auto simp: breaker_inv_def open_circuit_def CircuitBreakerLimits_default_def)

text \<open>
  C28: the breaker trips at its threshold and not before. From a closed circuit without failures,
  any history of admissions, neutral outcomes and fewer failures than the threshold leaves it
  closed and lets every request through; the threshold's failure, whenever it comes, opens it.
\<close>

theorem breaker_trips_at_threshold:
  assumes "breaker_inv b" "cb_state b = CS_Closed" "consecutive_failures b = 0" "Success \<notin> set es"
    and "length (filter (\<lambda>e. \<exists>t. e = Failure t) es) = k" "k < failure_threshold (cb_limits b)"
  shows "\<exists>b'. breaker_run b es = (length (filter is_ask es), b') \<and> cb_state b' = CS_Closed \<and>
     (cb_state (recordFailure b' now) = CS_Open \<longleftrightarrow> k + 1 = failure_threshold (cb_limits b))"
proof -
  have run: "\<exists>b'. breaker_run c es = (length (filter is_ask es), b') \<and> cb_state b' = CS_Closed \<and>
      cb_limits b' = cb_limits c \<and> consecutive_failures b' = consecutive_failures c + k"
    if "cb_state c = CS_Closed" "Success \<notin> set es" "failure_threshold (cb_limits c) < 2 ^ 32"
      "length (filter (\<lambda>e. \<exists>t. e = Failure t) es) = k"
      "consecutive_failures c + k < failure_threshold (cb_limits c)" for c k
    using that
  proof (induction es arbitrary: c k)
    case (Cons e es)
    show ?case
    proof (cases e)
      case (Failure t)
      then obtain j where k: "k = Suc j" using Cons.prems(4) by auto
      have "u32_inc (consecutive_failures c) = consecutive_failures c + 1"
        using Cons.prems(3,5) by (intro u32_inc_exact) auto
      then have "recordFailure c t = c\<lparr>consecutive_failures := consecutive_failures c + 1\<rparr>"
        using Cons.prems(1,5) k by (simp add: recordFailure_def)
      with Cons.IH [of "c\<lparr>consecutive_failures := consecutive_failures c + 1\<rparr>" j] Cons.prems Failure k
      show ?thesis by auto
    qed (use Cons.IH [of c k] Cons.prems in \<open>auto simp: allowRequest_def recordNeutral_def Let_def\<close>)
  qed simp
  from assms(1) have "failure_threshold (cb_limits b) < 2 ^ 32" by (simp add: breaker_inv_def)
  from run [OF assms(2,4) this assms(5)] assms(3,6) obtain b' where
    b': "breaker_run b es = (length (filter is_ask es), b')" "cb_state b' = CS_Closed"
      "cb_limits b' = cb_limits b" "consecutive_failures b' = k" by auto
  have "u32_inc k = k + 1" using assms(6) \<open>failure_threshold (cb_limits b) < 2 ^ 32\<close>
    by (intro u32_inc_exact) auto
  with b' assms(6) show ?thesis by (auto simp: recordFailure_def open_circuit_def Let_def split: if_splits)
qed

theorem breaker_trips_at_threshold_witness:
  "\<exists>b'. breaker_run sample_breaker [Ask 1, Failure 2, Ask 3, Failure 4, Neutral] = (2, b') \<and>
     cb_state b' = CS_Closed \<and> cb_state (recordFailure b' 9) = CS_Open"
  using breaker_trips_at_threshold [OF sample_breaker_inv(1), of "[Ask 1, Failure 2, Ask 3, Failure 4, Neutral]" 2 9]
  by (simp add: sample_breaker_def CircuitBreakerLimits_default_def numeral_2_eq_2)

text \<open>
  C21: while it is open the breaker shuts, as long as no success is recorded. A history of requests that ask before
  the retry time, of failures and of neutral outcomes, but without a success, lets no request through and changes
  nothing; and of the requests that ask after it, at any time and with no outcome recorded between
  them, at most the probe budget is let through.
\<close>

theorem open_breaker_limits_requests:
  assumes "breaker_inv b" "cb_state b = CS_Open" "list_all (event_before (retry_at b)) es"
    and "Success \<notin> set es" "list_all is_ask asks"
  shows "breaker_run b es = (0, b) \<and> fst (breaker_run b (es @ asks)) \<le> half_open_max_probes (cb_limits b)"
proof -
  have "fst (breaker_run b asks) \<le> half_open_max_probes (cb_limits b)" using assms(5)
  proof (induction asks)
    case (Cons e asks)
    then obtain now where e: "e = Ask now" by (cases e) auto
    show ?case
    proof (cases "now < retry_at b")
      case True
      with Cons e assms(2) show ?thesis by (auto simp: allowRequest_def split: prod.splits)
    next
      case False
      define c where "c = b\<lparr>cb_state := CS_HalfOpen, probes_in_flight := 0\<rparr>"
      have "breaker_step b e = breaker_step c e"
        using False e assms(2) by (simp add: allowRequest_def c_def)
      then have "breaker_run b (e # asks) = breaker_run c (e # asks)" by simp
      moreover obtain n b' where "breaker_run c (e # asks) = (n, b')" by fastforce
      ultimately show ?thesis
        using half_open_budget [of c "e # asks" n b'] Cons.prems by (simp add: c_def)
    qed
  qed simp
  with open_stays_shut [OF assms(2-4)] show ?thesis by (simp add: breaker_run_append split: prod.splits)
qed

theorem open_breaker_limits_requests_witness:
  "breaker_run (open_circuit sample_breaker 0) [Ask 1, Failure 2, Neutral] = (0, open_circuit sample_breaker 0) \<and>
   fst (breaker_run (open_circuit sample_breaker 0)
     ([Ask 1, Failure 2, Neutral] @ [Ask (ms 5000), Ask (ms 5001)])) \<le> 1"
proof -
  from open_breaker_limits_requests [OF sample_breaker_inv(2) [of 0], of "[Ask 1, Failure 2, Neutral]" "[Ask (ms 5000), Ask (ms 5001)]"]
  show ?thesis by (simp add: open_circuit_def sample_breaker_def CircuitBreakerLimits_default_def ms_def)
qed

text \<open>
  outcomes are not tied to the admission they belong to. A success of a request that was let
  through before the circuit opened closes it before the cooldown is over, and its neutral outcome
  frees the slot of another request's probe, so that more probes are in flight than the budget.
\<close>

theorem late_outcomes_defeat_the_breaker:
  assumes "breaker_inv b" "cb_state b = CS_Open"
  shows "cb_state (snd (breaker_run b [Success])) = CS_Closed \<and>
     (retry_at b \<le> now \<longrightarrow>
       fst (breaker_run b (replicate (half_open_max_probes (cb_limits b)) (Ask now) @ [Neutral, Ask now])) =
         half_open_max_probes (cb_limits b) + 1)"
proof (intro conjI impI)
  show "cb_state (snd (breaker_run b [Success])) = CS_Closed" by (simp add: recordSuccess_def)
next
  assume now: "retry_at b \<le> now"
  define m where "m = half_open_max_probes (cb_limits b)"
  define c where "c = (\<lambda>k. b\<lparr>cb_state := CS_HalfOpen, probes_in_flight := k\<rparr>)"
  have m: "0 < m" using assms(1) by (simp add: breaker_inv_def m_def)
  have fill: "breaker_run (c k) (replicate j (Ask now)) = (j, c (k + j))" if "k + j \<le> m" for k j
    using that
  proof (induction j arbitrary: k)
    case (Suc j)
    have "breaker_step (c k) (Ask now) = (1, c (Suc k))"
      using Suc.prems by (simp add: allowRequest_def c_def m_def)
    with Suc.IH [of "Suc k"] Suc.prems show ?case by simp
  qed simp
  have "breaker_step b (Ask now) = breaker_step (c 0) (Ask now)"
    using now assms(2) by (simp add: allowRequest_def c_def)
  then have first: "breaker_run b (replicate m (Ask now)) = breaker_run (c 0) (replicate m (Ask now))"
    using m by (cases m) auto
  have "breaker_run (c m) [Neutral, Ask now] = (1, c m)"
    using m by (simp add: recordNeutral_def allowRequest_def c_def m_def Let_def)
  then show "fst (breaker_run b (replicate m (Ask now) @ [Neutral, Ask now])) = m + 1"
    using first fill [of 0 m] by (simp add: breaker_run_append)
qed

theorem late_outcomes_defeat_the_breaker_witness:
  "cb_state (snd (breaker_run (open_circuit sample_breaker 0) [Success])) = CS_Closed \<and>
   fst (breaker_run (open_circuit sample_breaker 0)
     ([Ask (ms 5000)] @ [Neutral, Ask (ms 5000)])) = 2"
proof -
  from late_outcomes_defeat_the_breaker [OF sample_breaker_inv(2) [of 0], of "ms 5000"]
  show ?thesis by (simp add: open_circuit_def sample_breaker_def CircuitBreakerLimits_default_def)
qed

end
