(* ===== verification/UpstreamHealth.thy ===== *)
theory UpstreamHealth
  imports Prelude
begin

text \<open>
  The passive health state of \<open>src/http/upstream_health.cpp\<close>: immutable snapshots of a map
  from endpoint ids to counters, replaced by compare-and-swap. \<open>record_loop\<close> is the retry loop,
  given the snapshots that other writers put in place before the attempts that failed.
\<close>

section \<open>State and operations\<close>

type_synonym EndpointId = string

record EndpointHealth =
  healthy :: bool
  consecutive_successes :: nat
  eh_consecutive_failures :: nat
  changed_at :: int

record HealthSnapshot =
  endpoints :: "EndpointId \<rightharpoonup> EndpointHealth"

record HealthThresholds =
  healthy_threshold :: nat
  unhealthy_threshold :: nat

definition HealthThresholds_default :: HealthThresholds where
  "HealthThresholds_default = \<lparr>healthy_threshold = 2, unhealthy_threshold = 3\<rparr>"

record HealthStateStore =
  hs_thresholds :: HealthThresholds
  hs_snapshot :: HealthSnapshot

definition HealthStateStore_make :: "HealthThresholds \<Rightarrow> HealthStateStore outcome" where
  "HealthStateStore_make t =
     (if healthy_threshold t = 0 \<or> unhealthy_threshold t = 0 then Inl Invalid_Argument
      else Inr \<lparr>hs_thresholds = t, hs_snapshot = \<lparr>endpoints = Map.empty\<rparr>\<rparr>)"

text \<open>\<open>emplace\<close> keeps an entry that is already there.\<close>

definition addEndpoint :: "HealthStateStore \<Rightarrow> EndpointId \<Rightarrow> bool \<Rightarrow> int \<Rightarrow> HealthStateStore outcome" where
  "addEndpoint s eid initially_healthy now =
     (if eid = [] then Inl Invalid_Argument
      else
        let m = endpoints (hs_snapshot s);
            fresh = \<lparr>healthy = initially_healthy, consecutive_successes = 0,
                     eh_consecutive_failures = 0, changed_at = now\<rparr>
        in Inr (s\<lparr>hs_snapshot := \<lparr>endpoints = (if m eid = None then m(eid \<mapsto> fresh) else m)\<rparr>\<rparr>))"

definition record_endpoint :: "HealthThresholds \<Rightarrow> bool \<Rightarrow> int \<Rightarrow> EndpointHealth \<Rightarrow> EndpointHealth" where
  "record_endpoint t success now e =
     (if success then
        let e1 = e\<lparr>eh_consecutive_failures := 0, consecutive_successes := u32_inc (consecutive_successes e)\<rparr>
        in if \<not> healthy e1 \<and> healthy_threshold t \<le> consecutive_successes e1
           then e1\<lparr>healthy := True, changed_at := now\<rparr> else e1
      else
        let e1 = e\<lparr>consecutive_successes := 0, eh_consecutive_failures := u32_inc (eh_consecutive_failures e)\<rparr>
        in if healthy e1 \<and> unhealthy_threshold t \<le> eh_consecutive_failures e1
           then e1\<lparr>healthy := False, changed_at := now\<rparr> else e1)"

text \<open>One round of the loop on the snapshot it loaded; \<open>None\<close> is the return for an unknown id.\<close>

definition record_attempt :: "HealthThresholds \<Rightarrow> EndpointId \<Rightarrow> bool \<Rightarrow> int \<Rightarrow> HealthSnapshot \<Rightarrow> HealthSnapshot option" where
  "record_attempt t eid success now current =
     map_option (\<lambda>e. current\<lparr>endpoints := (endpoints current)(eid \<mapsto> record_endpoint t success now e)\<rparr>)
       (endpoints current eid)"

fun record_loop :: "HealthThresholds \<Rightarrow> EndpointId \<Rightarrow> bool \<Rightarrow> (int \<times> HealthSnapshot) list \<Rightarrow> int \<Rightarrow>
    HealthSnapshot \<Rightarrow> HealthSnapshot option" where
  "record_loop t eid success [] now current = record_attempt t eid success now current"
| "record_loop t eid success ((now', other) # lost) now current =
     (case record_attempt t eid success now' current of
        None \<Rightarrow> None
      | Some next_snapshot \<Rightarrow> record_loop t eid success lost now other)"

text \<open>The call without interference; an unknown id leaves the store as it is.\<close>

definition record_outcome :: "HealthStateStore \<Rightarrow> EndpointId \<Rightarrow> bool \<Rightarrow> int \<Rightarrow> HealthStateStore" where
  "record_outcome s eid success now =
     (case record_loop (hs_thresholds s) eid success [] now (hs_snapshot s) of
        None \<Rightarrow> s | Some n \<Rightarrow> s\<lparr>hs_snapshot := n\<rparr>)"

definition health_recordSuccess :: "HealthStateStore \<Rightarrow> EndpointId \<Rightarrow> int \<Rightarrow> HealthStateStore" where
  "health_recordSuccess s eid now = record_outcome s eid True now"

definition health_recordFailure :: "HealthStateStore \<Rightarrow> EndpointId \<Rightarrow> int \<Rightarrow> HealthStateStore" where
  "health_recordFailure s eid now = record_outcome s eid False now"

definition isHealthy :: "HealthStateStore \<Rightarrow> EndpointId \<Rightarrow> bool" where
  "isHealthy s eid = (case endpoints (hs_snapshot s) eid of None \<Rightarrow> False | Some e \<Rightarrow> healthy e)"

section \<open>Lemmas\<close>

text \<open>Nothing is lost: with writers only ever updating known ids, the attempt that wins applies
  to the snapshot it replaces.\<close>

lemma record_loop_last:
  assumes "\<forall>c \<in> insert current (set (map snd lost)). endpoints c eid \<noteq> None"
  shows "record_loop t eid ok lost now current =
    record_attempt t eid ok now (if lost = [] then current else snd (last lost))"
  using assms
proof (induction lost arbitrary: current)
  case (Cons x lost)
  obtain now' other where x: "x = (now', other)" by fastforce
  have "record_attempt t eid ok now' current \<noteq> None"
    using Cons.prems by (simp add: record_attempt_def)
  with Cons x show ?case by (auto split: option.splits)
qed simp

lemma endpoints_record_outcome:
  "endpoints (hs_snapshot (record_outcome s eid ok now)) =
     (case endpoints (hs_snapshot s) eid of
        None \<Rightarrow> endpoints (hs_snapshot s)
      | Some e \<Rightarrow> (endpoints (hs_snapshot s))(eid \<mapsto> record_endpoint (hs_thresholds s) ok now e))"
  by (simp add: record_outcome_def record_attempt_def split: option.splits)

lemma thresholds_record_outcome [simp]: "hs_thresholds (record_outcome s eid ok now) = hs_thresholds s"
  by (simp add: record_outcome_def split: option.splits)

text \<open>A history of one endpoint: the outcomes so far, oldest first, with their times.\<close>

fun record_all :: "HealthStateStore \<Rightarrow> EndpointId \<Rightarrow> (bool \<times> int) list \<Rightarrow> HealthStateStore" where
  "record_all s eid [] = s"
| "record_all s eid ((ok, now) # xs) = record_all (record_outcome s eid ok now) eid xs"

lemma record_all_snoc: "record_all s eid (xs @ [(ok, now)]) = record_outcome (record_all s eid xs) eid ok now"
  by (induction xs arbitrary: s) auto

lemma thresholds_record_all [simp]: "hs_thresholds (record_all s eid xs) = hs_thresholds s"
  by (induction s eid xs rule: record_all.induct) auto

definition trailing :: "bool \<Rightarrow> bool list \<Rightarrow> nat" where
  "trailing b xs = length (takeWhile (\<lambda>x. x = b) (rev xs))"

lemma trailing_simps [simp]:
  "trailing b [] = 0" "trailing b (xs @ [x]) = (if x = b then Suc (trailing b xs) else 0)"
  by (simp_all add: trailing_def)

lemma trailing_le: "trailing b xs \<le> length xs"
  unfolding trailing_def by (metis length_rev length_takeWhile_le)

lemma trailing_ge_iff:
  "k \<le> trailing b xs \<longleftrightarrow> k \<le> length xs \<and> (\<forall>x \<in> set (drop (length xs - k) xs). x = b)"
proof (induction xs arbitrary: k rule: rev_induct)
  case (snoc x xs)
  then show ?case by (cases k) auto
qed simp

lemma counters_are_trailing_runs:
  assumes "endpoints (hs_snapshot s) eid = Some e" "consecutive_successes e = 0" "eh_consecutive_failures e = 0"
    and "length xs < 2 ^ 32"
  shows "\<exists>e'. endpoints (hs_snapshot (record_all s eid xs)) eid = Some e' \<and>
     consecutive_successes e' = trailing True (map fst xs) \<and>
     eh_consecutive_failures e' = trailing False (map fst xs)"
  using assms(4)
proof (induction xs rule: rev_induct)
  case Nil
  then show ?case using assms(1-3) by simp
next
  case (snoc x xs)
  obtain ok now where x: "x = (ok, now)" by fastforce
  from snoc obtain e' where e': "endpoints (hs_snapshot (record_all s eid xs)) eid = Some e'"
      "consecutive_successes e' = trailing True (map fst xs)"
      "eh_consecutive_failures e' = trailing False (map fst xs)" by auto
  have "trailing b (map fst xs) < 2 ^ 32 - 1" for b
    using snoc.prems trailing_le [of b "map fst xs"] by simp
  then have "u32_inc (trailing b (map fst xs)) = trailing b (map fst xs) + 1" for b
    by (rule u32_inc_exact)
  with e' x show ?case
    by (cases ok) (auto simp: record_all_snoc endpoints_record_outcome record_endpoint_def Let_def)
qed

section \<open>Properties\<close>

text \<open>
  C29: hysteresis of the health state. After any history of fewer than \<open>2^32\<close> outcomes of a
  freshly added endpoint, one more outcome turns a healthy endpoint unhealthy exactly when it
  completes a run of \<open>unhealthy_threshold\<close> failures, and an unhealthy one healthy exactly when it
  completes a run of \<open>healthy_threshold\<close> successes; no other endpoint is affected.
\<close>

theorem health_flips_on_runs:
  assumes "endpoints (hs_snapshot s) eid = Some e" "consecutive_successes e = 0" "eh_consecutive_failures e = 0"
    and "length xs + 1 < 2 ^ 32" "0 < healthy_threshold (hs_thresholds s)" "0 < unhealthy_threshold (hs_thresholds s)"
  shows "let s1 = record_all s eid xs; s2 = record_outcome s1 eid ok now;
             outcomes = map fst xs @ [ok]; t = hs_thresholds s;
             run = (\<lambda>k b. k \<le> length outcomes \<and> (\<forall>x \<in> set (drop (length outcomes - k) outcomes). x = b))
         in (isHealthy s2 eid \<longleftrightarrow> (if isHealthy s1 eid then \<not> run (unhealthy_threshold t) False
                                 else run (healthy_threshold t) True)) \<and>
            (\<forall>other. other \<noteq> eid \<longrightarrow> isHealthy s2 other = isHealthy s1 other)"
proof -
  let ?o = "map fst xs @ [ok]" and ?t = "hs_thresholds s"
  obtain e1 where e1: "endpoints (hs_snapshot (record_all s eid xs)) eid = Some e1"
      "consecutive_successes e1 = trailing True (map fst xs)"
      "eh_consecutive_failures e1 = trailing False (map fst xs)"
    using counters_are_trailing_runs [OF assms(1-3), of xs] assms(4) by auto
  have inc: "u32_inc (trailing b (map fst xs)) = Suc (trailing b (map fst xs))" for b
    using assms(4) trailing_le [of b "map fst xs"] by (subst u32_inc_exact) auto
  have "healthy (record_endpoint ?t ok now e1) =
      (if healthy e1 then \<not> unhealthy_threshold ?t \<le> trailing False ?o
       else healthy_threshold ?t \<le> trailing True ?o)"
    using e1(2,3) inc assms(5,6) by (cases ok) (auto simp: record_endpoint_def Let_def)
  then show ?thesis
    using e1(1) unfolding Let_def trailing_ge_iff
    by (auto simp: isHealthy_def endpoints_record_outcome)
qed

definition sample_health :: HealthStateStore where
  "sample_health = \<lparr>hs_thresholds = HealthThresholds_default, hs_snapshot = \<lparr>endpoints =
     [''a:80'' \<mapsto> \<lparr>healthy = True, consecutive_successes = 0, eh_consecutive_failures = 0, changed_at = 0\<rparr>]\<rparr>\<rparr>"

theorem health_flips_on_runs_witness:
  "isHealthy (record_all sample_health ''a:80'' [(True, 1), (False, 2), (False, 3)]) ''a:80'' \<and>
   \<not> isHealthy (record_outcome (record_all sample_health ''a:80'' [(True, 1), (False, 2), (False, 3)])
      ''a:80'' False 4) ''a:80''"
proof -
  let ?xs = "[(True, 1), (False, 2), (False, 3)] :: (bool \<times> int) list"
  have h: "isHealthy (record_all sample_health ''a:80'' ?xs) ''a:80''" by code_simp
  show ?thesis
    using health_flips_on_runs [of sample_health "''a:80''" _ ?xs False 4] h
    by (simp add: sample_health_def HealthThresholds_default_def Let_def)
qed

text \<open>
  concurrent updates are not lost. However many times the compare-and-swap fails because
  another writer replaced the snapshot, the snapshot finally put in place is the update applied
  to the one it replaces, provided the writers keep the endpoint known.
\<close>

theorem record_loop_applies_to_latest:
  assumes "endpoints current eid \<noteq> None" "list_all (\<lambda>(t, c). endpoints c eid \<noteq> None) lost"
  shows "record_loop t eid ok lost now current =
    record_attempt t eid ok now (if lost = [] then current else snd (last lost))"
  by (rule record_loop_last) (use assms in \<open>auto simp: list_all_iff\<close>)

theorem record_loop_applies_to_latest_witness:
  "record_loop HealthThresholds_default ''a:80'' False
     [(1, hs_snapshot (record_outcome sample_health ''a:80'' True 0))] 2 (hs_snapshot sample_health) =
   record_attempt HealthThresholds_default ''a:80'' False 2
     (hs_snapshot (record_outcome sample_health ''a:80'' True 0))"
  using record_loop_applies_to_latest [of "hs_snapshot sample_health" "''a:80''"
      "[(1, hs_snapshot (record_outcome sample_health ''a:80'' True 0))]" HealthThresholds_default False 2]
  by (simp add: endpoints_record_outcome sample_health_def)

end
