(* ===== verification/UpstreamPool.thy ===== *)
theory UpstreamPool
  imports Prelude
begin

text \<open>
  The connection pool of \<open>src/http/upstream_pool.cpp\<close>. Everything the pool does runs on its
  strand, one handler at a time, so its behaviour is a sequence of events: acquisitions, returned,
  discarded and abandoned leases, timeouts of waiters, the cleanup timer and the stop request.
  A lease is the connection record it owns; the transport is present or not. The clock is a
  function from the number of the reading within a handler to its value, arbitrary at every event.
\<close>

section \<open>State\<close>

record PoolLimits =
  max_connections :: nat
  max_idle_connections :: nat
  max_reuses :: nat
  max_waiters :: nat
  acquire_timeout :: int
  idle_timeout :: int
  max_lifetime :: int

definition PoolLimits_default :: PoolLimits where
  "PoolLimits_default = \<lparr>max_connections = 16, max_idle_connections = 8, max_reuses = 100,
     max_waiters = 64, acquire_timeout = 1000, idle_timeout = 60000, max_lifetime = 300000\<rparr>"

record UpstreamConnectionRecord =
  conn_id :: nat
  reuse_count :: nat
  created_at :: int
  last_used_at :: int
  conn_open :: bool
  transport :: bool

type_synonym UpstreamLease = "UpstreamConnectionRecord option"

record UpstreamPoolPolicy =
  pp_limits :: PoolLimits
  idle :: "UpstreamConnectionRecord list"
  busy :: nat
  pp_next_id :: nat

record UpstreamPool =
  policy :: UpstreamPoolPolicy
  has_endpoint :: bool
  waiters :: "nat list"
  stopping :: bool
  cleanup_scheduled :: bool

datatype pool_result = Leased UpstreamConnectionRecord | Operation_Aborted | No_Buffer_Space | Timed_Out

section \<open>Policy\<close>

definition UpstreamPoolPolicy_make :: "PoolLimits \<Rightarrow> UpstreamPoolPolicy outcome" where
  "UpstreamPoolPolicy_make l =
     (if max_connections l = 0 \<or> max_idle_connections l = 0 \<or> max_connections l < max_idle_connections l \<or>
         max_reuses l = 0 \<or> idle_timeout l \<le> 0 \<or> max_lifetime l \<le> 0
      then Inl Invalid_Argument
      else Inr \<lparr>pp_limits = l, idle = [], busy = 0, pp_next_id = 1\<rparr>)"

text \<open>The clock is read once for each of the two comparisons.\<close>

definition reusable :: "PoolLimits \<Rightarrow> UpstreamConnectionRecord \<Rightarrow> int \<Rightarrow> int \<Rightarrow> bool" where
  "reusable l c now1 now2 =
     (conn_open c \<and> reuse_count c < max_reuses l \<and> now1 - created_at c < max_lifetime l * 1000000 \<and>
      now2 - last_used_at c < idle_timeout l * 1000000)"

text \<open>The loop over the idle connections from the back; \<open>k\<close> counts the ones examined.\<close>

fun acquire_idle :: "PoolLimits \<Rightarrow> (nat \<Rightarrow> int) \<Rightarrow> nat \<Rightarrow> UpstreamConnectionRecord list \<Rightarrow>
    UpstreamLease \<times> UpstreamConnectionRecord list" where
  "acquire_idle l clk k [] = (None, [])"
| "acquire_idle l clk k (c # cs) =
     (if reusable l c (clk (2 * k + 1)) (clk (2 * k + 2)) then (Some (c\<lparr>last_used_at := clk 0\<rparr>), cs)
      else acquire_idle l clk (k + 1) cs)"

definition policy_acquire :: "UpstreamPoolPolicy \<Rightarrow> (nat \<Rightarrow> int) \<Rightarrow> UpstreamLease \<times> UpstreamPoolPolicy" where
  "policy_acquire p clk =
     (case acquire_idle (pp_limits p) clk 0 (rev (idle p)) of
        (Some c, rest) \<Rightarrow> (Some c, p\<lparr>idle := rev rest, busy := busy p + 1\<rparr>)
      | (None, rest) \<Rightarrow>
          if max_connections (pp_limits p) \<le> busy p + length rest then (None, p\<lparr>idle := rev rest\<rparr>)
          else (Some \<lparr>conn_id = pp_next_id p, reuse_count = 0, created_at = clk 0, last_used_at = clk 0,
                      conn_open = True, transport = False\<rparr>,
                p\<lparr>idle := rev rest, busy := busy p + 1, pp_next_id := pp_next_id p + 1\<rparr>))"

definition policy_releaseReusable :: "UpstreamPoolPolicy \<Rightarrow> UpstreamLease \<Rightarrow> (nat \<Rightarrow> int) \<Rightarrow> UpstreamPoolPolicy" where
  "policy_releaseReusable p lease clk =
     (case lease of
        None \<Rightarrow> p
      | Some c0 \<Rightarrow>
          let p1 = p\<lparr>busy := busy p - 1\<rparr>;
              c = c0\<lparr>reuse_count := reuse_count c0 + 1, last_used_at := clk 0\<rparr>
          in if reusable (pp_limits p) c (clk 1) (clk 2) \<and> length (idle p1) < max_idle_connections (pp_limits p)
             then p1\<lparr>idle := idle p1 @ [c]\<rparr> else p1)"

definition policy_discard :: "UpstreamPoolPolicy \<Rightarrow> UpstreamLease \<Rightarrow> UpstreamPoolPolicy" where
  "policy_discard p lease = (case lease of None \<Rightarrow> p | Some c \<Rightarrow> p\<lparr>busy := busy p - 1\<rparr>)"

definition pruneIdle :: "UpstreamPoolPolicy \<Rightarrow> (nat \<Rightarrow> int) \<Rightarrow> UpstreamPoolPolicy" where
  "pruneIdle p clk = p\<lparr>idle := map snd (filter (\<lambda>(k, c). reusable (pp_limits p) c (clk (2 * k)) (clk (2 * k + 1)))
     (enumerate 0 (idle p)))\<rparr>"

section \<open>Pool handlers\<close>

definition UpstreamPool_make :: "PoolLimits \<Rightarrow> bool \<Rightarrow> UpstreamPool outcome" where
  "UpstreamPool_make l with_endpoint =
     ebind (UpstreamPoolPolicy_make l) (\<lambda>p.
       Inr \<lparr>policy = p, has_endpoint = with_endpoint, waiters = [], stopping = False, cleanup_scheduled = False\<rparr>)"

definition attachTransport :: "UpstreamPool \<Rightarrow> UpstreamConnectionRecord \<Rightarrow> UpstreamConnectionRecord" where
  "attachTransport pool c = (if \<not> has_endpoint pool \<or> transport c then c else c\<lparr>transport := True\<rparr>)"

definition scheduleCleanup :: "UpstreamPool \<Rightarrow> UpstreamPool" where
  "scheduleCleanup pool =
     (if stopping pool \<or> cleanup_scheduled pool then pool else pool\<lparr>cleanup_scheduled := True\<rparr>)"

text \<open>A handler's answers: which waiter or caller gets which result.\<close>

type_synonym pool_answers = "(nat \<times> pool_result) list"

definition completeWaiter :: "UpstreamPool \<Rightarrow> nat \<Rightarrow> pool_result \<Rightarrow> UpstreamPool \<times> pool_answers" where
  "completeWaiter pool w res =
     (if w \<in> set (waiters pool)
      then (pool\<lparr>waiters := filter (\<lambda>v. v \<noteq> w) (waiters pool)\<rparr>, [(w, res)]) else (pool, []))"

definition satisfyOneWaiter :: "UpstreamPool \<Rightarrow> (nat \<Rightarrow> int) \<Rightarrow> UpstreamPool \<times> pool_answers" where
  "satisfyOneWaiter pool clk =
     (case waiters pool of
        [] \<Rightarrow> (pool, [])
      | w # _ \<Rightarrow>
          (case policy_acquire (policy pool) clk of
             (None, p) \<Rightarrow> (pool\<lparr>policy := p\<rparr>, [])
           | (Some c, p) \<Rightarrow> completeWaiter (pool\<lparr>policy := p\<rparr>) w (Leased (attachTransport pool c))))"

definition asyncAcquire :: "UpstreamPool \<Rightarrow> nat \<Rightarrow> (nat \<Rightarrow> int) \<Rightarrow> UpstreamPool \<times> pool_answers" where
  "asyncAcquire pool0 w clk =
     (let pool = scheduleCleanup pool0 in
      if stopping pool then (pool, [(w, Operation_Aborted)])
      else
        (case policy_acquire (policy pool) clk of
           (Some c, p) \<Rightarrow> (pool\<lparr>policy := p\<rparr>, [(w, Leased (attachTransport pool c))])
         | (None, p) \<Rightarrow>
             if max_waiters (pp_limits p) \<le> length (waiters pool)
             then (pool\<lparr>policy := p\<rparr>, [(w, No_Buffer_Space)])
             else (pool\<lparr>policy := p, waiters := waiters pool @ [w]\<rparr>, [])))"

definition pool_releaseReusable :: "UpstreamPool \<Rightarrow> UpstreamLease \<Rightarrow> (nat \<Rightarrow> int) \<Rightarrow> (nat \<Rightarrow> int) \<Rightarrow>
    UpstreamPool \<times> pool_answers" where
  "pool_releaseReusable pool lease clk clk' =
     satisfyOneWaiter (pool\<lparr>policy := policy_releaseReusable (policy pool) lease clk\<rparr>) clk'"

definition pool_discard :: "UpstreamPool \<Rightarrow> UpstreamLease \<Rightarrow> UpstreamPool \<times> pool_answers" where
  "pool_discard pool lease = (pool\<lparr>policy := policy_discard (policy pool) lease\<rparr>, [])"

definition discardAbandoned :: "UpstreamPool \<Rightarrow> UpstreamConnectionRecord \<Rightarrow> UpstreamPool \<times> pool_answers" where
  "discardAbandoned pool c = (pool\<lparr>policy := policy_discard (policy pool) (Some c)\<rparr>, [])"

text \<open>The loop of \<open>stop\<close>: every waiter is completed, front first.\<close>

fun abort_waiters :: "nat list \<Rightarrow> UpstreamPool \<Rightarrow> UpstreamPool \<times> pool_answers" where
  "abort_waiters [] pool = (pool, [])"
| "abort_waiters (w # ws) pool =
     (case completeWaiter pool w Operation_Aborted of (pool1, a1) \<Rightarrow>
        case abort_waiters ws pool1 of (pool2, a2) \<Rightarrow> (pool2, a1 @ a2))"

definition pool_stop :: "UpstreamPool \<Rightarrow> UpstreamPool \<times> pool_answers" where
  "pool_stop pool =
     (if stopping pool then (pool, [])
      else abort_waiters (waiters pool) (pool\<lparr>stopping := True\<rparr>))"

definition cleanup_fired :: "UpstreamPool \<Rightarrow> (nat \<Rightarrow> int) \<Rightarrow> UpstreamPool \<times> pool_answers" where
  "cleanup_fired pool clk =
     (scheduleCleanup (pool\<lparr>cleanup_scheduled := False, policy := pruneIdle (policy pool) clk\<rparr>), [])"

section \<open>Histories\<close>

text \<open>
  The world of a pool: the leases handed out and not yet given back, the callers that have asked,
  and the answers given. A lease comes back once, as it was handed out.
\<close>

datatype pool_event =
    Ev_Acquire nat "nat \<Rightarrow> int" | Ev_Release UpstreamConnectionRecord "nat \<Rightarrow> int" "nat \<Rightarrow> int"
  | Ev_Discard UpstreamConnectionRecord | Ev_Abandon UpstreamConnectionRecord
  | Ev_Timeout nat | Ev_Cleanup "nat \<Rightarrow> int" | Ev_Stop

record pool_world =
  the_pool :: UpstreamPool
  leased :: "UpstreamConnectionRecord list"
  callers :: "nat list"
  answers :: pool_answers

fun enabled :: "pool_world \<Rightarrow> pool_event \<Rightarrow> bool" where
  "enabled w (Ev_Acquire n clk) = (n \<notin> set (callers w))"
| "enabled w (Ev_Release c clk clk') = (c \<in> set (leased w))"
| "enabled w (Ev_Discard c) = (c \<in> set (leased w))"
| "enabled w (Ev_Abandon c) = (c \<in> set (leased w))"
| "enabled w e = True"

fun handle :: "UpstreamPool \<Rightarrow> pool_event \<Rightarrow> UpstreamPool \<times> pool_answers" where
  "handle pool (Ev_Acquire n clk) = asyncAcquire pool n clk"
| "handle pool (Ev_Release c clk clk') = pool_releaseReusable pool (Some c) clk clk'"
| "handle pool (Ev_Discard c) = pool_discard pool (Some c)"
| "handle pool (Ev_Abandon c) = discardAbandoned pool c"
| "handle pool (Ev_Timeout n) = completeWaiter pool n Timed_Out"
| "handle pool (Ev_Cleanup clk) = cleanup_fired pool clk"
| "handle pool Ev_Stop = pool_stop pool"

fun returned :: "pool_event \<Rightarrow> UpstreamConnectionRecord list \<Rightarrow> UpstreamConnectionRecord list" where
  "returned (Ev_Release c clk clk') cs = remove1 c cs"
| "returned (Ev_Discard c) cs = remove1 c cs"
| "returned (Ev_Abandon c) cs = remove1 c cs"
| "returned e cs = cs"

fun asked :: "pool_event \<Rightarrow> nat list" where
  "asked (Ev_Acquire n clk) = [n]"
| "asked e = []"

definition leases_of :: "pool_answers \<Rightarrow> UpstreamConnectionRecord list" where
  "leases_of as = concat (map (\<lambda>(n, r). case r of Leased c \<Rightarrow> [c] | _ \<Rightarrow> []) as)"

definition world_step :: "pool_world \<Rightarrow> pool_event \<Rightarrow> pool_world" where
  "world_step w e =
     (case handle (the_pool w) e of (pool, as) \<Rightarrow>
        \<lparr>the_pool = pool, leased = returned e (leased w) @ leases_of as,
         callers = callers w @ asked e, answers = answers w @ as\<rparr>)"

inductive pool_reachable :: "PoolLimits \<Rightarrow> pool_world \<Rightarrow> bool" for l where
  start: "UpstreamPool_make l ep = Inr pool \<Longrightarrow>
     pool_reachable l \<lparr>the_pool = pool, leased = [], callers = [], answers = []\<rparr>"
| step: "pool_reachable l w \<Longrightarrow> enabled w e \<Longrightarrow> pool_reachable l (world_step w e)"

section \<open>Invariant\<close>

text \<open>The policy against the leases outside: each connection is in one place, and capacity holds.\<close>

definition policy_inv :: "PoolLimits \<Rightarrow> UpstreamPoolPolicy \<Rightarrow> UpstreamConnectionRecord list \<Rightarrow> bool" where
  "policy_inv l p outside \<longleftrightarrow> pp_limits p = l \<and> busy p = length outside \<and>
     distinct (map conn_id (idle p @ outside)) \<and>
     (\<forall>c \<in> set (idle p @ outside). conn_id c < pp_next_id p) \<and>
     busy p + length (idle p) \<le> max_connections l \<and> length (idle p) \<le> max_idle_connections l"

lemma acquire_idle_cases:
  assumes "acquire_idle l clk k cs = (r, rest)"
  obtains (empty) "r = None" "rest = []"
    | (found) dropped c where "cs = dropped @ c # rest" "r = Some (c\<lparr>last_used_at := clk 0\<rparr>)"
  using assms
proof (induction l clk k cs arbitrary: thesis rule: acquire_idle.induct)
  case (2 l clk k c cs)
  show ?case
  proof (cases "reusable l c (clk (2 * k + 1)) (clk (2 * k + 2))")
    case True
    with "2.prems" show ?thesis by (auto intro: "2.prems"(2) [of "[]"])
  next
    case False
    with "2.prems"(3) have "acquire_idle l clk (k + 1) cs = (r, rest)" by simp
    from "2.IH" [OF False _ _ this] show ?thesis
      using "2.prems"(1) "2.prems"(2) [of "c # _"] by (metis append_Cons)
  qed
qed auto

lemma policy_inv_acquire:
  assumes "policy_inv l p outside" "policy_acquire p clk = (r, p')"
  shows "case r of None \<Rightarrow> policy_inv l p' outside \<and> idle p' = [] \<and> max_connections l \<le> busy p'
    | Some c \<Rightarrow> policy_inv l p' (outside @ [c]) \<and> conn_id c \<notin> conn_id ` set outside"
proof -
  obtain r1 rest where a: "acquire_idle (pp_limits p) clk 0 (rev (idle p)) = (r1, rest)" by fastforce
  from a show ?thesis
  proof (cases rule: acquire_idle_cases)
    case empty
    have below: "conn_id c < pp_next_id p" if "c \<in> set outside" for c
      using assms(1) that by (simp add: policy_inv_def)
    then have "pp_next_id p \<notin> conn_id ` set outside" by (metis imageE less_irrefl)
    with below empty a assms show ?thesis
      by (auto simp: policy_acquire_def policy_inv_def less_Suc_eq split: if_splits)
  next
    case (found dropped c)
    have "idle p = rev rest @ c # rev dropped" using found(1) by (metis append.assoc append_Cons append_Nil rev.simps(2) rev_append rev_rev_ident)
    with found a assms show ?thesis by (auto simp: policy_acquire_def policy_inv_def Int_Un_distrib)
  qed
qed

lemma policy_inv_rename:
  assumes "policy_inv l p (u @ c # v)" "conn_id c' = conn_id c"
  shows "policy_inv l p (u @ c' # v)"
  using assms by (auto simp: policy_inv_def)

lemma policy_inv_return:
  assumes "policy_inv l p outside" "c \<in> set outside"
  shows "policy_inv l (policy_discard p (Some c)) (remove1 c outside)"
    and "policy_inv l (policy_releaseReusable p (Some c) clk) (remove1 c outside)"
proof -
  from split_list [OF assms(2)] obtain u v where uv: "outside = u @ c # v" by blast
  have "distinct (map conn_id outside)" using assms(1) by (simp add: policy_inv_def)
  then have rem: "remove1 c outside = u @ v" using uv by (auto simp: remove1_append)
  show "policy_inv l (policy_discard p (Some c)) (remove1 c outside)"
    unfolding rem using assms(1) uv by (auto simp: policy_inv_def policy_discard_def)
  show "policy_inv l (policy_releaseReusable p (Some c) clk) (remove1 c outside)"
    unfolding rem using assms(1) uv by (auto simp: policy_inv_def policy_releaseReusable_def Let_def)
qed

lemma distinct_subseq: "subseq xs ys \<Longrightarrow> distinct ys \<Longrightarrow> distinct xs"
  by (induction rule: list_emb.induct) (auto dest: list_emb_set)

lemma subseq_filter_enumerate: "subseq (map snd (filter P (enumerate n xs))) xs"
  by (induction xs arbitrary: n) auto

lemma policy_inv_prune:
  assumes "policy_inv l p outside"
  shows "policy_inv l (pruneIdle p clk) outside"
proof -
  have s: "subseq (idle (pruneIdle p clk)) (idle p)"
    unfolding pruneIdle_def by (simp add: subseq_filter_enumerate)
  then have "set (idle (pruneIdle p clk)) \<subseteq> set (idle p)" "length (idle (pruneIdle p clk)) \<le> length (idle p)"
    by (auto dest: list_emb_set list_emb_length)
  moreover have "distinct (map conn_id (idle (pruneIdle p clk)))"
    using assms distinct_subseq [OF subseq_map [OF s]] by (auto simp: policy_inv_def)
  moreover have "pp_limits (pruneIdle p clk) = pp_limits p" "busy (pruneIdle p clk) = busy p"
      "pp_next_id (pruneIdle p clk) = pp_next_id p" by (simp_all add: pruneIdle_def)
  ultimately show ?thesis using assms unfolding policy_inv_def by (auto; fastforce)
qed

text \<open>Callers: each is waiting or answered, once; the queue is bounded.\<close>

definition queue_inv :: "PoolLimits \<Rightarrow> UpstreamPool \<Rightarrow> nat list \<Rightarrow> nat list \<Rightarrow> bool" where
  "queue_inv l pool asked_ids answered \<longleftrightarrow> distinct (waiters pool) \<and> distinct answered \<and>
     set (waiters pool) \<inter> set answered = {} \<and> set asked_ids = set (waiters pool) \<union> set answered \<and>
     length (waiters pool) \<le> max_waiters l \<and> (stopping pool \<longrightarrow> waiters pool = [])"

definition world_inv :: "PoolLimits \<Rightarrow> pool_world \<Rightarrow> bool" where
  "world_inv l w \<longleftrightarrow> policy_inv l (policy (the_pool w)) (leased w) \<and>
     queue_inv l (the_pool w) (callers w) (map fst (answers w))"

lemma leases_of_simps [simp]:
  "leases_of [] = []" "leases_of ((n, Leased c) # as) = c # leases_of as"
  "leases_of ((n, Operation_Aborted) # as) = leases_of as" "leases_of ((n, No_Buffer_Space) # as) = leases_of as"
  "leases_of ((n, Timed_Out) # as) = leases_of as" "leases_of (as @ bs) = leases_of as @ leases_of bs"
  by (simp_all add: leases_of_def)

lemma conn_id_attach [simp]: "conn_id (attachTransport pool c) = conn_id c"
  by (simp add: attachTransport_def)

lemma scheduleCleanup_simps [simp]:
  "policy (scheduleCleanup pool) = policy pool" "waiters (scheduleCleanup pool) = waiters pool"
  "stopping (scheduleCleanup pool) = stopping pool" "has_endpoint (scheduleCleanup pool) = has_endpoint pool"
  by (simp_all add: scheduleCleanup_def)

lemma length_filter_mem: "distinct ws \<Longrightarrow> length (filter (\<lambda>v. v \<noteq> x) ws) \<le> length ws"
  by (rule length_filter_le)

lemma queue_inv_complete:
  assumes "queue_inv l pool ids ans" "completeWaiter pool n res = (pool', as)"
  shows "queue_inv l pool' ids (ans @ map fst as) \<and> policy pool' = policy pool \<and>
     (leases_of as = [] \<or> (\<exists>c. res = Leased c \<and> leases_of as = [c]))"
  using assms order_trans [OF length_filter_le [of "\<lambda>v. v \<noteq> n" "waiters pool"]]
  by (cases res) (auto simp: completeWaiter_def queue_inv_def split: if_splits)

lemma satisfyOneWaiter_inv:
  assumes "policy_inv l (policy pool) outside" "queue_inv l pool ids ans" "satisfyOneWaiter pool clk = (pool', as)"
  shows "policy_inv l (policy pool') (outside @ leases_of as) \<and> queue_inv l pool' ids (ans @ map fst as)"
proof (cases "waiters pool")
  case Nil
  with assms show ?thesis by (simp add: satisfyOneWaiter_def)
next
  case (Cons n ws)
  obtain r p where acq: "policy_acquire (policy pool) clk = (r, p)" by fastforce
  note inv = policy_inv_acquire [OF assms(1) acq]
  have q: "queue_inv l (pool\<lparr>policy := p\<rparr>) ids ans" using assms(2) by (simp add: queue_inv_def)
  show ?thesis
  proof (cases r)
    case None
    with Cons acq assms(3) have "pool' = pool\<lparr>policy := p\<rparr>" "as = []" by (auto simp: satisfyOneWaiter_def)
    with None inv q show ?thesis by simp
  next
    case (Some c)
    with Cons acq assms(3) have comp: "completeWaiter (pool\<lparr>policy := p\<rparr>) n (Leased (attachTransport pool c)) = (pool', as)"
      by (simp add: satisfyOneWaiter_def)
    have "leases_of as = [attachTransport pool c]" using comp Cons by (auto simp: completeWaiter_def)
    with queue_inv_complete [OF q comp] inv Some
    show ?thesis using policy_inv_rename [of l p outside c "[]" "attachTransport pool c"] by simp
  qed
qed

lemma abort_waiters_eq:
  "ws = waiters pool \<Longrightarrow> distinct ws \<Longrightarrow>
     abort_waiters ws pool = (pool\<lparr>waiters := []\<rparr>, map (\<lambda>w. (w, Operation_Aborted)) ws)"
proof (induction ws arbitrary: pool)
  case (Cons w ws)
  have "completeWaiter pool w Operation_Aborted = (pool\<lparr>waiters := ws\<rparr>, [(w, Operation_Aborted)])"
    using Cons.prems(2) Cons.prems(1) [symmetric] by (cases pool) (auto simp: completeWaiter_def filter_id_conv)
  moreover have "abort_waiters ws (pool\<lparr>waiters := ws\<rparr>) = (pool\<lparr>waiters := []\<rparr>, map (\<lambda>w. (w, Operation_Aborted)) ws)"
    using Cons.IH [of "pool\<lparr>waiters := ws\<rparr>"] Cons.prems(2) by simp
  ultimately show ?case by simp
qed (cases pool, simp)

lemma leases_of_aborted [simp]: "leases_of (map (\<lambda>w. (w, Operation_Aborted)) ws) = []"
  by (induction ws) auto

lemma asyncAcquire_inv:
  assumes "policy_inv l (policy pool) outside" "queue_inv l pool ids ans" "n \<notin> set ids"
    and "asyncAcquire pool n clk = (pool', as)"
  shows "policy_inv l (policy pool') (outside @ leases_of as) \<and> queue_inv l pool' (ids @ [n]) (ans @ map fst as)"
proof -
  obtain r p where acq: "policy_acquire (policy pool) clk = (r, p)" by fastforce
  note inv = policy_inv_acquire [OF assms(1) acq]
  show ?thesis
  proof (cases "stopping pool")
    case True
    with assms show ?thesis by (auto simp: asyncAcquire_def queue_inv_def)
  next
    case False
    show ?thesis
    proof (cases r)
      case None
      with inv have pl: "pp_limits p = l" and pi: "policy_inv l p outside" by (simp_all add: policy_inv_def)
      show ?thesis
      proof (cases "max_waiters l \<le> length (waiters pool)")
        case True
        with False acq None pl assms(4) have "pool' = (scheduleCleanup pool)\<lparr>policy := p\<rparr>" "as = [(n, No_Buffer_Space)]"
          by (simp_all add: asyncAcquire_def Let_def)
        with pi assms(2,3) show ?thesis by (simp add: queue_inv_def)
      next
        case few: False
        with False acq None pl assms(4)
        have "pool' = (scheduleCleanup pool)\<lparr>policy := p, waiters := waiters pool @ [n]\<rparr>" "as = []"
          by (simp_all add: asyncAcquire_def Let_def)
        with pi assms(2,3) few False show ?thesis by (auto simp: queue_inv_def)
      qed
    next
      case (Some c)
      with False acq assms(4) have "pool' = (scheduleCleanup pool)\<lparr>policy := p\<rparr>"
          "as = [(n, Leased (attachTransport (scheduleCleanup pool) c))]"
        by (simp_all add: asyncAcquire_def Let_def)
      with Some policy_inv_rename [of l p outside c "[]" "attachTransport (scheduleCleanup pool) c"] inv assms(2,3)
      show ?thesis by (simp add: queue_inv_def)
    qed
  qed
qed

lemma world_inv_step:
  assumes "world_inv l w" "enabled w e"
  shows "world_inv l (world_step w e)"
proof -
  let ?P = "the_pool w"
  obtain pool as where h: "handle ?P e = (pool, as)" by fastforce
  have p: "policy_inv l (policy ?P) (leased w)" and q: "queue_inv l ?P (callers w) (map fst (answers w))"
    using assms(1) by (simp_all add: world_inv_def)
  have qp: "queue_inv l (?P\<lparr>policy := p1\<rparr>) ids ans = queue_inv l ?P ids ans" for p1 ids ans
    by (simp add: queue_inv_def)
  have "policy_inv l (policy pool) (returned e (leased w) @ leases_of as) \<and>
      queue_inv l pool (callers w @ asked e) (map fst (answers w) @ map fst as)"
  proof (cases e)
    case (Ev_Acquire n clk)
    with asyncAcquire_inv [OF p q] h assms(2) show ?thesis by simp
  next
    case (Ev_Release c clk clk')
    with policy_inv_return(2) [OF p] assms(2)
    have "policy_inv l (policy_releaseReusable (policy ?P) (Some c) clk) (remove1 c (leased w))" by simp
    moreover have "queue_inv l (?P\<lparr>policy := policy_releaseReusable (policy ?P) (Some c) clk\<rparr>) (callers w) (map fst (answers w))"
      using q by (simp add: qp)
    moreover have "satisfyOneWaiter (?P\<lparr>policy := policy_releaseReusable (policy ?P) (Some c) clk\<rparr>) clk' = (pool, as)"
      using h Ev_Release by (simp add: pool_releaseReusable_def)
    ultimately show ?thesis
      using satisfyOneWaiter_inv [of l "?P\<lparr>policy := policy_releaseReusable (policy ?P) (Some c) clk\<rparr>"] Ev_Release
      by simp
  next
    case (Ev_Timeout n)
    with h have "completeWaiter ?P n Timed_Out = (pool, as)" by simp
    from queue_inv_complete [OF q this] p Ev_Timeout show ?thesis by simp
  next
    case Ev_Stop
    have "abort_waiters (waiters ?P) (?P\<lparr>stopping := True\<rparr>) =
        (?P\<lparr>stopping := True, waiters := []\<rparr>, map (\<lambda>w. (w, Operation_Aborted)) (waiters ?P))"
      using q by (subst abort_waiters_eq) (auto simp: queue_inv_def)
    then have "handle ?P e = (if stopping ?P then (?P, []) else
        (?P\<lparr>stopping := True, waiters := []\<rparr>, map (\<lambda>w. (w, Operation_Aborted)) (waiters ?P)))"
      using Ev_Stop by (simp add: pool_stop_def)
    with Ev_Stop h p q show ?thesis
      by (cases "stopping ?P") (auto simp: queue_inv_def comp_def)
  next
    case (Ev_Discard c)
    with h have "pool = ?P\<lparr>policy := policy_discard (policy ?P) (Some c)\<rparr>" "as = []" by (auto simp: pool_discard_def)
    with Ev_Discard policy_inv_return(1) [OF p] assms(2) q show ?thesis by (simp add: qp)
  next
    case (Ev_Abandon c)
    with h have "pool = ?P\<lparr>policy := policy_discard (policy ?P) (Some c)\<rparr>" "as = []" by (auto simp: discardAbandoned_def)
    with Ev_Abandon policy_inv_return(1) [OF p] assms(2) q show ?thesis by (simp add: qp)
  next
    case (Ev_Cleanup clk)
    with h have "pool = scheduleCleanup (?P\<lparr>cleanup_scheduled := False, policy := pruneIdle (policy ?P) clk\<rparr>)" "as = []"
      by (auto simp: cleanup_fired_def)
    with Ev_Cleanup policy_inv_prune [OF p] q show ?thesis by (simp add: queue_inv_def)
  qed
  with h show ?thesis by (simp add: world_step_def world_inv_def)
qed

lemma reachable_inv: "pool_reachable l w \<Longrightarrow> world_inv l w"
proof (induction rule: pool_reachable.induct)
  case (start ep pool)
  then show ?case
    by (auto simp: UpstreamPool_make_def UpstreamPoolPolicy_make_def world_inv_def policy_inv_def queue_inv_def
        split: if_splits)
qed (rule world_inv_step)

section \<open>Properties\<close>

text \<open>
  C13: In every state a pool can reach, each connection is owned once: no connection is both idle and
  leased, or leased twice. The busy count is the number of outstanding leases, the connections
  idle and busy together stay within the configured maximum, and the idle ones within theirs.
\<close>

theorem connections_are_owned_once:
  assumes "pool_reachable l w"
  shows "distinct (map conn_id (idle (policy (the_pool w)) @ leased w)) \<and>
     busy (policy (the_pool w)) = length (leased w) \<and>
     busy (policy (the_pool w)) + length (idle (policy (the_pool w))) \<le> max_connections l \<and>
     length (idle (policy (the_pool w))) \<le> max_idle_connections l"
  using reachable_inv [OF assms] by (simp add: world_inv_def policy_inv_def)

text \<open>
  C31: In every state a pool can reach, each caller of the acquisition is waiting or has been answered,
  exactly one of the two, and no caller is answered twice; the queue of waiters stays within
  its limit, and a stopped pool leaves no caller waiting.
\<close>

theorem callers_are_answered_once:
  assumes "pool_reachable l w"
  shows "distinct (waiters (the_pool w) @ map fst (answers w)) \<and>
     set (callers w) = set (waiters (the_pool w)) \<union> set (map fst (answers w)) \<and>
     length (waiters (the_pool w)) \<le> max_waiters l \<and>
     (stopping (the_pool w) \<longrightarrow> waiters (the_pool w) = [])"
  using reachable_inv [OF assms] by (simp add: world_inv_def queue_inv_def)

text \<open>A concrete history: one connection, a second caller that waits, the lease given back.\<close>

definition small_limits :: PoolLimits where
  "small_limits = PoolLimits_default\<lparr>max_connections := 1, max_idle_connections := 1\<rparr>"

definition small_start :: pool_world where
  "small_start = \<lparr>the_pool = \<lparr>policy = \<lparr>pp_limits = small_limits, idle = [], busy = 0, pp_next_id = 1\<rparr>,
     has_endpoint = True, waiters = [], stopping = False, cleanup_scheduled = False\<rparr>,
     leased = [], callers = [], answers = []\<rparr>"

definition first_lease :: UpstreamConnectionRecord where
  "first_lease = \<lparr>conn_id = 1, reuse_count = 0, created_at = 0, last_used_at = 0, conn_open = True, transport = True\<rparr>"

lemma small_start_reachable: "pool_reachable small_limits small_start"
  unfolding small_start_def
  by (rule pool_reachable.start [of _ True])
    (simp add: UpstreamPool_make_def UpstreamPoolPolicy_make_def small_limits_def PoolLimits_default_def)

lemma small_history:
  "pool_reachable small_limits (world_step (world_step small_start (Ev_Acquire 7 (\<lambda>_. 0))) (Ev_Acquire 8 (\<lambda>_. 0)))"
  by (intro pool_reachable.step small_start_reachable; code_simp)

theorem connections_are_owned_once_witness:
  "leased (world_step (world_step small_start (Ev_Acquire 7 (\<lambda>_. 0))) (Ev_Acquire 8 (\<lambda>_. 0))) = [first_lease] \<and>
   busy (policy (the_pool (world_step (world_step small_start (Ev_Acquire 7 (\<lambda>_. 0))) (Ev_Acquire 8 (\<lambda>_. 0))))) = 1"
proof -
  have "leased (world_step (world_step small_start (Ev_Acquire 7 (\<lambda>_. 0))) (Ev_Acquire 8 (\<lambda>_. 0))) = [first_lease]"
    by code_simp
  with connections_are_owned_once [OF small_history] show ?thesis by simp
qed

theorem callers_are_answered_once_witness:
  "waiters (the_pool (world_step (world_step small_start (Ev_Acquire 7 (\<lambda>_. 0))) (Ev_Acquire 8 (\<lambda>_. 0)))) = [8] \<and>
   8 \<notin> fst ` set (answers (world_step (world_step small_start (Ev_Acquire 7 (\<lambda>_. 0))) (Ev_Acquire 8 (\<lambda>_. 0))))"
proof -
  have "waiters (the_pool (world_step (world_step small_start (Ev_Acquire 7 (\<lambda>_. 0))) (Ev_Acquire 8 (\<lambda>_. 0)))) = [8]"
    by code_simp
  with callers_are_answered_once [OF small_history] show ?thesis by simp
qed

text \<open>
  A lease that is discarded or abandoned frees a connection slot without serving the queue: the first
  waiter keeps waiting although an acquisition made at that moment would succeed, whatever the
  clock says, so it is served only by a later release or answered by its timeout.
\<close>

theorem discard_leaves_waiter_unserved:
  assumes "pool_reachable l w" "c \<in> set (leased w)" "waiters (the_pool w) = n # ws"
  shows "waiters (the_pool (world_step w (Ev_Discard c))) = n # ws \<and>
     answers (world_step w (Ev_Discard c)) = answers w \<and>
     fst (policy_acquire (policy (the_pool (world_step w (Ev_Discard c)))) clk) \<noteq> None"
proof -
  let ?w = "world_step w (Ev_Discard c)"
  have "pool_reachable l ?w" by (rule pool_reachable.step [OF assms(1)]) (simp add: assms(2))
  then have after: "policy_inv l (policy (the_pool ?w)) (leased ?w)"
    using reachable_inv by (simp add: world_inv_def)
  have before: "policy_inv l (policy (the_pool w)) (leased w)"
    using reachable_inv [OF assms(1)] by (simp add: world_inv_def)
  have "length (leased ?w) = length (leased w) - 1"
    using assms(2) by (simp add: world_step_def pool_discard_def length_remove1)
  then have "length (leased ?w) < max_connections l"
    using before length_pos_if_in_set [OF assms(2)] by (simp add: policy_inv_def; linarith)
  moreover obtain r p where acq: "policy_acquire (policy (the_pool ?w)) clk = (r, p)" by fastforce
  moreover have "busy p = length (leased ?w)" if "r = None"
    using policy_inv_acquire [OF after acq] that by (simp add: policy_inv_def)
  ultimately have "r \<noteq> None" using policy_inv_acquire [OF after acq] by (cases r) auto
  with acq assms(3) show ?thesis by (simp add: world_step_def pool_discard_def)
qed

theorem discard_leaves_waiter_unserved_witness:
  "waiters (the_pool (world_step (world_step (world_step small_start (Ev_Acquire 7 (\<lambda>_. 0))) (Ev_Acquire 8 (\<lambda>_. 0)))
     (Ev_Discard first_lease))) = [8]"
proof -
  have "first_lease \<in> set (leased (world_step (world_step small_start (Ev_Acquire 7 (\<lambda>_. 0))) (Ev_Acquire 8 (\<lambda>_. 0))))"
    by code_simp
  moreover have "waiters (the_pool (world_step (world_step small_start (Ev_Acquire 7 (\<lambda>_. 0))) (Ev_Acquire 8 (\<lambda>_. 0)))) = 8 # []"
    by code_simp
  ultimately show ?thesis using discard_leaves_waiter_unserved [OF small_history] by simp
qed

end
