(* ===== verification/ReverseProxy.thy ===== *)
theory ReverseProxy
  imports Router ResponseParser CircuitBreaker UpstreamHealth UpstreamPool
begin

text \<open>
  The reverse proxy, \<open>src/http/reverse_proxy.cpp\<close>: the request sent upstream, the transaction on one
  connection (buffered and streaming), and the handler that admits a request, picks an upstream and
  records the outcome. What the network does is input: the completion of each asynchronous
  operation is an event with its result and the stop request, if any, that arrived while the
  coroutine was waiting.
\<close>

section \<open>Data\<close>

record UpstreamEndpoint =
  host :: string
  service :: string

record ProxyLimits =
  response_parser_limits :: HttpResponseParserLimits
  read_chunk_bytes :: nat
  max_buffer_bytes :: nat
  dns_timeout :: int
  connect_timeout :: int
  response_timeout :: int
  total_timeout :: int
  health_thresholds :: HealthThresholds
  pool_limits :: PoolLimits
  circuit_breaker_limits :: CircuitBreakerLimits
  max_in_flight_requests :: nat
  overload_retry_after :: int
  count_5xx_as_health_failure :: bool

definition ProxyLimits_default :: ProxyLimits where
  "ProxyLimits_default =
     \<lparr>response_parser_limits = HttpResponseParserLimits_default, read_chunk_bytes = 8192,
      max_buffer_bytes = 1024 * 1024 + 32 * 1024, dns_timeout = 2000, connect_timeout = 2000,
      response_timeout = 5000, total_timeout = 10000, health_thresholds = HealthThresholds_default,
      pool_limits = PoolLimits_default, circuit_breaker_limits = CircuitBreakerLimits_default,
      max_in_flight_requests = 1024, overload_retry_after = 1, count_5xx_as_health_failure = True\<rparr>"

datatype ProxyState =
    PX_Created | PX_Resolving | PX_Connecting | PX_SendingRequest | PX_ReadingResponseHeaders
  | PX_ReadingResponseBody | PX_Complete | PX_Failed | PX_Cancelled

datatype ProxyStopReason =
    Stop_None | Stop_DnsTimeout | Stop_ConnectTimeout | Stop_ResponseTimeout | Stop_TotalTimeout
  | Stop_DownstreamClosed | Stop_ServerShutdown | Stop_InternalError

datatype ProxyError =
    PE_None | PE_DnsFailure | PE_ConnectFailure | PE_ConnectTimeout | PE_ResponseTimeout
  | PE_UpstreamProtocol | PE_UpstreamBodyTooLarge | PE_NoHealthyUpstream | PE_CircuitOpen
  | PE_Overloaded | PE_Cancelled | PE_UnsupportedRequest

record ProxyResult =
  pr_error :: ProxyError
  pr_response :: HttpResponse
  pr_reusable :: bool
  pr_upstream_status :: int

definition failed_with :: "ProxyError \<Rightarrow> ProxyResult" where
  "failed_with e = \<lparr>pr_error = e, pr_response = HttpResponse_default, pr_reusable = False, pr_upstream_status = 0\<rparr>"

definition streamedCloseResult :: ProxyResult where
  "streamedCloseResult = \<lparr>pr_error = PE_None,
     pr_response = HttpResponse_default\<lparr>rs_close_connection := True, rs_already_written := True\<rparr>,
     pr_reusable = False, pr_upstream_status = 0\<rparr>"

section \<open>Messages\<close>

definition hop_by_hop_names :: "string list" where
  "hop_by_hop_names = [''connection'', ''keep-alive'', ''proxy-authenticate'', ''proxy-authorization'',
     ''te'', ''trailer'', ''transfer-encoding'', ''upgrade'']"

definition hopByHop :: "header \<Rightarrow> headers \<Rightarrow> bool" where
  "hopByHop h all =
     (if h_name h \<in> set hop_by_hop_names then True
      else if list_ex (\<lambda>v. containsToken v (h_name h)) (headers_values all ''connection'') then True
      else h_name h = ''host'' \<or> h_name h = ''content-length'' \<or> h_name h = ''x-forwarded-for'' \<or>
           h_name h = ''x-forwarded-proto'' \<or> h_name h = ''x-request-id'')"

definition authority :: "UpstreamEndpoint \<Rightarrow> string" where
  "authority u = (case find_char (CHR '':'') (host u) of
     None \<Rightarrow> host u @ '':'' @ service u | Some _ \<Rightarrow> ''['' @ host u @ '']:'' @ service u)"

definition sanitizeUpstreamResponse :: "HttpResponse \<Rightarrow> HttpResponse" where
  "sanitizeUpstreamResponse r =
     HttpResponse_default\<lparr>rs_status_code := rs_status_code r, rs_reason := rs_reason r, rs_body := rs_body r,
       rs_close_connection := rs_close_connection r,
       rs_headers := fold (\<lambda>h acc. if hopByHop h (rs_headers r) then acc else headers_add acc (h_name h) (h_value h))
         (rs_headers r) []\<rparr>"

definition streaming_line :: "header \<Rightarrow> string" where
  "streaming_line h =
     (if h_name h = ''content-length'' \<or> h_name h = ''connection'' \<or> h_name h = ''transfer-encoding'' then []
      else h_name h @ '': '' @ h_value h @ CRLF)"

definition serializeStreamingHead :: "HttpResponse \<Rightarrow> string \<Rightarrow> string" where
  "serializeStreamingHead r rid =
     ''HTTP/1.1 '' @ int_to_string (rs_status_code r) @ '' '' @ rs_reason r @ CRLF @
     concat (map streaming_line (rs_headers r)) @
     ''X-Request-Id: '' @ rid @ CRLF @ ''Transfer-Encoding: chunked'' @ CRLF @
     ''Connection: keep-alive'' @ CRLF @ CRLF"

definition chunkFrame :: "string \<Rightarrow> string" where
  "chunkFrame bytes = to_hex (length bytes) @ CRLF @ bytes @ CRLF"

definition upstream_line :: "headers \<Rightarrow> header \<Rightarrow> string" where
  "upstream_line all h = (if hopByHop h all then [] else h_name h @ '': '' @ h_value h @ CRLF)"

definition serializeUpstreamRequest :: "HttpRequest \<Rightarrow> UpstreamEndpoint \<Rightarrow> RequestContext \<Rightarrow> string" where
  "serializeUpstreamRequest rq u ctx =
     methodName (rq_method rq) @ '' '' @ (if rq_target rq = [] then ''/'' else rq_target rq) @ '' HTTP/1.1'' @ CRLF @
     concat (map (upstream_line (rq_headers rq)) (rq_headers rq)) @
     ''Host: '' @ authority u @ CRLF @
     ''X-Forwarded-For: '' @ (if peer_unspecified ctx then ''unknown'' else peer_address ctx) @ CRLF @
     ''X-Forwarded-Proto: http'' @ CRLF @
     ''X-Request-Id: '' @ request_id ctx @ CRLF @
     ''Content-Length: '' @ to_string (length (rq_body rq)) @ CRLF @
     ''Connection: keep-alive'' @ CRLF @ CRLF @ rq_body rq"

fun error_parts :: "ProxyError \<Rightarrow> (int \<times> string \<times> string) option" where
  "error_parts PE_DnsFailure = Some (502, ''Bad Gateway'', ''bad gateway'' @ [LF])"
| "error_parts PE_ConnectFailure = Some (502, ''Bad Gateway'', ''bad gateway'' @ [LF])"
| "error_parts PE_UpstreamProtocol = Some (502, ''Bad Gateway'', ''bad gateway'' @ [LF])"
| "error_parts PE_UpstreamBodyTooLarge = Some (502, ''Bad Gateway'', ''bad gateway'' @ [LF])"
| "error_parts PE_ConnectTimeout = Some (504, ''Gateway Timeout'', ''gateway timeout'' @ [LF])"
| "error_parts PE_ResponseTimeout = Some (504, ''Gateway Timeout'', ''gateway timeout'' @ [LF])"
| "error_parts PE_Cancelled = Some (503, ''Service Unavailable'', ''upstream transaction cancelled'' @ [LF])"
| "error_parts PE_NoHealthyUpstream = Some (503, ''Service Unavailable'', ''no healthy upstream'' @ [LF])"
| "error_parts PE_CircuitOpen = Some (503, ''Service Unavailable'', ''upstream circuit is open'' @ [LF])"
| "error_parts PE_Overloaded = Some (503, ''Service Unavailable'', ''gateway is overloaded'' @ [LF])"
| "error_parts PE_UnsupportedRequest = Some (501, ''Not Implemented'', ''upstream upgrade is not supported'' @ [LF])"
| "error_parts PE_None = None"

definition makeProxyErrorResponse :: "ProxyError \<Rightarrow> HttpResponse" where
  "makeProxyErrorResponse e =
     (case error_parts e of
        None \<Rightarrow> HttpResponse_default
      | Some (status, reason, body) \<Rightarrow>
          HttpResponse_default\<lparr>rs_status_code := status, rs_reason := reason, rs_body := body,
            rs_headers := headers_add [] ''Content-Type'' ''text/plain''\<rparr>)"

section \<open>A transaction\<close>

record ProxySession =
  ps_upstream :: UpstreamEndpoint
  ps_limits :: ProxyLimits
  connection_open :: bool
  lease :: UpstreamLease
  input :: buffer
  parser :: HttpResponseParser
  px_state :: ProxyState
  stop_reason :: ProxyStopReason

definition ProxySession_make :: "UpstreamEndpoint \<Rightarrow> ProxyLimits \<Rightarrow> UpstreamLease \<Rightarrow> bool \<Rightarrow> ProxySession outcome" where
  "ProxySession_make u l ls transport_open =
     ebind (Buffer_make (read_chunk_bytes l) (max_buffer_bytes l)) (\<lambda>b.
     ebind (HttpResponseParser_make (response_parser_limits l) False) (\<lambda>q.
       if host u = [] \<or> service u = [] \<or> read_chunk_bytes l = 0 \<or> max_buffer_bytes l < read_chunk_bytes l \<or>
          dns_timeout l \<le> 0 \<or> connect_timeout l \<le> 0 \<or> response_timeout l \<le> 0 \<or> total_timeout l \<le> 0
       then Inl Invalid_Argument
       else Inr \<lparr>ps_upstream = u, ps_limits = l,
                 connection_open = (case ls of Some c \<Rightarrow> transport c \<and> transport_open | None \<Rightarrow> False),
                 lease = ls, input = b, parser = q, px_state = PX_Created, stop_reason = Stop_None\<rparr>))"

definition cancelInExecutor :: "ProxySession \<Rightarrow> ProxyStopReason \<Rightarrow> ProxySession" where
  "cancelInExecutor s reason =
     (if stop_reason s \<noteq> Stop_None then s
      else s\<lparr>stop_reason := reason, px_state := PX_Cancelled, connection_open := False\<rparr>)"

definition errorForStopReason :: "ProxySession \<Rightarrow> ProxyError" where
  "errorForStopReason s =
     (case stop_reason s of
        Stop_DnsTimeout \<Rightarrow> PE_ConnectTimeout
      | Stop_ConnectTimeout \<Rightarrow> PE_ConnectTimeout
      | Stop_ResponseTimeout \<Rightarrow> PE_ResponseTimeout
      | Stop_TotalTimeout \<Rightarrow> PE_ResponseTimeout
      | Stop_DownstreamClosed \<Rightarrow> PE_Cancelled
      | Stop_ServerShutdown \<Rightarrow> PE_Cancelled
      | _ \<Rightarrow> if px_state s = PX_Resolving then PE_DnsFailure else PE_ConnectFailure)"

text \<open>A completed asynchronous operation: whether it succeeded, and the stop request that came meanwhile.\<close>

type_synonym completion = "bool \<times> ProxyStopReason option"

definition interrupted :: "ProxySession \<Rightarrow> ProxyStopReason option \<Rightarrow> ProxySession" where
  "interrupted s stop = (case stop of None \<Rightarrow> s | Some reason \<Rightarrow> cancelInExecutor s reason)"

text \<open>\<open>resolve\<close>, \<open>connect\<close> and \<open>sendRequest\<close> share their shape: enter the phase, wait, and note an unexplained error.\<close>

definition phase :: "ProxySession \<Rightarrow> ProxyState \<Rightarrow> completion \<Rightarrow> bool \<times> ProxySession" where
  "phase s entered c =
     (let s1 = interrupted (s\<lparr>px_state := entered\<rparr>) (snd c)
      in if fst c then (True, s1)
         else (False, if stop_reason s1 = Stop_None then s1\<lparr>stop_reason := Stop_InternalError\<rparr> else s1))"

definition resolve :: "ProxySession \<Rightarrow> completion \<Rightarrow> bool \<times> ProxySession" where
  "resolve s c = phase s PX_Resolving c"

definition connect :: "ProxySession \<Rightarrow> completion \<Rightarrow> bool \<times> ProxySession" where
  "connect s c = (case phase s PX_Connecting c of (ok, s1) \<Rightarrow> (ok, if ok then s1\<lparr>connection_open := True\<rparr> else s1))"

definition sendRequest :: "ProxySession \<Rightarrow> completion \<Rightarrow> bool \<times> ProxySession" where
  "sendRequest s c = phase s PX_SendingRequest c"

text \<open>A read: the bytes it delivered (none on error or end of file) and the stop request that came meanwhile.\<close>

record read_event =
  re_bytes :: string
  re_error :: bool
  re_stop :: "ProxyStopReason option"

definition read_some :: "ProxySession \<Rightarrow> read_event \<Rightarrow> (bool \<times> ProxySession) outcome" where
  "read_some s ev =
     ebind (prepare (input s) (read_chunk_bytes (ps_limits s))) (\<lambda>(n, b).
       let s1 = interrupted (s\<lparr>input := b\<rparr>) (re_stop ev)
       in if re_error ev \<or> re_bytes ev = [] then Inr (False, s1)
          else ebind (commit (write_span b (re_bytes ev)) (length (re_bytes ev))) (\<lambda>b1. Inr (True, s1\<lparr>input := b1\<rparr>)))"

definition reading_state :: "ProxySession \<Rightarrow> ProxySession" where
  "reading_state s = s\<lparr>px_state := (if headerComplete (parser s) then PX_ReadingResponseBody else PX_ReadingResponseHeaders)\<rparr>"

definition parse_failure :: "ResponseParseResult \<Rightarrow> ProxyError" where
  "parse_failure r = (if r = RR_BodyTooLarge then PE_UpstreamBodyTooLarge else PE_UpstreamProtocol)"

subsection \<open>Reading a whole response\<close>

definition buffered_result :: "HttpResponseParser \<Rightarrow> bool \<Rightarrow> ProxyResult" where
  "buffered_result q reuse = \<lparr>pr_error = PE_None, pr_response = sanitizeUpstreamResponse (q_response q),
     pr_reusable = reuse, pr_upstream_status = rs_status_code (q_response q)\<rparr>"

text \<open>No result means that the coroutine is still waiting for the network.\<close>

fun read_loop :: "ProxySession \<Rightarrow> read_event list \<Rightarrow> (ProxyResult option \<times> ProxySession) outcome" where
  "read_loop s evs =
     ebind (response_parse (parser s) (input s)) (\<lambda>(parsed, q, b).
       let s1 = s\<lparr>parser := q, input := b\<rparr>
       in if parsed = RR_Complete then
            Inr (Some (buffered_result q (response_reusable q \<and> readableBytes b = 0)), s1\<lparr>px_state := PX_Complete\<rparr>)
          else if parsed \<noteq> RR_NeedMore then
            Inr (Some (failed_with (parse_failure parsed)), s1\<lparr>px_state := PX_Failed\<rparr>)
          else
            (case evs of
               [] \<Rightarrow> Inr (None, reading_state s1)
             | ev # rest \<Rightarrow>
                 ebind (read_some (reading_state s1) ev) (\<lambda>(got, s2).
                   if got then read_loop s2 rest
                   else if stop_reason s2 \<noteq> Stop_None then
                     (let s3 = s2\<lparr>px_state := PX_Cancelled\<rparr> in Inr (Some (failed_with (errorForStopReason s3)), s3))
                   else
                     (case finishOnEof (parser s2) of (q2, eof) \<Rightarrow>
                        if eof = RR_Complete
                        then Inr (Some (buffered_result q2 False), s2\<lparr>parser := q2, px_state := PX_Complete\<rparr>)
                        else Inr (Some (failed_with PE_UpstreamProtocol), s2\<lparr>parser := q2, px_state := PX_Failed\<rparr>)))))"

declare read_loop.simps [simp del]

definition readResponse :: "ProxySession \<Rightarrow> bool \<Rightarrow> read_event list \<Rightarrow> (ProxyResult option \<times> ProxySession) outcome" where
  "readResponse s head_request evs =
     read_loop (s\<lparr>parser := response_reset (parser s) head_request, px_state := PX_ReadingResponseHeaders\<rparr>) evs"

subsection \<open>Streaming a response\<close>

text \<open>
  \<open>out\<close> holds what was written downstream; \<open>wr\<close> gives the completion of the write that follows
  \<open>length out\<close> completed ones.
\<close>

definition write_downstream :: "(nat \<Rightarrow> completion) \<Rightarrow> ProxySession \<Rightarrow> string list \<Rightarrow> string \<Rightarrow>
    bool \<times> ProxySession \<times> string list" where
  "write_downstream wr s out bytes =
     (case wr (length out) of (ok, stop) \<Rightarrow> (ok, interrupted s stop, if ok then out @ [bytes] else out))"

definition streamed_result :: "ProxySession \<Rightarrow> ProxyResult" where
  "streamed_result s = \<lparr>pr_error = PE_None, pr_response = HttpResponse_default\<lparr>rs_already_written := True\<rparr>,
     pr_reusable = (response_reusable (parser s) \<and> readableBytes (input s) = 0),
     pr_upstream_status = rs_status_code (q_response (parser s))\<rparr>"

datatype round = Finished ProxyResult | Reading bool nat

text \<open>The head, once, as soon as it is complete.\<close>

definition forward_head :: "string \<Rightarrow> (nat \<Rightarrow> completion) \<Rightarrow> ProxySession \<Rightarrow> bool \<Rightarrow> string list \<Rightarrow>
    bool \<times> bool \<times> ProxySession \<times> string list" where
  "forward_head rid wr s started out =
     (if headerComplete (parser s) \<and> \<not> started then
        (case write_downstream wr s out (serializeStreamingHead (sanitizeUpstreamResponse (q_response (parser s))) rid) of
           (ok, s1, out1) \<Rightarrow> if ok then (True, True, s1, out1) else (False, started, cancelInExecutor s1 Stop_DownstreamClosed, out1))
      else (True, started, s, out))"

text \<open>The body bytes that are new, as one chunk.\<close>

definition forward_body :: "(nat \<Rightarrow> completion) \<Rightarrow> ProxySession \<Rightarrow> nat \<Rightarrow> string list \<Rightarrow>
    bool \<times> nat \<times> ProxySession \<times> string list" where
  "forward_body wr s forwarded out =
     (let body = rs_body (q_response (parser s))
      in if forwarded < length body then
           (case write_downstream wr s out (chunkFrame (drop forwarded body)) of
              (ok, s1, out1) \<Rightarrow> if ok then (True, length body, s1, out1) else (False, forwarded, cancelInExecutor s1 Stop_DownstreamClosed, out1))
         else (True, forwarded, s, out))"

definition forward_verdict :: "(nat \<Rightarrow> completion) \<Rightarrow> ProxySession \<Rightarrow> ResponseParseResult \<Rightarrow> bool \<Rightarrow> nat \<Rightarrow> string list \<Rightarrow>
    round \<times> ProxySession \<times> string list" where
  "forward_verdict wr s parsed started forwarded out =
     (if parsed = RR_Complete then
        (case write_downstream wr s out (''0'' @ CRLF @ CRLF) of
           (ok, s1, out1) \<Rightarrow>
             let s2 = (if ok then s1 else cancelInExecutor s1 Stop_DownstreamClosed)\<lparr>px_state := PX_Complete\<rparr>
             in (Finished (streamed_result s2), s2, out1))
      else if parsed \<noteq> RR_NeedMore then
        (Finished (if started then streamedCloseResult else failed_with (parse_failure parsed)), s\<lparr>px_state := PX_Failed\<rparr>, out)
      else (Reading started forwarded, reading_state s, out))"

definition forward_round :: "string \<Rightarrow> (nat \<Rightarrow> completion) \<Rightarrow> ProxySession \<Rightarrow> bool \<Rightarrow> nat \<Rightarrow> string list \<Rightarrow>
    (round \<times> ProxySession \<times> string list) outcome" where
  "forward_round rid wr s started forwarded out =
     ebind (response_parse (parser s) (input s)) (\<lambda>(parsed, q, b).
       case forward_head rid wr (s\<lparr>parser := q, input := b\<rparr>) started out of
         (ok1, started1, s1, out1) \<Rightarrow>
           if \<not> ok1 then Inr (Finished streamedCloseResult, s1, out1)
           else (case forward_body wr s1 forwarded out1 of
                   (ok2, forwarded1, s2, out2) \<Rightarrow>
                     if \<not> ok2 then Inr (Finished streamedCloseResult, s2, out2)
                     else Inr (forward_verdict wr s2 parsed started1 forwarded1 out2)))"

fun forward_loop :: "string \<Rightarrow> (nat \<Rightarrow> completion) \<Rightarrow> ProxySession \<Rightarrow> bool \<Rightarrow> nat \<Rightarrow> string list \<Rightarrow> read_event list \<Rightarrow>
    (ProxyResult option \<times> ProxySession \<times> string list) outcome" where
  "forward_loop rid wr s started forwarded out evs =
     ebind (forward_round rid wr s started forwarded out) (\<lambda>(rnd, s1, out1).
       case rnd of
         Finished res \<Rightarrow> Inr (Some res, s1, out1)
       | Reading started1 forwarded1 \<Rightarrow>
           (case evs of
              [] \<Rightarrow> Inr (None, s1, out1)
            | ev # rest \<Rightarrow>
                ebind (read_some s1 ev) (\<lambda>(got, s2).
                  if got then forward_loop rid wr s2 started1 forwarded1 out1 rest
                  else if stop_reason s2 \<noteq> Stop_None then
                    (let s3 = s2\<lparr>px_state := PX_Cancelled\<rparr>
                     in Inr (Some (if started1 then streamedCloseResult else failed_with (errorForStopReason s3)), s3, out1))
                  else
                    (case finishOnEof (parser s2) of (q2, eof) \<Rightarrow>
                       if eof = RR_Complete then forward_loop rid wr (s2\<lparr>parser := q2\<rparr>) started1 forwarded1 out1 rest
                       else Inr (Some (if started1 then streamedCloseResult else failed_with PE_UpstreamProtocol),
                                 s2\<lparr>parser := q2, px_state := PX_Failed\<rparr>, out1)))))"

declare forward_loop.simps [simp del]

definition forwardResponse :: "string \<Rightarrow> (nat \<Rightarrow> completion) \<Rightarrow> ProxySession \<Rightarrow> read_event list \<Rightarrow>
    (ProxyResult option \<times> ProxySession \<times> string list) outcome" where
  "forwardResponse rid wr s evs =
     forward_loop rid wr (s\<lparr>parser := response_reset (parser s) False, px_state := PX_ReadingResponseHeaders\<rparr>) False 0 [] evs"

subsection \<open>The transaction\<close>

definition wants_upgrade :: "HttpRequest \<Rightarrow> bool" where
  "wants_upgrade rq = (headers_contains (rq_headers rq) ''upgrade'' \<or>
     (case headers_get (rq_headers rq) ''connection'' of None \<Rightarrow> False | Some v \<Rightarrow> containsToken v ''upgrade''))"

record net_events =
  ev_resolve :: completion
  ev_connect :: completion
  ev_send :: completion
  ev_reads :: "read_event list"
  ev_writes :: "nat \<Rightarrow> completion"

text \<open>Opening the connection when needed and sending the request; the bytes sent upstream are returned.\<close>

definition reach_upstream :: "ProxySession \<Rightarrow> RequestContext \<Rightarrow> HttpRequest \<Rightarrow> net_events \<Rightarrow> ProxyError \<times> ProxySession \<times> string" where
  "reach_upstream s ctx rq ev =
     (case (if connection_open s then (True, s)
            else (case resolve s (ev_resolve ev) of (ok, s1) \<Rightarrow> if ok then connect s1 (ev_connect ev) else (False, s1))) of
        (False, s1) \<Rightarrow> (errorForStopReason s1, s1, [])
      | (True, s1) \<Rightarrow>
          (case sendRequest s1 (ev_send ev) of
             (False, s2) \<Rightarrow> (errorForStopReason s2, s2, [])
           | (True, s2) \<Rightarrow> (PE_None, s2, serializeUpstreamRequest rq (ps_upstream s) ctx)))"

definition execute :: "ProxySession \<Rightarrow> RequestContext \<Rightarrow> HttpRequest \<Rightarrow> net_events \<Rightarrow>
    (ProxyResult option \<times> ProxySession \<times> string) outcome" where
  "execute s ctx rq ev =
     (if wants_upgrade rq then Inr (Some (failed_with PE_UnsupportedRequest), s, [])
      else
        (case reach_upstream s ctx rq ev of
           (e, s1, sent) \<Rightarrow>
             if e \<noteq> PE_None then Inr (Some (failed_with e), s1, sent)
             else ebind (readResponse s1 (rq_method rq = Head) (ev_reads ev)) (\<lambda>(res, s2). Inr (res, s2, sent))))"

definition forward :: "ProxySession \<Rightarrow> RequestContext \<Rightarrow> bool \<Rightarrow> HttpRequest \<Rightarrow> net_events \<Rightarrow>
    (ProxyResult option \<times> ProxySession \<times> string \<times> string list) outcome" where
  "forward s ctx has_writer rq ev =
     (if wants_upgrade rq then Inr (Some (failed_with PE_UnsupportedRequest), s, [], [])
      else if \<not> has_writer then Inr (Some (failed_with PE_ConnectFailure), s, [], [])
      else
        (case reach_upstream s ctx rq ev of
           (e, s1, sent) \<Rightarrow>
             if e \<noteq> PE_None then Inr (Some (failed_with e), s1, sent, [])
             else ebind (forwardResponse (request_id ctx) (ev_writes ev) s1 (ev_reads ev)) (\<lambda>(res, s2, out).
                    Inr (res, s2, sent, out))))"

definition takeLease :: "ProxySession \<Rightarrow> UpstreamLease \<times> ProxySession" where
  "takeLease s = (lease s, s\<lparr>lease := None\<rparr>)"

section \<open>The handler\<close>

record ReverseProxy =
  upstreams :: "UpstreamEndpoint list"
  rp_limits :: ProxyLimits
  health :: HealthStateStore
  circuits :: "CircuitBreaker list"
  pools :: "UpstreamPool option list"
  next_upstream :: nat
  in_flight :: nat
  rp_metrics :: "MetricsRegistry option"

definition endpoint_id :: "UpstreamEndpoint \<Rightarrow> string" where
  "endpoint_id u = host u @ '':'' @ service u"

text \<open>The loop of the constructor over the endpoints.\<close>

fun add_endpoints :: "UpstreamEndpoint list \<Rightarrow> CircuitBreakerLimits \<Rightarrow> int \<Rightarrow> HealthStateStore \<Rightarrow> CircuitBreaker list \<Rightarrow>
    (HealthStateStore \<times> CircuitBreaker list) outcome" where
  "add_endpoints [] l now h cs = Inr (h, cs)"
| "add_endpoints (u # us) l now h cs =
     ebind (addEndpoint h (endpoint_id u) True now) (\<lambda>h1.
     ebind (CircuitBreaker_make l) (\<lambda>c. add_endpoints us l now h1 (cs @ [c])))"

definition ReverseProxy_make :: "UpstreamEndpoint list \<Rightarrow> ProxyLimits \<Rightarrow> int \<Rightarrow> ReverseProxy outcome" where
  "ReverseProxy_make us l now =
     (if us = [] then Inl Invalid_Argument
      else if list_ex (\<lambda>u. host u = [] \<or> service u = []) us then Inl Invalid_Argument
      else ebind (HealthStateStore_make (health_thresholds l)) (\<lambda>h0.
           ebind (add_endpoints us (circuit_breaker_limits l) now h0 []) (\<lambda>(h, cs).
             if max_in_flight_requests l = 0 \<or> overload_retry_after l \<le> 0 then Inl Invalid_Argument
             else Inr \<lparr>upstreams = us, rp_limits = l, health = h, circuits = cs, pools = [],
                       next_upstream = 0, in_flight = 0, rp_metrics = None\<rparr>)))"

text \<open>The compare-and-swap loop on the counter, and the destructor of its guard.\<close>

definition proxy_admit :: "ReverseProxy \<Rightarrow> bool \<times> ReverseProxy" where
  "proxy_admit st =
     (if in_flight st < max_in_flight_requests (rp_limits st) then (True, st\<lparr>in_flight := in_flight st + 1\<rparr>)
      else (False, st))"

definition proxy_release :: "ReverseProxy \<Rightarrow> ReverseProxy" where
  "proxy_release st = st\<lparr>in_flight := in_flight st - 1\<rparr>"

text \<open>The round-robin search; \<open>clk\<close> is indexed by the attempts left.\<close>

fun select_loop :: "nat \<Rightarrow> (nat \<Rightarrow> int) \<Rightarrow> ReverseProxy \<Rightarrow> bool \<Rightarrow> int \<Rightarrow> nat option \<times> bool \<times> int \<times> ReverseProxy" where
  "select_loop 0 clk st rejected earliest = (None, rejected, earliest, st)"
| "select_loop (Suc n) clk st rejected earliest =
     (let candidate = next_upstream st mod length (upstreams st);
          st1 = st\<lparr>next_upstream := u64_inc (next_upstream st)\<rparr>;
          (ok, c) = (if isHealthy (health st) (endpoint_id (upstreams st ! candidate))
                     then allowRequest (circuits st ! candidate) (clk n) else (False, circuits st ! candidate));
          st2 = st1\<lparr>circuits := (circuits st1)[candidate := c]\<rparr>;
          snapshot = breaker_snapshot c
      in if ok then (Some candidate, rejected, earliest, st2)
         else if cs_state snapshot \<noteq> CS_Closed
         then select_loop n clk st2 True (if earliest = 0 \<or> cs_retry_at snapshot < earliest then cs_retry_at snapshot else earliest)
         else select_loop n clk st2 rejected earliest)"

definition overloaded_response :: "ReverseProxy \<Rightarrow> HttpResponse" where
  "overloaded_response st =
     added_header (makeProxyErrorResponse PE_Overloaded) ''Retry-After'' (int_to_string (overload_retry_after (rp_limits st)))"

definition circuit_response :: "int \<Rightarrow> int \<Rightarrow> HttpResponse" where
  "circuit_response earliest now =
     (let wait = (if now < earliest then earliest - now else 0);
          seconds = max 1 ((wait + 999000000) sdiv 1000000000)
      in added_header (makeProxyErrorResponse PE_CircuitOpen) ''Retry-After'' (int_to_string seconds))"

definition note_upstream :: "(real \<Rightarrow> real) \<Rightarrow> ReverseProxy \<Rightarrow> string \<Rightarrow> string \<Rightarrow> int \<Rightarrow> ReverseProxy" where
  "note_upstream rnd st u result duration =
     st\<lparr>rp_metrics := map_option (\<lambda>m. recordUpstream rnd m u result duration) (rp_metrics st)\<rparr>"

datatype start = Refused HttpResponse | Started nat

text \<open>From the call to the choice of an upstream.\<close>

definition proxy_begin :: "(real \<Rightarrow> real) \<Rightarrow> (nat \<Rightarrow> int) \<Rightarrow> int \<Rightarrow> ReverseProxy \<Rightarrow> start \<times> ReverseProxy" where
  "proxy_begin rnd clk now st =
     (case proxy_admit st of
        (False, st1) \<Rightarrow> (Refused (overloaded_response st1), st1)
      | (True, st1) \<Rightarrow>
          (case select_loop (length (upstreams st1)) clk st1 False 0 of
             (Some i, _, _, st2) \<Rightarrow> (Started i, st2)
           | (None, True, earliest, st2) \<Rightarrow>
               (Refused (circuit_response earliest now),
                proxy_release (note_upstream rnd st2 ''unavailable'' ''circuit_open'' 0))
           | (None, False, _, st2) \<Rightarrow> (Refused (makeProxyErrorResponse PE_NoHealthyUpstream), proxy_release st2)))"

definition poolFor :: "ReverseProxy \<Rightarrow> nat \<Rightarrow> (UpstreamPool \<times> ReverseProxy) outcome" where
  "poolFor st i =
     (let ps = (if pools st = [] then replicate (length (upstreams st)) None else pools st)
      in case ps ! i of
           Some pool \<Rightarrow> Inr (pool, st\<lparr>pools := ps\<rparr>)
         | None \<Rightarrow> ebind (UpstreamPool_make (pool_limits (rp_limits st)) True) (\<lambda>pool.
             Inr (pool, st\<lparr>pools := ps[i := Some pool]\<rparr>)))"

definition update_circuit :: "ReverseProxy \<Rightarrow> nat \<Rightarrow> (CircuitBreaker \<Rightarrow> CircuitBreaker) \<Rightarrow> ReverseProxy" where
  "update_circuit st i f = st\<lparr>circuits := (circuits st)[i := f (circuits st ! i)]\<rparr>"

text \<open>No lease: the breaker hears neither success nor failure.\<close>

definition acquire_failed :: "(real \<Rightarrow> real) \<Rightarrow> ReverseProxy \<Rightarrow> nat \<Rightarrow> HttpResponse \<times> ReverseProxy" where
  "acquire_failed rnd st i =
     (overloaded_response st,
      proxy_release (note_upstream rnd (update_circuit st i recordNeutral) (endpoint_id (upstreams st ! i)) ''overloaded'' 0))"

definition return_lease :: "UpstreamPool \<Rightarrow> UpstreamLease \<Rightarrow> ProxyResult \<Rightarrow> (nat \<Rightarrow> int) \<Rightarrow> (nat \<Rightarrow> int) \<Rightarrow> UpstreamPool \<times> pool_answers" where
  "return_lease pool ls res clk clk' =
     (case ls of
        None \<Rightarrow> (pool, [])
      | Some c \<Rightarrow> if pr_error res = PE_None \<and> pr_reusable res then pool_releaseReusable pool ls clk clk'
                  else pool_discard pool ls)"

definition upstream_failure :: "ProxyLimits \<Rightarrow> ProxyResult \<Rightarrow> bool" where
  "upstream_failure l res =
     (pr_error res \<noteq> PE_None \<or> (count_5xx_as_health_failure l \<and> 500 \<le> pr_upstream_status res))"

definition record_result :: "ReverseProxy \<Rightarrow> nat \<Rightarrow> ProxyResult \<Rightarrow> int \<Rightarrow> int \<Rightarrow> ReverseProxy" where
  "record_result st i res now_health now_circuit =
     (let eid = endpoint_id (upstreams st ! i)
      in if \<not> upstream_failure (rp_limits st) res then
           update_circuit (st\<lparr>health := health_recordSuccess (health st) eid now_health\<rparr>) i recordSuccess
         else if pr_error res \<noteq> PE_Cancelled \<and> pr_error res \<noteq> PE_UnsupportedRequest then
           update_circuit (st\<lparr>health := health_recordFailure (health st) eid now_health\<rparr>) i (\<lambda>c. recordFailure c now_circuit)
         else update_circuit st i recordNeutral)"

fun circuit_name :: "CircuitState \<Rightarrow> string" where
  "circuit_name CS_Closed = ''closed''" | "circuit_name CS_Open = ''open''" | "circuit_name CS_HalfOpen = ''half_open''"

definition note_circuit :: "ReverseProxy \<Rightarrow> nat \<Rightarrow> ReverseProxy" where
  "note_circuit st i =
     st\<lparr>rp_metrics := map_option (\<lambda>m. setCircuitState m (endpoint_id (upstreams st ! i))
          (circuit_name (cs_state (breaker_snapshot (circuits st ! i))))) (rp_metrics st)\<rparr>"

text \<open>The end of the call: outcome, metrics, the guard, and the response.\<close>

definition proxy_finish :: "(real \<Rightarrow> real) \<Rightarrow> ReverseProxy \<Rightarrow> nat \<Rightarrow> ProxyResult \<Rightarrow> int \<Rightarrow> int \<Rightarrow> int \<Rightarrow> HttpResponse \<times> ReverseProxy" where
  "proxy_finish rnd st i res now_health now_circuit duration =
     (let st1 = record_result st i res now_health now_circuit;
          st2 = note_upstream rnd st1 (endpoint_id (upstreams st ! i)) (if pr_error res = PE_None then ''success'' else ''failure'') duration;
          st3 = note_circuit st2 i
      in (if pr_error res = PE_None then pr_response res else makeProxyErrorResponse (pr_error res), proxy_release st3))"

text \<open>
  The transaction between the two: a session on the lease, buffered for HEAD requests and cacheable misses,
  streaming otherwise. An exception leaves through the guard and records nothing.
\<close>

definition run_session :: "ReverseProxy \<Rightarrow> nat \<Rightarrow> RequestContext \<Rightarrow> bool \<Rightarrow> HttpRequest \<Rightarrow> UpstreamLease \<Rightarrow> bool \<Rightarrow> net_events \<Rightarrow>
    (ProxyResult option \<times> ProxySession \<times> string list) outcome" where
  "run_session st i ctx has_writer rq ls transport_open ev =
     ebind (ProxySession_make (upstreams st ! i) (rp_limits st) ls transport_open) (\<lambda>s.
       if rq_method rq = Head \<or> buffer_response_for_cache ctx
       then ebind (execute s ctx rq ev) (\<lambda>(res, s1, sent). Inr (res, s1, []))
       else ebind (forward s ctx has_writer rq ev) (\<lambda>(res, s1, sent, out). Inr (res, s1, out)))"

definition proxy_after_acquire :: "(real \<Rightarrow> real) \<Rightarrow> ReverseProxy \<Rightarrow> nat \<Rightarrow> RequestContext \<Rightarrow> bool \<Rightarrow> HttpRequest \<Rightarrow> UpstreamLease \<Rightarrow> bool \<Rightarrow>
    net_events \<Rightarrow> int \<Rightarrow> int \<Rightarrow> int \<Rightarrow> (HttpResponse option \<times> string list) outcome \<times> ReverseProxy" where
  "proxy_after_acquire rnd st i ctx has_writer rq ls transport_open ev now_health now_circuit duration =
     (case ls of
        None \<Rightarrow> (case acquire_failed rnd st i of (resp, st1) \<Rightarrow> (Inr (Some resp, []), st1))
      | Some c \<Rightarrow>
          (case run_session st i ctx has_writer rq ls transport_open ev of
             Inl e \<Rightarrow> (Inl e, proxy_release st)
           | Inr (None, s, out) \<Rightarrow> (Inr (None, out), st)
           | Inr (Some res, s, out) \<Rightarrow>
               (case proxy_finish rnd st i res now_health now_circuit duration of (resp, st1) \<Rightarrow> (Inr (Some resp, out), st1))))"

definition proxy_stop :: "ReverseProxy \<Rightarrow> ReverseProxy" where
  "proxy_stop st = st\<lparr>pools := map (map_option (\<lambda>pool. fst (pool_stop pool))) (pools st)\<rparr>"

end
