(* ===== verification/ProxyProperties.thy ===== *)
theory ProxyProperties
  imports ReverseProxy ParserProperties ResponseProperties
begin

text \<open>
  What the reverse proxy promises: the bytes streamed downstream are one well-framed message that carries
  exactly the upstream body, the request sent upstream is read by a server as exactly one request
  without hop-by-hop fields, and the handler bounds its requests in flight and finds an available upstream.
\<close>

section \<open>The response only grows\<close>

definition extended :: "HttpResponse \<Rightarrow> HttpResponse \<Rightarrow> bool" where
  "extended r r' \<longleftrightarrow> (\<exists>x. r' = r\<lparr>rs_body := rs_body r @ x\<rparr>)"

lemma extended_refl [simp]: "extended r r"
  by (auto simp: extended_def intro: exI [of _ "[]"])

lemma extended_append [simp]: "extended r (r\<lparr>rs_body := rs_body r @ x\<rparr>)"
  by (auto simp: extended_def)

lemma extended_trans: "extended a b \<Longrightarrow> extended b c \<Longrightarrow> extended a c"
  by (auto simp: extended_def)

definition settled :: "HttpResponseParser \<Rightarrow> ResponseParseResult \<Rightarrow> bool" where
  "settled q r \<longleftrightarrow> (if r = RR_Complete then q_state q = RS_Complete
     else if r = RR_NeedMore then response_active q else q_state q = RS_Error)"

lemma appendBody_extended:
  "rp_appendBody q bs = (q', r) \<Longrightarrow> extended (q_response q) (q_response q') \<and> q_state q' = q_state q \<and>
     (r = RR_Complete \<or> r = RR_BodyTooLarge)"
  by (auto simp: rp_appendBody_def split: if_splits)

lemma line_step_grows:
  assumes "response_line_step q l = (q', res)" "q_state q = RS_ChunkSize \<or> q_state q = RS_Trailers"
  shows "q_response q' = q_response q \<and> (headerComplete q' \<or> q_state q' = RS_Error)"
  using assms
  by (auto simp: response_line_step_def chunk_size_step_def header_line_step_def headerComplete_def Let_def
      split: if_splits option.splits)

lemma rstep_grows:
  assumes "rstep q s = Inr (res, q', n)" "headerComplete q" "response_active q"
  shows "extended (q_response q) (q_response q') \<and> (headerComplete q' \<or> q_state q' = RS_Error)"
proof -
  consider (fixed) "q_state q = RS_FixedBody" | (chunk) "q_state q = RS_ChunkBody" | (eof) "q_state q = RS_EofBody"
    | (line) "q_state q = RS_ChunkSize \<or> q_state q = RS_Trailers"
    using assms(2,3) by (cases "q_state q") (auto simp: headerComplete_def response_active_def)
  then show ?thesis
  proof cases
    case line
    then have "q_state q \<notin> {RS_FixedBody, RS_ChunkBody, RS_EofBody}" by auto
    from assms(1) [unfolded rstep_line [OF this]] line_step_grows [OF _ line] line assms(2) show ?thesis
      by (fastforce split: option.splits if_splits)
  qed (use assms in \<open>auto simp: rstep_def fixed_body_end_def Let_def ebind_eq_Inr_iff headerComplete_def
      dest!: appendBody_extended split: if_splits prod.splits\<close>)
qed

lemma finishHeaders_verdict:
  assumes "rp_finishHeaders q = (q', r)" "q_state q = RS_Headers"
  shows "r \<noteq> RR_NeedMore \<and> (r = RR_Complete \<longrightarrow> q_state q' \<noteq> RS_Headers \<and> q_state q' \<noteq> RS_Error)"
  using assms by (auto simp: rp_finishHeaders_def Let_def split: if_splits option.splits)

lemma line_step_settled:
  assumes "response_line_step q l = (q', Some r)"
  shows "if r = RR_Complete then q_state q' = RS_Complete else r \<noteq> RR_NeedMore \<longrightarrow> q_state q' = RS_Error"
  using assms
  by (auto simp: response_line_step_def status_line_step_def chunk_size_step_def header_line_step_def Let_def
      split: if_splits option.splits prod.splits)

lemma rstep_settled:
  assumes "rstep q s = Inr (Some r, q', n)" "response_inv q" "response_active q"
  shows "settled q' r"
proof (cases "q_state q \<in> {RS_FixedBody, RS_ChunkBody, RS_EofBody}")
  case True
  with assms(1,3) show ?thesis
    by (auto simp: rstep_def settled_def fixed_body_end_def Let_def ebind_eq_Inr_iff response_active_def
        dest: appendBody_extended split: if_splits prod.splits)
next
  case False
  show ?thesis
  proof (cases "find_crlf s")
    case None
    with assms show ?thesis by (auto simp: rstep_line [OF False] settled_def split: if_splits)
  next
    case (Some k)
    with assms(1) have "response_line_step q (take k s) = (q', Some r)" by (simp add: rstep_line [OF False])
    with line_step_settled [OF this] response_line_step_inv [OF this assms(2,3) False] show ?thesis
      by (auto simp: settled_def)
  qed
qed

lemma rparse_settled:
  "rparse q s = Inr (r, q', s') \<Longrightarrow> response_inv q \<Longrightarrow> response_active q \<Longrightarrow> settled q' r"
proof (induction q s rule: rparse.induct)
  case (1 q s)
  from "1.prems"(1) show ?case
  proof (cases rule: rparse_cases)
    case (stop n)
    with "1.prems" rstep_settled show ?thesis by blast
  next
    case (again q1 n)
    with "1.IH" [OF again(1) refl refl refl] "1.prems" rstep_inv [OF again(1)] rstep_active [OF again(1)]
    show ?thesis by simp
  qed
qed

lemma rparse_grows:
  "rparse q s = Inr (r, q', s') \<Longrightarrow> headerComplete q \<Longrightarrow> response_active q \<Longrightarrow>
     extended (q_response q) (q_response q') \<and> (headerComplete q' \<or> q_state q' = RS_Error)"
proof (induction q s rule: rparse.induct)
  case (1 q s)
  from "1.prems"(1) show ?case
  proof (cases rule: rparse_cases)
    case (stop n)
    with "1.prems" rstep_grows show ?thesis by blast
  next
    case (again q1 n)
    from rstep_grows [OF again(1) "1.prems"(2,3)] rstep_active [OF again(1) "1.prems"(3)]
    have "extended (q_response q) (q_response q1)" "headerComplete q1" "response_active q1"
      by (auto simp: response_active_def)
    with "1.IH" [OF again(1) refl refl refl again(2)] show ?thesis using extended_trans by blast
  qed
qed

section \<open>One parse of the transaction\<close>

text \<open>What holds of the session whenever the loop comes round to parsing.\<close>

definition session_inv :: "ProxySession \<Rightarrow> bool" where
  "session_inv s \<longleftrightarrow> response_inv (parser s) \<and>
     (q_state (parser s) = RS_Complete \<or> response_active (parser s) \<and> buffer_ready (input s))"

lemma parse_effect:
  assumes "session_inv s" "response_parse (parser s) (input s) = Inr (r, q, b)"
  shows "response_inv q \<and> settled q r \<and> (r = RR_NeedMore \<longrightarrow> buffer_ready b) \<and> q_limits q = q_limits (parser s) \<and>
     (headerComplete (parser s) \<longrightarrow> extended (q_response (parser s)) (q_response q) \<and> (headerComplete q \<or> q_state q = RS_Error))"
proof (cases "q_state (parser s) = RS_Complete")
  case True
  with assms show ?thesis by (auto simp: response_parse_def session_inv_def settled_def)
next
  case False
  with assms(1) have act: "response_active (parser s)" "buffer_ready (input s)" "response_inv (parser s)"
    by (simp_all add: session_inv_def)
  then have loop: "response_loop (parser s) (input s) = Inr (r, q, b)"
    using assms(2) by (auto simp: response_parse_def response_active_def)
  then obtain s' where "rparse (parser s) (readableView (input s)) = Inr (r, q, s')" "buffer_ready b"
    using response_loop_refines [OF act(2), of "parser s"] by (auto split: sum.splits)
  with rparse_inv rparse_settled rparse_grows act show ?thesis by blast
qed

lemma interrupted_simps [simp]:
  "parser (interrupted s x) = parser s" "input (interrupted s x) = input s" "ps_limits (interrupted s x) = ps_limits s"
  by (simp_all add: interrupted_def cancelInExecutor_def split: option.splits)

lemma cancel_simps [simp]:
  "parser (cancelInExecutor s x) = parser s" "input (cancelInExecutor s x) = input s"
  by (simp_all add: cancelInExecutor_def)

lemma reading_state_simps [simp]:
  "parser (reading_state s) = parser s" "input (reading_state s) = input s" "ps_limits (reading_state s) = ps_limits s"
  by (simp_all add: reading_state_def)

lemma read_some_effect:
  assumes "read_some s ev = Inr (got, s')" "buffer_ready (input s)"
  shows "parser s' = parser s \<and> (got \<longrightarrow> buffer_ready (input s'))"
proof -
  from assms(1) obtain n b where p: "prepare (input s) (read_chunk_bytes (ps_limits s)) = Inr (n, b)"
    by (auto simp: read_some_def ebind_eq_Inr_iff)
  show ?thesis
  proof (cases "re_error ev \<or> re_bytes ev = []")
    case True
    with assms(1) p show ?thesis by (auto simp: read_some_def Let_def)
  next
    case False
    with assms(1) p obtain b1 where c: "commit (write_span b (re_bytes ev)) (length (re_bytes ev)) = Inr b1"
        "got" "s' = (interrupted (s\<lparr>input := b\<rparr>) (re_stop ev))\<lparr>input := b1\<rparr>"
      by (auto simp: read_some_def Let_def ebind_eq_Inr_iff)
    have b: "buffer_inv b" "prepared_bytes b = n" using prepare_ok [OF assms(2) p] by simp_all
    have "length (re_bytes ev) \<le> prepared_bytes b" using c(1) by (auto simp: commit_def write_span_def split: if_splits)
    from write_commit_ok [OF b(1) this] c show ?thesis by auto
  qed
qed

section \<open>The streamed message\<close>

definition stream_head :: "string \<Rightarrow> ProxySession \<Rightarrow> string" where
  "stream_head rid s = serializeStreamingHead (sanitizeUpstreamResponse (q_response (parser s))) rid"

definition body_of :: "ProxySession \<Rightarrow> string" where
  "body_of s = rs_body (q_response (parser s))"

definition stream_inv :: "string \<Rightarrow> ProxySession \<Rightarrow> bool \<Rightarrow> nat \<Rightarrow> string list \<Rightarrow> bool" where
  "stream_inv rid s started forwarded out \<longleftrightarrow> session_inv s \<and>
     (if started
      then headerComplete (parser s) \<and> forwarded = length (body_of s) \<and>
        (\<exists>cs. [] \<notin> set cs \<and> concat cs = body_of s \<and> out = stream_head rid s # map chunkFrame cs)
      else \<not> headerComplete (parser s) \<and> forwarded = 0 \<and> out = [])"

text \<open>
  How a transaction can end: with the whole message written, cut off with the connection to be closed, or
  with an error before the head was written.
\<close>

definition stream_complete :: "string \<Rightarrow> (nat \<Rightarrow> completion) \<Rightarrow> ProxyResult \<Rightarrow> ProxySession \<Rightarrow> string list \<Rightarrow> bool" where
  "stream_complete rid wr res s out \<longleftrightarrow> q_state (parser s) = RS_Complete \<and> pr_error res = PE_None \<and>
     pr_response res = HttpResponse_default\<lparr>rs_already_written := True\<rparr> \<and>
     pr_upstream_status res = rs_status_code (q_response (parser s)) \<and>
     (\<exists>cs. [] \<notin> set cs \<and> concat cs = body_of s \<and>
        out = stream_head rid s # map chunkFrame cs @ (if fst (wr (Suc (length cs))) then [last_chunk] else []))"

definition stream_cut :: "string \<Rightarrow> ProxyResult \<Rightarrow> ProxySession \<Rightarrow> string list \<Rightarrow> bool" where
  "stream_cut rid res s out \<longleftrightarrow> res = streamedCloseResult \<and>
     (out = [] \<or> (\<exists>cs rest. concat cs @ rest = body_of s \<and> out = stream_head rid s # map chunkFrame cs))"

definition stream_failed :: "ProxyResult \<Rightarrow> ProxySession \<Rightarrow> string list \<Rightarrow> bool" where
  "stream_failed res s out \<longleftrightarrow> pr_error res \<noteq> PE_None \<and> \<not> rs_already_written (pr_response res) \<and>
     (out = [] \<or> q_state (parser s) = RS_Error \<and> body_of s \<noteq> [] \<and> out = [chunkFrame (body_of s)])"

definition stream_done :: "string \<Rightarrow> (nat \<Rightarrow> completion) \<Rightarrow> ProxyResult \<Rightarrow> ProxySession \<Rightarrow> string list \<Rightarrow> bool" where
  "stream_done rid wr res s out \<longleftrightarrow> stream_complete rid wr res s out \<or> stream_cut rid res s out \<or> stream_failed res s out"

lemma stream_head_extended:
  "extended (q_response (parser s)) (q_response (parser s')) \<Longrightarrow> stream_head rid s' = stream_head rid s"
  by (auto simp: extended_def stream_head_def sanitizeUpstreamResponse_def serializeStreamingHead_def)

lemma errors_are_errors [simp]:
  "pr_error (failed_with e) = e" "\<not> rs_already_written (pr_response (failed_with e))"
  "parse_failure r \<noteq> PE_None" "errorForStopReason s \<noteq> PE_None"
  by (simp_all add: failed_with_def parse_failure_def errorForStopReason_def HttpResponse_default_def split: ProxyStopReason.splits)

lemma write_downstream_simps:
  assumes "write_downstream wr s out bytes = (ok, s1, out1)"
  shows "parser s1 = parser s" "input s1 = input s" "ok = fst (wr (length out))" "out1 = (if ok then out @ [bytes] else out)"
  using assms by (auto simp: write_downstream_def split: prod.splits)

text \<open>After a parse: the head is out as soon as it is complete, and then all of the body.\<close>

definition after_parse :: "string \<Rightarrow> ProxySession \<Rightarrow> bool \<Rightarrow> nat \<Rightarrow> string list \<Rightarrow> bool" where
  "after_parse rid s started forwarded out \<longleftrightarrow>
     (if started then \<exists>cs rest. [] \<notin> set cs \<and> concat cs @ rest = body_of s \<and> forwarded = length (concat cs) \<and>
        out = stream_head rid s # map chunkFrame cs
      else forwarded = 0 \<and> out = [])"

lemma same_parser:
  assumes "parser s' = parser s"
  shows "stream_head rid s' = stream_head rid s" "body_of s' = body_of s"
    "after_parse rid s' started forwarded out = after_parse rid s started forwarded out"
  using assms by (simp_all add: after_parse_def stream_head_def body_of_def)

lemma forward_head_effect:
  assumes "forward_head rid wr s started out = (ok, started1, s1, out1)" "after_parse rid s started forwarded out"
  shows "parser s1 = parser s \<and> input s1 = input s \<and>
     (if ok then after_parse rid s1 started1 forwarded out1 \<and> (started1 = (started \<or> headerComplete (parser s)))
      else out1 = [])"
proof (cases "headerComplete (parser s) \<and> \<not> started")
  case True
  obtain ok' s' out' where w: "write_downstream wr s out (stream_head rid s) = (ok', s', out')" by (metis prod_cases3)
  note w' = write_downstream_simps [OF w]
  have out: "out = []" "forwarded = 0" using True assms(2) by (simp_all add: after_parse_def)
  have eq: "ok = ok' \<and> started1 = ok' \<and> out1 = out' \<and> s1 = (if ok' then s' else cancelInExecutor s' Stop_DownstreamClosed)"
    using True assms(1) w by (auto simp: forward_head_def stream_head_def split: if_splits)
  show ?thesis
  proof (cases ok')
    case ok: True
    have "after_parse rid s True 0 [stream_head rid s]" by (auto simp: after_parse_def intro!: exI [of _ "[]"])
    with ok eq w' out True same_parser(3) [of s' s] show ?thesis by auto
  qed (use eq w' out in simp)
next
  case False
  with assms show ?thesis by (auto simp: forward_head_def)
qed

lemma forward_body_effect:
  assumes "forward_body wr s forwarded out = (ok, forwarded1, s1, out1)" "after_parse rid s started forwarded out"
  shows "parser s1 = parser s \<and> input s1 = input s \<and>
     (if \<not> ok then after_parse rid s1 started forwarded out1
      else forwarded1 = length (body_of s) \<and>
        (if started then \<exists>cs. [] \<notin> set cs \<and> concat cs = body_of s \<and> out1 = stream_head rid s # map chunkFrame cs
         else out1 = (if body_of s = [] then [] else [chunkFrame (body_of s)])))"
proof (cases "forwarded < length (body_of s)")
  case True
  obtain ok' s' out' where w: "write_downstream wr s out (chunkFrame (drop forwarded (body_of s))) = (ok', s', out')" by (metis prod_cases3)
  note w' = write_downstream_simps [OF w]
  have eq: "ok = ok' \<and> forwarded1 = (if ok' then length (body_of s) else forwarded) \<and> out1 = out' \<and>
      s1 = (if ok' then s' else cancelInExecutor s' Stop_DownstreamClosed)"
    using True assms(1) w by (auto simp: forward_body_def Let_def body_of_def [symmetric] split: if_splits)
  have same: "parser s1 = parser s" "input s1 = input s" using eq w' by (simp_all split: if_splits)
  then have st: "stream_head rid s1 = stream_head rid s" "body_of s1 = body_of s" by (simp_all add: stream_head_def body_of_def)
  show ?thesis
  proof (cases ok')
    case False
    with eq w' same assms(2) same_parser(3) [OF same(1)] show ?thesis by simp
  next
    case ok: True
    show ?thesis
    proof (cases started)
      case False
      with ok eq w' same st assms(2) True show ?thesis by (auto simp: after_parse_def)
    next
      case True
      with assms(2) obtain cs rest where cs: "[] \<notin> set cs" "concat cs @ rest = body_of s" "forwarded = length (concat cs)"
          "out = stream_head rid s # map chunkFrame cs" by (auto simp: after_parse_def)
      have "drop forwarded (body_of s) = rest" using cs(2,3) by (metis append_eq_conv_conj)
      moreover have "rest \<noteq> []" using \<open>forwarded < length (body_of s)\<close> cs(2,3) by (metis append_Nil2 less_irrefl)
      ultimately show ?thesis
        using ok eq w' same cs True by (auto intro!: exI [of _ "cs @ [rest]"])
    qed
  qed
next
  case False
  have eq: "ok" "forwarded1 = forwarded" "s1 = s" "out1 = out" using False assms(1) by (auto simp: forward_body_def Let_def body_of_def)
  show ?thesis
  proof (cases started)
    case True
    with assms(2) obtain cs rest where cs: "[] \<notin> set cs" "concat cs @ rest = body_of s" "forwarded = length (concat cs)"
        "out = stream_head rid s # map chunkFrame cs" by (auto simp: after_parse_def)
    then have "rest = []" using False by (metis append_eq_conv_conj drop_all length_append not_le_imp_less le_add1 linorder_not_less length_0_conv add_cancel_left_right le_antisym)
    with cs eq True show ?thesis by auto
  next
    case nst: False
    with eq assms(2) False show ?thesis by (simp add: after_parse_def)
  qed
qed

lemma not_started_body: "session_inv s \<Longrightarrow> \<not> headerComplete (parser s) \<Longrightarrow> body_of s = []"
  by (cases "q_state (parser s)") (auto simp: session_inv_def response_inv_def headerComplete_def response_active_def body_of_def)

lemma error_or_started:
  assumes "response_inv q" "\<not> headerComplete q" "rs_body (q_response q) \<noteq> []"
  shows "q_state q = RS_Error"
  using assms by (cases "q_state q") (auto simp: response_inv_def headerComplete_def)

lemma after_parse_start:
  assumes "stream_inv rid s started forwarded out" "response_parse (parser s) (input s) = Inr (r, q, b)"
  shows "after_parse rid (s\<lparr>parser := q, input := b\<rparr>) started forwarded out"
proof (cases started)
  case False
  with assms(1) show ?thesis by (simp add: stream_inv_def after_parse_def)
next
  case True
  let ?s = "s\<lparr>parser := q, input := b\<rparr>"
  from True assms(1) obtain cs where cs: "session_inv s" "headerComplete (parser s)" "forwarded = length (body_of s)"
      "[] \<notin> set cs" "concat cs = body_of s" "out = stream_head rid s # map chunkFrame cs" by (auto simp: stream_inv_def)
  have ext: "extended (q_response (parser s)) (q_response (parser ?s))" using parse_effect [OF cs(1) assms(2)] cs(2) by simp
  then obtain x where "body_of ?s = body_of s @ x" by (auto simp: extended_def body_of_def)
  with cs stream_head_extended [OF ext] True show ?thesis
    by (auto simp: after_parse_def intro!: exI [of _ cs])
qed

lemma forward_round_effect:
  assumes "stream_inv rid s started forwarded out" "forward_round rid wr s started forwarded out = Inr (rnd, s', out')"
  shows "case rnd of
      Finished res \<Rightarrow> stream_done rid wr res s' out'
    | Reading started' forwarded' \<Rightarrow> stream_inv rid s' started' forwarded' out' \<and> response_active (parser s') \<and> buffer_ready (input s')"
proof -
  from assms(2) obtain parsed q b where p: "response_parse (parser s) (input s) = Inr (parsed, q, b)"
    by (auto simp: forward_round_def ebind_eq_Inr_iff)
  let ?s = "s\<lparr>parser := q, input := b\<rparr>"
  have si: "session_inv s" using assms(1) by (simp add: stream_inv_def)
  note pe = parse_effect [OF si p]
  obtain ok1 st1 s1 out1 where h: "forward_head rid wr ?s started out = (ok1, st1, s1, out1)" by (metis prod_cases4)
  note he = forward_head_effect [OF h after_parse_start [OF assms(1) p]]
  show ?thesis
  proof (cases ok1)
    case False
    with assms(2) p h he show ?thesis by (auto simp: forward_round_def stream_done_def stream_cut_def)
  next
    case ok1: True
    obtain ok2 fw2 s2 out2 where f: "forward_body wr s1 forwarded out1 = (ok2, fw2, s2, out2)" by (metis prod_cases4)
    have ap1: "after_parse rid s1 st1 forwarded out1" "parser s1 = q" "input s1 = b" "st1 = (started \<or> headerComplete q)"
      using he ok1 by auto
    note fe = forward_body_effect [OF f ap1(1)]
    show ?thesis
    proof (cases ok2)
      case False
      with assms(2) p h f ok1 have "rnd = Finished streamedCloseResult" "s' = s2" "out' = out2" by (auto simp: forward_round_def)
      moreover have "out2 = [] \<or> (\<exists>cs rest. concat cs @ rest = body_of s2 \<and> out2 = stream_head rid s2 # map chunkFrame cs)"
        using fe False by (cases st1) (auto simp: after_parse_def)
      ultimately show ?thesis by (simp add: stream_done_def stream_cut_def)
    next
      case ok2: True
      have s2: "parser s2 = q" "input s2 = b" "fw2 = length (body_of s2)" "body_of s2 = rs_body (q_response q)"
        using fe ok2 ap1 by (simp_all add: body_of_def)
      have v: "forward_verdict wr s2 parsed st1 fw2 out2 = (rnd, s', out')"
        using assms(2) p h f ok1 ok2 by (simp add: forward_round_def)
      have frames: "if st1 then \<exists>cs. [] \<notin> set cs \<and> concat cs = body_of s2 \<and> out2 = stream_head rid s2 # map chunkFrame cs
          else out2 = (if body_of s2 = [] then [] else [chunkFrame (body_of s2)])"
        using fe ok2 same_parser [of s2 s1] by simp
      consider (complete) "parsed = RR_Complete" | (more) "parsed = RR_NeedMore" | (bad) "parsed \<noteq> RR_Complete" "parsed \<noteq> RR_NeedMore" by blast
      then show ?thesis
      proof cases
        case complete
        then have qc: "q_state q = RS_Complete" using pe by (simp add: settled_def)
        then have "st1" using ap1(4) by (simp add: headerComplete_def)
        with frames obtain cs where cs: "[] \<notin> set cs" "concat cs = body_of s2" "out2 = stream_head rid s2 # map chunkFrame cs" by auto
        obtain ok3 s3 out3 where w: "write_downstream wr s2 out2 (''0'' @ CRLF @ CRLF) = (ok3, s3, out3)" by (metis prod_cases3)
        note w' = write_downstream_simps [OF w]
        have r: "rnd = Finished (streamed_result s')" "parser s' = q" "out' = out3"
          using v complete w w' s2 by (auto simp: forward_verdict_def Let_def split: if_splits)
        have "stream_complete rid wr (streamed_result s') s' out'"
          unfolding stream_complete_def using r w' cs qc same_parser [of s' s2] s2
          by (auto simp: streamed_result_def last_chunk_def intro!: exI [of _ cs])
        with r show ?thesis by (simp add: stream_done_def)
      next
        case more
        then have q: "response_active q" "buffer_ready b" "response_inv q" using pe by (simp_all add: settled_def)
        have r: "rnd = Reading st1 fw2" "parser s' = q" "input s' = b" "out' = out2"
          using v more s2 by (auto simp: forward_verdict_def)
        have "st1 = headerComplete q"
        proof (cases started)
          case True
          then have "headerComplete (parser s)" using assms(1) by (simp add: stream_inv_def)
          with pe q(1) ap1(4) show ?thesis by (auto simp: response_active_def)
        qed (use ap1(4) in simp)
        moreover have "body_of s' = body_of s2" "stream_head rid s' = stream_head rid s2" using same_parser [of s' s2] r s2 by simp_all
        moreover have "session_inv s'" using q r by (simp add: session_inv_def)
        moreover have "\<not> headerComplete q \<Longrightarrow> rs_body (q_response q) = []"
          using error_or_started [OF q(3)] q(1) by (auto simp: response_active_def)
        ultimately show ?thesis using r q frames s2 by (auto simp: stream_inv_def)
      next
        case bad
        then have qe: "q_state q = RS_Error" using pe by (simp add: settled_def)
        have r: "rnd = Finished (if st1 then streamedCloseResult else failed_with (parse_failure parsed))" "parser s' = q" "out' = out2"
          using v bad s2 by (auto simp: forward_verdict_def)
        have same: "body_of s' = body_of s2" "stream_head rid s' = stream_head rid s2" using same_parser [of s' s2] r s2 by simp_all
        show ?thesis
        proof (cases st1)
          case True
          with frames same r(3) have "stream_cut rid streamedCloseResult s' out'"
            unfolding stream_cut_def by (metis append_Nil2)
          with r True show ?thesis by (simp add: stream_done_def)
        next
          case False
          with r frames same qe show ?thesis by (auto simp: stream_done_def stream_failed_def)
        qed
      qed
    qed
  qed
qed

lemma forward_loop_done:
  "stream_inv rid s started forwarded out \<Longrightarrow>
   forward_loop rid wr s started forwarded out evs = Inr (Some res, s', out') \<Longrightarrow> stream_done rid wr res s' out'"
proof (induction evs arbitrary: s started forwarded out)
  case Nil
  from Nil(2) obtain rnd s1 out1 where rd: "forward_round rid wr s started forwarded out = Inr (rnd, s1, out1)"
    by (auto simp: forward_loop.simps ebind_eq_Inr_iff)
  with forward_round_effect [OF Nil(1) rd] Nil(2) show ?case
    by (cases rnd) (auto simp: forward_loop.simps)
next
  case (Cons ev evs)
  from Cons.prems(2) obtain rnd s1 out1 where rd: "forward_round rid wr s started forwarded out = Inr (rnd, s1, out1)"
    by (auto simp: forward_loop.simps [of rid wr s] ebind_eq_Inr_iff)
  note re = forward_round_effect [OF Cons.prems(1) rd]
  show ?case
  proof (cases rnd)
    case (Finished r)
    with Cons.prems(2) rd re show ?thesis by (simp add: forward_loop.simps [of rid wr s])
  next
    case (Reading st fw)
    have inv: "stream_inv rid s1 st fw out1" "response_active (parser s1)" "buffer_ready (input s1)"
      using re Reading by simp_all
    from Cons.prems(2) rd Reading obtain got s2 where rs: "read_some s1 ev = Inr (got, s2)"
      by (auto simp: forward_loop.simps [of rid wr s] ebind_eq_Inr_iff)
    note rse = read_some_effect [OF rs inv(3)]
    have same: "body_of s2 = body_of s1" "stream_head rid s2 = stream_head rid s1" using same_parser [of s2 s1] rse by simp_all
    have cut: "stream_cut rid streamedCloseResult v out1" if "st" "parser v = q2" "q_response q2 = q_response (parser s1)" for v q2
    proof -
      have "body_of v = body_of s1" "stream_head rid v = stream_head rid s1" using that by (simp_all add: body_of_def stream_head_def)
      with inv(1) that(1) show ?thesis unfolding stream_inv_def stream_cut_def by (metis append_Nil2)
    qed
    have early: "out1 = []" if "\<not> st" using inv(1) that by (simp add: stream_inv_def)
    show ?thesis
    proof (cases got)
      case True
      have "stream_inv rid s2 st fw out1"
        using inv rse True same by (auto simp: stream_inv_def session_inv_def)
      with Cons.IH Cons.prems(2) rd Reading rs True show ?thesis by (simp add: forward_loop.simps [of rid wr s])
    next
      case got: False
      show ?thesis
      proof (cases "stop_reason s2 \<noteq> Stop_None")
        case True
        then have "res = (if st then streamedCloseResult else failed_with (errorForStopReason s'))" "parser s' = parser s1" "out' = out1"
          using Cons.prems(2) rd Reading rs got rse by (auto simp: forward_loop.simps [of rid wr s] Let_def)
        with cut [of s'] early show ?thesis by (cases st) (auto simp: stream_done_def stream_failed_def)
      next
        case False
        obtain q2 eof where eof: "finishOnEof (parser s2) = (q2, eof)" by fastforce
        have q2: "q_response q2 = q_response (parser s1)" using eof rse by (auto simp: finishOnEof_def rp_fail_def split: if_splits)
        show ?thesis
        proof (cases "eof = RR_Complete")
          case True
          have st: "q_state q2 = RS_Complete" "q_state (parser s1) = RS_EofBody"
            using True eof rse inv(2) by (auto simp: finishOnEof_def response_active_def split: if_splits)
          then have "st" using inv(1) by (auto simp: stream_inv_def headerComplete_def split: if_splits)
          have "response_inv q2" using inv(1) st eof rse
            by (auto simp: stream_inv_def session_inv_def response_inv_def finishOnEof_def split: if_splits)
          then have "stream_inv rid (s2\<lparr>parser := q2\<rparr>) st fw out1"
            using inv(1) \<open>st\<close> st q2 by (auto simp: stream_inv_def session_inv_def headerComplete_def body_of_def stream_head_def)
          with Cons.IH Cons.prems(2) rd Reading rs got False eof True show ?thesis by (simp add: forward_loop.simps [of rid wr s])
        next
          case neof: False
          then have "res = (if st then streamedCloseResult else failed_with PE_UpstreamProtocol)" "parser s' = q2" "out' = out1"
            using Cons.prems(2) rd Reading rs got False eof by (auto simp: forward_loop.simps [of rid wr s])
          with cut [of s' q2] early q2 show ?thesis by (cases st) (auto simp: stream_done_def stream_failed_def)
        qed
      qed
    qed
  qed
qed

lemma forwardResponse_done:
  assumes "buffer_ready (input s)" "forwardResponse rid wr s evs = Inr (Some res, s', out)"
  shows "stream_done rid wr res s' out"
proof -
  have "stream_inv rid (s\<lparr>parser := response_reset (parser s) False, px_state := PX_ReadingResponseHeaders\<rparr>) False 0 []"
    using assms(1) response_inv_reset [of "parser s" False]
    by (auto simp: stream_inv_def session_inv_def headerComplete_def response_reset_def)
  with forward_loop_done assms(2) show ?thesis by (simp add: forwardResponse_def)
qed

section \<open>Streaming properties\<close>

text \<open>
  C6: A transaction that streams its response to the end delivers exactly the upstream body: the bytes written
  downstream are the head, one non-empty chunk per piece of the body, and the last chunk, and any
  reader of chunked messages with room for the body decodes them to it and stops exactly behind them,
  however the upstream bytes were cut into reads.
\<close>

theorem streamed_body_is_upstream_body:
  assumes "buffer_ready (input s)" "forwardResponse rid wr s evs = Inr (Some res, s', out)"
    and "pr_error res = PE_None" "\<not> rs_close_connection (pr_response res)" "\<And>n. fst (wr n)"
    and "q_state q = RS_ChunkSize" "length (rs_body (q_response q)) + length (body_of s') \<le> rl_max_body_bytes (q_limits q)"
    and "rl_max_body_bytes (q_limits q) \<le> rp_kAbsoluteBodyLimit" "q_header_bytes q + 2 \<le> rl_max_header_bytes (q_limits q)"
  shows "q_state (parser s') = RS_Complete \<and> hd out = stream_head rid s' \<and>
     (\<exists>q'. rparse q (concat (tl out) @ rest) = Inr (RR_Complete, q', rest) \<and>
       rs_body (q_response q') = rs_body (q_response q) @ body_of s')"
proof -
  have "stream_complete rid wr res s' out"
    using forwardResponse_done [OF assms(1,2)] assms(3,4)
    by (auto simp: stream_done_def stream_cut_def stream_failed_def streamedCloseResult_def)
  then obtain cs where cs: "q_state (parser s') = RS_Complete" "[] \<notin> set cs" "concat cs = body_of s'"
      "out = stream_head rid s' # map chunkFrame cs @ [last_chunk]"
    using assms(5) by (auto simp: stream_complete_def)
  have "chunkFrame = chunk_text" by (rule ext) (simp add: chunkFrame_def chunk_text_def)
  then have "concat (tl out) @ rest = concat (map chunk_text cs) @ last_chunk @ rest" using cs(4) by simp
  moreover have "length (concat cs) \<le> body_room q" "length (concat cs) + 2 < 2 ^ 64"
    using assms(7,8) cs(3) by (auto simp: body_room_def rp_kAbsoluteBodyLimit_def)
  ultimately show ?thesis
    using rparse_chunks [OF assms(6) cs(2) _ _ assms(9), of rest] cs by fastforce
qed

definition sample_session :: ProxySession where
  "sample_session = \<lparr>ps_upstream = \<lparr>host = ''up'', service = ''80''\<rparr>,
     ps_limits = ProxyLimits_default\<lparr>read_chunk_bytes := 128, max_buffer_bytes := 128\<rparr>,
     connection_open = True, lease = None,
     input = \<lparr>storage = replicate 128 NUL, read_index = 0, write_index = 0, prepared_bytes = 0, maximum_size = 128\<rparr>,
     parser = sample_response_parser, px_state = PX_SendingRequest, stop_reason = Stop_None\<rparr>"

definition arrives :: "string \<Rightarrow> read_event" where
  "arrives bs = \<lparr>re_bytes = bs, re_error = False, re_stop = None\<rparr>"

definition all_written :: "nat \<Rightarrow> completion" where
  "all_written n = (True, None)"

definition hello_reply :: string where
  "hello_reply = ''HTTP/1.1 200 OK'' @ CRLF @ ''Content-Length: 5'' @ CRLF @ CRLF @ ''hello''"

lemma hello_stream:
  "\<exists>res s' out. forwardResponse ''7'' all_written sample_session [arrives (take 40 hello_reply), arrives (drop 40 hello_reply)] =
       Inr (Some res, s', out) \<and> pr_error res = PE_None \<and> \<not> rs_close_connection (pr_response res) \<and> length (body_of s') = 5"
proof -
  have "(case forwardResponse ''7'' all_written sample_session [arrives (take 40 hello_reply), arrives (drop 40 hello_reply)] of
      Inr (Some res, s', out) \<Rightarrow> pr_error res = PE_None \<and> \<not> rs_close_connection (pr_response res) \<and> length (body_of s') = 5
    | _ \<Rightarrow> False)" by code_simp
  then show ?thesis by (auto split: sum.splits option.splits)
qed

theorem streamed_body_is_upstream_body_witness:
  "\<exists>res s' out q'. forwardResponse ''7'' all_written sample_session [arrives (take 40 hello_reply), arrives (drop 40 hello_reply)] =
       Inr (Some res, s', out) \<and>
     rparse (sample_response_parser\<lparr>q_state := RS_ChunkSize\<rparr>) (concat (tl out) @ ''next'') = Inr (RR_Complete, q', ''next'') \<and>
     length (rs_body (q_response q')) = 5"
proof -
  from hello_stream obtain res s' out where h:
    "forwardResponse ''7'' all_written sample_session [arrives (take 40 hello_reply), arrives (drop 40 hello_reply)] = Inr (Some res, s', out)"
    "pr_error res = PE_None" "\<not> rs_close_connection (pr_response res)" "length (body_of s') = 5" by blast
  have b: "buffer_ready (input sample_session)" by (simp add: sample_session_def buffer_defs)
  have q: "q_state (sample_response_parser\<lparr>q_state := RS_ChunkSize\<rparr>) = RS_ChunkSize"
      "q_response (sample_response_parser\<lparr>q_state := RS_ChunkSize\<rparr>) = HttpResponse_default"
      "q_limits (sample_response_parser\<lparr>q_state := RS_ChunkSize\<rparr>) = HttpResponseParserLimits_default"
      "q_header_bytes (sample_response_parser\<lparr>q_state := RS_ChunkSize\<rparr>) = 0"
    by (simp_all add: sample_response_parser_def)
  have "\<exists>q'. rparse (sample_response_parser\<lparr>q_state := RS_ChunkSize\<rparr>) (concat (tl out) @ ''next'') = Inr (RR_Complete, q', ''next'') \<and>
       rs_body (q_response q') = rs_body (q_response (sample_response_parser\<lparr>q_state := RS_ChunkSize\<rparr>)) @ body_of s'"
    using streamed_body_is_upstream_body [OF b h(1-3), of "sample_response_parser\<lparr>q_state := RS_ChunkSize\<rparr>" "''next''"] h(4) q
    by (simp add: all_written_def HttpResponse_default_def HttpResponseParserLimits_default_def rp_kAbsoluteBodyLimit_def)
  with h q show ?thesis by (fastforce simp: HttpResponse_default_def)
qed

text \<open>
  C34: Once the head of a response is on its way downstream, the transaction never reports an error: it ends
  with the whole message written, or with an already written response that closes the connection
  after a prefix of the body. An error is reported only when no head was written, and then nothing
  was written at all, except for one case: a message that turns out malformed in the same read as
  the end of its head and part of its body has had that part written as a bare chunk.
\<close>

theorem errors_never_follow_a_streamed_head:
  assumes "buffer_ready (input s)" "forwardResponse rid wr s evs = Inr (Some res, s', out)"
  shows "if pr_error res = PE_None
     then rs_already_written (pr_response res) \<and>
       (out = [] \<and> rs_close_connection (pr_response res) \<or>
        hd out = stream_head rid s' \<and> (q_state (parser s') = RS_Complete \<or> rs_close_connection (pr_response res)))
     else out = [] \<or> q_state (parser s') = RS_Error \<and> body_of s' \<noteq> [] \<and> out = [chunkFrame (body_of s')]"
  using forwardResponse_done [OF assms]
  by (auto simp: stream_done_def stream_complete_def stream_cut_def stream_failed_def streamedCloseResult_def)

theorem errors_never_follow_a_streamed_head_witness:
  "\<exists>res s' out. forwardResponse ''7'' all_written sample_session [arrives (take 40 hello_reply), arrives (drop 40 hello_reply)] =
     Inr (Some res, s', out) \<and> rs_already_written (pr_response res) \<and> hd out = stream_head ''7'' s'"
proof -
  from hello_stream obtain res s' out where h:
    "forwardResponse ''7'' all_written sample_session [arrives (take 40 hello_reply), arrives (drop 40 hello_reply)] = Inr (Some res, s', out)"
    "pr_error res = PE_None" "\<not> rs_close_connection (pr_response res)" by blast
  have b: "buffer_ready (input sample_session)" by (simp add: sample_session_def buffer_defs)
  from errors_never_follow_a_streamed_head [OF b h(1)] h show ?thesis by auto
qed

definition broken_reply :: string where
  "broken_reply = ''HTTP/1.1 200 OK'' @ CRLF @ ''Transfer-Encoding: chunked'' @ CRLF @ CRLF @
     ''5'' @ CRLF @ ''hello'' @ CRLF @ ''zz'' @ CRLF"

text \<open>
  The exceptional case is real: an upstream that sends a head, one chunk and a malformed chunk size in one
  read makes the proxy write the bare chunk downstream, without a head, and report an upstream
  protocol error, whose 502 response the session then writes behind it.
\<close>

theorem malformed_stream_writes_bare_chunk:
  "\<exists>res s'. forwardResponse ''7'' all_written sample_session [arrives broken_reply] = Inr (Some res, s', [chunkFrame ''hello'']) \<and>
     pr_error res = PE_UpstreamProtocol \<and> rs_status_code (makeProxyErrorResponse (pr_error res)) = 502"
proof -
  have "(case forwardResponse ''7'' all_written sample_session [arrives broken_reply] of
      Inr (Some res, s', out) \<Rightarrow> out = [chunkFrame ''hello''] \<and> pr_error res = PE_UpstreamProtocol | _ \<Rightarrow> False)" by code_simp
  moreover have "rs_status_code (makeProxyErrorResponse PE_UpstreamProtocol) = 502" by code_simp
  ultimately show ?thesis by (auto split: sum.splits option.splits)
qed

end
