(* ===== verification/UpstreamRequestProperties.thy ===== *)
theory UpstreamRequestProperties
  imports ReverseProxy ParserProperties
begin

text \<open>
  The request the proxy sends upstream, against the grammar of the request parser: a server that reads as this
  parser does sees exactly one request, with the client's method, target and body, the end-to-end
  fields unchanged and no hop-by-hop field or second framing left to disagree about.
\<close>

section \<open>The request as a client would write it\<close>

definition kept_fields :: "headers \<Rightarrow> (string \<times> string) list" where
  "kept_fields all = map (\<lambda>h. (h_name h, h_value h)) (filter (\<lambda>h. \<not> hopByHop h all) all)"

definition peer_text :: "RequestContext \<Rightarrow> string" where
  "peer_text ctx = (if peer_unspecified ctx then ''unknown'' else peer_address ctx)"

definition proxy_fields :: "HttpRequest \<Rightarrow> UpstreamEndpoint \<Rightarrow> RequestContext \<Rightarrow> (string \<times> string) list" where
  "proxy_fields rq u ctx = [(''Host'', authority u), (''X-Forwarded-For'', peer_text ctx), (''X-Forwarded-Proto'', ''http''),
     (''X-Request-Id'', request_id ctx), (''Content-Length'', to_string (length (rq_body rq))), (''Connection'', ''keep-alive'')]"

definition upstream_client :: "HttpRequest \<Rightarrow> UpstreamEndpoint \<Rightarrow> RequestContext \<Rightarrow> client_request" where
  "upstream_client rq u ctx = \<lparr>cr_method = methodName (rq_method rq),
     cr_target = (if rq_target rq = [] then ''/'' else rq_target rq), cr_minor = CHR ''1'',
     cr_fields = kept_fields (rq_headers rq) @ proxy_fields rq u ctx, cr_body = rq_body rq\<rparr>"

lemma upstream_lines:
  "concat (map (upstream_line all) hs) =
     join_lines (map client_field (map (\<lambda>h. (h_name h, h_value h)) (filter (\<lambda>h. \<not> hopByHop h all) hs)))"
  by (induction hs) (simp_all add: upstream_line_def client_field_def)

lemma serializeUpstreamRequest_eq: "serializeUpstreamRequest rq u ctx = request_text (upstream_client rq u ctx)"
  by (simp add: serializeUpstreamRequest_def request_text_def request_head_def upstream_client_def upstream_lines
      kept_fields_def proxy_fields_def peer_text_def request_line_def client_field_def)

section \<open>Its fields\<close>

definition hop_name :: "headers \<Rightarrow> string \<Rightarrow> bool" where
  "hop_name all n = hopByHop \<lparr>h_name = n, h_value = []\<rparr> all"

lemma hopByHop_name: "hopByHop h all = hop_name all (h_name h)"
  by (simp add: hopByHop_def hop_name_def)

lemma proxy_names [simp]:
  "normalizeHeaderName ''Host'' = ''host''" "normalizeHeaderName ''X-Forwarded-For'' = ''x-forwarded-for''"
  "normalizeHeaderName ''X-Forwarded-Proto'' = ''x-forwarded-proto''" "normalizeHeaderName ''Content-Length'' = ''content-length''"
  "normalizeHeaderName ''Connection'' = ''connection''" "normalizeHeaderName ''X-Request-Id'' = ''x-request-id''"
  by code_simp+

lemma hop_names:
  "hop_name all ''host''" "hop_name all ''content-length''" "hop_name all ''connection''" "hop_name all ''transfer-encoding''"
  "hop_name all ''x-forwarded-for''" "hop_name all ''x-forwarded-proto''" "hop_name all ''x-request-id''"
  by (simp_all add: hop_name_def hopByHop_def hop_by_hop_names_def)

lemma kept_values:
  assumes "headers_normal hs"
  shows "map snd (filter (\<lambda>(n, v). normalizeHeaderName n = m) (map (\<lambda>h. (h_name h, h_value h)) (filter (\<lambda>h. \<not> hopByHop h all) hs))) =
    (if hop_name all m then [] else map h_value (filter (\<lambda>h. h_name h = m) hs))"
  using assms by (induction hs) (auto simp: headers_normal_def hopByHop_name)

lemma upstream_values:
  assumes "headers_normal (rq_headers rq)"
  shows "headers_values (client_headers (upstream_client rq u ctx)) m =
    (if hop_name (rq_headers rq) (normalizeHeaderName m) then [] else headers_values (rq_headers rq) m) @
    map snd (filter (\<lambda>(n, v). normalizeHeaderName n = normalizeHeaderName m) (proxy_fields rq u ctx))"
proof -
  have "headers_values (client_headers (upstream_client rq u ctx)) m =
      map snd (filter (\<lambda>(n, v). normalizeHeaderName n = normalizeHeaderName m) (kept_fields (rq_headers rq) @ proxy_fields rq u ctx))"
    by (simp add: client_headers_def upstream_client_def hdr.vals_fold_add hdr.vals_empty del: fold_append)
  moreover have "headers_values (rq_headers rq) m = map h_value (filter (\<lambda>h. h_name h = normalizeHeaderName m) (rq_headers rq))"
    by (simp add: headers_values_def Let_def)
  ultimately show ?thesis
    using kept_values [OF assms, of "normalizeHeaderName m" "rq_headers rq"] by (simp add: kept_fields_def)
qed

lemma framing_names:
  "normalizeHeaderName ''content-length'' = ''content-length''" "normalizeHeaderName ''transfer-encoding'' = ''transfer-encoding''"
  "normalizeHeaderName ''host'' = ''host''" "normalizeHeaderName ''x-forwarded-for'' = ''x-forwarded-for''"
  by code_simp+

lemma framing_fields:
  "map snd (filter (\<lambda>(n, v). normalizeHeaderName n = ''content-length'') (proxy_fields rq u ctx)) = [to_string (length (rq_body rq))]"
  "map snd (filter (\<lambda>(n, v). normalizeHeaderName n = ''transfer-encoding'') (proxy_fields rq u ctx)) = []"
  "map snd (filter (\<lambda>(n, v). normalizeHeaderName n = ''host'') (proxy_fields rq u ctx)) = [authority u]"
  "map snd (filter (\<lambda>(n, v). normalizeHeaderName n = ''x-forwarded-for'') (proxy_fields rq u ctx)) = [peer_text ctx]"
  by (simp_all add: proxy_fields_def proxy_names)

lemma upstream_framing_values:
  assumes "headers_normal (rq_headers rq)"
  shows "headers_values (client_headers (upstream_client rq u ctx)) ''content-length'' = [to_string (length (rq_body rq))]"
    "headers_values (client_headers (upstream_client rq u ctx)) ''transfer-encoding'' = []"
    "headers_values (client_headers (upstream_client rq u ctx)) ''host'' = [authority u]"
    "headers_values (client_headers (upstream_client rq u ctx)) ''x-forwarded-for'' = [peer_text ctx]"
  by (simp_all only: upstream_values [OF assms] framing_names framing_fields hop_names if_True append_Nil)

section \<open>It fits\<close>

text \<open>What the proxy's environment provides: printable values, stored the way the parser stores them.\<close>

definition plain_value :: "string \<Rightarrow> bool" where
  "plain_value v \<longleftrightarrow> isValidHeaderValue v \<and> trim (SP # v) = v"

definition forwardable :: "HttpRequest \<Rightarrow> UpstreamEndpoint \<Rightarrow> RequestContext \<Rightarrow> bool" where
  "forwardable rq u ctx \<longleftrightarrow> isRequestTargetValid (rq_target rq) \<and> headers_wf (rq_headers rq) \<and> headers_normal (rq_headers rq) \<and>
     list_all (\<lambda>h. plain_value (h_value h)) (rq_headers rq) \<and> plain_value (authority u) \<and> plain_value (peer_text ctx) \<and>
     plain_value (request_id ctx)"

text \<open>What the upstream's limits have to allow.\<close>

definition upstream_room :: "HttpParserLimits \<Rightarrow> client_request \<Rightarrow> bool" where
  "upstream_room l c \<longleftrightarrow> length (request_line c) \<le> max_request_line_bytes l \<and> length (request_head c) \<le> max_header_bytes l \<and>
     list_all (\<lambda>f. length (client_field f) \<le> max_header_line_bytes l) (cr_fields c) \<and>
     length (cr_fields c) \<le> max_header_count l \<and> length (cr_body c) \<le> max_body_bytes l \<and> length (cr_body c) \<le> size_max"

lemma method_token: "isMethodTokenValid (methodName me)"
  by (cases me; simp only: methodName.simps; code_simp)

lemma parse_methodName: "parseHttpMethod (methodName me) = me"
  by (cases me) (simp_all add: parseHttpMethod_def)

lemma strip_front_plain: "list_all (\<lambda>c. \<not> is_ows c) v \<Longrightarrow> strip_front v = v"
  by (cases v) simp_all

lemma trim_plain: "list_all (\<lambda>c. \<not> is_ows c) v \<Longrightarrow> trim (SP # v) = v"
  by (simp add: trim_def strip_front_plain list_all_rev is_ows_def)

lemma digits_plain: "plain_value (to_string n)"
proof -
  have "\<exists>d<10. c = dec_digit d" if "c \<in> set (to_string n)" for c using to_string_digits [OF that] .
  moreover have "\<not> is_ows (dec_digit d) \<and> dec_digit d \<noteq> CR \<and> dec_digit d \<noteq> LF \<and> dec_digit d \<noteq> NUL" if "d < 10" for d
  proof -
    have "list_all (\<lambda>d. \<not> is_ows (dec_digit d) \<and> dec_digit d \<noteq> CR \<and> dec_digit d \<noteq> LF \<and> dec_digit d \<noteq> NUL) [0..<10]" by code_simp
    with that show ?thesis by (auto simp: list_all_iff)
  qed
  ultimately have "\<And>c. c \<in> set (to_string n) \<Longrightarrow> \<not> is_ows c \<and> c \<noteq> CR \<and> c \<noteq> LF \<and> c \<noteq> NUL" by metis
  then show ?thesis using trim_plain [of "to_string n"]
    by (auto simp: plain_value_def isValidHeaderValue_def list_all_iff list_ex_iff)
qed

lemma constant_fields:
  "isValidHeaderName ''Host''" "isValidHeaderName ''X-Forwarded-For''" "isValidHeaderName ''X-Forwarded-Proto''"
  "isValidHeaderName ''X-Request-Id''" "isValidHeaderName ''Content-Length''" "isValidHeaderName ''Connection''"
  "plain_value ''http''" "plain_value ''keep-alive''"
  by code_simp+

lemma upstream_client_fits:
  assumes "forwardable rq u ctx" "upstream_room l (upstream_client rq u ctx)"
  shows "client_fits l (upstream_client rq u ctx)"
proof -
  let ?c = "upstream_client rq u ctx"
  have n: "headers_normal (rq_headers rq)" and t: "isRequestTargetValid (rq_target rq)"
    using assms(1) by (simp_all add: forwardable_def)
  note upstream_framing_values [OF n, of u ctx]
  then have "framed l (request_of ?c) (length (rq_body rq))"
    using assms(2) from_chars_to_string [of "length (rq_body rq)" size_max]
    by (auto simp: framed_def request_of_def headers_contains_values upstream_room_def upstream_client_def)
  moreover have "isValidHeaderName (fst f) \<and> plain_value (snd f)" if "f \<in> set (cr_fields ?c)" for f
  proof -
    have "isValidHeaderName (h_name h) \<and> plain_value (h_value h)" if "h \<in> set (rq_headers rq)" for h
      using assms(1) that by (auto simp: forwardable_def headers_wf_def list_all_iff)
    then have "isValidHeaderName (fst f) \<and> plain_value (snd f)" if "f \<in> set (kept_fields (rq_headers rq))"
      using that by (auto simp: kept_fields_def)
    moreover have "isValidHeaderName (fst f) \<and> plain_value (snd f)" if "f \<in> set (proxy_fields rq u ctx)"
      using that assms(1) by (auto simp: proxy_fields_def forwardable_def constant_fields digits_plain)
    ultimately show ?thesis using that by (auto simp: upstream_client_def)
  qed
  ultimately show ?thesis
    using assms(2) t method_token [of "rq_method rq"]
    by (auto simp: client_fits_def upstream_room_def field_fits_def plain_value_def list_all_iff)
      (auto simp: upstream_client_def isRequestTargetValid_def)
qed

section \<open>Property\<close>

text \<open>
  C5: The bytes sent upstream for a request are read back as exactly one request, with nothing left over of it:
  the same method, target and body, a single \<open>Content-Length\<close> that is the length of the body, no
  transfer coding, the upstream's authority as the only host and the peer as the only forwarded
  address; every other field that is not hop-by-hop has the client's values in order, and
  every hop-by-hop field named by the client, also through \<open>Connection\<close>, is gone.
\<close>

theorem forwarded_request_is_one_request:
  assumes "forwardable rq u ctx" "upstream_room (p_limits p) (upstream_client rq u ctx)"
    and "p_state p = PS_RequestLine" "parser_inv p"
  shows "\<exists>p' rq'. parse_bytes p (serializeUpstreamRequest rq u ctx @ rest) = (PR_Complete, p', rest) \<and> p_request p' = rq' \<and>
     rq_method rq' = rq_method rq \<and> rq_target rq' = rq_target rq \<and> rq_body rq' = rq_body rq \<and>
     headers_values (rq_headers rq') ''content-length'' = [to_string (length (rq_body rq))] \<and>
     headers_values (rq_headers rq') ''transfer-encoding'' = [] \<and>
     headers_values (rq_headers rq') ''host'' = [authority u] \<and>
     headers_values (rq_headers rq') ''x-forwarded-for'' = [peer_text ctx] \<and>
     (\<forall>n. normalizeHeaderName n \<notin> set (map (normalizeHeaderName \<circ> fst) (proxy_fields rq u ctx)) \<longrightarrow>
        headers_values (rq_headers rq') n =
          (if hop_name (rq_headers rq) (normalizeHeaderName n) then [] else headers_values (rq_headers rq) n))"
proof -
  let ?c = "upstream_client rq u ctx"
  have n: "headers_normal (rq_headers rq)" and t: "isRequestTargetValid (rq_target rq)"
    using assms(1) by (simp_all add: forwardable_def)
  from parse_bytes_request [OF upstream_client_fits [OF assms(1,2)] assms(3,4), of rest] obtain p' where
    p': "parse_bytes p (serializeUpstreamRequest rq u ctx @ rest) = (PR_Complete, p', rest)" "p_request p' = request_of ?c"
    by (auto simp: serializeUpstreamRequest_eq)
  have other: "headers_values (client_headers ?c) m =
      (if hop_name (rq_headers rq) (normalizeHeaderName m) then [] else headers_values (rq_headers rq) m)"
    if "normalizeHeaderName m \<notin> set (map (normalizeHeaderName \<circ> fst) (proxy_fields rq u ctx))" for m
  proof -
    have "filter (\<lambda>(n, v). normalizeHeaderName n = normalizeHeaderName m) (proxy_fields rq u ctx) = []"
      using that by (force simp: filter_empty_conv)
    with upstream_values [OF n, of u ctx m] show ?thesis by simp
  qed
  from p' other t upstream_framing_values [OF n, of u ctx] show ?thesis
    by (intro exI [of _ p'] exI [of _ "request_of ?c"])
      (auto simp: request_of_def upstream_client_def parse_methodName isRequestTargetValid_def)
qed

definition sample_upstream :: UpstreamEndpoint where
  "sample_upstream = \<lparr>host = ''up'', service = ''80''\<rparr>"

definition sample_forwarded :: HttpRequest where
  "sample_forwarded = \<lparr>rq_method = Post, rq_target = ''/a'', rq_version_major = 1, rq_version_minor = 1,
     rq_headers = [\<lparr>h_name = ''connection'', h_value = ''x-secret''\<rparr>, \<lparr>h_name = ''x-secret'', h_value = ''1''\<rparr>,
       \<lparr>h_name = ''accept'', h_value = ''text''\<rparr>], rq_body = ''hello''\<rparr>"

theorem forwarded_request_is_one_request_witness:
  "\<exists>p'. parse_bytes sample_parser (serializeUpstreamRequest sample_forwarded sample_upstream (RequestContext_default\<lparr>request_id := ''9''\<rparr>) @ ''more'') =
      (PR_Complete, p', ''more'') \<and> rq_body (p_request p') = ''hello''"
proof -
  have "forwardable sample_forwarded sample_upstream (RequestContext_default\<lparr>request_id := ''9''\<rparr>)" by code_simp
  moreover have "upstream_room HttpParserLimits_default (upstream_client sample_forwarded sample_upstream (RequestContext_default\<lparr>request_id := ''9''\<rparr>))"
    by code_simp
  ultimately show ?thesis
    using forwarded_request_is_one_request [of sample_forwarded sample_upstream "RequestContext_default\<lparr>request_id := ''9''\<rparr>" sample_parser "''more''"]
      sample_facts(1,2,4) by (auto simp: sample_forwarded_def)
qed

end
