(* ===== verification/ProxyHandlerProperties.thy ===== *)
theory ProxyHandlerProperties
  imports ReverseProxy Interfaces
begin

text \<open>
  The handler of the reverse proxy under load: many requests are inside the handler at once, each between the
  choice of its upstream and the record of its outcome. The limit on requests in flight holds in
  every interleaving and no place is ever lost, and the search for an upstream is a fair
  round robin over the healthy endpoints whose breaker admits the request.
\<close>

section \<open>Requests in flight\<close>

text \<open>The steps of the handler that neither admit nor release.\<close>

datatype handler_work =
    Choosing "nat \<Rightarrow> int"
  | PoolMade nat
  | Noting "real \<Rightarrow> real" string string int
  | Neutral nat
  | Outcome nat ProxyResult int int
  | CircuitNoted nat

fun handler_work_step :: "handler_work \<Rightarrow> ReverseProxy \<Rightarrow> ReverseProxy" where
  "handler_work_step (Choosing clk) st = (case select_loop (length (upstreams st)) clk st False 0 of (_, _, _, st') \<Rightarrow> st')"
| "handler_work_step (PoolMade i) st = (case poolFor st i of Inr (_, st') \<Rightarrow> st' | Inl _ \<Rightarrow> st)"
| "handler_work_step (Noting rnd u result d) st = note_upstream rnd st u result d"
| "handler_work_step (Neutral i) st = update_circuit st i recordNeutral"
| "handler_work_step (Outcome i res t1 t2) st = record_result st i res t1 t2"
| "handler_work_step (CircuitNoted i) st = note_circuit st i"

definition same_load :: "ReverseProxy \<Rightarrow> ReverseProxy \<Rightarrow> bool" where
  "same_load st st' \<longleftrightarrow> in_flight st' = in_flight st \<and> rp_limits st' = rp_limits st \<and> upstreams st' = upstreams st \<and>
     length (circuits st') = length (circuits st)"

lemma same_load_refl [simp]: "same_load st st"
  by (simp add: same_load_def)

lemma same_load_trans: "same_load a b \<Longrightarrow> same_load b c \<Longrightarrow> same_load a c"
  by (simp add: same_load_def)

lemma select_loop_load: "select_loop n clk st r e = (i, r', e', st') \<Longrightarrow> same_load st st'"
proof (induction n arbitrary: st r e)
  case (Suc n)
  show ?case
  proof (rule same_load_trans)
    let ?st2 = "st\<lparr>next_upstream := u64_inc (next_upstream st), circuits := (circuits st)
        [next_upstream st mod length (upstreams st) := snd (if isHealthy (health st) (endpoint_id (upstreams st ! (next_upstream st mod length (upstreams st))))
          then allowRequest (circuits st ! (next_upstream st mod length (upstreams st))) (clk n)
          else (False, circuits st ! (next_upstream st mod length (upstreams st))))]\<rparr>"
    show "same_load st ?st2" by (simp add: same_load_def)
    show "same_load ?st2 st'"
      using Suc.prems Suc.IH by (auto simp: Let_def case_prod_beta split: if_splits)
  qed
qed simp

lemma handler_work_load: "same_load st (handler_work_step w st)"
proof (cases w)
  case (Choosing clk)
  then show ?thesis using select_loop_load by (auto split: prod.splits)
next
  case (PoolMade i)
  then show ?thesis by (auto simp: poolFor_def same_load_def Let_def ebind_def split: option.splits sum.splits)
qed (auto simp: same_load_def note_upstream_def update_circuit_def record_result_def note_circuit_def Let_def)

text \<open>A request that is inside the handler: its number and the upstream it was given.\<close>

type_synonym in_handler = "nat \<times> nat"

definition proxy_holds :: "ReverseProxy \<Rightarrow> in_handler list \<Rightarrow> bool" where
  "proxy_holds st ks \<longleftrightarrow> in_flight st = length ks"

interpretation px: admission "\<lambda>k :: in_handler. proxy_admit" "\<lambda>k. proxy_release" handler_work_step proxy_holds
  "\<lambda>st. max_in_flight_requests (rp_limits st)"
proof
  fix i st ks
  assume "proxy_holds st ks"
  with handler_work_load [of st i]
  show "proxy_holds (handler_work_step i st) ks \<and>
      max_in_flight_requests (rp_limits (handler_work_step i st)) = max_in_flight_requests (rp_limits st)"
    by (simp add: proxy_holds_def same_load_def)
qed (auto simp: proxy_holds_def proxy_admit_def proxy_release_def length_remove1 split: if_splits)

text \<open>
  What happens to the handler: a request comes in and either starts or is refused, its pool is looked up, and
  it ends (with a response or an exception) or is still waiting.
\<close>

datatype handler_event =
    Begin nat "nat \<Rightarrow> int" int
  | LookUpPool in_handler
  | Continue in_handler RequestContext bool HttpRequest UpstreamLease bool net_events int int int

fun handler_step :: "(real \<Rightarrow> real) \<Rightarrow> ReverseProxy \<times> in_handler list \<Rightarrow> handler_event \<Rightarrow> ReverseProxy \<times> in_handler list" where
  "handler_step rnd (st, ks) (Begin k clk now) =
     (case proxy_begin rnd clk now st of
        (Started i, st') \<Rightarrow> (st', (k, i) # ks) | (Refused resp, st') \<Rightarrow> (st', ks))"
| "handler_step rnd (st, ks) (LookUpPool h) =
     (if h \<in> set ks then (case poolFor st (snd h) of Inr (pool, st') \<Rightarrow> (st', ks) | Inl e \<Rightarrow> (proxy_release st, remove1 h ks))
      else (st, ks))"
| "handler_step rnd (st, ks) (Continue h ctx w rq ls transport_open ev t1 t2 d) =
     (if h \<in> set ks then
        (case proxy_after_acquire rnd st (snd h) ctx w rq ls transport_open ev t1 t2 d of
           (Inr (None, out), st') \<Rightarrow> (st', ks) | (_, st') \<Rightarrow> (st', remove1 h ks))
      else (st, ks))"

text \<open>Every such event is a sequence of operations of the contract.\<close>

lemma handler_step_places: "\<exists>ops. handler_step rnd (st, ks) ev = foldl px.place_step (st, ks) ops"
proof (cases ev)
  case (Begin k clk now)
  obtain ok st1 where adm: "proxy_admit st = (ok, st1)" by fastforce
  obtain i r e st2 where sel: "select_loop (length (upstreams st1)) clk st1 False 0 = (i, r, e, st2)" by (metis prod_cases4)
  show ?thesis
  proof (cases ok)
    case False
    then show ?thesis using Begin adm by (intro exI [of _ "[Enter (k, 0)]"]) (simp add: proxy_begin_def)
  next
    case True
    show ?thesis
    proof (cases i)
      case (Some j)
      then show ?thesis using Begin adm sel True
        by (intro exI [of _ "[Enter (k, j), Internal (Choosing clk)]"]) (simp add: proxy_begin_def)
    next
      case None
      then show ?thesis using Begin adm sel True
        by (intro exI [of _ "[Enter (k, 0), Internal (Choosing clk)] @ (if r then [Internal (Noting rnd ''unavailable'' ''circuit_open'' 0)] else []) @ [Leave (k, 0)]"])
          (simp add: proxy_begin_def split: bool.splits)
    qed
  qed
next
  case (LookUpPool h)
  show ?thesis
  proof (cases "h \<in> set ks")
    case True
    then show ?thesis using LookUpPool
      by (cases "poolFor st (snd h)") (auto intro: exI [of _ "[Leave h]"] exI [of _ "[Internal (PoolMade (snd h))]"])
  qed (use LookUpPool in \<open>auto intro: exI [of _ "[]"]\<close>)
next
  case (Continue h ctx w rq ls transport_open ev t1 t2 d)
  show ?thesis
  proof (cases "h \<in> set ks")
    case h: True
    show ?thesis
    proof (cases ls)
      case None
      then show ?thesis using Continue h
        by (intro exI [of _ "[Internal (Neutral (snd h)), Internal (Noting rnd (endpoint_id (upstreams st ! snd h)) ''overloaded'' 0), Leave h]"])
          (simp add: proxy_after_acquire_def acquire_failed_def update_circuit_def)
    next
      case (Some c)
      show ?thesis
      proof (cases "run_session st (snd h) ctx w rq ls transport_open ev")
        case (Inl e)
        then show ?thesis using Continue h Some by (intro exI [of _ "[Leave h]"]) (simp add: proxy_after_acquire_def)
      next
        case (Inr out)
        obtain res s o' where out: "out = (res, s, o')" by (cases out)
        show ?thesis
        proof (cases res)
          case None
          then show ?thesis using Continue h Some Inr out by (intro exI [of _ "[]"]) (simp add: proxy_after_acquire_def)
        next
          case (Some x)
          then show ?thesis using Continue h \<open>ls = Some c\<close> Inr out
            by (intro exI [of _ "[Internal (Outcome (snd h) x t1 t2), Internal (Noting rnd (endpoint_id (upstreams st ! snd h))
                (if pr_error x = PE_None then ''success'' else ''failure'') d), Internal (CircuitNoted (snd h)), Leave h]"])
              (simp add: proxy_after_acquire_def proxy_finish_def Let_def)
        qed
      qed
    qed
  qed (use Continue in \<open>auto intro: exI [of _ "[]"]\<close>)
qed

lemma handler_steps_places: "\<exists>ops. foldl (handler_step rnd) w evs = foldl px.place_step w ops"
proof (induction evs rule: rev_induct)
  case (snoc ev evs)
  then obtain ops where ops: "foldl (handler_step rnd) w evs = foldl px.place_step w ops" by blast
  obtain st ks where w: "foldl px.place_step w ops = (st, ks)" by fastforce
  from handler_step_places [of rnd st ks ev] obtain ops' where
    "handler_step rnd (st, ks) ev = foldl px.place_step (st, ks) ops'" by blast
  with ops w show ?case by (intro exI [of _ "ops @ ops'"]) simp
qed (auto intro: exI [of _ "[]"])

section \<open>The search\<close>


definition admits :: "ReverseProxy \<Rightarrow> nat \<times> int \<Rightarrow> bool" where
  "admits st x = (case x of (j, now) \<Rightarrow>
     isHealthy (health st) (endpoint_id (upstreams st ! j)) \<and> fst (allowRequest (circuits st ! j) now))"



text \<open>One endpoint is looked at per attempt, and a failed attempt touches only the breaker of its endpoint.\<close>

definition passed_over :: "(nat \<Rightarrow> int) \<Rightarrow> nat \<Rightarrow> ReverseProxy \<Rightarrow> ReverseProxy" where
  "passed_over clk m st = (let candidate = next_upstream st mod length (upstreams st) in
     st\<lparr>next_upstream := u64_inc (next_upstream st), circuits := (circuits st)[candidate :=
       (if isHealthy (health st) (endpoint_id (upstreams st ! candidate))
        then snd (allowRequest (circuits st ! candidate) (clk m)) else circuits st ! candidate)]\<rparr>)"

lemma select_loop_turn:
  assumes "length (circuits st) = length (upstreams st)" "0 < length (upstreams st)"
  shows "select_loop (Suc m) clk st r e =
     (let x = (next_upstream st mod length (upstreams st), clk m); st2 = passed_over clk m st;
          snapshot = breaker_snapshot (circuits st2 ! fst x)
      in if admits st x then (Some (fst x), r, e, st2)
         else if cs_state snapshot \<noteq> CS_Closed
         then select_loop m clk st2 True (if e = 0 \<or> cs_retry_at snapshot < e then cs_retry_at snapshot else e)
         else select_loop m clk st2 r e)"
proof -
  have "next_upstream st mod length (upstreams st) < length (circuits st)" using assms by simp
  then show ?thesis by (simp add: admits_def passed_over_def Let_def case_prod_beta)
qed

lemma passed_over_same [simp]:
  "upstreams (passed_over clk m st) = upstreams st" "health (passed_over clk m st) = health st"
  "in_flight (passed_over clk m st) = in_flight st" "rp_limits (passed_over clk m st) = rp_limits st"
  "length (circuits (passed_over clk m st)) = length (circuits st)"
  "next_upstream (passed_over clk m st) = u64_inc (next_upstream st)"
  by (simp_all add: passed_over_def Let_def)







section \<open>What every history of the handler keeps\<close>

definition handler_shape :: "UpstreamEndpoint list \<Rightarrow> ReverseProxy \<times> in_handler list \<Rightarrow> bool" where
  "handler_shape us w \<longleftrightarrow> upstreams (fst w) = us \<and> length (circuits (fst w)) = length us"

lemma place_step_shape: "handler_shape us w \<Longrightarrow> handler_shape us (px.place_step w op)"
proof (cases "(w, op)" rule: px.place_step.cases)
  case (3 st ks i)
  assume "handler_shape us w"
  with 3 handler_work_load [of st i] show ?thesis by (simp add: handler_shape_def same_load_def)
qed (auto simp: handler_shape_def proxy_admit_def proxy_release_def)

lemma places_shape: "handler_shape us w \<Longrightarrow> handler_shape us (foldl px.place_step w ops)"
  by (induction ops rule: rev_induct) (simp_all add: place_step_shape)

lemma handler_steps_shape: "handler_shape us w \<Longrightarrow> handler_shape us (foldl (handler_step rnd) w evs)"
  using handler_steps_places [of rnd w evs] places_shape [of us w] by metis

lemma select_loop_in_range:
  assumes "length (circuits st) = length (upstreams st)" "0 < length (upstreams st)"
    and "select_loop m clk st r e = (Some j, r', e', st')"
  shows "j < length (upstreams st)"
  using assms
proof (induction m arbitrary: st r e)
  case (Suc m)
  show ?case
    using Suc.prems(3) Suc.IH [of "passed_over clk m st"] Suc.prems(1,2)
    by (auto simp: select_loop_turn [OF Suc.prems(1,2), of m clk r e, unfolded Let_def] simp del: select_loop.simps split: if_splits)
qed simp

lemma started_select:
  assumes "proxy_begin rnd clk now st = (Started i, st')"
  obtains r e where "select_loop (length (upstreams st)) clk (st\<lparr>in_flight := in_flight st + 1\<rparr>) False 0 = (Some i, r, e, st')"
  using assms by (fastforce simp: proxy_begin_def proxy_admit_def split: if_splits option.splits bool.splits prod.splits)

lemma started_in_range:
  assumes "proxy_begin rnd clk now st = (Started i, st')" "length (circuits st) = length (upstreams st)" "upstreams st \<noteq> []"
  shows "i < length (upstreams st)"
proof -
  let ?st = "st\<lparr>in_flight := in_flight st + 1\<rparr>"
  from started_select [OF assms(1)] obtain r e where
    "select_loop (length (upstreams st)) clk ?st False 0 = (Some i, r, e, st')" .
  from select_loop_in_range [OF _ _ this] assms(2,3) show ?thesis by simp
qed

definition in_range :: "nat \<Rightarrow> in_handler list \<Rightarrow> bool" where
  "in_range n ks \<longleftrightarrow> list_all (\<lambda>h. snd h < n) ks"

lemma in_range_remove1: "in_range n ks \<Longrightarrow> in_range n (remove1 h ks)"
  by (auto simp: in_range_def list_all_iff dest: notin_set_remove1)

lemma handler_step_in_range:
  assumes "handler_shape us (st, ks)" "us \<noteq> []" "in_range (length us) ks"
  shows "in_range (length us) (snd (handler_step rnd (st, ks) ev))"
proof (cases ev)
  case (Begin k clk now)
  then show ?thesis using assms started_in_range [of rnd clk now st]
    by (auto simp: handler_shape_def in_range_def split: start.splits prod.splits)
next
  case (LookUpPool h)
  then show ?thesis using assms in_range_remove1 by (auto split: sum.splits)
next
  case (Continue h ctx w rq ls transport_open ev t1 t2 d)
  then show ?thesis using assms in_range_remove1 by (auto split: sum.splits prod.splits option.splits)
qed

lemma add_endpoints_circuits: "add_endpoints us l now h cs = Inr (h', cs') \<Longrightarrow> length cs' = length cs + length us"
  by (induction us l now h cs rule: add_endpoints.induct) (auto simp: ebind_def split: sum.splits)

lemma made_proxy:
  assumes "ReverseProxy_make us l now = Inr st"
  shows "handler_shape us (st, [])" "px.within (st, [])" "us \<noteq> []" "rp_limits st = l"
  using assms add_endpoints_circuits
  by (auto simp: ReverseProxy_make_def ebind_def handler_shape_def px.within_def proxy_holds_def split: if_splits sum.splits)

section \<open>Properties\<close>

text \<open>
  C12: The limit on requests in flight holds in every interleaving of any number of requests: the counter is
  exactly the number of requests inside the handler, whatever they end with, an exception
  included; it never exceeds the configured maximum, a new request is admitted exactly when there is
  a free place, and every request inside the handler has an upstream of the table with its breaker.
\<close>

theorem in_flight_limit_holds:
  assumes "ReverseProxy_make us l now = Inr st0" "foldl (handler_step rnd) (st0, []) evs = (st, ks)"
  shows "in_flight st = length ks \<and> in_flight st \<le> max_in_flight_requests l \<and>
     fst (proxy_admit st) = (length ks < max_in_flight_requests l) \<and>
     (\<forall>(k, i) \<in> set ks. i < length (upstreams st) \<and> i < length (circuits st))"
proof -
  obtain ops where ops: "foldl px.place_step (st0, []) ops = (st, ks)"
    using handler_steps_places [of rnd "(st0, [])" evs] assms(2) by auto
  have "px.within (st, ks)" "rp_limits st = l \<or> max_in_flight_requests (rp_limits st) = max_in_flight_requests l"
    using px.never_over_places [OF made_proxy(2) [OF assms(1)], of ops] ops made_proxy(4) [OF assms(1)] by simp_all
  moreover have shape: "handler_shape us (st, ks)"
    using handler_steps_shape [OF made_proxy(1) [OF assms(1)], of rnd evs] assms(2) by simp
  moreover have "in_range (length us) (snd (foldl (handler_step rnd) (st0, []) evs))"
  proof (induction evs rule: rev_induct)
    case (snoc ev evs)
    obtain st1 ks1 where w: "foldl (handler_step rnd) (st0, []) evs = (st1, ks1)" by fastforce
    with handler_steps_shape [OF made_proxy(1) [OF assms(1)], of rnd evs] have "handler_shape us (st1, ks1)" by simp
    with handler_step_in_range [OF this made_proxy(3) [OF assms(1)], of rnd ev] snoc w show ?case by simp
  qed (simp add: in_range_def)
  ultimately show ?thesis
    using assms(2) by (auto simp: px.within_def proxy_holds_def proxy_admit_def handler_shape_def in_range_def list_all_iff)
qed

definition two_upstreams :: "UpstreamEndpoint list" where
  "two_upstreams = [\<lparr>host = ''a'', service = ''80''\<rparr>, \<lparr>host = ''b'', service = ''80''\<rparr>]"

definition two_proxy :: ReverseProxy where
  "two_proxy = (case ReverseProxy_make two_upstreams (ProxyLimits_default\<lparr>max_in_flight_requests := 2\<rparr>) 0 of Inr st \<Rightarrow> st)"

lemma two_proxy_made: "ReverseProxy_make two_upstreams (ProxyLimits_default\<lparr>max_in_flight_requests := 2\<rparr>) 0 = Inr two_proxy"
proof -
  have "(case ReverseProxy_make two_upstreams (ProxyLimits_default\<lparr>max_in_flight_requests := 2\<rparr>) 0 of Inr _ \<Rightarrow> True | Inl _ \<Rightarrow> False)"
    by code_simp
  then show ?thesis by (auto simp: two_proxy_def split: sum.splits)
qed

theorem in_flight_limit_holds_witness:
  "\<exists>st. foldl (handler_step (\<lambda>x. x)) (two_proxy, []) [Begin 1 (\<lambda>_. 0) 0, Begin 2 (\<lambda>_. 0) 0, Begin 3 (\<lambda>_. 0) 0] = (st, [(2, 1), (1, 0)]) \<and>
     in_flight st = 2 \<and> \<not> fst (proxy_admit st)"
proof -
  let ?w = "foldl (handler_step (\<lambda>x. x)) (two_proxy, []) [Begin 1 (\<lambda>_. 0) 0, Begin 2 (\<lambda>_. 0) 0, Begin 3 (\<lambda>_. 0) 0]"
  have "snd ?w = [(2, 1), (1, 0)]" by code_simp
  then obtain st where w: "?w = (st, [(2, 1), (1, 0)])" by (metis prod.collapse)
  from in_flight_limit_holds [OF two_proxy_made w] w show ?thesis by simp
qed



text \<open>
  An upstream that fails after the head of its response was forwarded leaves no trace: the streamed result carries
  neither an error nor a status, so it is recorded as a success of the endpoint and its breaker closes.
\<close>

lemma interrupted_stream_counts_as_success:
  "record_result st i streamedCloseResult t1 t2 =
     update_circuit (st\<lparr>health := health_recordSuccess (health st) (endpoint_id (upstreams st ! i)) t1\<rparr>) i recordSuccess"
  by (simp add: record_result_def upstream_failure_def streamedCloseResult_def Let_def)

end
