(* ===== verification/SessionRegistry.thy ===== *)
theory SessionRegistry
  imports Interfaces "HOL-Library.Multiset"
begin

text \<open>
  The registry of client sessions, \<open>src/http/http_server.cpp\<close> and \<open>session_lifecycle.h\<close>: weak pointers to the
  sessions by id, a limit on their number, and a count of closed sessions by reason. A weak pointer is
  the number of the session object it refers to; whether that object is gone is a parameter,
  \<open>expired\<close>. Every operation runs under the registry's mutex.
\<close>

section \<open>State and operations\<close>

datatype SessionState = SS_Created | SS_Running | SS_Draining | SS_Closing | SS_Closed

datatype StopReason =
    SR_None | SR_PeerClosed | SR_ProtocolError | SR_HeaderTimeout | SR_BodyTimeout | SR_IdleTimeout
  | SR_ServerShutdown | SR_ResourceLimit | SR_InternalError

fun toString :: "StopReason \<Rightarrow> string" where
  "toString SR_None = ''none''"
| "toString SR_PeerClosed = ''peer_closed''"
| "toString SR_ProtocolError = ''protocol_error''"
| "toString SR_HeaderTimeout = ''header_timeout''"
| "toString SR_BodyTimeout = ''body_timeout''"
| "toString SR_IdleTimeout = ''idle_timeout''"
| "toString SR_ServerShutdown = ''server_shutdown''"
| "toString SR_ResourceLimit = ''resource_limit''"
| "toString SR_InternalError = ''internal_error''"

type_synonym SessionId = nat

record SessionRegistry =
  maximum_sessions :: nat
  sessions :: "(SessionId \<times> nat) list"
  closed_counts :: "StopReason \<rightharpoonup> nat"
  reg_draining :: bool

definition SessionRegistry_make :: "nat \<Rightarrow> SessionRegistry outcome" where
  "SessionRegistry_make n =
     (if n = 0 then Inl Invalid_Argument
      else Inr \<lparr>maximum_sessions = n, sessions = [], closed_counts = Map.empty, reg_draining = False\<rparr>)"

definition pruneExpiredLocked :: "(nat \<Rightarrow> bool) \<Rightarrow> SessionRegistry \<Rightarrow> SessionRegistry" where
  "pruneExpiredLocked expired r = r\<lparr>sessions := filter (\<lambda>(sid, w). \<not> expired w) (sessions r)\<rparr>"

text \<open>\<open>emplace\<close> does not replace a session of the same id.\<close>

definition tryAdd :: "(nat \<Rightarrow> bool) \<Rightarrow> SessionRegistry \<Rightarrow> SessionId \<Rightarrow> nat \<Rightarrow> bool \<times> SessionRegistry" where
  "tryAdd expired r sid session =
     (let r1 = pruneExpiredLocked expired r
      in if reg_draining r1 \<or> maximum_sessions r1 \<le> length (sessions r1) then (False, r1)
         else if map_of (sessions r1) sid \<noteq> None then (False, r1)
         else (True, r1\<lparr>sessions := (sid, session) # sessions r1\<rparr>))"

definition count_closed :: "SessionRegistry \<Rightarrow> StopReason \<Rightarrow> SessionRegistry" where
  "count_closed r reason =
     r\<lparr>closed_counts := (closed_counts r)(reason \<mapsto> u64_inc (case closed_counts r reason of None \<Rightarrow> 0 | Some n \<Rightarrow> n))\<rparr>"

definition recordRejected :: "SessionRegistry \<Rightarrow> StopReason \<Rightarrow> SessionRegistry" where
  "recordRejected r reason = count_closed r reason"

definition registry_remove :: "SessionRegistry \<Rightarrow> SessionId \<Rightarrow> StopReason \<Rightarrow> SessionRegistry" where
  "registry_remove r sid reason =
     (if map_of (sessions r) sid \<noteq> None
      then count_closed (r\<lparr>sessions := filter (\<lambda>(i, w). i \<noteq> sid) (sessions r)\<rparr>) reason
      else r)"

definition liveSessions :: "(nat \<Rightarrow> bool) \<Rightarrow> SessionRegistry \<Rightarrow> nat list \<times> SessionRegistry" where
  "liveSessions expired r = (let r1 = pruneExpiredLocked expired r in (map snd (sessions r1), r1))"

text \<open>The two calls that reach the sessions: the registry's part is the flag and the list of sessions to call.\<close>

definition registry_beginDrain :: "(nat \<Rightarrow> bool) \<Rightarrow> SessionRegistry \<Rightarrow> nat list \<times> SessionRegistry" where
  "registry_beginDrain expired r = liveSessions expired (r\<lparr>reg_draining := True\<rparr>)"

definition forceCloseAll :: "(nat \<Rightarrow> bool) \<Rightarrow> SessionRegistry \<Rightarrow> nat list \<times> SessionRegistry" where
  "forceCloseAll expired r = liveSessions expired r"

definition registry_size :: "(nat \<Rightarrow> bool) \<Rightarrow> SessionRegistry \<Rightarrow> nat \<times> SessionRegistry" where
  "registry_size expired r = (let r1 = pruneExpiredLocked expired r in (length (sessions r1), r1))"

definition closedCount :: "SessionRegistry \<Rightarrow> StopReason \<Rightarrow> nat" where
  "closedCount r reason = (case closed_counts r reason of None \<Rightarrow> 0 | Some n \<Rightarrow> n)"

section \<open>Lemmas\<close>

definition registered :: "SessionRegistry \<Rightarrow> SessionId set" where
  "registered r = fst ` set (sessions r)"

definition registry_inv :: "SessionRegistry \<Rightarrow> bool" where
  "registry_inv r \<longleftrightarrow> distinct (map fst (sessions r)) \<and> length (sessions r) \<le> maximum_sessions r"

lemma registry_inv_make: "SessionRegistry_make n = Inr r \<Longrightarrow> registry_inv r \<and> registered r = {} \<and> \<not> reg_draining r"
  by (auto simp: SessionRegistry_make_def registry_inv_def registered_def split: if_splits)

lemma prune_none: "\<forall>(sid, w) \<in> set (sessions r). \<not> expired w \<Longrightarrow> pruneExpiredLocked expired r = r"
  by (simp add: pruneExpiredLocked_def case_prod_unfold filter_id_conv)

lemma unregistered_iff: "map_of (sessions r) sid = None \<longleftrightarrow> sid \<notin> registered r"
  by (simp add: map_of_eq_None_iff registered_def)

lemma count_closed_simps [simp]:
  "sessions (count_closed r reason) = sessions r" "maximum_sessions (count_closed r reason) = maximum_sessions r"
  "reg_draining (count_closed r reason) = reg_draining r" "registered (count_closed r reason) = registered r"
  by (simp_all add: count_closed_def registered_def)

lemma closedCount_count_closed:
  "closedCount (count_closed r reason) reason' = (if reason' = reason then u64_inc (closedCount r reason) else closedCount r reason')"
  by (simp add: closedCount_def count_closed_def)

lemma remove_simps [simp]:
  "maximum_sessions (registry_remove r sid reason) = maximum_sessions r"
  "reg_draining (registry_remove r sid reason) = reg_draining r"
  by (simp_all add: registry_remove_def)

lemma sessions_remove: "sessions (registry_remove r sid reason) = filter (\<lambda>(i, w). i \<noteq> sid) (sessions r)"
proof (cases "sid \<in> registered r")
  case False
  then have "filter (\<lambda>(i, w). i \<noteq> sid) (sessions r) = sessions r"
    by (force simp: registered_def filter_id_conv)
  with False show ?thesis by (simp add: registry_remove_def unregistered_iff)
qed (simp add: registry_remove_def unregistered_iff)

lemma registered_remove [simp]: "registered (registry_remove r sid reason) = registered r - {sid}"
  by (force simp: registered_def sessions_remove)

lemma registry_inv_remove: "registry_inv r \<Longrightarrow> registry_inv (registry_remove r sid reason)"
  by (auto simp: registry_inv_def sessions_remove distinct_map_filter intro: le_trans [OF length_filter_le])

lemma tryAdd_True:
  assumes "tryAdd expired r sid w = (True, r')" "\<forall>(sid, w) \<in> set (sessions r). \<not> expired w"
  shows "r' = r\<lparr>sessions := (sid, w) # sessions r\<rparr>" "sid \<notin> registered r" "\<not> reg_draining r"
    "length (sessions r) < maximum_sessions r"
  using assms by (auto simp: tryAdd_def prune_none Let_def unregistered_iff split: if_splits)

lemma tryAdd_False:
  assumes "tryAdd expired r sid w = (False, r')" "\<forall>(sid, w) \<in> set (sessions r). \<not> expired w"
  shows "r' = r" "reg_draining r \<or> maximum_sessions r \<le> length (sessions r) \<or> sid \<in> registered r"
  using assms by (auto simp: tryAdd_def prune_none Let_def unregistered_iff split: if_splits)

section \<open>The registry as an admission control\<close>

text \<open>While no registered session has expired, adding and removing satisfy the contract of \<open>admission\<close>.\<close>

datatype registry_work = Rejecting StopReason | Draining

fun registry_work_step :: "registry_work \<Rightarrow> SessionRegistry \<Rightarrow> SessionRegistry" where
  "registry_work_step (Rejecting reason) r = recordRejected r reason"
| "registry_work_step Draining r = snd (registry_beginDrain (\<lambda>w. False) r)"

definition registry_holds :: "SessionRegistry \<Rightarrow> SessionId list \<Rightarrow> bool" where
  "registry_holds r ks \<longleftrightarrow> distinct (map fst (sessions r)) \<and> mset (map fst (sessions r)) = mset ks"

lemma mset_remove_key:
  "distinct (map fst xs) \<Longrightarrow> mset (map fst (filter (\<lambda>(i, w). i \<noteq> k) xs)) = mset (map fst xs) - {#k#}"
proof (induction xs)
  case (Cons x xs)
  obtain i w where x: "x = (i, w)" by fastforce
  show ?case
  proof (cases "i = k")
    case True
    with Cons x have "filter (\<lambda>(i, w). i \<noteq> k) xs = xs" by (force simp: filter_id_conv)
    with True x show ?thesis by simp
  next
    case False
    with Cons x show ?thesis by (simp add: add_mset_diff_bothsides)
  qed
qed simp

interpretation reg: admission "\<lambda>sid r. tryAdd (\<lambda>w. False) r sid sid" "\<lambda>sid r. registry_remove r sid reason"
  registry_work_step registry_holds maximum_sessions for reason
proof
  fix r ks sid r'
  assume h: "registry_holds r ks"
  then have len: "length ks = length (sessions r)" by (metis registry_holds_def length_map size_mset)
  show "length ks < maximum_sessions r \<and> registry_holds r' (sid # ks) \<and> maximum_sessions r' = maximum_sessions r"
    if "tryAdd (\<lambda>w. False) r sid sid = (True, r')"
    using tryAdd_True [OF that] h len by (simp add: registry_holds_def registered_def)
  show "registry_holds r' ks \<and> maximum_sessions r' = maximum_sessions r" if "tryAdd (\<lambda>w. False) r sid sid = (False, r')"
    using tryAdd_False(1) [OF that] h by simp
next
  fix r ks sid
  assume "registry_holds r ks" "sid \<in> set ks"
  then show "registry_holds (registry_remove r sid reason) (remove1 sid ks) \<and>
      maximum_sessions (registry_remove r sid reason) = maximum_sessions r"
    unfolding registry_holds_def sessions_remove by (metis mset_remove_key distinct_map_filter mset_remove1 remove_simps(1))
next
  fix r ks i
  assume "registry_holds r ks"
  then show "registry_holds (registry_work_step i r) ks \<and> maximum_sessions (registry_work_step i r) = maximum_sessions r"
    by (cases i) (simp_all add: registry_holds_def recordRejected_def registry_beginDrain_def liveSessions_def prune_none Let_def)
qed

end
