(* ===== verification/Deadline.thy ===== *)
theory Deadline
  imports Prelude
begin

text \<open>
  The deadline timer of \<open>src/net/deadline.cpp\<close>. Cancelling a timer does not recall a completion that is already
  queued, so every wait carries the ticket of its generation and compares it when it completes.
  \<open>waits\<close> are the waits that have not completed; a callback is what the model keeps of the closure.
\<close>

section \<open>State and operations\<close>

record 'a Deadline =
  generation :: nat
  waits :: "(nat \<times> 'a) list"

definition Deadline_make :: "'a Deadline" where
  "Deadline_make = \<lparr>generation = 0, waits = []\<rparr>"

definition arm :: "'a Deadline \<Rightarrow> 'a \<Rightarrow> 'a Deadline" where
  "arm d on_expire =
     (let ticket = u64_inc (generation d)
      in d\<lparr>generation := ticket, waits := (ticket, on_expire) # waits d\<rparr>)"

definition disarm :: "'a Deadline \<Rightarrow> 'a Deadline" where
  "disarm d = d\<lparr>generation := u64_inc (generation d)\<rparr>"

text \<open>A wait completes, with an error when it was cancelled in time: the callback that runs, if any.\<close>

definition wait_completes :: "'a Deadline \<Rightarrow> nat \<times> 'a \<Rightarrow> bool \<Rightarrow> 'a option \<times> 'a Deadline" where
  "wait_completes d w error =
     (if \<not> error \<and> fst w = generation d then Some (snd w) else None, d\<lparr>waits := remove1 w (waits d)\<rparr>)"

section \<open>Histories\<close>

datatype 'a deadline_op = Arm 'a | Disarm | Completes "nat \<times> 'a" bool

fun deadline_step :: "'a Deadline \<Rightarrow> 'a deadline_op \<Rightarrow> 'a Deadline" where
  "deadline_step d (Arm cb) = arm d cb"
| "deadline_step d Disarm = disarm d"
| "deadline_step d (Completes w error) = snd (wait_completes d w error)"

text \<open>What the owner means: the callback of the last \<open>arm\<close>, unless it disarmed since.\<close>

fun intended :: "'a deadline_op list \<Rightarrow> 'a option" where
  "intended [] = None"
| "intended (Arm cb # earlier) = Some cb"
| "intended (Disarm # earlier) = None"
| "intended (Completes w error # earlier) = intended earlier"

fun turns :: "'a deadline_op list \<Rightarrow> nat" where
  "turns [] = 0"
| "turns (Completes w error # earlier) = turns earlier"
| "turns (_ # earlier) = Suc (turns earlier)"

definition tickets_ok :: "'a deadline_op list \<Rightarrow> 'a Deadline \<Rightarrow> bool" where
  "tickets_ok past d \<longleftrightarrow> generation d = turns past \<and>
     (\<forall>(t, cb) \<in> set (waits d). t \<le> turns past \<and> (t = turns past \<longrightarrow> intended past = Some cb))"

lemma tickets_ok_step:
  assumes "tickets_ok past d" "turns (op # past) < 2 ^ 64"
  shows "tickets_ok (op # past) (deadline_step d op)"
proof (cases op)
  case (Arm cb)
  then show ?thesis using assms by (fastforce simp: tickets_ok_def arm_def Let_def u64_inc_def)
next
  case Disarm
  then show ?thesis using assms by (fastforce simp: tickets_ok_def disarm_def u64_inc_def)
next
  case (Completes w error)
  then show ?thesis using assms by (auto simp: tickets_ok_def wait_completes_def dest: notin_set_remove1)
qed

text \<open>The history, latest operation first.\<close>

lemma tickets_ok_history: "turns past < 2 ^ 64 \<Longrightarrow> tickets_ok past (foldr (\<lambda>op d. deadline_step d op) past Deadline_make)"
proof (induction past)
  case (Cons op past)
  then have "turns past < 2 ^ 64" by (cases op) auto
  with Cons tickets_ok_step [of past _ op] show ?case by simp
qed (simp add: tickets_ok_def Deadline_make_def)

section \<open>Property\<close>

text \<open>
  An old wait never expires a newer operation: after any history of fewer than \<open>2^64\<close> calls, a wait that
  completes runs a callback only if it is the callback of the last \<open>arm\<close> and the deadline was
  not disarmed since.
\<close>

theorem deadline_fires_only_the_current_wait:
  assumes "turns past < 2 ^ 64" "d = foldr (\<lambda>op d. deadline_step d op) past Deadline_make" "w \<in> set (waits d)"
    and "wait_completes d w error = (Some cb, d')"
  shows "intended past = Some cb \<and> \<not> error"
  using tickets_ok_history [OF assms(1)] assms(2-4)
  by (cases w) (fastforce simp: tickets_ok_def wait_completes_def split: if_splits)

theorem deadline_fires_only_the_current_wait_witness:
  "intended [Arm (2 :: nat), Disarm, Arm 1] = Some 2 \<and>
   fst (wait_completes (foldr (\<lambda>op d. deadline_step d op) [Arm (2 :: nat), Disarm, Arm 1] Deadline_make) (1, 1) False) = None"
proof -
  let ?past = "[Arm (2 :: nat), Disarm, Arm 1]"
  let ?d = "foldr (\<lambda>op d. deadline_step d op) ?past Deadline_make"
  have "wait_completes ?d (3, 2) False = (Some 2, ?d\<lparr>waits := remove1 (3, 2) (waits ?d)\<rparr>)" "(3, 2) \<in> set (waits ?d)" by code_simp+
  then have "intended ?past = Some 2"
    using deadline_fires_only_the_current_wait [of ?past ?d "(3, 2)" False 2] by simp
  moreover have "fst (wait_completes ?d (1, 1) False) = None" by code_simp
  ultimately show ?thesis by simp
qed

end
