(* ===== verification/HttpSession.thy ===== *)
theory HttpSession
  imports SessionRegistry Deadline HttpParser ReverseProxy
begin

text \<open>
  A client session, \<open>HttpSession\<close> of \<open>src/http/http_server.cpp\<close>. The coroutine \<open>run\<close> is cut at its suspension
  points; between two of them it runs alone on its strand, so one event (the completion it waited
  for, a timer, a posted stop or drain) is one step on the session and on what it shares with the
  others, the \<open>gateway\<close>: registry, router with the metrics, and access log.
\<close>

section \<open>State\<close>

record SessionLimits =
  parser_limits :: HttpParserLimits
  sl_read_chunk_bytes :: nat
  sl_max_buffer_bytes :: nat
  header_timeout :: int
  body_timeout :: int
  idle_timeout :: int
  max_connections :: nat

definition SessionLimits_default :: SessionLimits where
  "SessionLimits_default =
     \<lparr>parser_limits = HttpParserLimits_default, sl_read_chunk_bytes = 4096, sl_max_buffer_bytes = 2 * 1024 * 1024,
      header_timeout = 10000, body_timeout = 30000, idle_timeout = 15000, max_connections = 1024\<rparr>"

text \<open>The locals of \<open>run\<close> that live across the handler and the write of the response.\<close>

record serving =
  sv_request :: HttpRequest
  close_after_response :: bool
  sv_head_request :: bool
  sv_method :: string
  sv_target :: string
  sv_bytes_in :: nat
  sv_started :: int
  sv_context :: RequestContext

text \<open>
  Where the coroutine is suspended: not started, in a read of at most so many bytes, in the router (with the
  size of the downstream write in progress), in the write of a response or of a parser error, at the
  end of an exchange whose response needs no write, or finished.
\<close>

datatype session_point =
    At_Start
  | At_Read nat
  | At_Handler serving pending "nat option"
  | At_Response serving HttpResponse nat
  | At_Error nat
  | At_Written serving HttpResponse
  | At_End

text \<open>\<open>peer_of\<close> is what \<open>remote_endpoint\<close> answers; the last three fields only observe the session.\<close>

record HttpSession =
  ss_id :: SessionId
  ss_limits :: SessionLimits
  ss_input :: buffer
  ss_parser :: HttpParser
  deadline :: "StopReason Deadline"
  current_proxy :: "nat option"
  ss_state :: SessionState
  ss_reason :: StopReason
  reading :: bool
  served_request :: bool
  close_recorded :: bool
  response_bytes :: nat
  socket_open :: bool
  peer_of :: "(bool \<times> string)"
  where_at :: session_point
  received :: string
  exchanges :: "(HttpRequest \<times> HttpResponse) list"
  proxy_cancels :: "(nat \<times> ProxyStopReason) list"

record gateway =
  gw_registry :: SessionRegistry
  gw_router :: Router
  gw_logger :: AsyncLogger

type_synonym session_state = "HttpSession \<times> gateway"

definition HttpSession_make :: "SessionId \<Rightarrow> SessionLimits \<Rightarrow> (bool \<times> string) \<Rightarrow> HttpSession outcome" where
  "HttpSession_make sid l p =
     ebind (Buffer_make (sl_read_chunk_bytes l) (sl_max_buffer_bytes l)) (\<lambda>b.
     ebind (HttpParser_make (parser_limits l)) (\<lambda>q.
       if sl_read_chunk_bytes l = 0 \<or> sl_max_buffer_bytes l < sl_read_chunk_bytes l \<or>
          sl_max_buffer_bytes l < max_header_bytes (parser_limits l) \<or>
          sl_max_buffer_bytes l - max_header_bytes (parser_limits l) < max_body_bytes (parser_limits l) \<or>
          header_timeout l \<le> 0 \<or> body_timeout l \<le> 0 \<or> idle_timeout l \<le> 0
       then Inl Invalid_Argument
       else Inr \<lparr>ss_id = sid, ss_limits = l, ss_input = b, ss_parser = q, deadline = Deadline_make,
                 current_proxy = None, ss_state = SS_Created, ss_reason = SR_None, reading = False,
                 served_request = False, close_recorded = False, response_bytes = 0, socket_open = True,
                 peer_of = p, where_at = At_Start, received = [], exchanges = [], proxy_cancels = []\<rparr>))"

section \<open>Closing\<close>

definition note_metrics :: "(MetricsRegistry \<Rightarrow> MetricsRegistry) \<Rightarrow> gateway \<Rightarrow> gateway" where
  "note_metrics f g = g\<lparr>gw_router := (gw_router g)\<lparr>metrics := map_option f (metrics (gw_router g))\<rparr>\<rparr>"

definition noted_reason :: "HttpSession \<Rightarrow> StopReason \<Rightarrow> HttpSession" where
  "noted_reason s reason = (if ss_reason s = SR_None then s\<lparr>ss_reason := reason\<rparr> else s)"

definition closeInExecutor :: "StopReason \<Rightarrow> session_state \<Rightarrow> session_state" where
  "closeInExecutor reason x = (case x of (s, g) \<Rightarrow>
     if ss_state s = SS_Closed \<or> ss_state s = SS_Closing then (s, g)
     else
       let s1 = noted_reason s reason;
           cancelled = (case current_proxy s1 of None \<Rightarrow> []
             | Some p \<Rightarrow> [(p, if reason = SR_ServerShutdown then Stop_ServerShutdown else Stop_DownstreamClosed)]);
           s2 = s1\<lparr>deadline := disarm (deadline s1), proxy_cancels := proxy_cancels s1 @ cancelled, current_proxy := None,
                   socket_open := False, ss_state := SS_Closed\<rparr>
       in if close_recorded s2 then (s2, g)
          else (s2\<lparr>close_recorded := True\<rparr>,
                note_metrics connectionClosed
                  (g\<lparr>gw_registry := registry_remove (gw_registry g) (ss_id s2) (ss_reason s2)\<rparr>)))"

definition beginDrainInExecutor :: "session_state \<Rightarrow> session_state" where
  "beginDrainInExecutor x = (case x of (s, g) \<Rightarrow>
     if ss_state s = SS_Closing \<or> ss_state s = SS_Closed then (s, g)
     else
       let s1 = s\<lparr>ss_state := SS_Draining\<rparr>
       in if reading s1 then closeInExecutor SR_ServerShutdown (s1, g) else (s1, g))"

text \<open>The end of \<open>run\<close>, and what happens when an exception leaves it.\<close>

definition finish_run :: "session_state \<Rightarrow> session_state" where
  "finish_run x = (case x of (s, g) \<Rightarrow>
     case (if ss_state s \<noteq> SS_Closed
           then closeInExecutor (if ss_reason s = SR_None then SR_PeerClosed else ss_reason s) (s, g)
           else (s, g)) of
       (s1, g1) \<Rightarrow> (s1\<lparr>where_at := At_End\<rparr>, note_metrics coroutineFinished g1))"

definition run_fails :: "session_state \<Rightarrow> session_state" where
  "run_fails x = (case x of (s, g) \<Rightarrow>
     closeInExecutor SR_InternalError (s\<lparr>where_at := At_End\<rparr>, note_metrics coroutineFinished g))"

section \<open>Reading a request\<close>

fun makeErrorResponse :: "ParseResult \<Rightarrow> HttpResponse outcome" where
  "makeErrorResponse PR_BadRequest = Inr (HttpResponse_default\<lparr>rs_close_connection := True,
     rs_status_code := 400, rs_reason := ''Bad Request'', rs_body := ''bad request'' @ [LF]\<rparr>)"
| "makeErrorResponse PR_HeaderTooLarge = Inr (HttpResponse_default\<lparr>rs_close_connection := True,
     rs_status_code := 431, rs_reason := ''Request Header Fields Too Large'',
     rs_body := ''request header fields too large'' @ [LF]\<rparr>)"
| "makeErrorResponse PR_BodyTooLarge = Inr (HttpResponse_default\<lparr>rs_close_connection := True,
     rs_status_code := 413, rs_reason := ''Content Too Large'', rs_body := ''request body too large'' @ [LF]\<rparr>)"
| "makeErrorResponse PR_UnsupportedTransferEncoding = Inr (HttpResponse_default\<lparr>rs_close_connection := True,
     rs_status_code := 501, rs_reason := ''Not Implemented'', rs_body := ''transfer encoding is not supported'' @ [LF]\<rparr>)"
| "makeErrorResponse PR_NeedMore = Inl Logic_Error"
| "makeErrorResponse PR_Complete = Inl Logic_Error"

definition safeTarget :: "string \<Rightarrow> string" where
  "safeTarget target = (case find_char (CHR ''?'') target of None \<Rightarrow> target | Some k \<Rightarrow> take k target)"

text \<open>The timeout that applies to the next read, and the reason it closes the session with.\<close>

definition read_deadline :: "HttpSession \<Rightarrow> StopReason \<times> int" where
  "read_deadline s =
     (if p_state (ss_parser s) = PS_Body then (SR_BodyTimeout, body_timeout (ss_limits s))
      else if served_request s \<and> p_state (ss_parser s) = PS_RequestLine \<and> readableBytes (ss_input s) = 0
      then (SR_IdleTimeout, idle_timeout (ss_limits s))
      else (SR_HeaderTimeout, header_timeout (ss_limits s)))"

definition armReadDeadline :: "HttpSession \<Rightarrow> HttpSession" where
  "armReadDeadline s = s\<lparr>deadline := arm (deadline s) (fst (read_deadline s))\<rparr>"

text \<open>The part of a write before it suspends, and the scope exit and error handling after it.\<close>

definition begin_write :: "nat \<Rightarrow> session_state \<Rightarrow> session_state" where
  "begin_write n x = (case x of (s, g) \<Rightarrow>
     (s\<lparr>response_bytes := sz_add (response_bytes s) n\<rparr>, note_metrics (\<lambda>m. addOutputBufferBytes m n) g))"

definition end_write :: "nat \<Rightarrow> bool \<Rightarrow> session_state \<Rightarrow> session_state" where
  "end_write n ok x = (case x of (s, g) \<Rightarrow>
     (if ok then s else noted_reason s SR_PeerClosed, note_metrics (\<lambda>m. removeOutputBufferBytes m n) g))"

definition write_response :: "HttpResponse \<Rightarrow> bool \<Rightarrow> (nat \<Rightarrow> session_point) \<Rightarrow> session_state \<Rightarrow> session_state" where
  "write_response resp head point x =
     (case serialize resp head of
        Inl e \<Rightarrow> run_fails x
      | Inr bytes \<Rightarrow> (case begin_write (length bytes) x of (s, g) \<Rightarrow> (s\<lparr>where_at := point (length bytes)\<rparr>, g)))"

section \<open>Serving a request\<close>

definition context_of :: "HttpSession \<Rightarrow> string \<Rightarrow> RequestContext" where
  "context_of s rid = RequestContext_default\<lparr>request_id := rid, peer_unspecified := fst (peer_of s), peer_address := snd (peer_of s)\<rparr>"

definition serving_of :: "HttpRequest \<Rightarrow> int \<Rightarrow> RequestContext \<Rightarrow> serving" where
  "serving_of rq started ctx =
     \<lparr>sv_request = rq, close_after_response = \<not> keepAlive rq, sv_head_request = (rq_method rq = Head),
      sv_method = methodName (rq_method rq), sv_target = safeTarget (rq_target rq),
      sv_bytes_in = length (rq_body rq), sv_started = started, sv_context = ctx\<rparr>"

text \<open>
  From the taken request to the router's handler, or to the response when the router answers by itself. The
  clock is read for the start and by the limiters and the cache.
\<close>

definition serve_request :: "(real \<Rightarrow> real) \<Rightarrow> (string \<Rightarrow> nat) \<Rightarrow> (nat \<Rightarrow> int) \<Rightarrow> HttpRequest \<Rightarrow> session_state \<Rightarrow> session_state" where
  "serve_request rnd hash clk rq x = (case x of (s, g) \<Rightarrow>
     if ss_state s = SS_Closing \<or> ss_state s = SS_Closed then finish_run (s, g)
     else
       case nextRequestId (gw_router g) of (rid, r) \<Rightarrow>
         let s1 = s\<lparr>response_bytes := 0\<rparr>; g1 = g\<lparr>gw_router := r\<rparr>; ctx = context_of s rid
         in case handle_begin rnd hash r ctx rq (clk 1) (clk 2) (clk 3) of
              Inl e \<Rightarrow> run_fails (s1, g1)
            | Inr (r1, ctx1, Answered resp) \<Rightarrow>
                let sv = serving_of rq (clk 0) ctx1; y = (s1\<lparr>current_proxy := None\<rparr>, g1\<lparr>gw_router := r1\<rparr>)
                in if rs_already_written resp then (fst y\<lparr>where_at := At_Written sv resp\<rparr>, snd y)
                   else write_response resp (sv_head_request sv) (At_Response sv resp) y
            | Inr (r1, ctx1, Calling h rq1 pd) \<Rightarrow>
                (s1\<lparr>where_at := At_Handler (serving_of rq (clk 0) ctx1) pd None\<rparr>, g1\<lparr>gw_router := r1\<rparr>))"

text \<open>\<open>moved\<close> is the unspecified content of the moved-from request.\<close>

definition read_request :: "(real \<Rightarrow> real) \<Rightarrow> (string \<Rightarrow> nat) \<Rightarrow> HttpRequest \<Rightarrow> (nat \<Rightarrow> int) \<Rightarrow> session_state \<Rightarrow> session_state" where
  "read_request rnd hash moved clk x = (case x of (s, g) \<Rightarrow>
     case parse (ss_parser s) (ss_input s) of
       Inl e \<Rightarrow> run_fails (s, g)
     | Inr (r, p, b) \<Rightarrow>
         let s1 = s\<lparr>ss_parser := p, ss_input := b\<rparr>
         in if r = PR_Complete then
              (case takeRequest moved p of
                 Inl e \<Rightarrow> run_fails (s1, g)
               | Inr (rq, p1) \<Rightarrow> serve_request rnd hash clk rq (s1\<lparr>ss_parser := p1\<rparr>, g))
            else if r \<noteq> PR_NeedMore then
              (case makeErrorResponse r of
                 Inl e \<Rightarrow> run_fails (s1\<lparr>ss_reason := SR_ProtocolError\<rparr>, g)
               | Inr resp \<Rightarrow> write_response resp False At_Error (s1\<lparr>ss_reason := SR_ProtocolError\<rparr>, g))
            else
              (case prepare b (sl_read_chunk_bytes (ss_limits s)) of
                 Inl e \<Rightarrow> run_fails (s1, g)
               | Inr (n, b1) \<Rightarrow> ((armReadDeadline (s1\<lparr>ss_input := b1\<rparr>))\<lparr>reading := True, where_at := At_Read n\<rparr>, g)))"

text \<open>The condition of the loop in \<open>run\<close>.\<close>

definition next_request :: "(real \<Rightarrow> real) \<Rightarrow> (string \<Rightarrow> nat) \<Rightarrow> HttpRequest \<Rightarrow> (nat \<Rightarrow> int) \<Rightarrow> session_state \<Rightarrow> session_state" where
  "next_request rnd hash moved clk x = (case x of (s, g) \<Rightarrow>
     if ss_state s = SS_Running \<or> ss_state s = SS_Draining then read_request rnd hash moved clk (s, g)
     else finish_run (s, g))"

definition access_entry :: "serving \<Rightarrow> HttpResponse \<Rightarrow> int \<Rightarrow> nat \<Rightarrow> RequestLog" where
  "access_entry sv resp duration bytes =
     \<lparr>l_request_id = request_id (sv_context sv), l_method = sv_method sv, l_target = sv_target sv,
      l_status = rs_status_code resp, l_duration = duration, l_bytes_in = sv_bytes_in sv, l_bytes_out = bytes,
      l_upstream = [], l_cache_status = cache_status (sv_context sv)\<rparr>"

definition record_exchange :: "(real \<Rightarrow> real) \<Rightarrow> serving \<Rightarrow> HttpResponse \<Rightarrow> int \<Rightarrow> nat \<Rightarrow> gateway \<Rightarrow> gateway" where
  "record_exchange rnd sv resp now bytes g =
     (let duration = (now - sv_started sv) sdiv 1000;
          g1 = note_metrics (\<lambda>m. recordHttp rnd m (sv_method sv) (rs_status_code resp) (route_name (sv_context sv)) duration) g
      in case logAccess (gw_logger g1) (access_entry sv resp duration bytes) of
           (ok, lg) \<Rightarrow>
             let g2 = g1\<lparr>gw_logger := lg\<rparr> in if ok then g2 else note_metrics recordLogDrop g2)"

text \<open>From the end of a response to the next request or the end.\<close>

definition after_response :: "(real \<Rightarrow> real) \<Rightarrow> (string \<Rightarrow> nat) \<Rightarrow> HttpRequest \<Rightarrow> (nat \<Rightarrow> int) \<Rightarrow> serving \<Rightarrow> HttpResponse \<Rightarrow>
    session_state \<Rightarrow> session_state" where
  "after_response rnd hash moved clk sv resp x = (case x of (s, g) \<Rightarrow>
     let g1 = record_exchange rnd sv resp (clk 4) (response_bytes s) g;
         s1 = s\<lparr>served_request := True, exchanges := exchanges s @ [(sv_request sv, resp)]\<rparr>
     in if rs_close_connection resp \<or> close_after_response sv \<or> ss_state s1 = SS_Draining \<or>
           ss_state s1 = SS_Closing \<or> ss_state s1 = SS_Closed
        then finish_run (s1, g1)
        else next_request rnd hash moved clk (s1\<lparr>ss_parser := reset (ss_parser s1)\<rparr>, g1))"

text \<open>The handler returned a response or threw: the router completes, and the response is written unless it was streamed.\<close>

definition handler_returns :: "(real \<Rightarrow> real) \<Rightarrow> (string \<Rightarrow> nat) \<Rightarrow> HttpRequest \<Rightarrow> (nat \<Rightarrow> int) \<Rightarrow> serving \<Rightarrow> pending \<Rightarrow>
    HttpResponse option \<Rightarrow> session_state \<Rightarrow> session_state" where
  "handler_returns rnd hash moved clk sv pd outcome_of x = (case x of (s, g) \<Rightarrow>
     case handle_end hash (gw_router g) (sv_context sv) pd outcome_of (clk 3) of
       Inl e \<Rightarrow> run_fails (s, g)
     | Inr (r, ctx, resp) \<Rightarrow>
         let sv1 = sv\<lparr>sv_context := ctx\<rparr>; y = (s\<lparr>current_proxy := None\<rparr>, g\<lparr>gw_router := r\<rparr>)
         in if rs_already_written resp then after_response rnd hash moved clk sv1 resp y
            else write_response resp (sv_head_request sv1) (At_Response sv1 resp) y)"

definition start_run :: "(real \<Rightarrow> real) \<Rightarrow> (string \<Rightarrow> nat) \<Rightarrow> HttpRequest \<Rightarrow> (nat \<Rightarrow> int) \<Rightarrow> session_state \<Rightarrow> session_state" where
  "start_run rnd hash moved clk x = (case x of (s, g) \<Rightarrow>
     next_request rnd hash moved clk
       (if ss_state s = SS_Created then s\<lparr>ss_state := SS_Running\<rparr> else s, note_metrics coroutineStarted g))"

text \<open>A read completed: no bytes stand for an error or the end of the stream.\<close>

definition read_completes :: "(real \<Rightarrow> real) \<Rightarrow> (string \<Rightarrow> nat) \<Rightarrow> HttpRequest \<Rightarrow> (nat \<Rightarrow> int) \<Rightarrow> string \<Rightarrow> session_state \<Rightarrow> session_state" where
  "read_completes rnd hash moved clk bytes x = (case x of (s, g) \<Rightarrow>
     let s1 = s\<lparr>reading := False, deadline := disarm (deadline s)\<rparr>
     in if bytes = [] then finish_run (noted_reason s1 SR_PeerClosed, g)
        else
          (case commit (write_span (ss_input s1) bytes) (length bytes) of
             Inl e \<Rightarrow> run_fails (s1, g)
           | Inr b \<Rightarrow> read_request rnd hash moved clk (s1\<lparr>ss_input := b, received := received s1 @ bytes\<rparr>, g)))"

section \<open>Events\<close>

datatype session_event =
    Starts
  | Reads string
  | Returns "HttpResponse option"
  | Downstream nat
  | Downstream_Done bool
  | Wrote bool
  | Continues
  | Expires "nat \<times> StopReason" bool
  | Stops StopReason
  | Drains
  | Proxying "nat option"
  | Upstream_Noted string string int
  | Circuit_Noted string string

text \<open>\<open>None\<close>: the event cannot happen in this state.\<close>

definition session_step :: "(real \<Rightarrow> real) \<Rightarrow> (string \<Rightarrow> nat) \<Rightarrow> HttpRequest \<Rightarrow> (nat \<Rightarrow> int) \<Rightarrow> session_event \<Rightarrow> session_state \<Rightarrow> session_state option" where
  "session_step rnd hash moved clk ev x = (case x of (s, g) \<Rightarrow>
     case ev of
       Starts \<Rightarrow> if where_at s = At_Start then Some (start_run rnd hash moved clk (s, g)) else None
     | Reads bytes \<Rightarrow>
         (case where_at s of At_Read n \<Rightarrow> if length bytes \<le> n then Some (read_completes rnd hash moved clk bytes (s, g)) else None | _ \<Rightarrow> None)
     | Returns outcome_of \<Rightarrow>
         (case where_at s of At_Handler sv pd None \<Rightarrow> Some (handler_returns rnd hash moved clk sv pd outcome_of (s, g)) | _ \<Rightarrow> None)
     | Downstream n \<Rightarrow>
         (case where_at s of At_Handler sv pd None \<Rightarrow>
             (case begin_write n (s, g) of (s1, g1) \<Rightarrow> Some (s1\<lparr>where_at := At_Handler sv pd (Some n)\<rparr>, g1)) | _ \<Rightarrow> None)
     | Downstream_Done ok \<Rightarrow>
         (case where_at s of At_Handler sv pd (Some n) \<Rightarrow>
             (case end_write n ok (s, g) of (s1, g1) \<Rightarrow> Some (s1\<lparr>where_at := At_Handler sv pd None\<rparr>, g1)) | _ \<Rightarrow> None)
     | Wrote ok \<Rightarrow>
         (case where_at s of
            At_Response sv resp n \<Rightarrow> Some (after_response rnd hash moved clk sv resp (end_write n ok (s, g)))
          | At_Error n \<Rightarrow> Some (finish_run (end_write n ok (s, g)))
          | _ \<Rightarrow> None)
     | Continues \<Rightarrow>
         (case where_at s of At_Written sv resp \<Rightarrow> Some (after_response rnd hash moved clk sv resp (s, g)) | _ \<Rightarrow> None)
     | Expires w error \<Rightarrow>
         if w \<in> set (waits (deadline s))
         then (case wait_completes (deadline s) w error of
                 (None, d) \<Rightarrow> Some (s\<lparr>deadline := d\<rparr>, g)
               | (Some reason, d) \<Rightarrow> Some (closeInExecutor reason (s\<lparr>deadline := d\<rparr>, g)))
         else None
     | Stops reason \<Rightarrow> Some (closeInExecutor reason (s, g))
     | Drains \<Rightarrow> Some (beginDrainInExecutor (s, g))
     | Proxying p \<Rightarrow> (case where_at s of At_Handler sv pd w \<Rightarrow> Some (s\<lparr>current_proxy := p\<rparr>, g) | _ \<Rightarrow> None)
     | Upstream_Noted u result d \<Rightarrow>
         (case where_at s of At_Handler sv pd w \<Rightarrow> Some (s, note_metrics (\<lambda>m. recordUpstream rnd m u result d) g) | _ \<Rightarrow> None)
     | Circuit_Noted u st \<Rightarrow>
         (case where_at s of At_Handler sv pd w \<Rightarrow> Some (s, note_metrics (\<lambda>m. setCircuitState m u st) g) | _ \<Rightarrow> None))"

end
