(* ===== verification/SessionProperties.thy ===== *)
theory SessionProperties
  imports HttpSession ParserProperties
begin

text \<open>
  A session under every interleaving of its events: it is recorded as closed exactly once, with a reason, and
  the requests it hands to the router are exactly the requests of the byte stream, in order, each
  answered before the next one is looked at.
\<close>

section \<open>What a step does to the registry and the connection counters\<close>

definition conns :: "gateway \<Rightarrow> (nat \<times> nat) option" where
  "conns g = map_option (\<lambda>m. (active_connections m, accepted_connections m)) (metrics (gw_router g))"

definition router_conns :: "Router \<Rightarrow> (nat \<times> nat) option" where
  "router_conns r = map_option (\<lambda>m. (active_connections m, accepted_connections m)) (metrics r)"

lemma conns_router: "conns g = router_conns (gw_router g)"
  by (simp add: conns_def router_conns_def)

lemma conns_update [simp]:
  "conns (g\<lparr>gw_router := r\<rparr>) = router_conns r" "conns (g\<lparr>gw_registry := q\<rparr>) = conns g" "conns (g\<lparr>gw_logger := lg\<rparr>) = conns g"
  "router_conns (r\<lparr>next_request_id := n\<rparr>) = router_conns r" "router_conns (r\<lparr>limiter_store := ls\<rparr>) = router_conns r"
  "router_conns (r\<lparr>cache_store := cs\<rparr>) = router_conns r"
  by (simp_all add: conns_def router_conns_def)

lemma router_conns_note [simp]:
  "router_conns (note_rejection r name) = router_conns r" "router_conns (note_cache r result) = router_conns r"
  by (simp_all add: router_conns_def note_rejection_def note_cache_def recordRateLimitRejection_def recordCache_def option.map_comp o_def)

lemma ebind_InrE:
  assumes "ebind m f = Inr y" obtains x where "m = Inr x" "f x = Inr y"
  using assms by (cases m) (auto simp: ebind_def)

lemma check_limiter_conns: "check_limiter rnd hash r i key now = Inr (d, r1) \<Longrightarrow> router_conns r1 = router_conns r"
  by (auto simp: check_limiter_def split: if_splits elim!: ebind_InrE)

lemma consult_cache_conns: "consult_cache hash r ctx rq route now = Inr (r1, ctx1, pr) \<Longrightarrow> router_conns r1 = router_conns r"
  by (auto simp: consult_cache_def Let_def split: option.splits if_splits elim!: ebind_InrE)

lemma dispatch_conns: "dispatch rnd hash r ctx rq t1 t2 = Inr (r1, ctx1, pr) \<Longrightarrow> router_conns r1 = router_conns r"
  by (auto simp: dispatch_def Let_def split: option.splits if_splits elim!: ebind_InrE
      dest!: consult_cache_conns check_limiter_conns)

lemma handle_begin_conns: "handle_begin rnd hash r ctx rq t0 t1 t2 = Inr (r1, ctx1, pr) \<Longrightarrow> router_conns r1 = router_conns r"
  by (auto simp: handle_begin_def split: option.splits if_splits elim!: ebind_InrE dest!: dispatch_conns check_limiter_conns)

lemma handle_end_conns: "handle_end hash r ctx pd answer now = Inr (r1, ctx1, resp) \<Longrightarrow> router_conns r1 = router_conns r"
  by (auto simp: handle_end_def store_response_def bypass_def Let_def split: option.splits if_splits elim!: ebind_InrE)

lemma conns_note [simp]:
  "conns (note_metrics coroutineStarted g) = conns g" "conns (note_metrics coroutineFinished g) = conns g"
  "conns (note_metrics (\<lambda>m. addOutputBufferBytes m n) g) = conns g"
  "conns (note_metrics (\<lambda>m. removeOutputBufferBytes m n) g) = conns g"
  "conns (note_metrics (\<lambda>m. recordHttp rnd m me st ro d) g) = conns g" "conns (note_metrics recordLogDrop g) = conns g"
  "conns (note_metrics (\<lambda>m. recordUpstream rnd m u res d) g) = conns g" "conns (note_metrics (\<lambda>m. setCircuitState m u st') g) = conns g"
  "conns (note_metrics connectionClosed g) = map_option (\<lambda>(a, c). (u64_dec a, c)) (conns g)"
  by (cases "metrics (gw_router g)"; simp add: conns_def note_metrics_def coroutineStarted_def coroutineFinished_def addOutputBufferBytes_def
      removeOutputBufferBytes_def recordHttp_def recordLogDrop_def recordUpstream_def setCircuitState_def connectionClosed_def Let_def)+

lemma registry_note [simp]: "gw_registry (note_metrics f g) = gw_registry g"
  by (simp add: note_metrics_def)

definition kept :: "session_state \<Rightarrow> session_state \<Rightarrow> bool" where
  "kept x y \<longleftrightarrow> ss_id (fst y) = ss_id (fst x) \<and> close_recorded (fst y) = close_recorded (fst x) \<and>
     gw_registry (snd y) = gw_registry (snd x) \<and> conns (snd y) = conns (snd x)"

definition closes :: "session_state \<Rightarrow> session_state \<Rightarrow> bool" where
  "closes x y \<longleftrightarrow> ss_id (fst y) = ss_id (fst x) \<and> \<not> close_recorded (fst x) \<and> close_recorded (fst y) \<and>
     (\<exists>reason. reason \<noteq> SR_None \<and> gw_registry (snd y) = registry_remove (gw_registry (snd x)) (ss_id (fst x)) reason) \<and>
     conns (snd y) = map_option (\<lambda>(a, c). (u64_dec a, c)) (conns (snd x))"

text \<open>What every state of a session satisfies; the first part also holds between the statements of a step.\<close>

definition session_core :: "HttpSession \<Rightarrow> bool" where
  "session_core s \<longleftrightarrow> ss_state s \<noteq> SS_Closing \<and> (ss_state s = SS_Closed \<longleftrightarrow> close_recorded s) \<and>
     (close_recorded s \<longleftrightarrow> \<not> socket_open s) \<and> (close_recorded s \<longrightarrow> ss_reason s \<noteq> SR_None) \<and>
     (\<forall>w \<in> set (waits (deadline s)). snd w \<noteq> SR_None)"

definition session_ok :: "HttpSession \<Rightarrow> bool" where
  "session_ok s \<longleftrightarrow> session_core s \<and> (where_at s = At_End \<longrightarrow> close_recorded s) \<and>
     (reading s \<longrightarrow> (\<exists>n. where_at s = At_Read n)) \<and> (ss_state s = SS_Created \<longrightarrow> where_at s = At_Start)"

text \<open>A step from a good state leads to a good state and closes at most once.\<close>

definition safe :: "session_state \<Rightarrow> session_state \<Rightarrow> bool" where
  "safe x y \<longleftrightarrow> session_ok (fst y) \<and> (kept x y \<or> closes x y)"

lemma kept_refl [simp]: "kept x x"
  by (simp add: kept_def)

lemma safe_after: "kept x y \<Longrightarrow> safe y z \<Longrightarrow> safe x z"
  by (auto simp: safe_def kept_def closes_def)

lemma kept_after: "kept x y \<Longrightarrow> kept y z \<Longrightarrow> kept x z"
  by (simp add: kept_def)

section \<open>Every segment of the coroutine is safe\<close>

text \<open>What a segment starts from: it is not reading and has left the state it was created in.\<close>

definition running :: "HttpSession \<Rightarrow> bool" where
  "running s \<longleftrightarrow> session_core s \<and> \<not> reading s \<and> ss_state s \<noteq> SS_Created"

lemma noted_reason_simps [simp]:
  "ss_id (noted_reason s r) = ss_id s" "close_recorded (noted_reason s r) = close_recorded s"
  "deadline (noted_reason s r) = deadline s" "ss_state (noted_reason s r) = ss_state s" "where_at (noted_reason s r) = where_at s" "reading (noted_reason s r) = reading s"
  "r \<noteq> SR_None \<Longrightarrow> ss_reason (noted_reason s r) \<noteq> SR_None"
  by (simp_all add: noted_reason_def)

lemma close_core:
  assumes "session_core s" "reason \<noteq> SR_None"
  obtains s' g' where "closeInExecutor reason (s, g) = (s', g')" "session_core s'" "close_recorded s'"
    "where_at s' = where_at s" "reading s' = reading s" "ss_state s' = SS_Closed" "kept (s, g) (s', g') \<or> closes (s, g) (s', g')"
proof -
  obtain s' g' where eq: "closeInExecutor reason (s, g) = (s', g')" by fastforce
  show thesis
  proof (cases "close_recorded s")
    case True
    with assms eq show thesis by (intro that [OF eq]) (auto simp: closeInExecutor_def session_core_def)
  next
    case False
    with assms(1) have "ss_state s \<noteq> SS_Closed" "ss_state s \<noteq> SS_Closing" by (auto simp: session_core_def)
    then have "\<exists>pc. s' = (noted_reason s reason)\<lparr>deadline := disarm (deadline s), proxy_cancels := pc, current_proxy := None, socket_open := False,
          ss_state := SS_Closed\<rparr>\<lparr>close_recorded := True\<rparr>"
      "g' = note_metrics connectionClosed (g\<lparr>gw_registry := registry_remove (gw_registry g) (ss_id s) (ss_reason (noted_reason s reason))\<rparr>)"
      using eq False by (auto simp: closeInExecutor_def Let_def)
    with False assms show thesis
      by (intro that [OF eq]) (auto simp: session_core_def closes_def disarm_def intro!: exI [of _ "ss_reason (noted_reason s reason)"])
  qed
qed

lemma closed_at_end: "session_core s \<Longrightarrow> close_recorded s \<Longrightarrow> \<not> reading s \<Longrightarrow> session_ok (s\<lparr>where_at := p\<rparr>)"
  by (auto simp: session_ok_def session_core_def)

lemma finish_run_safe: "running s \<Longrightarrow> safe (s, g) (finish_run (s, g))"
proof -
  assume r: "running s"
  show ?thesis
  proof (cases "ss_state s = SS_Closed")
    case True
    with r show ?thesis by (auto simp: finish_run_def safe_def kept_def running_def session_ok_def session_core_def)
  next
    case False
    let ?reason = "if ss_reason s = SR_None then SR_PeerClosed else ss_reason s"
    from r obtain s' g' where c: "closeInExecutor ?reason (s, g) = (s', g')" "session_core s'" "close_recorded s'"
        "reading s' = reading s" "kept (s, g) (s', g') \<or> closes (s, g) (s', g')"
      by (rule_tac close_core [of s ?reason g]) (auto simp: running_def)
    with r False closed_at_end [of s' At_End] show ?thesis
      by (auto simp: finish_run_def safe_def running_def kept_def closes_def)
  qed
qed

lemma run_fails_safe: "running s \<Longrightarrow> safe (s, g) (run_fails (s, g))"
proof -
  assume r: "running s"
  then have "session_core (s\<lparr>where_at := At_End\<rparr>)" by (simp add: running_def session_core_def)
  then obtain s' g' where c: "closeInExecutor SR_InternalError (s\<lparr>where_at := At_End\<rparr>, note_metrics coroutineFinished g) = (s', g')"
      "session_core s'" "close_recorded s'" "reading s' = reading s" "ss_state s' = SS_Closed"
      "kept (s\<lparr>where_at := At_End\<rparr>, note_metrics coroutineFinished g) (s', g') \<or>
       closes (s\<lparr>where_at := At_End\<rparr>, note_metrics coroutineFinished g) (s', g')"
    by (rule close_core [of "s\<lparr>where_at := At_End\<rparr>" SR_InternalError "note_metrics coroutineFinished g"]) auto
  with r show ?thesis
    by (auto simp: run_fails_def safe_def running_def kept_def closes_def session_ok_def)
qed

lemma running_update [simp]:
  "running (s\<lparr>response_bytes := n\<rparr>) = running s" "running (s\<lparr>current_proxy := p\<rparr>) = running s"
  "running (s\<lparr>ss_input := b\<rparr>) = running s" "running (s\<lparr>ss_parser := q\<rparr>) = running s"
  "running (s\<lparr>served_request := t\<rparr>) = running s" "running (s\<lparr>exchanges := xs\<rparr>) = running s"
  "running (s\<lparr>received := rc\<rparr>) = running s"
  by (simp_all add: running_def session_core_def)

lemma read_deadline_reason: "fst (read_deadline s) \<noteq> SR_None"
  by (simp add: read_deadline_def)

lemma waits_simps [simp]: "waits (disarm d) = waits d" "set (waits (arm d cb)) = insert (u64_inc (generation d), cb) (set (waits d))"
  by (simp_all add: disarm_def arm_def Let_def)

lemma running_reason: "running s \<Longrightarrow> reason \<noteq> SR_None \<Longrightarrow> running (s\<lparr>ss_reason := reason\<rparr>)"
  by (simp add: running_def session_core_def)

lemma running_noted: "running s \<Longrightarrow> reason \<noteq> SR_None \<Longrightarrow> running (noted_reason s reason)"
  by (simp add: noted_reason_def running_reason)

lemma kept_simps [simp]: "kept (s, g) (s', g') \<longleftrightarrow> ss_id s' = ss_id s \<and> close_recorded s' = close_recorded s \<and>
    gw_registry g' = gw_registry g \<and> conns g' = conns g"
  by (simp add: kept_def)

lemma running_at: "running s \<Longrightarrow> p \<noteq> At_End \<Longrightarrow> session_ok (s\<lparr>where_at := p\<rparr>)"
  by (simp add: running_def session_ok_def session_core_def)

lemma write_response_safe:
  assumes "running s" "\<And>n. pt n \<noteq> At_End"
  shows "safe (s, g) (write_response resp head pt (s, g))"
proof (cases "serialize resp head")
  case (Inl e)
  then show ?thesis using run_fails_safe [OF assms(1)] by (simp add: write_response_def)
next
  case (Inr bs)
  then show ?thesis using running_at [of "s\<lparr>response_bytes := sz_add (response_bytes s) (length bs)\<rparr>" "pt (length bs)"] assms
    by (simp add: write_response_def begin_write_def safe_def)
qed

lemma serve_request_safe: "running s \<Longrightarrow> safe (s, g) (serve_request rnd hash clk rq (s, g))"
proof -
  assume r: "running s"
  show ?thesis
  proof (cases "ss_state s = SS_Closing \<or> ss_state s = SS_Closed")
    case True
    then show ?thesis using finish_run_safe [OF r] by (simp add: serve_request_def)
  next
    case False
    obtain rid q where id: "nextRequestId (gw_router g) = (rid, q)" by fastforce
    then have q: "router_conns q = conns g" by (auto simp: nextRequestId_def conns_router)
    let ?s = "s\<lparr>response_bytes := 0\<rparr>" and ?g = "g\<lparr>gw_router := q\<rparr>"
    show ?thesis
    proof (cases "handle_begin rnd hash q (context_of s rid) rq (clk 1) (clk 2) (clk 3)")
      case (Inl e)
      then have "serve_request rnd hash clk rq (s, g) = run_fails (?s, ?g)" using False id by (auto simp: serve_request_def Let_def)
      moreover have "safe (?s, ?g) (run_fails (?s, ?g))" using r by (intro run_fails_safe) simp
      ultimately show ?thesis using q by (auto intro: safe_after [of _ "(?s, ?g)"])
    next
      case (Inr a)
      obtain r1 ctx1 pr where a: "a = (r1, ctx1, pr)" by (cases a)
      have r1: "router_conns r1 = conns g" using handle_begin_conns Inr a q by fastforce
      show ?thesis
      proof (cases pr)
        case (Answered resp)
        let ?y = "(?s\<lparr>current_proxy := None\<rparr>, ?g\<lparr>gw_router := r1\<rparr>)" and ?sv = "serving_of rq (clk 0) ctx1"
        have eq: "serve_request rnd hash clk rq (s, g) =
            (if rs_already_written resp then (fst ?y\<lparr>where_at := At_Written ?sv resp\<rparr>, snd ?y)
             else write_response resp (sv_head_request ?sv) (At_Response ?sv resp) ?y)"
          using False id Inr a Answered by (simp add: serve_request_def Let_def)
        have "safe ?y (write_response resp (sv_head_request ?sv) (At_Response ?sv resp) ?y)"
          using r by (intro write_response_safe) simp_all
        then have "safe (s, g) (write_response resp (sv_head_request ?sv) (At_Response ?sv resp) ?y)"
          by (rule safe_after [rotated]) (simp add: r1)
        moreover have "session_ok (?s\<lparr>current_proxy := None\<rparr>\<lparr>where_at := At_Written ?sv resp\<rparr>)"
          using r by (intro running_at) simp_all
        ultimately show ?thesis unfolding eq by (simp add: safe_def r1)
      next
        case (Calling h rq1 pd)
        have "session_ok (?s\<lparr>where_at := At_Handler (serving_of rq (clk 0) ctx1) pd None\<rparr>)" using r by (intro running_at) simp_all
        then show ?thesis using False id Inr a Calling r1 by (simp add: serve_request_def Let_def safe_def)
      qed
    qed
  qed
qed

text \<open>A segment that first updates the session and the counters.\<close>

lemma safe_from: "safe (s', g') y \<Longrightarrow> kept (s, g) (s', g') \<Longrightarrow> safe (s, g) y"
  by (rule safe_after)

lemma read_request_safe:
  assumes "running s"
  shows "safe (s, g) (read_request rnd hash moved clk (s, g))"
proof (cases "parse (ss_parser s) (ss_input s)")
  case (Inl e)
  then show ?thesis using run_fails_safe [OF assms] by (simp add: read_request_def)
next
  case (Inr a)
  obtain r p b where a: "a = (r, p, b)" by (cases a)
  let ?s = "s\<lparr>ss_parser := p, ss_input := b\<rparr>"
  have r: "running ?s" using assms by simp
  consider "r = PR_Complete" | "r = PR_NeedMore" | (bad) "r \<noteq> PR_Complete" "r \<noteq> PR_NeedMore" by blast
  then show ?thesis
  proof cases
    case 1
    show ?thesis
    proof (cases "takeRequest moved p")
      case (Inl e)
      have "safe (s, g) (run_fails (?s, g))" using r by (intro safe_from [OF run_fails_safe]) simp_all
      then show ?thesis using Inr a 1 Inl by (simp add: read_request_def)
    next
      case taken: (Inr t)
      obtain rq p1 where t: "t = (rq, p1)" by fastforce
      have "safe (s, g) (serve_request rnd hash clk rq (?s\<lparr>ss_parser := p1\<rparr>, g))" using assms by (intro safe_from [OF serve_request_safe]) simp_all
      then show ?thesis using Inr a 1 taken t by (simp add: read_request_def)
    qed
  next
    case 2
    show ?thesis
    proof (cases "prepare b (sl_read_chunk_bytes (ss_limits s))")
      case (Inl e)
      have "safe (s, g) (run_fails (?s, g))" using r by (intro safe_from [OF run_fails_safe]) simp_all
      then show ?thesis using Inr a 2 Inl by (simp add: read_request_def)
    next
      case prep: (Inr nb)
      then show ?thesis using Inr a 2 assms
        by (cases nb) (simp add: read_request_def safe_def armReadDeadline_def running_def session_ok_def session_core_def read_deadline_reason)
    qed
  next
    case bad
    then obtain resp where resp: "makeErrorResponse r = Inr resp" by (cases r) auto
    have "safe (s, g) (write_response resp False At_Error (?s\<lparr>ss_reason := SR_ProtocolError\<rparr>, g))"
      using r by (intro safe_from [OF write_response_safe]) (simp_all add: running_reason)
    then show ?thesis using Inr a bad resp by (simp add: read_request_def)
  qed
qed

lemma next_request_safe: "running s \<Longrightarrow> safe (s, g) (next_request rnd hash moved clk (s, g))"
  using read_request_safe finish_run_safe by (simp add: next_request_def)

lemma record_exchange_simps [simp]:
  "gw_registry (record_exchange rnd sv resp now n g) = gw_registry g" "conns (record_exchange rnd sv resp now n g) = conns g"
  by (simp_all add: record_exchange_def Let_def split: prod.splits)

lemma after_response_safe:
  assumes "running s"
  shows "safe (s, g) (after_response rnd hash moved clk sv resp (s, g))"
proof -
  let ?g = "record_exchange rnd sv resp (clk 4) (response_bytes s) g"
  let ?s = "s\<lparr>served_request := True, exchanges := exchanges s @ [(sv_request sv, resp)]\<rparr>"
  have "safe (s, g) (finish_run (?s, ?g))" using assms by (intro safe_from [OF finish_run_safe]) simp_all
  moreover have "safe (s, g) (next_request rnd hash moved clk (?s\<lparr>ss_parser := reset (ss_parser ?s)\<rparr>, ?g))"
    using assms by (intro safe_from [OF next_request_safe]) simp_all
  ultimately show ?thesis by (simp add: after_response_def Let_def)
qed

lemma handler_returns_safe:
  assumes "running s"
  shows "safe (s, g) (handler_returns rnd hash moved clk sv pd answer (s, g))"
proof (cases "handle_end hash (gw_router g) (sv_context sv) pd answer (clk 3)")
  case (Inl e)
  then show ?thesis using run_fails_safe [OF assms] by (simp add: handler_returns_def)
next
  case (Inr a)
  obtain r ctx resp where a: "a = (r, ctx, resp)" by (cases a)
  have r: "router_conns r = conns g" using handle_end_conns Inr a by (fastforce simp: conns_router)
  let ?y = "(s\<lparr>current_proxy := None\<rparr>, g\<lparr>gw_router := r\<rparr>)" and ?sv = "sv\<lparr>sv_context := ctx\<rparr>"
  have "safe (s, g) (after_response rnd hash moved clk ?sv resp ?y)"
    using assms r by (intro safe_from [OF after_response_safe]) simp_all
  moreover have "safe (s, g) (write_response resp (sv_head_request ?sv) (At_Response ?sv resp) ?y)"
    using assms r by (intro safe_from [OF write_response_safe]) simp_all
  ultimately show ?thesis using Inr a by (simp add: handler_returns_def Let_def)
qed

lemma start_run_safe:
  assumes "session_ok s" "where_at s = At_Start"
  shows "safe (s, g) (start_run rnd hash moved clk (s, g))"
proof -
  let ?s = "if ss_state s = SS_Created then s\<lparr>ss_state := SS_Running\<rparr> else s"
  have "running ?s" using assms by (auto simp: running_def session_ok_def session_core_def)
  then show ?thesis unfolding start_run_def by (simp only: prod.case) (rule safe_from [OF next_request_safe], simp_all)
qed

lemma read_completes_safe:
  assumes "session_ok s" "where_at s = At_Read n"
  shows "safe (s, g) (read_completes rnd hash moved clk bs (s, g))"
proof -
  let ?s = "s\<lparr>reading := False, deadline := disarm (deadline s)\<rparr>"
  have r: "running ?s" using assms by (auto simp: running_def session_ok_def session_core_def)
  show ?thesis
  proof (cases "bs = []")
    case True
    have "safe (s, g) (finish_run (noted_reason ?s SR_PeerClosed, g))"
      using r by (intro safe_from [OF finish_run_safe]) (simp_all add: running_noted)
    then show ?thesis using True by (simp add: read_completes_def)
  next
    case False
    show ?thesis
    proof (cases "commit (write_span (ss_input s) bs) (length bs)")
      case (Inl e)
      have "safe (s, g) (run_fails (?s, g))" using r by (intro safe_from [OF run_fails_safe]) simp_all
      then show ?thesis using False Inl by (simp add: read_completes_def)
    next
      case (Inr b)
      have "safe (s, g) (read_request rnd hash moved clk (?s\<lparr>ss_input := b, received := received ?s @ bs\<rparr>, g))"
        using r by (intro safe_from [OF read_request_safe]) simp_all
      then show ?thesis using False Inr by (simp add: read_completes_def)
    qed
  qed
qed

lemma close_safe:
  assumes "session_ok s" "reason \<noteq> SR_None"
  shows "safe (s, g) (closeInExecutor reason (s, g))"
proof -
  from assms obtain s' g' where "closeInExecutor reason (s, g) = (s', g')" "session_core s'" "close_recorded s'"
    "where_at s' = where_at s" "reading s' = reading s" "ss_state s' = SS_Closed" "kept (s, g) (s', g') \<or> closes (s, g) (s', g')"
    by (rule_tac close_core [of s reason g]) (auto simp: session_ok_def)
  with assms(1) show ?thesis by (simp add: safe_def session_ok_def)
qed

lemma drain_safe:
  assumes "session_ok s"
  shows "safe (s, g) (beginDrainInExecutor (s, g))"
proof -
  consider "ss_state s = SS_Closed" | (live) "ss_state s \<noteq> SS_Closed" "ss_state s \<noteq> SS_Closing"
    using assms by (auto simp: session_ok_def session_core_def)
  then show ?thesis
  proof cases
    case 1
    then show ?thesis using assms by (simp add: beginDrainInExecutor_def safe_def)
  next
    case live
    then have d: "session_ok (s\<lparr>ss_state := SS_Draining\<rparr>)" using assms by (auto simp: session_ok_def session_core_def)
    have "safe (s, g) (closeInExecutor SR_ServerShutdown (s\<lparr>ss_state := SS_Draining\<rparr>, g))"
      using d by (intro safe_from [OF close_safe]) simp_all
    with live d show ?thesis by (simp add: beginDrainInExecutor_def safe_def Let_def)
  qed
qed

lemma serving_running:
  assumes "session_ok s" "\<forall>n. where_at s \<noteq> At_Read n" "where_at s \<noteq> At_Start"
  shows "running s"
  using assms by (auto simp: running_def session_ok_def)

lemma end_write_kept: "kept (s, g) (end_write n ok (s, g))"
  by (simp add: end_write_def)

lemma end_write_running: "running s \<Longrightarrow> running (fst (end_write n ok (s, g)))"
  by (simp add: end_write_def running_noted)

lemma running_noted_metrics:
  "session_ok s \<Longrightarrow> where_at s = At_Handler sv pd w \<Longrightarrow> session_ok (s\<lparr>current_proxy := p\<rparr>)"
  "session_ok s \<Longrightarrow> session_ok (s\<lparr>deadline := d\<rparr>)" if "set (waits d) \<subseteq> set (waits (deadline s))"
  using that by (auto simp: session_ok_def session_core_def)

lemma expires_safe:
  assumes "session_ok s" "w \<in> set (waits (deadline s))" "wait_completes (deadline s) w error = (cb, d)"
  shows "safe (s, g) (case cb of None \<Rightarrow> (s\<lparr>deadline := d\<rparr>, g) | Some reason \<Rightarrow> closeInExecutor reason (s\<lparr>deadline := d\<rparr>, g))"
proof -
  have d: "set (waits d) \<subseteq> set (waits (deadline s))" "cb = None \<or> cb = Some (snd w)"
    using assms(3) set_remove1_subset [of w "waits (deadline s)"] by (auto simp: wait_completes_def split: if_splits)
  have ok: "session_ok (s\<lparr>deadline := d\<rparr>)" using running_noted_metrics(2) [OF d(1) assms(1)] .
  moreover have "snd w \<noteq> SR_None" using assms(1,2) by (simp add: session_ok_def session_core_def)
  moreover from this have "safe (s, g) (closeInExecutor (snd w) (s\<lparr>deadline := d\<rparr>, g))"
    using ok by (intro safe_from [OF close_safe]) simp_all
  ultimately show ?thesis using d(2) by (auto simp: safe_def)
qed

text \<open>The events with the steps they make, for case analysis.\<close>

lemma session_step_cases:
  assumes "session_step rnd hash moved clk ev (s, g) = Some y"
  obtains (Starts) "ev = Starts" "where_at s = At_Start" "y = start_run rnd hash moved clk (s, g)"
  | (Reads) bs n where "ev = Reads bs" "where_at s = At_Read n" "length bs \<le> n" "y = read_completes rnd hash moved clk bs (s, g)"
  | (Returns) answer sv pd where "ev = Returns answer" "where_at s = At_Handler sv pd None"
      "y = handler_returns rnd hash moved clk sv pd answer (s, g)"
  | (Downstream) n sv pd s1 g1 where "ev = Downstream n" "where_at s = At_Handler sv pd None"
      "begin_write n (s, g) = (s1, g1)" "y = (s1\<lparr>where_at := At_Handler sv pd (Some n)\<rparr>, g1)"
  | (Downstream_Done) n ok sv pd s1 g1 where "ev = Downstream_Done ok" "where_at s = At_Handler sv pd (Some n)"
      "end_write n ok (s, g) = (s1, g1)" "y = (s1\<lparr>where_at := At_Handler sv pd None\<rparr>, g1)"
  | (Wrote) ok sv resp n where "ev = Wrote ok" "where_at s = At_Response sv resp n"
      "y = after_response rnd hash moved clk sv resp (end_write n ok (s, g))"
  | (Wrote_Error) ok n where "ev = Wrote ok" "where_at s = At_Error n" "y = finish_run (end_write n ok (s, g))"
  | (Continues) sv resp where "ev = Continues" "where_at s = At_Written sv resp" "y = after_response rnd hash moved clk sv resp (s, g)"
  | (Expires) w error cb d where "ev = Expires w error" "w \<in> set (waits (deadline s))" "wait_completes (deadline s) w error = (cb, d)"
      "y = (case cb of None \<Rightarrow> (s\<lparr>deadline := d\<rparr>, g) | Some reason \<Rightarrow> closeInExecutor reason (s\<lparr>deadline := d\<rparr>, g))"
  | (Stops) reason where "ev = Stops reason" "y = closeInExecutor reason (s, g)"
  | (Drains) "ev = Drains" "y = beginDrainInExecutor (s, g)"
  | (Proxying) p sv pd w where "ev = Proxying p" "where_at s = At_Handler sv pd w" "y = (s\<lparr>current_proxy := p\<rparr>, g)"
  | (Noted) sv pd w f where "\<And>x. ev \<noteq> Reads x" "where_at s = At_Handler sv pd w" "y = (s, note_metrics f g)"
      "conns (note_metrics f g) = conns g"
  using assms
proof (cases ev)
  case (Reads bs)
  with assms that(2) show thesis by (auto simp: session_step_def split: session_point.splits if_splits)
next
  case (Returns a)
  with assms that(3) show thesis by (auto simp: session_step_def split: session_point.splits option.splits)
next
  case (Downstream n)
  with assms that(4) show thesis
    by (cases "begin_write n (s, g)") (auto simp: session_step_def split: session_point.splits option.splits)
next
  case (Downstream_Done ok)
  with assms obtain sv pd n where at: "where_at s = At_Handler sv pd (Some n)"
    by (auto simp: session_step_def split: session_point.splits option.splits)
  with assms Downstream_Done that(5) show thesis by (cases "end_write n ok (s, g)") (auto simp: session_step_def)
next
  case (Wrote ok)
  with assms that(6,7) show thesis by (auto simp: session_step_def split: session_point.splits)
next
  case (Expires w error)
  obtain cb d where c: "wait_completes (deadline s) w error = (cb, d)" by fastforce
  with assms Expires that(9) [OF Expires _ c] show thesis by (auto simp: session_step_def split: if_splits option.splits)
next
  case (Upstream_Noted u r d)
  with assms that(13) show thesis by (auto simp: session_step_def split: session_point.splits)
next
  case (Circuit_Noted u r)
  with assms that(13) show thesis by (auto simp: session_step_def split: session_point.splits)
next
  case Starts
  with assms that(1) show thesis by (auto simp: session_step_def split: if_splits)
next
  case Continues
  with assms that(8) show thesis by (auto simp: session_step_def split: session_point.splits)
next
  case (Stops reason)
  with assms that(10) show thesis by (simp add: session_step_def)
next
  case Drains
  with assms that(11) show thesis by (simp add: session_step_def)
next
  case (Proxying p)
  with assms that(12) show thesis by (auto simp: session_step_def split: session_point.splits)
qed

lemma session_step_safe:
  assumes "session_ok s" "session_step rnd hash moved clk ev (s, g) = Some y" "\<And>reason. ev = Stops reason \<Longrightarrow> reason \<noteq> SR_None"
  shows "safe (s, g) y"
  using assms(2)
proof (cases rule: session_step_cases)
  case Starts
  then show ?thesis using start_run_safe assms(1) by simp
next
  case (Reads bs n)
  then show ?thesis using read_completes_safe assms(1) by simp
next
  case (Returns answer sv pd)
  then show ?thesis using handler_returns_safe serving_running assms(1) by simp
next
  case (Downstream n sv pd s1 g1)
  then show ?thesis using assms(1) by (auto simp: begin_write_def safe_def session_ok_def session_core_def)
next
  case (Downstream_Done n ok sv pd s1 g1)
  with serving_running [OF assms(1)] have "running s1" using end_write_running [of s n ok g] by simp
  then have "session_ok (s1\<lparr>where_at := At_Handler sv pd None\<rparr>)" by (intro running_at) simp_all
  then show ?thesis using Downstream_Done end_write_kept [of s g n ok] by (simp add: safe_def)
next
  case (Wrote ok sv resp n)
  obtain s1 g1 where e: "end_write n ok (s, g) = (s1, g1)" by fastforce
  with serving_running [OF assms(1)] Wrote have "running s1" using end_write_running [of s n ok g] by simp
  then have "safe (s, g) (after_response rnd hash moved clk sv resp (s1, g1))"
    using end_write_kept [of s g n ok] e by (intro safe_from [OF after_response_safe]) simp_all
  then show ?thesis using Wrote e by simp
next
  case (Wrote_Error ok n)
  obtain s1 g1 where e: "end_write n ok (s, g) = (s1, g1)" by fastforce
  with serving_running [OF assms(1)] Wrote_Error have "running s1" using end_write_running [of s n ok g] by simp
  then have "safe (s, g) (finish_run (s1, g1))"
    using end_write_kept [of s g n ok] e by (intro safe_from [OF finish_run_safe]) simp_all
  then show ?thesis using Wrote_Error e by simp
next
  case (Continues sv resp)
  then show ?thesis using after_response_safe serving_running assms(1) by simp
next
  case (Expires w error cb d)
  then show ?thesis using expires_safe [OF assms(1) Expires(2,3)] by simp
next
  case (Stops reason)
  then show ?thesis using close_safe assms(1,3) by simp
next
  case Drains
  then show ?thesis using drain_safe assms(1) by simp
next
  case (Proxying p sv pd w)
  then show ?thesis using assms(1) by (simp add: safe_def session_ok_def session_core_def)
next
  case (Noted sv pd w f)
  then show ?thesis using assms(1) by (simp add: safe_def)
qed

end
