(* ===== verification/SessionPipeline.thy ===== *)
theory SessionPipeline
  imports SessionProperties
begin

text \<open>
  The requests of a connection. The client sends a sequence of requests, pipelined and cut into reads at will;
  timers, stops, drains, failing writes and the work of other sessions on the gateway come in between.
  What the session hands to the router is then a prefix of that sequence, each request answered before
  the next one is parsed.
\<close>

section \<open>What segments do to the requests\<close>

text \<open>The request in service at a suspension point.\<close>

fun in_service :: "session_point \<Rightarrow> HttpRequest option" where
  "in_service (At_Handler sv pd w) = Some (sv_request sv)"
| "in_service (At_Response sv resp n) = Some (sv_request sv)"
| "in_service (At_Written sv resp) = Some (sv_request sv)"
| "in_service _ = None"

definition same_input :: "HttpSession \<Rightarrow> HttpSession \<Rightarrow> bool" where
  "same_input s s' \<longleftrightarrow> received s' = received s \<and> exchanges s' = exchanges s \<and> ss_parser s' = ss_parser s \<and>
     ss_input s' = ss_input s \<and> ss_limits s' = ss_limits s"

lemma same_input_refl [simp]: "same_input s s"
  by (simp add: same_input_def)

lemma same_input_updates [simp]:
  "same_input s (s'\<lparr>where_at := p\<rparr>) = same_input s s'" "same_input s (s'\<lparr>current_proxy := pr\<rparr>) = same_input s s'"
  "same_input s (s'\<lparr>response_bytes := n\<rparr>) = same_input s s'" "same_input s (s'\<lparr>deadline := d\<rparr>) = same_input s s'"
  "same_input s (s'\<lparr>ss_state := st\<rparr>) = same_input s s'" "same_input s (s'\<lparr>ss_reason := re\<rparr>) = same_input s s'"
  "same_input (s\<lparr>where_at := p\<rparr>) s' = same_input s s'" "same_input (s\<lparr>current_proxy := pr\<rparr>) s' = same_input s s'"
  "same_input (s\<lparr>response_bytes := n\<rparr>) s' = same_input s s'" "same_input (s\<lparr>deadline := d\<rparr>) s' = same_input s s'"
  "same_input (s\<lparr>ss_state := st\<rparr>) s' = same_input s s'" "same_input (s\<lparr>ss_reason := re\<rparr>) s' = same_input s s'"
  "same_input s (s'\<lparr>reading := rd\<rparr>) = same_input s s'" "same_input (s\<lparr>reading := rd\<rparr>) s' = same_input s s'"
  by (simp_all add: same_input_def)

lemma noted_input [simp]: "same_input s (noted_reason s r)" "same_input (noted_reason s r) s' = same_input s s'"
  by (simp_all add: noted_reason_def same_input_def)

lemma noted_fields [simp]:
  "received (noted_reason s r) = received s" "exchanges (noted_reason s r) = exchanges s"
  by (simp_all add: noted_reason_def)

lemma close_input:
  "same_input s (fst (closeInExecutor reason (s, g))) \<and> where_at (fst (closeInExecutor reason (s, g))) = where_at s"
  by (simp add: closeInExecutor_def Let_def noted_reason_def same_input_def)

lemma drain_input:
  "same_input s (fst (beginDrainInExecutor (s, g))) \<and> where_at (fst (beginDrainInExecutor (s, g))) = where_at s"
  using close_input [of "s\<lparr>ss_state := SS_Draining\<rparr>" SR_ServerShutdown g] by (simp add: beginDrainInExecutor_def Let_def)

lemma finish_input: "same_input s (fst (finish_run (s, g))) \<and> where_at (fst (finish_run (s, g))) = At_End"
  using close_input [of s] by (simp add: finish_run_def case_prod_beta)

lemma fails_input: "same_input s (fst (run_fails (s, g))) \<and> where_at (fst (run_fails (s, g))) = At_End"
  using close_input [of "s\<lparr>where_at := At_End\<rparr>" SR_InternalError "note_metrics coroutineFinished g"] by (simp add: run_fails_def)

lemma write_input:
  "same_input s (fst (write_response resp head pt (s, g))) \<and>
   (where_at (fst (write_response resp head pt (s, g))) = At_End \<or> (\<exists>n. where_at (fst (write_response resp head pt (s, g))) = pt n))"
  using fails_input [of s g] by (auto simp: write_response_def begin_write_def split: sum.splits)

text \<open>After taking a request the session is serving it, or has ended.\<close>

definition serves :: "HttpRequest \<Rightarrow> HttpSession \<Rightarrow> HttpSession \<Rightarrow> bool" where
  "serves rq s s' \<longleftrightarrow> same_input s s' \<and> (where_at s' = At_End \<or> in_service (where_at s') = Some rq)"

lemma serving_of_request [simp]: "sv_request (serving_of rq t ctx) = rq"
  by (simp add: serving_of_def)

lemma serve_request_serves: "serves rq s (fst (serve_request rnd hash clk rq (s, g)))"
proof (cases "ss_state s = SS_Closing \<or> ss_state s = SS_Closed")
  case True
  then show ?thesis using finish_input [of s g] by (simp add: serve_request_def serves_def)
next
  case False
  obtain rid q where id: "nextRequestId (gw_router g) = (rid, q)" by fastforce
  let ?s = "s\<lparr>response_bytes := 0\<rparr>" and ?g = "g\<lparr>gw_router := q\<rparr>"
  show ?thesis
  proof (cases "handle_begin rnd hash q (context_of s rid) rq (clk 1) (clk 2) (clk 3)")
    case (Inl e)
    then show ?thesis using False id fails_input [of ?s ?g] by (auto simp: serve_request_def Let_def serves_def)
  next
    case (Inr a)
    obtain r1 ctx1 pr where a: "a = (r1, ctx1, pr)" by (cases a)
    show ?thesis
    proof (cases pr)
      case (Answered resp)
      let ?sv = "serving_of rq (clk 0) ctx1"
      show ?thesis using False id Inr a Answered write_input [of "?s\<lparr>current_proxy := None\<rparr>" resp "sv_head_request ?sv" "At_Response ?sv resp" "?g\<lparr>gw_router := r1\<rparr>"]
        by (auto simp: serve_request_def Let_def serves_def)
    next
      case (Calling h rq1 pd)
      then show ?thesis using False id Inr a by (simp add: serve_request_def Let_def serves_def)
    qed
  qed
qed

section \<open>The stream ahead of the parser\<close>

abbreviation texts :: "client_request list \<Rightarrow> string" where
  "texts cs \<equiv> concat (map request_text cs)"

text \<open>
  What the parser will make of the unread bytes \<open>v\<close> and the bytes \<open>fut\<close> to come, when the requests \<open>todo\<close> are left.
\<close>

definition outlook :: "HttpParserLimits \<Rightarrow> HttpParser \<Rightarrow> string \<Rightarrow> string \<Rightarrow> client_request list \<Rightarrow> bool" where
  "outlook l p v fut todo \<longleftrightarrow> parser_inv p \<and> parser_active p \<and> p_limits p = l \<and>
     (case todo of [] \<Rightarrow> v = [] \<and> fut = []
      | c # cs \<Rightarrow> \<exists>p'. parse_bytes p (v @ fut) = (PR_Complete, p', texts cs) \<and> p_request p' = request_of c)"

lemma outlook_fresh:
  assumes "p_state p = PS_RequestLine" "parser_inv p" "p_limits p = l" "list_all (client_fits l) todo" "v @ fut = texts todo"
  shows "outlook l p v fut todo"
proof (cases todo)
  case (Cons c cs)
  with assms parse_bytes_request [of p c "texts cs"] show ?thesis by (auto simp: outlook_def parser_active_def)
qed (use assms in \<open>simp add: outlook_def parser_active_def\<close>)

lemma parse_bytes_Nil: "parse_bytes p [] = (r, p', s') \<Longrightarrow> p_state p \<noteq> PS_Body \<Longrightarrow> r = PR_NeedMore \<and> p' = p \<and> s' = [] \<or> r = PR_HeaderTooLarge"
  by (erule parse_bytes_cases) auto

lemma parse_bytes_nothing: "parse_bytes p [] = (r, p', s') \<Longrightarrow> r = PR_Complete \<or> r = PR_NeedMore \<Longrightarrow> parser_inv p \<Longrightarrow> r = PR_NeedMore \<and> p' = p \<and> s' = []"
  by (erule parse_bytes_cases) (auto simp: parser_inv_def Let_def)

text \<open>A parse of what has arrived: more is needed and the outlook stays, or the next request is there.\<close>

lemma outlook_parse:
  assumes "outlook l p v fut todo" "parse_bytes p v = (r, p', v')"
  shows "r = PR_NeedMore \<Longrightarrow> outlook l p' v' fut todo \<and> parse_bytes p' v' = (PR_NeedMore, p', v')"
    and "r = PR_Complete \<Longrightarrow> \<exists>c cs. todo = c # cs \<and> p_state p' = PS_Complete \<and> p_limits p' = l \<and>
      p_request p' = request_of c \<and> v' @ fut = texts cs"
proof -
  have p: "parser_inv p" "parser_active p" "p_limits p = l" using assms(1) by (simp_all add: outlook_def)
  note inv = parse_bytes_inv [OF assms(2) p(1,2)]
  show "outlook l p' v' fut todo \<and> parse_bytes p' v' = (PR_NeedMore, p', v')" if r: "r = PR_NeedMore"
  proof -
    have app: "parse_bytes p (v @ t) = parse_bytes p' (v' @ t)" for t
      using parse_bytes_NeedMore_append assms(2) r by blast
    have again: "parse_bytes p' v' = (PR_NeedMore, p', v')" using app [of "[]"] assms(2) r by simp
    show ?thesis
    proof (cases todo)
      case Nil
      then have "v = []" "fut = []" using assms(1) by (simp_all add: outlook_def)
      with parse_bytes_nothing [of p r p' v'] assms(2) r p Nil again show ?thesis by (simp add: outlook_def)
    next
      case (Cons c cs)
      with assms(1) app [of fut] inv r p again show ?thesis by (simp add: outlook_def)
    qed
  qed
  show "\<exists>c cs. todo = c # cs \<and> p_state p' = PS_Complete \<and> p_limits p' = l \<and> p_request p' = request_of c \<and> v' @ fut = texts cs"
    if r: "r = PR_Complete"
  proof (cases todo)
    case Nil
    then have "v = []" using assms(1) by (simp add: outlook_def)
    with parse_bytes_nothing [of p r p' v'] assms(2) r p show ?thesis by simp
  next
    case (Cons c cs)
    with assms(1) obtain p2 where "parse_bytes p (v @ fut) = (PR_Complete, p2, texts cs)" "p_request p2 = request_of c"
      by (auto simp: outlook_def)
    moreover have "parse_bytes p (v @ fut) = (r, p', v' @ fut)" using parse_bytes_verdict_append [OF assms(2)] r by simp
    ultimately show ?thesis using Cons inv r p by simp
  qed
qed

section \<open>The invariant\<close>

definition point_ok :: "HttpParserLimits \<Rightarrow> client_request list \<Rightarrow> string \<Rightarrow> nat \<Rightarrow> HttpSession \<Rightarrow> bool" where
  "point_ok l cs fut k s \<longleftrightarrow>
     (case where_at s of
        At_Start \<Rightarrow> buffer_ready (ss_input s) \<and> outlook l (ss_parser s) (readableView (ss_input s)) fut (drop k cs)
      | At_Read n \<Rightarrow> buffer_inv (ss_input s) \<and> prepared_bytes (ss_input s) = n \<and>
          outlook l (ss_parser s) (readableView (ss_input s)) fut (drop k cs) \<and>
          parse_bytes (ss_parser s) (readableView (ss_input s)) = (PR_NeedMore, ss_parser s, readableView (ss_input s))
      | At_Error n \<Rightarrow> True
      | At_End \<Rightarrow> True
      | pt \<Rightarrow> k < length cs \<and> in_service pt = Some (request_of (cs ! k)) \<and> p_limits (ss_parser s) = l \<and>
          buffer_ready (ss_input s) \<and> readableView (ss_input s) @ fut = texts (drop (k + 1) cs))"

text \<open>\<open>k\<close> requests have been answered.\<close>

definition stream_at :: "HttpParserLimits \<Rightarrow> client_request list \<Rightarrow> string \<Rightarrow> nat \<Rightarrow> HttpSession \<Rightarrow> bool" where
  "stream_at l cs fut k s \<longleftrightarrow> k \<le> length cs \<and> map fst (exchanges s) = map request_of (take k cs) \<and> point_ok l cs fut k s"

lemma stream_at_end: "k \<le> length cs \<Longrightarrow> map fst (exchanges s) = map request_of (take k cs) \<Longrightarrow> where_at s = At_End \<Longrightarrow> stream_at l cs fut k s"
  by (simp add: stream_at_def point_ok_def)

lemma point_ok_serving:
  assumes "in_service (where_at s) = Some rq"
  shows "point_ok l cs fut k s \<longleftrightarrow> k < length cs \<and> rq = request_of (cs ! k) \<and> p_limits (ss_parser s) = l \<and>
     buffer_ready (ss_input s) \<and> readableView (ss_input s) @ fut = texts (drop (k + 1) cs)"
  using assms by (cases "where_at s") (auto simp: point_ok_def)

lemma stream_same_input:
  assumes "same_input s s'" "where_at s' = where_at s \<or> in_service (where_at s') \<noteq> None \<and> in_service (where_at s') = in_service (where_at s)"
    and "stream_at l cs fut k s"
  shows "stream_at l cs fut k s'"
proof (cases "where_at s' = where_at s")
  case True
  with assms(1,3) show ?thesis by (simp add: stream_at_def point_ok_def same_input_def split: session_point.splits)
next
  case False
  with assms(2) obtain rq where rq: "in_service (where_at s') = Some rq" "in_service (where_at s) = Some rq" by (metis not_None_eq)
  with assms(1,3) point_ok_serving [OF rq(1), of l cs fut k] point_ok_serving [OF rq(2), of l cs fut k]
  show ?thesis by (simp add: stream_at_def same_input_def)
qed

lemma read_request_stream:
  assumes "k \<le> length cs" "map fst (exchanges s) = map request_of (take k cs)" "buffer_ready (ss_input s)"
    and "outlook l (ss_parser s) (readableView (ss_input s)) fut (drop k cs)"
  shows "stream_at l cs fut k (fst (read_request rnd hash moved clk (s, g))) \<and>
    received (fst (read_request rnd hash moved clk (s, g))) = received s"
proof -
  let ?v = "readableView (ss_input s)"
  obtain r p b where parse: "parse (ss_parser s) (ss_input s) = Inr (r, p, b)" "buffer_ready b"
      "parse_view (ss_parser s) ?v = (r, p, readableView b)"
    using parse_on_view [OF assms(3), of "ss_parser s"] by blast
  have "parser_active (ss_parser s)" using assms(4) by (simp add: outlook_def)
  with parse(3) have pb: "parse_bytes (ss_parser s) ?v = (r, p, readableView b)" by simp
  let ?s = "s\<lparr>ss_parser := p, ss_input := b\<rparr>"
  have ended: "stream_at l cs fut k s' \<and> received s' = received s" if "same_input s1 s'" "where_at s' = At_End \<or> (\<exists>n. where_at s' = At_Error n)"
    "exchanges s1 = exchanges s" "received s1 = received s" for s1 s'
    using that assms(1,2) by (auto simp: stream_at_def point_ok_def same_input_def)
  consider (need) "r = PR_NeedMore" | (got) "r = PR_Complete" | (bad) "r \<noteq> PR_Complete" "r \<noteq> PR_NeedMore" by blast
  then show ?thesis
  proof cases
    case need
    show ?thesis
    proof (cases "prepare b (sl_read_chunk_bytes (ss_limits s))")
      case (Inl e)
      then show ?thesis using parse(1) need ended [of ?s] fails_input [of ?s g] by (simp add: read_request_def)
    next
      case (Inr nb)
      obtain n b1 where nb: "nb = (n, b1)" by fastforce
      have b1: "buffer_inv b1" "prepared_bytes b1 = n" "readableView b1 = readableView b"
        using prepare_ok [OF parse(2)] Inr nb by auto
      with outlook_parse(1) [OF assms(4) pb need] assms(1,2) Inr nb parse(1) need show ?thesis
        by (simp add: read_request_def stream_at_def point_ok_def armReadDeadline_def)
    qed
  next
    case got
    then obtain c cs' where nx: "drop k cs = c # cs'" "p_state p = PS_Complete" "p_limits p = l"
        "p_request p = request_of c" "readableView b @ fut = texts cs'" using outlook_parse(2) [OF assms(4) pb] by blast
    let ?s1 = "?s\<lparr>ss_parser := p\<lparr>p_request := moved\<rparr>\<rparr>"
    have len: "k < length cs" using nx(1) by (metis drop_all leI list.distinct(1))
    then have k: "k < length cs" "cs ! k = c" "drop (k + 1) cs = cs'"
      using nx(1) Cons_nth_drop_Suc [OF len] by simp_all
    have eq: "read_request rnd hash moved clk (s, g) = serve_request rnd hash clk (request_of c) (?s1, g)"
      using parse(1) got nx(2,4) by (simp add: read_request_def takeRequest_def)
    let ?s' = "fst (serve_request rnd hash clk (request_of c) (?s1, g))"
    have sv: "serves (request_of c) ?s1 ?s'" by (rule serve_request_serves)
    show ?thesis
    proof (cases "where_at ?s' = At_End")
      case True
      with sv ended [of ?s1 ?s'] show ?thesis unfolding eq by (simp add: serves_def)
    next
      case False
      with sv have "in_service (where_at ?s') = Some (request_of c)" by (simp add: serves_def)
      from point_ok_serving [OF this] sv nx(3,5) parse(2) k assms(1,2)
      show ?thesis unfolding eq by (simp add: serves_def same_input_def stream_at_def)
    qed
  next
    case bad
    then obtain resp where "makeErrorResponse r = Inr resp" by (cases r) auto
    with parse(1) bad ended [of "?s\<lparr>ss_reason := SR_ProtocolError\<rparr>"]
      write_input [of "?s\<lparr>ss_reason := SR_ProtocolError\<rparr>" resp False At_Error g]
    show ?thesis by (simp add: read_request_def)
  qed
qed

lemma after_response_stream:
  assumes "stream_at l cs fut k s" "in_service (where_at s) = Some (sv_request sv)" "list_all (client_fits l) cs"
  shows "stream_at l cs fut (k + 1) (fst (after_response rnd hash moved clk sv resp (s, g))) \<and>
    received (fst (after_response rnd hash moved clk sv resp (s, g))) = received s"
proof -
  let ?s = "s\<lparr>served_request := True, exchanges := exchanges s @ [(sv_request sv, resp)]\<rparr>"
  let ?g = "record_exchange rnd sv resp (clk 4) (response_bytes s) g"
  let ?s1 = "?s\<lparr>ss_parser := reset (ss_parser ?s)\<rparr>"
  have k: "k < length cs" "sv_request sv = request_of (cs ! k)" "p_limits (ss_parser s) = l" "buffer_ready (ss_input s)"
      "readableView (ss_input s) @ fut = texts (drop (k + 1) cs)"
    using assms(1) point_ok_serving [OF assms(2), of l cs fut k] by (simp_all add: stream_at_def)
  have ex: "map fst (exchanges ?s) = map request_of (take (k + 1) cs)"
    using assms(1) k(1,2) by (simp add: stream_at_def take_Suc_conv_app_nth)
  have ended: "stream_at l cs fut (k + 1) s' \<and> received s' = received s" if "same_input ?s s' \<or> same_input ?s1 s'" "where_at s' = At_End" for s'
    using that ex k(1) by (intro conjI stream_at_end) (auto simp: same_input_def)
  have fin: "stream_at l cs fut (k + 1) (fst (finish_run (?s, ?g))) \<and> received (fst (finish_run (?s, ?g))) = received s"
    "stream_at l cs fut (k + 1) (fst (finish_run (?s1, ?g))) \<and> received (fst (finish_run (?s1, ?g))) = received s"
    using ended finish_input by blast+
  have "list_all (client_fits l) (drop (k + 1) cs)" using assms(3) by (auto simp: list_all_iff dest: in_set_dropD)
  then have "outlook l (reset (ss_parser s)) (readableView (ss_input s)) fut (drop (k + 1) cs)"
    using k(3,5) by (intro outlook_fresh) (simp_all add: parser_inv_reset)
  then have "stream_at l cs fut (k + 1) (fst (read_request rnd hash moved clk (?s1, ?g))) \<and>
      received (fst (read_request rnd hash moved clk (?s1, ?g))) = received s"
    using read_request_stream [of "k + 1" cs ?s1 l fut rnd hash moved clk ?g] k(1,4) ex by simp
  with fin show ?thesis by (simp add: after_response_def next_request_def Let_def)
qed

section \<open>Every event\<close>

lemma start_stream:
  assumes "stream_at l cs fut k s" "where_at s = At_Start"
  shows "stream_at l cs fut k (fst (start_run rnd hash moved clk (s, g))) \<and>
    received (fst (start_run rnd hash moved clk (s, g))) = received s"
proof -
  let ?s = "if ss_state s = SS_Created then s\<lparr>ss_state := SS_Running\<rparr> else s" and ?g = "note_metrics coroutineStarted g"
  have s: "k \<le> length cs" "map fst (exchanges s) = map request_of (take k cs)" "buffer_ready (ss_input s)"
    "outlook l (ss_parser s) (readableView (ss_input s)) fut (drop k cs)"
    using assms by (simp_all add: stream_at_def point_ok_def)
  have "stream_at l cs fut k (fst (read_request rnd hash moved clk (?s, ?g))) \<and>
      received (fst (read_request rnd hash moved clk (?s, ?g))) = received s"
    using read_request_stream [of k cs ?s l fut rnd hash moved clk ?g] s by (simp split: if_splits)
  moreover have "stream_at l cs fut k (fst (finish_run (?s, ?g))) \<and> received (fst (finish_run (?s, ?g))) = received s"
    using finish_input [of ?s ?g] s(1,2) by (auto intro!: stream_at_end simp: same_input_def split: if_splits)
  ultimately show ?thesis by (simp add: start_run_def next_request_def)
qed

lemma read_stream:
  assumes "stream_at l cs (bs @ fut) k s" "where_at s = At_Read n" "length bs \<le> n"
  shows "stream_at l cs fut k (fst (read_completes rnd hash moved clk bs (s, g))) \<and>
    received (fst (read_completes rnd hash moved clk bs (s, g))) = received s @ bs"
proof -
  let ?s = "s\<lparr>reading := False, deadline := disarm (deadline s)\<rparr>"
  have s: "k \<le> length cs" "map fst (exchanges s) = map request_of (take k cs)" "buffer_inv (ss_input s)" "prepared_bytes (ss_input s) = n"
    "outlook l (ss_parser s) (readableView (ss_input s)) (bs @ fut) (drop k cs)"
    using assms(1,2) by (simp_all add: stream_at_def point_ok_def)
  show ?thesis
  proof (cases "bs = []")
    case True
    then show ?thesis using finish_input [of "noted_reason ?s SR_PeerClosed" g] s(1,2)
      by (auto intro!: stream_at_end simp: read_completes_def same_input_def)
  next
    case False
    obtain b where b: "commit (write_span (ss_input s) bs) (length bs) = Inr b" "buffer_ready b"
        "readableView b = readableView (ss_input s) @ bs"
      using write_commit_ok [OF s(3), of bs] s(4) assms(3) by auto
    let ?s1 = "?s\<lparr>ss_input := b, received := received ?s @ bs\<rparr>"
    have "outlook l (ss_parser ?s1) (readableView (ss_input ?s1)) fut (drop k cs)"
    proof (cases "drop k cs")
      case Nil
      with s(5) False show ?thesis by (simp add: outlook_def)
    next
      case (Cons c cs')
      with s(5) b(3) show ?thesis by (simp add: outlook_def)
    qed
    from read_request_stream [of k cs ?s1, OF s(1) _ _ this, of rnd hash moved clk g] s(2) b False
    show ?thesis by (simp add: read_completes_def)
  qed
qed

lemma handler_stream:
  assumes "stream_at l cs fut k s" "where_at s = At_Handler sv pd None" "list_all (client_fits l) cs"
  shows "\<exists>k'. stream_at l cs fut k' (fst (handler_returns rnd hash moved clk sv pd answer (s, g))) \<and>
    received (fst (handler_returns rnd hash moved clk sv pd answer (s, g))) = received s"
proof -
  have s: "k \<le> length cs" "map fst (exchanges s) = map request_of (take k cs)" using assms(1) by (simp_all add: stream_at_def)
  have ended: "stream_at l cs fut k s' \<and> received s' = received s" if "same_input s s'" "where_at s' = At_End" for s'
    using that s by (intro conjI stream_at_end) (auto simp: same_input_def)
  show ?thesis
  proof (cases "handle_end hash (gw_router g) (sv_context sv) pd answer (clk 3)")
    case (Inl e)
    then show ?thesis using ended fails_input [of s g] by (auto simp: handler_returns_def)
  next
    case (Inr a)
    obtain r ctx resp where a: "a = (r, ctx, resp)" by (cases a)
    let ?s = "s\<lparr>current_proxy := None\<rparr>" and ?g = "g\<lparr>gw_router := r\<rparr>" and ?sv = "sv\<lparr>sv_context := ctx\<rparr>"
    have s1: "stream_at l cs fut k ?s" using assms(1) by (rule stream_same_input [rotated 2]) simp_all
    show ?thesis
    proof (cases "rs_already_written resp")
      case True
      then show ?thesis using after_response_stream [OF s1, of ?sv rnd hash moved clk resp ?g] assms(2,3) Inr a
        by (auto simp: handler_returns_def Let_def)
    next
      case False
      let ?s' = "fst (write_response resp (sv_head_request ?sv) (At_Response ?sv resp) (?s, ?g))"
      have eq: "fst (handler_returns rnd hash moved clk sv pd answer (s, g)) = ?s'"
        using False Inr a by (simp add: handler_returns_def Let_def)
      have w: "same_input ?s ?s'" "where_at ?s' = At_End \<or> (\<exists>n. where_at ?s' = At_Response ?sv resp n)"
        using write_input [of ?s resp "sv_head_request ?sv" "At_Response ?sv resp" ?g] by simp_all
      show ?thesis
      proof (cases "where_at ?s' = At_End")
        case True
        with w(1) show ?thesis unfolding eq using ended by auto
      next
        case False
        with w(2) have "in_service (where_at ?s') = in_service (where_at ?s)" using assms(2) by auto
        then have "stream_at l cs fut k ?s'" using s1 w(1) assms(2) by (intro stream_same_input [OF w(1)]) auto
        with w(1) show ?thesis unfolding eq by (auto simp: same_input_def)
      qed
    qed
  qed
qed

text \<open>The bytes an event delivers.\<close>

fun delivered :: "session_event \<Rightarrow> string" where
  "delivered (Reads bs) = bs" | "delivered _ = []"

lemma same_input_step:
  assumes "stream_at l cs fut k s" "same_input s s'"
    and "where_at s' = where_at s \<or> in_service (where_at s') \<noteq> None \<and> in_service (where_at s') = in_service (where_at s)"
  shows "\<exists>k'. stream_at l cs fut k' s' \<and> received s' = received s"
  using stream_same_input [OF assms(2,3,1)] assms(2) by (auto simp: same_input_def)

lemma step_stream:
  assumes "session_step rnd hash moved clk ev (s, g) = Some y" "list_all (client_fits l) cs"
    and "stream_at l cs (delivered ev @ fut) k s"
  shows "\<exists>k'. stream_at l cs fut k' (fst y) \<and> received (fst y) = received s @ delivered ev"
  using assms(1)
proof (cases rule: session_step_cases)
  case Starts
  then show ?thesis using start_stream [of l cs fut k s rnd hash moved clk g] assms(3) by auto
next
  case (Reads bs n)
  then show ?thesis using read_stream [of l cs bs fut k s n rnd hash moved clk g] assms(3) by auto
next
  case (Returns answer sv pd)
  then show ?thesis using handler_stream [of l cs fut k s sv pd rnd hash moved clk answer g] assms(2,3) by auto
next
  case (Downstream n sv pd s1 g1)
  then show ?thesis using same_input_step [of l cs fut k s "fst y"] assms(3) by (auto simp: begin_write_def)
next
  case (Downstream_Done n ok sv pd s1 g1)
  then show ?thesis using same_input_step [of l cs fut k s "fst y"] assms(3) by (auto simp: end_write_def split: if_splits)
next
  case (Wrote ok sv resp n)
  obtain s1 g1 where e: "end_write n ok (s, g) = (s1, g1)" by fastforce
  then have s1: "s1 = s \<or> s1 = noted_reason s SR_PeerClosed" by (auto simp: end_write_def split: if_splits)
  then have "stream_at l cs fut k s1" using assms(3) Wrote(1) stream_same_input [of s s1] by auto
  with after_response_stream [of l cs fut k s1 sv rnd hash moved clk resp g1] Wrote e s1 assms(2) show ?thesis by auto
next
  case (Wrote_Error ok n)
  obtain s1 g1 where e: "end_write n ok (s, g) = (s1, g1)" by fastforce
  then have "same_input s s1" by (auto simp: end_write_def split: if_splits)
  with finish_input [of s1 g1] assms(3) Wrote_Error e
  show ?thesis by (auto simp: stream_at_def point_ok_def same_input_def)
next
  case (Continues sv resp)
  then show ?thesis using after_response_stream [of l cs fut k s sv rnd hash moved clk resp g] assms(2,3) by auto
next
  case (Expires w error cb d)
  then show ?thesis using same_input_step [of l cs fut k s "fst y"] close_input [of "s\<lparr>deadline := d\<rparr>" _ g] assms(3)
    by (cases cb) auto
next
  case (Stops reason)
  then show ?thesis using same_input_step [of l cs fut k s "fst y"] close_input [of s reason g] assms(3) by auto
next
  case Drains
  then show ?thesis using same_input_step [of l cs fut k s "fst y"] drain_input [of s g] assms(3) by auto
next
  case (Proxying p sv pd w)
  then show ?thesis using same_input_step [of l cs fut k s "fst y"] assms(3) by auto
next
  case (Noted sv pd w f)
  then show ?thesis using assms(3) by (cases ev) auto
qed

text \<open>A run of one session: between two of its events the other sessions may have changed the gateway.\<close>

inductive session_run :: "(real \<Rightarrow> real) \<Rightarrow> (string \<Rightarrow> nat) \<Rightarrow> HttpRequest \<Rightarrow> HttpSession \<Rightarrow> session_event list \<Rightarrow> HttpSession \<Rightarrow> bool"
  for rnd hash moved s0 where
  run_start: "session_run rnd hash moved s0 [] s0"
| run_event: "session_run rnd hash moved s0 evs s \<Longrightarrow> session_step rnd hash moved clk ev (s, g) = Some (s', g') \<Longrightarrow>
    session_run rnd hash moved s0 (evs @ [ev]) s'"

inductive_cases session_run_snoc: "session_run rnd hash moved s0 (evs @ [ev]) s"

lemma session_run_stream:
  assumes "session_run rnd hash moved s0 evs s" "list_all (client_fits l) cs"
    and "\<And>fut. texts cs = fut \<Longrightarrow> stream_at l cs fut 0 s0"
  shows "concat (map delivered evs) @ fut = texts cs \<Longrightarrow> \<exists>k. stream_at l cs fut k s"
  using assms(1)
proof (induction arbitrary: fut)
  case run_start
  then show ?case using assms(3) by auto
next
  case (run_event evs s clk ev g s' g')
  from run_event.IH [of "delivered ev @ fut"] run_event.prems obtain k where "stream_at l cs (delivered ev @ fut) k s" by auto
  from step_stream [OF run_event.hyps(2) assms(2) this] show ?case by auto
qed

lemma made_session_stream:
  assumes "HttpSession_make sid l p = Inr s" "list_all (client_fits (parser_limits l)) cs"
  shows "stream_at (parser_limits l) cs (texts cs) 0 s"
proof -
  from assms(1) obtain b q where b: "Buffer_make (sl_read_chunk_bytes l) (sl_max_buffer_bytes l) = Inr b"
      "HttpParser_make (parser_limits l) = Inr q" "ss_input s = b" "ss_parser s = q" "where_at s = At_Start" "exchanges s = []"
    by (auto simp: HttpSession_make_def ebind_def split: sum.splits if_splits)
  have r: "buffer_ready b" "readableView b = []" using Buffer_make_ready [OF b(1)] by simp_all
  then have "outlook (parser_limits l) q (readableView b) (texts cs) (drop 0 cs)"
    using parser_inv_make [OF b(2)] assms(2) by (intro outlook_fresh) simp_all
  with b r show ?thesis by (simp add: stream_at_def point_ok_def)
qed

section \<open>Property\<close>

text \<open>
  C2: A connection serves its requests in order, each once. However the client's bytes are cut into reads and whatever
  else happens to the session (timers, stops, drains, failed writes, other sessions at work), the
  requests answered so far are a prefix of the client's requests, the request in service, if any, is
  the next one, and a session that waits for more input after everything was delivered has
  answered them all.
\<close>

theorem requests_served_in_order:
  assumes "HttpSession_make sid l peer = Inr s0" "list_all (client_fits (parser_limits l)) cs"
    and "session_run rnd hash moved s0 evs s" "concat (map delivered evs) @ fut = texts cs"
  shows "\<exists>k \<le> length cs. map fst (exchanges s) = map request_of (take k cs) \<and>
     (\<forall>rq. in_service (where_at s) = Some rq \<longrightarrow> k < length cs \<and> rq = request_of (cs ! k)) \<and>
     (\<forall>n. where_at s = At_Read n \<and> fut = [] \<longrightarrow> k = length cs)"
proof -
  obtain k where k: "stream_at (parser_limits l) cs fut k s"
    using session_run_stream [OF assms(3,2) _ assms(4)] made_session_stream [OF assms(1,2)] by blast
  have "k < length cs \<and> rq = request_of (cs ! k)" if "in_service (where_at s) = Some rq" for rq
    using k point_ok_serving [OF that] by (simp add: stream_at_def)
  moreover have "k = length cs" if "where_at s = At_Read n" "fut = []" for n
  proof (rule ccontr)
    assume "k \<noteq> length cs"
    with k that obtain c cs' where "drop k cs = c # cs'" by (cases "drop k cs") (auto simp: stream_at_def)
    with k that show False by (auto simp: stream_at_def point_ok_def outlook_def)
  qed
  ultimately show ?thesis using k by (auto simp: stream_at_def)
qed

text \<open>Runs that no other session disturbs, to evaluate.\<close>

fun play :: "(real \<Rightarrow> real) \<Rightarrow> (string \<Rightarrow> nat) \<Rightarrow> HttpRequest \<Rightarrow> session_event list \<Rightarrow> session_state \<Rightarrow> session_state option" where
  "play rnd hash moved [] x = Some x"
| "play rnd hash moved (ev # evs) x =
     (case session_step rnd hash moved (\<lambda>_. 0) ev x of None \<Rightarrow> None | Some y \<Rightarrow> play rnd hash moved evs y)"

lemma play_run:
  "session_run rnd hash moved s0 past s \<Longrightarrow> play rnd hash moved evs (s, g) = Some (s', g') \<Longrightarrow> session_run rnd hash moved s0 (past @ evs) s'"
proof (induction evs arbitrary: past s g)
  case (Cons ev evs)
  then obtain s1 g1 where one: "session_step rnd hash moved (\<lambda>_. 0) ev (s, g) = Some (s1, g1)" "play rnd hash moved evs (s1, g1) = Some (s', g')"
    by (auto split: option.splits)
  from Cons.IH [OF run_event [OF Cons.prems(1) one(1)] one(2)] show ?case by simp
qed simp

definition small_limits :: SessionLimits where
  "small_limits = SessionLimits_default\<lparr>parser_limits := \<lparr>max_request_line_bytes = 40, max_header_bytes = 80, max_header_count = 4,
     max_header_line_bytes = 40, max_body_bytes = 10\<rparr>, sl_read_chunk_bytes := 60, sl_max_buffer_bytes := 200\<rparr>"

definition small_client :: client_request where
  "small_client = \<lparr>cr_method = ''GET'', cr_target = ''/'', cr_minor = CHR ''1'', cr_fields = [(''Host'', ''a'')], cr_body = []\<rparr>"

definition small_session :: HttpSession where
  "small_session = (case HttpSession_make 1 small_limits (False, ''c'') of Inr s \<Rightarrow> s)"

definition small_gateway :: gateway where
  "small_gateway = \<lparr>gw_registry = (case SessionRegistry_make 2 of Inr r \<Rightarrow> r), gw_router = (case Router_make None 0 of Inr r \<Rightarrow> r),
     gw_logger = (case AsyncLogger_make LoggerConfig_default of Inr lg \<Rightarrow> lg)\<rparr>"

definition small_events :: "session_event list" where
  "small_events = [Starts, Reads (request_text small_client @ ''GE''), Wrote True, Reads (drop 2 (request_text small_client)), Wrote True]"

theorem requests_served_in_order_witness:
  "\<exists>s n. session_run (\<lambda>x. x) length HttpRequest_default small_session small_events s \<and> where_at s = At_Read n \<and>
     map fst (exchanges s) = [request_of small_client, request_of small_client]"
proof -
  have "(case play (\<lambda>x. x) length HttpRequest_default small_events (small_session, small_gateway) of
      Some (s, g) \<Rightarrow> (case where_at s of At_Read n \<Rightarrow> True | _ \<Rightarrow> False) | None \<Rightarrow> False)" by code_simp
  then obtain s g n where s: "play (\<lambda>x. x) length HttpRequest_default small_events (small_session, small_gateway) = Some (s, g)"
      "where_at s = At_Read n" by (auto split: option.splits session_point.splits)
  have "(case HttpSession_make 1 small_limits (False, ''c'') of Inr s \<Rightarrow> True | Inl e \<Rightarrow> False)" by code_simp
  then have make: "HttpSession_make 1 small_limits (False, ''c'') = Inr small_session"
    by (auto simp: small_session_def split: sum.splits)
  have run: "session_run (\<lambda>x. x) length HttpRequest_default small_session small_events s"
    using play_run [OF run_start s(1)] by simp
  have fits: "list_all (client_fits (parser_limits small_limits)) [small_client, small_client]" by code_simp
  have "concat (map delivered small_events) @ [] = texts [small_client, small_client]" by code_simp
  from requests_served_in_order [OF make fits run this] s(2) run show ?thesis by auto
qed

end
