(* ===== verification/Listener.thy ===== *)
theory Listener
  imports Prelude
begin

text \<open>
  The accept loop of \<open>src/net/listener.cpp\<close>: \<open>start\<close> and \<open>stop\<close> run on the listener's strand, the coroutine
  \<open>acceptLoop\<close> waits for a socket or, after a failed accept, for the retry timer. The socket calls of the
  constructor are a parameter: the step that failed, if any.
\<close>

section \<open>State and operations\<close>

datatype accept_point = LP_Idle | LP_Accepting | LP_Retrying | LP_Done

record Listener =
  started :: bool
  stopping :: bool
  acceptor_open :: bool
  l_at :: accept_point

definition Listener_make :: "int \<Rightarrow> bool \<Rightarrow> bool \<Rightarrow> Listener outcome" where
  "Listener_make backlog has_factory socket_ok =
     (if backlog \<le> 0 \<or> \<not> has_factory then Inl Invalid_Argument
      else if \<not> socket_ok then Inl System_Error
      else Inr \<lparr>started = False, stopping = False, acceptor_open = True, l_at = LP_Idle\<rparr>)"

text \<open>The condition of the loop.\<close>

definition accept_again :: "Listener \<Rightarrow> Listener" where
  "accept_again l = l\<lparr>l_at := (if stopping l then LP_Done else LP_Accepting)\<rparr>"

definition listener_start :: "Listener \<Rightarrow> Listener" where
  "listener_start l = (if started l \<or> stopping l then l else accept_again (l\<lparr>started := True\<rparr>))"

definition listener_stopInExecutor :: "Listener \<Rightarrow> Listener" where
  "listener_stopInExecutor l = (if stopping l then l else l\<lparr>stopping := True, acceptor_open := False\<rparr>)"

datatype accept_result = Accepted | Aborted | Accept_Failed

text \<open>
  A completed accept: whether the session factory is called with the socket (its exceptions are caught), and
  the state of the loop before that call returns to it.
\<close>

definition accept_completes :: "Listener \<Rightarrow> accept_result \<Rightarrow> bool \<times> Listener" where
  "accept_completes l r =
     (if r = Aborted \<and> stopping l then (False, l\<lparr>l_at := LP_Done\<rparr>)
      else if r \<noteq> Accepted then (False, l\<lparr>l_at := LP_Retrying\<rparr>)
      else (True, accept_again l))"

definition retry_completes :: "Listener \<Rightarrow> Listener" where
  "retry_completes l = (if stopping l then l\<lparr>l_at := LP_Done\<rparr> else accept_again l)"

text \<open>An exception that leaves the coroutine.\<close>

definition accept_loop_fails :: "Listener \<Rightarrow> Listener" where
  "accept_loop_fails l = (listener_stopInExecutor l)\<lparr>l_at := LP_Done\<rparr>"

section \<open>Lemmas\<close>

text \<open>The acceptor is open exactly until the stop, and the loop waits only while it may.\<close>

definition listener_inv :: "Listener \<Rightarrow> bool" where
  "listener_inv l \<longleftrightarrow> (acceptor_open l \<longleftrightarrow> \<not> stopping l) \<and> (l_at l \<noteq> LP_Idle \<longrightarrow> started l)"

lemma listener_inv_steps:
  "Listener_make backlog f ok = Inr l \<Longrightarrow> listener_inv l"
  "listener_inv l \<Longrightarrow> listener_inv (listener_start l)"
  "listener_inv l \<Longrightarrow> listener_inv (listener_stopInExecutor l)"
  "listener_inv l \<Longrightarrow> l_at l = LP_Accepting \<Longrightarrow> listener_inv (snd (accept_completes l r))"
  "listener_inv l \<Longrightarrow> l_at l = LP_Retrying \<Longrightarrow> listener_inv (retry_completes l)"
  by (auto simp: Listener_make_def listener_inv_def listener_start_def listener_stopInExecutor_def accept_completes_def
      retry_completes_def accept_again_def split: if_splits)

text \<open>After the stop the loop ends with the next completion, or with the retry after it.\<close>

lemma stopped_loop_ends:
  assumes "stopping l"
  shows "l_at (snd (accept_completes l r)) = LP_Done \<or>
    l_at (snd (accept_completes l r)) = LP_Retrying \<and> l_at (retry_completes (snd (accept_completes l r))) = LP_Done"
  using assms by (cases r) (simp_all add: accept_completes_def retry_completes_def accept_again_def)

end
