(* ===== verification/HttpServer.thy ===== *)
theory HttpServer
  imports HttpSession Listener
begin

text \<open>
  The server, \<open>HttpServer\<close> of \<open>src/http/http_server.cpp\<close>: it accepts sockets into sessions, drains and stops. The
  sessions and the listener run on strands of their own, so what the server asks of them is posted
  and delivered later, in any order; every delivery, completion and timer is an event.
\<close>

section \<open>State\<close>

text \<open>
  \<open>clients\<close> are the session objects by id. \<open>reports\<close> records the calls of the drain callback and \<open>refused\<close> the
  sockets that were turned away.
\<close>

datatype listener_task = Start_Listening | Stop_Listening

record HttpServer =
  srv_gateway :: gateway
  srv_limits :: SessionLimits
  srv_listener :: Listener
  listener_tasks :: "listener_task list"
  clients :: "SessionId \<rightharpoonup> HttpSession"
  next_session_id :: nat
  posted :: "(SessionId \<times> session_event) list"
  srv_draining :: bool
  drain_finished :: bool
  drain_deadline_expired :: bool
  on_drain_complete :: bool
  drain_timer :: bool
  drain_polls :: nat
  reports :: "bool list"
  refused :: nat

text \<open>
  The constructor that takes a router: the result of parsing the address and of opening the acceptor is a
  parameter; the readiness callback of the router is \<open>\<not> srv_draining\<close>.
\<close>

definition HttpServer_make :: "Router option \<Rightarrow> MetricsRegistry \<Rightarrow> AsyncLogger \<Rightarrow> SessionLimits \<Rightarrow> int \<Rightarrow> bool \<Rightarrow> bool \<Rightarrow> HttpServer outcome" where
  "HttpServer_make router m lg l backlog address_ok socket_ok =
     ebind (SessionRegistry_make (max_connections l)) (\<lambda>reg.
       case router of
         None \<Rightarrow> Inl Invalid_Argument
       | Some r \<Rightarrow>
           if \<not> address_ok then Inl System_Error
           else ebind (Listener_make backlog True socket_ok) (\<lambda>li.
             Inr \<lparr>srv_gateway = \<lparr>gw_registry = reg, gw_router = r\<lparr>metrics := Some m\<rparr>, gw_logger = lg\<rparr>,
                  srv_limits = l, srv_listener = li, listener_tasks = [], clients = Map.empty, next_session_id = 1,
                  posted = [], srv_draining = False, drain_finished = False, drain_deadline_expired = False,
                  on_drain_complete = False, drain_timer = False, drain_polls = 0, reports = [], refused = 0\<rparr>))"

section \<open>Accepting\<close>

text \<open>A weak pointer to a session is expired at the earliest when its coroutine has returned.\<close>

definition session_gone :: "HttpServer \<Rightarrow> nat \<Rightarrow> bool" where
  "session_gone v sid = (case clients v sid of None \<Rightarrow> True | Some s \<Rightarrow> where_at s = At_End)"

definition with_registry :: "HttpServer \<Rightarrow> SessionRegistry \<Rightarrow> HttpServer" where
  "with_registry v r = v\<lparr>srv_gateway := (srv_gateway v)\<lparr>gw_registry := r\<rparr>\<rparr>"

definition note_server :: "(MetricsRegistry \<Rightarrow> MetricsRegistry) \<Rightarrow> HttpServer \<Rightarrow> HttpServer" where
  "note_server f v = v\<lparr>srv_gateway := note_metrics f (srv_gateway v)\<rparr>"

text \<open>The session factory. When the session cannot be made the listener catches the exception and the socket is closed.\<close>

definition accept_socket :: "(bool \<times> string) \<Rightarrow> HttpServer \<Rightarrow> HttpServer" where
  "accept_socket p v =
     (let sid = next_session_id v;
          v1 = v\<lparr>next_session_id := u64_inc sid\<rparr>
      in case HttpSession_make sid (srv_limits v) p of
           Inl e \<Rightarrow> v1
         | Inr s \<Rightarrow>
             (case tryAdd (session_gone v1) (gw_registry (srv_gateway v1)) sid sid of
                (True, r) \<Rightarrow> note_server connectionAccepted ((with_registry v1 r)\<lparr>clients := (clients v1)(sid \<mapsto> s)\<rparr>)
              | (False, r) \<Rightarrow>
                  (note_server (\<lambda>m. connectionRejected m ''resource_limit'')
                    (with_registry v1 (recordRejected r SR_ResourceLimit)))\<lparr>refused := refused v1 + 1\<rparr>))"

section \<open>Draining and stopping\<close>

definition post_all :: "session_event \<Rightarrow> nat list \<Rightarrow> HttpServer \<Rightarrow> HttpServer" where
  "post_all ev sids v = v\<lparr>posted := posted v @ map (\<lambda>sid. (sid, ev)) sids\<rparr>"

definition drain_sessions :: "HttpServer \<Rightarrow> HttpServer" where
  "drain_sessions v =
     (case registry_beginDrain (session_gone v) (gw_registry (srv_gateway v)) of
        (sids, r) \<Rightarrow> post_all Drains sids (with_registry v r))"

definition force_close :: "HttpServer \<Rightarrow> HttpServer" where
  "force_close v =
     (case forceCloseAll (session_gone v) (gw_registry (srv_gateway v)) of
        (sids, r) \<Rightarrow> post_all (Stops SR_ServerShutdown) sids (with_registry v r))"

definition finishDrain :: "bool \<Rightarrow> HttpServer \<Rightarrow> HttpServer" where
  "finishDrain drained v =
     (if drain_finished v then v
      else v\<lparr>drain_finished := True, reports := reports v @ (if on_drain_complete v then [drained] else [])\<rparr>)"

definition checkDrain :: "HttpServer \<Rightarrow> HttpServer" where
  "checkDrain v =
     (if drain_finished v then v
      else
        (case registry_size (session_gone v) (gw_registry (srv_gateway v)) of
           (n, r) \<Rightarrow>
             let v1 = with_registry v r
             in if n = 0 then finishDrain (\<not> drain_deadline_expired v1) v1
                else v1\<lparr>drain_polls := drain_polls v1 + 1\<rparr>))"

definition server_start :: "HttpServer \<Rightarrow> HttpServer" where
  "server_start v = v\<lparr>listener_tasks := listener_tasks v @ [Start_Listening]\<rparr>"

definition server_stop :: "HttpServer \<Rightarrow> HttpServer" where
  "server_stop v = force_close (drain_sessions (v\<lparr>listener_tasks := listener_tasks v @ [Stop_Listening]\<rparr>))"

definition server_beginDrain :: "int \<Rightarrow> bool \<Rightarrow> HttpServer \<Rightarrow> HttpServer outcome" where
  "server_beginDrain grace has_callback v =
     (if grace \<le> 0 then Inl Invalid_Argument
      else if srv_draining v then Inr v
      else
        let v1 = v\<lparr>srv_draining := True, drain_finished := False, drain_deadline_expired := False,
                   on_drain_complete := has_callback, listener_tasks := listener_tasks v @ [Stop_Listening]\<rparr>
        in Inr (checkDrain ((drain_sessions v1)\<lparr>drain_timer := True\<rparr>)))"

text \<open>The drain timer: cancelled by \<open>finishDrain\<close>, unless its completion was already queued.\<close>

definition drain_timer_completes :: "bool \<Rightarrow> HttpServer \<Rightarrow> HttpServer" where
  "drain_timer_completes error v =
     (let v1 = v\<lparr>drain_timer := False\<rparr>
      in if error then v1 else checkDrain (force_close (v1\<lparr>drain_deadline_expired := True\<rparr>)))"

text \<open>The poll timer of \<open>checkDrain\<close>, which nothing cancels.\<close>

definition drain_poll_completes :: "HttpServer \<Rightarrow> HttpServer" where
  "drain_poll_completes v = checkDrain (v\<lparr>drain_polls := drain_polls v - 1\<rparr>)"

definition connectionCount :: "HttpServer \<Rightarrow> nat" where
  "connectionCount v = fst (registry_size (session_gone v) (gw_registry (srv_gateway v)))"

section \<open>Events\<close>

datatype server_event =
    Begin_Drain int bool
  | Stop_Server
  | Start_Server
  | Drain_Timer bool
  | Drain_Poll
  | Listener_Turn
  | Accept_Done accept_result "bool \<times> string"
  | Retry_Done
  | Client SessionId "nat \<Rightarrow> int" session_event
  | Deliver nat "nat \<Rightarrow> int"

text \<open>One event of a session on the server's gateway.\<close>

definition client_step :: "(real \<Rightarrow> real) \<Rightarrow> (string \<Rightarrow> nat) \<Rightarrow> HttpRequest \<Rightarrow> (nat \<Rightarrow> int) \<Rightarrow> SessionId \<Rightarrow> session_event \<Rightarrow>
    HttpServer \<Rightarrow> HttpServer option" where
  "client_step rnd hash moved clk sid ev v =
     (case clients v sid of
        None \<Rightarrow> None
      | Some s \<Rightarrow>
          (case session_step rnd hash moved clk ev (s, srv_gateway v) of
             None \<Rightarrow> None
           | Some (s1, g1) \<Rightarrow> Some (v\<lparr>clients := (clients v)(sid \<mapsto> s1), srv_gateway := g1\<rparr>)))"

text \<open>Stops and drains reach a session only as posted by the server.\<close>

fun from_outside :: "session_event \<Rightarrow> bool" where
  "from_outside (Stops reason) = False" | "from_outside Drains = False" | "from_outside _ = True"

definition listener_turn :: "listener_task \<Rightarrow> Listener \<Rightarrow> Listener" where
  "listener_turn t l = (case t of Start_Listening \<Rightarrow> listener_start l | Stop_Listening \<Rightarrow> listener_stopInExecutor l)"

fun server_turn :: "(real \<Rightarrow> real) \<Rightarrow> (string \<Rightarrow> nat) \<Rightarrow> HttpRequest \<Rightarrow> server_event \<Rightarrow> HttpServer \<Rightarrow> HttpServer option" where
  "server_turn rnd hash moved (Begin_Drain grace cb) v =
     (case server_beginDrain grace cb v of Inl e \<Rightarrow> Some v | Inr v1 \<Rightarrow> Some v1)"
| "server_turn rnd hash moved Stop_Server v = Some (server_stop v)"
| "server_turn rnd hash moved Start_Server v = Some (server_start v)"
| "server_turn rnd hash moved (Drain_Timer error) v = (if drain_timer v then Some (drain_timer_completes error v) else None)"
| "server_turn rnd hash moved Drain_Poll v = (if drain_polls v = 0 then None else Some (drain_poll_completes v))"
| "server_turn rnd hash moved Listener_Turn v =
     (case listener_tasks v of
        [] \<Rightarrow> None
      | t # ts \<Rightarrow> Some (v\<lparr>srv_listener := listener_turn t (srv_listener v), listener_tasks := ts\<rparr>))"
| "server_turn rnd hash moved (Accept_Done r p) v =
     (if l_at (srv_listener v) \<noteq> LP_Accepting then None
      else case accept_completes (srv_listener v) r of
             (made, l) \<Rightarrow> Some ((if made then accept_socket p v else v)\<lparr>srv_listener := l\<rparr>))"
| "server_turn rnd hash moved Retry_Done v =
     (if l_at (srv_listener v) \<noteq> LP_Retrying then None
      else Some (v\<lparr>srv_listener := retry_completes (srv_listener v)\<rparr>))"
| "server_turn rnd hash moved (Client sid clk ev) v =
     (if from_outside ev then client_step rnd hash moved clk sid ev v else None)"
| "server_turn rnd hash moved (Deliver i clk) v =
     (if i < length (posted v)
      then (case posted v ! i of (sid, ev) \<Rightarrow>
              client_step rnd hash moved clk sid ev (v\<lparr>posted := take i (posted v) @ drop (i + 1) (posted v)\<rparr>))
      else None)"

inductive server_reach :: "(real \<Rightarrow> real) \<Rightarrow> (string \<Rightarrow> nat) \<Rightarrow> HttpRequest \<Rightarrow> HttpServer \<Rightarrow> nat \<Rightarrow> HttpServer \<Rightarrow> bool"
  for rnd hash moved v0 where
  reach_start: "server_reach rnd hash moved v0 0 v0"
| reach_turn: "server_reach rnd hash moved v0 n v \<Longrightarrow> server_turn rnd hash moved ev v = Some v' \<Longrightarrow> server_reach rnd hash moved v0 (n + 1) v'"

section \<open>The default router\<close>

definition version :: string where
  "version = ''1.0.0''"

definition text_response :: "string \<Rightarrow> string \<Rightarrow> HttpResponse" where
  "text_response content_type body = HttpResponse_default\<lparr>rs_body := body, rs_headers := headers_add [] ''Content-Type'' content_type\<rparr>"

definition ready_response :: "bool \<Rightarrow> HttpResponse" where
  "ready_response is_ready =
     (let resp = (if \<not> is_ready
                  then HttpResponse_default\<lparr>rs_status_code := 503, rs_reason := ''Service Unavailable'', rs_body := ''draining'' @ [LF]\<rparr>
                  else HttpResponse_default\<lparr>rs_body := ''ready'' @ [LF]\<rparr>)
      in resp\<lparr>rs_headers := headers_add (rs_headers resp) ''Content-Type'' ''text/plain''\<rparr>)"

definition metrics_response :: "(real \<Rightarrow> string) \<Rightarrow> Router \<Rightarrow> HttpResponse" where
  "metrics_response show r =
     text_response ''text/plain; version=0.0.4''
       (''pulsegate_ready 1'' @ [LF] @ (case metrics r of None \<Rightarrow> [] | Some m \<Rightarrow> renderPrometheus show m) @
        rateLimitMetrics r @ cacheMetrics r)"

text \<open>The handlers by number; the last is the echo handler.\<close>

definition default_handler :: "(real \<Rightarrow> string) \<Rightarrow> bool \<Rightarrow> nat \<Rightarrow> Router \<Rightarrow> HttpRequest \<Rightarrow> HttpResponse" where
  "default_handler show is_ready h r rq =
     (if h = 0 then text_response ''text/plain'' (''ok'' @ [LF])
      else if h = 1 then text_response ''text/plain'' (''alive'' @ [LF])
      else if h = 2 then ready_response is_ready
      else if h = 3 then metrics_response show r
      else if h = 4 then text_response ''text/plain'' (version @ [LF])
      else text_response ''application/octet-stream'' (rq_body rq))"

definition add_get_and_head :: "string \<Rightarrow> string \<Rightarrow> nat \<Rightarrow> int \<Rightarrow> Router \<Rightarrow> Router outcome" where
  "add_get_and_head path name h now r =
     ebind (router_add r \<lparr>rt_method = Get, pattern = path, rt_name = name, prefix_match = False, handler = Some h\<rparr> None None now)
       (\<lambda>r1. router_add r1 \<lparr>rt_method = Head, pattern = path, rt_name = name, prefix_match = False, handler = Some h\<rparr> None None now)"

definition makeDefaultRouter :: "RateLimitConfig option \<Rightarrow> int \<Rightarrow> Router outcome" where
  "makeDefaultRouter global_rate_limit now =
     ebind (Router_make global_rate_limit now) (\<lambda>r0.
     ebind (add_get_and_head ''/healthz'' ''healthz'' 0 now r0) (\<lambda>r1.
     ebind (add_get_and_head ''/livez'' ''livez'' 1 now r1) (\<lambda>r2.
     ebind (add_get_and_head ''/readyz'' ''readyz'' 2 now r2) (\<lambda>r3.
     ebind (add_get_and_head ''/metrics'' ''metrics'' 3 now r3) (\<lambda>r4.
     ebind (add_get_and_head ''/api/version'' ''version'' 4 now r4) (\<lambda>r5.
       router_add r5 \<lparr>rt_method = Post, pattern = ''/echo'', rt_name = ''echo'', prefix_match = False, handler = Some 5\<rparr> None None now))))))"

text \<open>The router of the other constructor: one route for every request, when a handler was given.\<close>

definition legacy_router :: "bool \<Rightarrow> int \<Rightarrow> Router outcome" where
  "legacy_router has_handler now =
     (if \<not> has_handler then makeDefaultRouter None now
      else ebind (Router_make None now) (\<lambda>r.
        router_add r \<lparr>rt_method = Unknown, pattern = ''/'', rt_name = ''legacy_handler'', prefix_match = True, handler = Some 0\<rparr>
          None None now))"

end
