(* ===== verification/ServerProperties.thy ===== *)
theory ServerProperties
  imports HttpServer SessionProperties
begin

text \<open>
  The server as a whole: the registry holds exactly the sessions that are not closed, the gauges and counters
  agree with it, and a drain is reported once, truthfully, and in the end.
\<close>

section \<open>Counting closed sessions\<close>

definition all_reasons :: "StopReason list" where
  "all_reasons = [SR_None, SR_PeerClosed, SR_ProtocolError, SR_HeaderTimeout, SR_BodyTimeout, SR_IdleTimeout,
     SR_ServerShutdown, SR_ResourceLimit, SR_InternalError]"

definition total_closed :: "SessionRegistry \<Rightarrow> nat" where
  "total_closed r = sum_list (map (closedCount r) all_reasons)"

lemma all_reasons: "reason \<in> set all_reasons" "distinct all_reasons"
  by (cases reason; simp add: all_reasons_def) (simp add: all_reasons_def)

lemma closedCount_le_total: "closedCount r reason \<le> total_closed r"
  using member_le_sum_list [of "closedCount r reason" "map (closedCount r) all_reasons"] all_reasons(1) [of reason]
  by (simp add: total_closed_def)

lemma sum_list_bump:
  assumes "distinct xs" "x \<in> set xs" "f' x = f x + 1" "\<And>y. y \<noteq> x \<Longrightarrow> f' y = f y"
  shows "sum_list (map f' xs) = sum_list (map f xs) + (1 :: nat)"
  using assms(1,2)
proof (induction xs)
  case (Cons a xs)
  show ?case
  proof (cases "a = x")
    case True
    then have "\<forall>y \<in> set xs. f' y = f y" using Cons.prems(1) assms(4) by (metis distinct.simps(2))
    then have "sum_list (map f' xs) = sum_list (map f xs)" by (simp cong: map_cong)
    with True assms(3) show ?thesis by simp
  next
    case False
    with Cons assms(4) [of a] show ?thesis by simp
  qed
qed simp

lemma total_closed_count:
  assumes "total_closed r + 1 < 2 ^ 64"
  shows "total_closed (count_closed r reason) = total_closed r + 1"
proof -
  have "closedCount r reason + 1 < 2 ^ 64" using closedCount_le_total [of r reason] assms by linarith
  then have "u64_inc (closedCount r reason) = closedCount r reason + 1" by (simp add: u64_inc_def)
  then show ?thesis unfolding total_closed_def
    by (intro sum_list_bump [of _ reason]) (simp_all add: all_reasons closedCount_count_closed)
qed

lemma total_closed_simps [simp]: "total_closed (r\<lparr>sessions := ss\<rparr>) = total_closed r" "total_closed (r\<lparr>reg_draining := d\<rparr>) = total_closed r"
  by (simp_all add: total_closed_def closedCount_def all_reasons_def)

lemma length_remove:
  assumes "registry_inv r" "sid \<in> registered r"
  shows "length (sessions (registry_remove r sid reason)) + 1 = length (sessions r)"
proof -
  have "mset (map fst (sessions (registry_remove r sid reason))) = mset (map fst (sessions r)) - {#sid#}"
    using mset_remove_key [of "sessions r" sid] assms(1) by (simp add: sessions_remove registry_inv_def)
  moreover have "sid \<in># mset (map fst (sessions r))" using assms(2) by (auto simp: registered_def)
  ultimately have "size (mset (map fst (sessions (registry_remove r sid reason)))) = size (mset (map fst (sessions r))) - 1"
    "size (mset (map fst (sessions r))) \<noteq> 0"
    by (simp_all only: size_Diff_singleton) (auto dest: multi_member_split)
  then show ?thesis unfolding size_mset length_map by linarith
qed

lemma total_closed_remove:
  assumes "sid \<in> registered r" "total_closed r + 1 < 2 ^ 64"
  shows "total_closed (registry_remove r sid reason) = total_closed r + 1"
  using assms total_closed_count [of "r\<lparr>sessions := filter (\<lambda>(i, w). i \<noteq> sid) (sessions r)\<rparr>" reason]
  by (auto simp: registry_remove_def unregistered_iff)

lemma u64_dec_pos: "0 < m \<Longrightarrow> m < 2 ^ 64 \<Longrightarrow> u64_dec m = m - 1"
proof -
  assume m: "0 < m" "m < 2 ^ 64"
  then have "m + (2 ^ 64 - 1) = (m - 1) + 2 ^ 64" by simp
  then have "u64_dec m = (m - 1) mod 2 ^ 64" unfolding u64_dec_def by (simp only: mod_add_self2)
  with m show ?thesis by (simp only: mod_less less_imp_diff_less)
qed

section \<open>The invariant of the registry and the counters\<close>

abbreviation registry :: "HttpServer \<Rightarrow> SessionRegistry" where
  "registry v \<equiv> gw_registry (srv_gateway v)"

definition clients_ok :: "HttpServer \<Rightarrow> bool" where
  "clients_ok v \<longleftrightarrow>
     (\<forall>sid s. clients v sid = Some s \<longrightarrow> ss_id s = sid \<and> session_ok s \<and> sid < next_session_id v) \<and>
     (\<forall>sid. sid \<in> registered (registry v) \<longleftrightarrow> (\<exists>s. clients v sid = Some s \<and> \<not> close_recorded s)) \<and>
     (\<forall>(i, w) \<in> set (sessions (registry v)). w = i)"

definition counters_ok :: "nat \<Rightarrow> HttpServer \<Rightarrow> bool" where
  "counters_ok n v \<longleftrightarrow> registry_inv (registry v) \<and> maximum_sessions (registry v) = max_connections (srv_limits v) \<and>
     next_session_id v \<le> n + 1 \<and>
     (\<exists>acc. conns (srv_gateway v) = Some (length (sessions (registry v)), acc) \<and> acc + refused v \<le> n \<and>
        length (sessions (registry v)) \<le> acc \<and> total_closed (registry v) + length (sessions (registry v)) = acc + refused v)"

definition server_inv :: "nat \<Rightarrow> HttpServer \<Rightarrow> bool" where
  "server_inv n v \<longleftrightarrow> clients_ok v \<and> counters_ok n v"

lemma nothing_gone:
  assumes "clients_ok v"
  shows "\<forall>(i, w) \<in> set (sessions (registry v)). \<not> session_gone v w"
proof (clarify)
  fix i w
  assume iw: "(i, w) \<in> set (sessions (registry v))" "session_gone v w"
  then have "w = i" using assms by (auto simp: clients_ok_def)
  moreover have "i \<in> registered (registry v)" using iw(1) by (force simp: registered_def)
  ultimately obtain s where s: "clients v w = Some s" "\<not> close_recorded s" using assms by (auto simp: clients_ok_def)
  moreover have "session_ok s" using s(1) assms by (auto simp: clients_ok_def)
  ultimately show False using iw(2) by (simp add: session_gone_def session_ok_def)
qed

lemmas no_pruning = prune_none [OF nothing_gone]

text \<open>An event of a session.\<close>

lemma client_step_inv:
  assumes "server_inv n v" "client_step rnd hash moved clk sid ev v = Some v'" "\<And>reason. ev = Stops reason \<Longrightarrow> reason \<noteq> SR_None"
    and "n + 1 < 2 ^ 64"
  shows "server_inv n v'"
proof -
  from assms(2) obtain s s1 g1 where s: "clients v sid = Some s" "session_step rnd hash moved clk ev (s, srv_gateway v) = Some (s1, g1)"
      "v' = v\<lparr>clients := (clients v)(sid \<mapsto> s1), srv_gateway := g1\<rparr>"
    by (auto simp: client_step_def split: option.splits)
  have c: "clients_ok v" "counters_ok n v" using assms(1) by (simp_all add: server_inv_def)
  have ok: "session_ok s" "ss_id s = sid" "sid < next_session_id v" using s(1) c(1) by (auto simp: clients_ok_def)
  from session_step_safe [OF ok(1) s(2) assms(3)] have safe: "session_ok s1" "kept (s, srv_gateway v) (s1, g1) \<or> closes (s, srv_gateway v) (s1, g1)"
    by (simp_all add: safe_def)
  from safe(2) show ?thesis
  proof
    assume k: "kept (s, srv_gateway v) (s1, g1)"
    then have "clients_ok v'" using c(1) s(1,3) safe(1) ok by (auto simp: clients_ok_def)
    moreover have "counters_ok n v'" using c(2) k s(3) by (simp add: counters_ok_def)
    ultimately show ?thesis by (simp add: server_inv_def)
  next
    assume "closes (s, srv_gateway v) (s1, g1)"
    then obtain reason where cl: "ss_id s1 = sid" "\<not> close_recorded s" "close_recorded s1"
        "gw_registry g1 = registry_remove (registry v) sid reason" "conns g1 = map_option (\<lambda>(a, c). (u64_dec a, c)) (conns (srv_gateway v))"
      using ok(2) by (auto simp: closes_def)
    have reg: "sid \<in> registered (registry v)" using c(1) s(1) cl(2) by (auto simp: clients_ok_def)
    have "clients_ok v'" using c(1) s(1,3) safe(1) ok cl by (auto simp: clients_ok_def sessions_remove)
    moreover have "counters_ok n v'"
    proof -
      from c(2) obtain acc where acc: "conns (srv_gateway v) = Some (length (sessions (registry v)), acc)" "acc + refused v \<le> n"
          "length (sessions (registry v)) \<le> acc" "total_closed (registry v) + length (sessions (registry v)) = acc + refused v"
        by (auto simp: counters_ok_def)
      have inv: "registry_inv (registry v)" using c(2) by (simp add: counters_ok_def)
      note len = length_remove [OF inv reg, of reason]
      have "total_closed (registry_remove (registry v) sid reason) = total_closed (registry v) + 1"
        using reg acc(2,4) assms(4) len by (intro total_closed_remove) linarith+
      moreover have "u64_dec (length (sessions (registry v))) = length (sessions (registry_remove (registry v) sid reason))"
        using u64_dec_pos [of "length (sessions (registry v))"] len acc(2,3) assms(4) by linarith
      ultimately show ?thesis using c(2) acc len cl s(3) inv by (simp add: counters_ok_def registry_inv_remove)
    qed
    ultimately show ?thesis by (simp add: server_inv_def)
  qed
qed

text \<open>A new session.\<close>

lemma made_session:
  assumes "HttpSession_make sid l p = Inr s"
  shows "session_ok s" "ss_id s = sid" "\<not> close_recorded s" "where_at s = At_Start"
proof -
  from assms obtain b q where "s = \<lparr>ss_id = sid, ss_limits = l, ss_input = b, ss_parser = q, deadline = Deadline_make,
      current_proxy = None, ss_state = SS_Created, ss_reason = SR_None, reading = False, served_request = False, close_recorded = False,
      response_bytes = 0, socket_open = True, peer_of = p, where_at = At_Start, received = [], exchanges = [], proxy_cancels = []\<rparr>"
    by (auto simp: HttpSession_make_def ebind_def split: sum.splits if_splits)
  then show "session_ok s" "ss_id s = sid" "\<not> close_recorded s" "where_at s = At_Start"
    by (simp_all add: session_ok_def session_core_def Deadline_make_def)
qed

lemma conns_note_server:
  "conns (note_metrics connectionAccepted g) = map_option (\<lambda>(a, c). (u64_inc a, u64_inc c)) (conns g)"
  "conns (note_metrics (\<lambda>m. connectionRejected m name) g) = conns g"
  by (cases "metrics (gw_router g)"; simp add: conns_def note_metrics_def connectionAccepted_def connectionRejected_def)+

lemma accept_socket_inv:
  assumes "server_inv n v" "n + 2 < 2 ^ 64"
  shows "server_inv (n + 1) (accept_socket p v)"
proof -
  let ?sid = "next_session_id v" and ?r = "registry v"
  let ?v1 = "v\<lparr>next_session_id := u64_inc ?sid\<rparr>"
  have c: "clients_ok v" "counters_ok n v" using assms(1) by (simp_all add: server_inv_def)
  have inc: "u64_inc ?sid = ?sid + 1" using c(2) assms(2) by (simp add: counters_ok_def u64_inc_def)
  from c(2) obtain acc where acc: "conns (srv_gateway v) = Some (length (sessions ?r), acc)" "acc + refused v \<le> n"
      "length (sessions ?r) \<le> acc" "total_closed ?r + length (sessions ?r) = acc + refused v" by (auto simp: counters_ok_def)
  have inv: "registry_inv ?r" "maximum_sessions ?r = max_connections (srv_limits v)" "?sid \<le> n + 1" using c(2) by (simp_all add: counters_ok_def)
  have v1: "clients_ok ?v1" using c(1) inc by (fastforce simp: clients_ok_def)
  have gone: "session_gone ?v1 = session_gone v" by (simp add: fun_eq_iff session_gone_def)
  show ?thesis
  proof (cases "HttpSession_make ?sid (srv_limits v) p")
    case (Inl e)
    then have "accept_socket p v = ?v1" by (simp add: accept_socket_def Let_def)
    moreover have "counters_ok (n + 1) ?v1" using acc inv inc by (auto simp: counters_ok_def)
    ultimately show ?thesis using v1 by (simp add: server_inv_def)
  next
    case (Inr s)
    note new = made_session [OF Inr]
    obtain ok r where add: "tryAdd (session_gone v) ?r ?sid ?sid = (ok, r)" by fastforce
    show ?thesis
    proof (cases ok)
      case True
      note t = tryAdd_True [OF add [unfolded eqTrueI [OF True]] nothing_gone [OF c(1)]]
      let ?v2 = "note_server connectionAccepted ((with_registry ?v1 r)\<lparr>clients := (clients v)(?sid \<mapsto> s)\<rparr>)"
      have eq: "accept_socket p v = ?v2" using Inr add True gone by (simp add: accept_socket_def Let_def)
      have reg: "registry ?v2 = r" by (simp add: note_server_def with_registry_def)
      have r: "registered r = insert ?sid (registered ?r)" using t(1) by (simp add: registered_def)
      have "clients_ok ?v2"
      proof -
        have cl: "clients ?v2 = (clients v)(?sid \<mapsto> s)" "next_session_id ?v2 = ?sid + 1" using inc by (simp_all add: note_server_def with_registry_def)
        have "ss_id s' = i \<and> session_ok s' \<and> i < ?sid + 1" if "((clients v)(?sid \<mapsto> s)) i = Some s'" for i s'
          using that c(1) new by (auto simp: clients_ok_def less_Suc_eq split: if_splits)
        moreover have "i \<in> insert ?sid (registered ?r) \<longleftrightarrow> (\<exists>s'. ((clients v)(?sid \<mapsto> s)) i = Some s' \<and> \<not> close_recorded s')" for i
          using c(1) new by (auto simp: clients_ok_def)
        moreover have "\<forall>(i, w) \<in> set (sessions r). w = i" using c(1) t(1) by (simp add: clients_ok_def)
        ultimately show ?thesis unfolding clients_ok_def reg r cl by blast
      qed
      moreover have "counters_ok (n + 1) ?v2"
      proof -
        have "conns (srv_gateway ?v2) = Some (length (sessions r), acc + 1)"
          using acc t(1) assms(2) by (simp add: note_server_def with_registry_def conns_note_server u64_inc_def)
        moreover have "registry_inv r" using inv(1) t by (simp add: registry_inv_def registered_def)
        moreover have "total_closed r = total_closed ?r" using t(1) by simp
        ultimately show ?thesis
          unfolding counters_ok_def reg using acc inv inc t(1) by (simp add: note_server_def with_registry_def)
      qed
      ultimately show ?thesis unfolding eq by (simp add: server_inv_def)
    next
      case False
      have r: "r = ?r" using tryAdd_False(1) [OF add [unfolded eq_False [THEN iffD2, OF False]] nothing_gone [OF c(1)]] by simp
      let ?v2 = "(note_server (\<lambda>m. connectionRejected m ''resource_limit'') (with_registry ?v1 (recordRejected ?r SR_ResourceLimit)))\<lparr>refused := refused v + 1\<rparr>"
      have eq: "accept_socket p v = ?v2" using Inr add False gone r by (simp add: accept_socket_def Let_def)
      have reg: "registry ?v2 = count_closed ?r SR_ResourceLimit" by (simp add: note_server_def with_registry_def recordRejected_def)
      have "clients_ok ?v2" unfolding clients_ok_def reg using v1 by (simp add: clients_ok_def note_server_def with_registry_def)
      moreover have "counters_ok (n + 1) ?v2"
      proof -
        have "conns (srv_gateway ?v2) = Some (length (sessions ?r), acc)"
          using acc by (simp add: note_server_def with_registry_def conns_note_server)
        moreover have "total_closed (count_closed ?r SR_ResourceLimit) = total_closed ?r + 1"
          using acc assms(2) by (intro total_closed_count) linarith
        ultimately show ?thesis unfolding counters_ok_def reg using acc inv inc
          by (simp add: note_server_def with_registry_def registry_inv_def)
      qed
      ultimately show ?thesis unfolding eq by (simp add: server_inv_def)
    qed
  qed
qed

text \<open>Operations of the server that leave clients and counters alone.\<close>

definition same_clients :: "HttpServer \<Rightarrow> HttpServer \<Rightarrow> bool" where
  "same_clients v v' \<longleftrightarrow> clients v' = clients v \<and> next_session_id v' = next_session_id v \<and> srv_limits v' = srv_limits v \<and>
     refused v' = refused v \<and> sessions (registry v') = sessions (registry v) \<and> closed_counts (registry v') = closed_counts (registry v) \<and>
     maximum_sessions (registry v') = maximum_sessions (registry v) \<and> conns (srv_gateway v') = conns (srv_gateway v)"

lemma total_closed_cong: "closed_counts a = closed_counts b \<Longrightarrow> total_closed a = total_closed b"
  by (simp add: total_closed_def closedCount_def all_reasons_def)

lemma same_clients_ok: "same_clients v v' \<Longrightarrow> clients_ok v \<Longrightarrow> clients_ok v'"
  by (simp add: same_clients_def clients_ok_def registered_def)

lemma same_clients_inv: "same_clients v v' \<Longrightarrow> server_inv n v \<Longrightarrow> server_inv (n + k) v'"
  using same_clients_ok [of v v'] total_closed_cong [of "registry v'" "registry v"]
  by (auto simp: same_clients_def server_inv_def counters_ok_def registry_inv_def)

lemma drain_sessions_eq:
  assumes "clients_ok v"
  shows "drain_sessions v = post_all Drains (map snd (sessions (registry v))) (with_registry v ((registry v)\<lparr>reg_draining := True\<rparr>))"
  using no_pruning [OF assms] prune_none [of "(registry v)\<lparr>reg_draining := True\<rparr>" "session_gone v"] nothing_gone [OF assms]
  by (simp add: drain_sessions_def registry_beginDrain_def liveSessions_def Let_def)

lemma force_close_eq:
  assumes "clients_ok v"
  shows "force_close v = post_all (Stops SR_ServerShutdown) (map snd (sessions (registry v))) v"
  using no_pruning [OF assms] by (simp add: force_close_def forceCloseAll_def liveSessions_def with_registry_def Let_def)

lemma checkDrain_eq:
  assumes "clients_ok v"
  shows "checkDrain v = (if drain_finished v then v
    else if sessions (registry v) = [] then finishDrain (\<not> drain_deadline_expired v) v else v\<lparr>drain_polls := drain_polls v + 1\<rparr>)"
  using no_pruning [OF assms] by (simp add: checkDrain_def registry_size_def with_registry_def Let_def)

section \<open>The invariant of a drain\<close>

definition drain_inv :: "HttpServer \<Rightarrow> bool" where
  "drain_inv v \<longleftrightarrow>
     (\<forall>(sid, ev) \<in> set (posted v). (ev = Drains \<or> ev = Stops SR_ServerShutdown) \<and> clients v sid \<noteq> None) \<and>
     (srv_draining v \<longrightarrow> reg_draining (registry v)) \<and>
     (drain_finished v \<longrightarrow> srv_draining v \<and> sessions (registry v) = [] \<and> length (reports v) = (if on_drain_complete v then 1 else 0)) \<and>
     (\<not> drain_finished v \<longrightarrow> reports v = []) \<and>
     (srv_draining v \<and> \<not> drain_finished v \<longrightarrow> 0 < drain_polls v) \<and>
     (drain_deadline_expired v \<or> drain_timer v \<or> 0 < drain_polls v \<longrightarrow> srv_draining v) \<and>
     (drain_deadline_expired v \<longrightarrow> (\<forall>sid \<in> registered (registry v). (sid, Stops SR_ServerShutdown) \<in> set (posted v)))"

lemma drain_invD:
  assumes "drain_inv v"
  shows "(sid, ev) \<in> set (posted v) \<Longrightarrow> (ev = Drains \<or> ev = Stops SR_ServerShutdown) \<and> clients v sid \<noteq> None"
    "drain_deadline_expired v \<Longrightarrow> sid \<in> registered (registry v) \<Longrightarrow> (sid, Stops SR_ServerShutdown) \<in> set (posted v)"
  using assms by (force simp: drain_inv_def)+

text \<open>A drain that is under way, before the check that may finish it.\<close>

definition under_way :: "HttpServer \<Rightarrow> bool" where
  "under_way v \<longleftrightarrow>
     (\<forall>(sid, ev) \<in> set (posted v). (ev = Drains \<or> ev = Stops SR_ServerShutdown) \<and> clients v sid \<noteq> None) \<and> srv_draining v \<and> reg_draining (registry v) \<and>
     (drain_finished v \<longrightarrow> sessions (registry v) = [] \<and> length (reports v) = (if on_drain_complete v then 1 else 0)) \<and>
     (\<not> drain_finished v \<longrightarrow> reports v = []) \<and>
     (drain_deadline_expired v \<longrightarrow> (\<forall>sid \<in> registered (registry v). (sid, Stops SR_ServerShutdown) \<in> set (posted v)))"

lemma checkDrain_inv:
  assumes "clients_ok v" "under_way v"
  shows "drain_inv (checkDrain v)"
  using assms(2) unfolding checkDrain_eq [OF assms(1)]
  by (auto simp: drain_inv_def under_way_def finishDrain_def)

lemma checkDrain_same: "clients_ok v \<Longrightarrow> same_clients v (checkDrain v)"
  by (simp add: checkDrain_eq same_clients_def finishDrain_def)

lemma snd_sessions:
  assumes "clients_ok v"
  shows "map snd (sessions (registry v)) = map fst (sessions (registry v))"
  using assms by (auto simp: clients_ok_def)

lemma registered_clients: "clients_ok v \<Longrightarrow> (i, w) \<in> set (sessions (registry v)) \<Longrightarrow> \<exists>s. clients v i = Some s"
proof -
  assume c: "clients_ok v" and i: "(i, w) \<in> set (sessions (registry v))"
  from i have "i \<in> registered (registry v)" by (metis fst_conv imageI registered_def)
  with c show ?thesis by (auto simp: clients_ok_def)
qed

lemma drain_sessions_same: "clients_ok v \<Longrightarrow> same_clients v (drain_sessions v)"
  by (simp add: drain_sessions_eq same_clients_def post_all_def with_registry_def)

lemma force_close_same: "clients_ok v \<Longrightarrow> same_clients v (force_close v)"
  by (simp add: force_close_eq same_clients_def post_all_def)

lemma drain_sessions_drain:
  assumes "clients_ok v" "drain_inv v"
  shows "drain_inv (drain_sessions v)"
  using assms(2) registered_clients [OF assms(1)] unfolding drain_sessions_eq [OF assms(1)] snd_sessions [OF assms(1)]
  by (auto simp: drain_inv_def post_all_def with_registry_def registered_def)

lemma force_close_drain:
  assumes "clients_ok v" "drain_inv v"
  shows "drain_inv (force_close v)"
  using assms(2) registered_clients [OF assms(1)] unfolding force_close_eq [OF assms(1)] snd_sessions [OF assms(1)]
  by (auto simp: drain_inv_def post_all_def)

lemma force_close_under_way:
  assumes "clients_ok v" "under_way v"
  shows "under_way ((force_close v)\<lparr>drain_deadline_expired := True\<rparr>)"
  using assms(2) registered_clients [OF assms(1)] unfolding force_close_eq [OF assms(1)] snd_sessions [OF assms(1)]
  by (auto simp: under_way_def post_all_def registered_def)

lemma drain_under_way: "drain_inv v \<Longrightarrow> srv_draining v \<Longrightarrow> under_way v"
  by (auto simp: drain_inv_def under_way_def)

lemma same_clients_refl [simp]: "same_clients v v"
  by (simp add: same_clients_def)

lemma same_clients_trans: "same_clients a b \<Longrightarrow> same_clients b c \<Longrightarrow> same_clients a c"
  by (simp add: same_clients_def)

lemma same_clients_flags [simp]:
  "same_clients v (v'\<lparr>drain_timer := t\<rparr>) = same_clients v v'" "same_clients v (v'\<lparr>drain_polls := p\<rparr>) = same_clients v v'"
  "same_clients v (v'\<lparr>drain_deadline_expired := e\<rparr>) = same_clients v v'" "same_clients v (v'\<lparr>listener_tasks := ts\<rparr>) = same_clients v v'"
  "same_clients v (v'\<lparr>srv_listener := l\<rparr>) = same_clients v v'" "same_clients v (v'\<lparr>srv_draining := d\<rparr>) = same_clients v v'"
  "same_clients v (v'\<lparr>drain_finished := f\<rparr>) = same_clients v v'" "same_clients v (v'\<lparr>on_drain_complete := c\<rparr>) = same_clients v v'"
  "same_clients v (v'\<lparr>posted := ps\<rparr>) = same_clients v v'"
  by (simp_all add: same_clients_def)

lemma force_close_expired: "(force_close v)\<lparr>drain_deadline_expired := True\<rparr> = force_close (v\<lparr>drain_deadline_expired := True\<rparr>)"
proof -
  have "session_gone (v\<lparr>drain_deadline_expired := True\<rparr>) = session_gone v" by (simp add: session_gone_def fun_eq_iff)
  then show ?thesis
    by (cases "forceCloseAll (session_gone v) (registry v)"; cases v) (simp add: force_close_def post_all_def with_registry_def)
qed

section \<open>Every turn of the server\<close>

lemma beginDrain_turn:
  assumes "clients_ok v" "drain_inv v" "server_beginDrain grace cb v = Inr v'"
  shows "same_clients v v' \<and> drain_inv v'"
proof (cases "srv_draining v")
  case True
  with assms show ?thesis by (auto simp: server_beginDrain_def split: if_splits)
next
  case False
  let ?v1 = "v\<lparr>srv_draining := True, drain_finished := False, drain_deadline_expired := False,
      on_drain_complete := cb, listener_tasks := listener_tasks v @ [Stop_Listening]\<rparr>"
  let ?v2 = "(drain_sessions ?v1)\<lparr>drain_timer := True\<rparr>"
  have v': "v' = checkDrain ?v2" using assms(3) False by (auto simp: server_beginDrain_def split: if_splits)
  have s1: "same_clients v ?v1" by simp
  then have c1: "clients_ok ?v1" using assms(1) by (rule same_clients_ok)
  have s2: "same_clients v ?v2" using same_clients_trans [OF s1 drain_sessions_same [OF c1]] by simp
  then have c2: "clients_ok ?v2" using assms(1) by (rule same_clients_ok)
  have "\<not> drain_finished v" using assms(2) False by (auto simp: drain_inv_def)
  then have "under_way ?v2" using assms(2) False registered_clients [OF c1] unfolding drain_sessions_eq [OF c1] snd_sessions [OF c1]
    by (auto simp: under_way_def drain_inv_def post_all_def with_registry_def)
  with checkDrain_inv [OF c2] same_clients_trans [OF s2 checkDrain_same [OF c2]] v' show ?thesis by simp
qed

lemma stop_turn:
  assumes "clients_ok v" "drain_inv v"
  shows "same_clients v (server_stop v) \<and> drain_inv (server_stop v)"
proof -
  let ?v1 = "v\<lparr>listener_tasks := listener_tasks v @ [Stop_Listening]\<rparr>"
  have v1: "clients_ok ?v1" "drain_inv ?v1" using assms by (auto simp: clients_ok_def drain_inv_def)
  have v2: "clients_ok (drain_sessions ?v1)" "drain_inv (drain_sessions ?v1)"
    using same_clients_ok [OF drain_sessions_same [OF v1(1)] v1(1)] drain_sessions_drain [OF v1] by simp_all
  have "same_clients v (drain_sessions ?v1)" using same_clients_trans [OF _ drain_sessions_same [OF v1(1)], of v] by simp
  then show ?thesis
    using same_clients_trans [OF _ force_close_same [OF v2(1)]] force_close_drain [OF v2] by (auto simp: server_stop_def)
qed

lemma timer_turn:
  assumes "clients_ok v" "drain_inv v" "drain_timer v"
  shows "same_clients v (drain_timer_completes error v) \<and> drain_inv (drain_timer_completes error v)"
proof (cases error)
  case True
  with assms(2) show ?thesis by (auto simp: drain_timer_completes_def drain_inv_def)
next
  case False
  let ?v1 = "v\<lparr>drain_timer := False\<rparr>"
  have c1: "clients_ok ?v1" using assms(1) by (simp add: clients_ok_def)
  have "srv_draining v" using assms(2,3) by (simp add: drain_inv_def)
  then have "under_way v" using drain_under_way assms(2) by blast
  then have "under_way ?v1" by (simp add: under_way_def)
  from force_close_under_way [OF c1 this] have u: "under_way (force_close (?v1\<lparr>drain_deadline_expired := True\<rparr>))"
    by (simp add: force_close_expired)
  have "clients_ok (?v1\<lparr>drain_deadline_expired := True\<rparr>)" using c1 by (simp add: clients_ok_def)
  from force_close_same [OF this] have s: "same_clients v (force_close (?v1\<lparr>drain_deadline_expired := True\<rparr>))"
    using same_clients_trans [of v "?v1\<lparr>drain_deadline_expired := True\<rparr>"] by simp
  then have c2: "clients_ok (force_close (?v1\<lparr>drain_deadline_expired := True\<rparr>))" using assms(1) by (rule same_clients_ok)
  show ?thesis using checkDrain_inv [OF c2 u] same_clients_trans [OF s checkDrain_same [OF c2]] False
    by (simp add: drain_timer_completes_def)
qed

lemma poll_turn:
  assumes "clients_ok v" "drain_inv v" "0 < drain_polls v"
  shows "same_clients v (drain_poll_completes v) \<and> drain_inv (drain_poll_completes v)"
proof -
  let ?v1 = "v\<lparr>drain_polls := drain_polls v - 1\<rparr>"
  have c1: "clients_ok ?v1" using assms(1) by (simp add: clients_ok_def)
  have "srv_draining v" using assms(2,3) by (simp add: drain_inv_def)
  then have "under_way ?v1" using drain_under_way [OF assms(2)] by (simp add: under_way_def)
  from checkDrain_inv [OF c1 this] show ?thesis
    using same_clients_trans [OF _ checkDrain_same [OF c1], of v] by (simp add: drain_poll_completes_def)
qed

lemma stop_closes:
  assumes "session_ok s" "session_step rnd hash moved clk (Stops SR_ServerShutdown) (s, g) = Some (s1, g1)"
  shows "close_recorded s1"
proof -
  have "session_core s" using assms(1) by (simp add: session_ok_def)
  then obtain s' g' where "closeInExecutor SR_ServerShutdown (s, g) = (s', g')" "close_recorded s'"
    by (rule close_core [of s SR_ServerShutdown g]) auto
  with assms(2) show ?thesis by (simp add: session_step_def)
qed

text \<open>A client's step only removes its own session, and the session is gone once it is told to stop.\<close>

lemma client_step_registry:
  assumes "clients_ok v" "client_step rnd hash moved clk sid ev v = Some v'" "\<And>reason. ev = Stops reason \<Longrightarrow> reason \<noteq> SR_None"
  shows "registered (registry v') \<subseteq> registered (registry v) \<and> (sessions (registry v) = [] \<longrightarrow> sessions (registry v') = []) \<and>
    reg_draining (registry v') = reg_draining (registry v) \<and> posted v' = posted v \<and>
    (ev = Stops SR_ServerShutdown \<longrightarrow> sid \<notin> registered (registry v'))"
    "srv_draining v' = srv_draining v" "drain_finished v' = drain_finished v" "drain_deadline_expired v' = drain_deadline_expired v"
    "on_drain_complete v' = on_drain_complete v" "drain_timer v' = drain_timer v" "drain_polls v' = drain_polls v" "reports v' = reports v"
    "\<And>i. clients v i \<noteq> None \<Longrightarrow> clients v' i \<noteq> None"
proof -
  from assms(2) obtain s s1 g1 where s: "clients v sid = Some s" "session_step rnd hash moved clk ev (s, srv_gateway v) = Some (s1, g1)"
      "v' = v\<lparr>clients := (clients v)(sid \<mapsto> s1), srv_gateway := g1\<rparr>"
    by (auto simp: client_step_def split: option.splits)
  then show "srv_draining v' = srv_draining v" "drain_finished v' = drain_finished v" "drain_deadline_expired v' = drain_deadline_expired v"
    "on_drain_complete v' = on_drain_complete v" "drain_timer v' = drain_timer v" "drain_polls v' = drain_polls v" "reports v' = reports v"
    "\<And>i. clients v i \<noteq> None \<Longrightarrow> clients v' i \<noteq> None"
    by simp_all
  have ok: "session_ok s" "ss_id s = sid" using s(1) assms(1) by (auto simp: clients_ok_def)
  from session_step_safe [OF ok(1) s(2) assms(3)] have "kept (s, srv_gateway v) (s1, g1) \<or> closes (s, srv_gateway v) (s1, g1)"
    by (simp add: safe_def)
  then consider (kept) "gw_registry g1 = registry v" "close_recorded s1 = close_recorded s"
    | (closes) reason where "gw_registry g1 = registry_remove (registry v) sid reason"
    using ok(2) by (auto simp: closes_def)
  then show "registered (registry v') \<subseteq> registered (registry v) \<and> (sessions (registry v) = [] \<longrightarrow> sessions (registry v') = []) \<and>
    reg_draining (registry v') = reg_draining (registry v) \<and> posted v' = posted v \<and>
    (ev = Stops SR_ServerShutdown \<longrightarrow> sid \<notin> registered (registry v'))"
  proof cases
    case kept
    moreover have "sid \<notin> registered (registry v)" if "ev = Stops SR_ServerShutdown"
      using stop_closes [OF ok(1)] s(1,2) that kept(2) assms(1) by (auto simp: clients_ok_def)
    ultimately show ?thesis using s(3) by simp
  next
    case (closes reason)
    then show ?thesis using s(3) by (auto simp: sessions_remove)
  qed
qed

lemma accept_drain:
  assumes "clients_ok v" "drain_inv v"
  shows "drain_inv (accept_socket p v)"
proof -
  let ?sid = "next_session_id v"
  let ?v1 = "v\<lparr>next_session_id := u64_inc ?sid\<rparr>"
  have gone: "session_gone ?v1 = session_gone v" by (simp add: fun_eq_iff session_gone_def)
  show ?thesis
  proof (cases "HttpSession_make ?sid (srv_limits v) p")
    case (Inl e)
    then show ?thesis using assms(2) by (simp add: accept_socket_def drain_inv_def)
  next
    case (Inr s)
    obtain ok r where add: "tryAdd (session_gone v) (registry v) ?sid ?sid = (ok, r)" by fastforce
    show ?thesis
    proof (cases ok)
      case True
      have "\<not> reg_draining (registry v)" "reg_draining r = reg_draining (registry v)"
        using tryAdd_True [OF add [unfolded eqTrueI [OF True]] nothing_gone [OF assms(1)]] by simp_all
      then show ?thesis using assms(2) Inr add True gone
        by (auto simp: accept_socket_def Let_def drain_inv_def note_server_def with_registry_def)
    next
      case False
      have "r = registry v" using tryAdd_False(1) [OF add [unfolded eq_False [THEN iffD2, OF False]] nothing_gone [OF assms(1)]] by simp
      then show ?thesis using assms(2) Inr add False gone
        by (auto simp: accept_socket_def Let_def drain_inv_def note_server_def with_registry_def recordRejected_def)
    qed
  qed
qed

lemma set_remove_nth: "set (take i xs @ drop (i + 1) xs) \<subseteq> set xs"
  by (auto dest: in_set_takeD in_set_dropD)

lemma set_keep_others: "i < length xs \<Longrightarrow> x \<in> set xs \<Longrightarrow> x \<noteq> xs ! i \<Longrightarrow> x \<in> set (take i xs @ drop (i + 1) xs)"
  using id_take_nth_drop [of i xs] by (metis Suc_eq_plus1 Un_iff set_ConsD set_append)

lemma client_drain:
  assumes "clients_ok v" "drain_inv v" "client_step rnd hash moved clk sid ev v = Some v'" "from_outside ev"
  shows "drain_inv v'"
proof -
  have "\<And>reason. ev = Stops reason \<Longrightarrow> reason \<noteq> SR_None" using assms(4) by auto
  note r = client_step_registry [OF assms(1,3) this]
  have "(sid', Stops SR_ServerShutdown) \<in> set (posted v')" if "drain_deadline_expired v'" "sid' \<in> registered (registry v')" for sid'
    using that r(1,4) drain_invD(2) [OF assms(2), of sid'] by auto
  moreover have "(ev' = Drains \<or> ev' = Stops SR_ServerShutdown) \<and> clients v' i \<noteq> None" if "(i, ev') \<in> set (posted v')" for i ev'
    using that r(1) r(9) [of i] drain_invD(1) [OF assms(2), of i ev'] by auto
  ultimately show ?thesis using assms(2) r by (simp add: drain_inv_def split_beta)
qed

lemma posted_kinds:
  assumes "drain_inv v" "i < length (posted v)" "posted v ! i = (sid, ev)"
  shows "ev = Drains \<or> ev = Stops SR_ServerShutdown"
proof -
  have "(sid, ev) \<in> set (posted v)" using nth_mem [OF assms(2)] assms(3) by simp
  with drain_invD(1) [OF assms(1)] show ?thesis by blast
qed

lemma drain_inv_listener [simp]:
  "drain_inv (v\<lparr>listener_tasks := ts\<rparr>) = drain_inv v" "drain_inv (v\<lparr>srv_listener := l\<rparr>) = drain_inv v"
  by (simp_all add: drain_inv_def)

lemma server_inv_listener [simp]: "server_inv n (v\<lparr>srv_listener := l\<rparr>) = server_inv n v"
  by (simp add: server_inv_def clients_ok_def counters_ok_def)

lemma deliver_drain:
  assumes "clients_ok v" "drain_inv v" "i < length (posted v)" "posted v ! i = (sid, ev)"
    and "client_step rnd hash moved clk sid ev (v\<lparr>posted := take i (posted v) @ drop (i + 1) (posted v)\<rparr>) = Some v'"
  shows "drain_inv v'"
proof -
  let ?v1 = "v\<lparr>posted := take i (posted v) @ drop (i + 1) (posted v)\<rparr>"
  have c1: "clients_ok ?v1" using assms(1) by (simp add: clients_ok_def)
  have ev: "ev = Drains \<or> ev = Stops SR_ServerShutdown" using posted_kinds [OF assms(2-4)] .
  then have st: "\<And>reason. ev = Stops reason \<Longrightarrow> reason \<noteq> SR_None" by auto
  note r = client_step_registry [OF c1 assms(5) st]
  have "(ev' = Drains \<or> ev' = Stops SR_ServerShutdown) \<and> clients v' j \<noteq> None" if "(j, ev') \<in> set (posted v')" for j ev'
  proof -
    have "(j, ev') \<in> set (posted v)" using that r(1) set_remove_nth [of i "posted v"] by auto
    then show ?thesis using r(9) [of j] drain_invD(1) [OF assms(2), of j ev'] by auto
  qed
  then have "\<forall>(sid, ev) \<in> set (posted v'). (ev = Drains \<or> ev = Stops SR_ServerShutdown) \<and> clients v' sid \<noteq> None" by blast
  moreover have "(sid', Stops SR_ServerShutdown) \<in> set (posted v')" if "drain_deadline_expired v'" "sid' \<in> registered (registry v')" for sid'
  proof -
    have "(sid', Stops SR_ServerShutdown) \<in> set (posted v)" using that r(1,4) drain_invD(2) [OF assms(2), of sid'] by auto
    moreover have "(sid', Stops SR_ServerShutdown) \<noteq> posted v ! i" using that(2) r(1) assms(4) by auto
    ultimately show ?thesis using set_keep_others [OF assms(3)] r(1) by simp
  qed
  ultimately show ?thesis using assms(2) r by (simp add: drain_inv_def)
qed

lemma accept_turn:
  assumes "server_turn rnd hash moved (Accept_Done r p) v = Some v'"
  obtains made l where "v' = (if made then accept_socket p v else v)\<lparr>srv_listener := l\<rparr>"
proof -
  obtain made l where "accept_completes (srv_listener v) r = (made, l)" by fastforce
  with assms have "v' = (if made then accept_socket p v else v)\<lparr>srv_listener := l\<rparr>" by (simp split: if_split_asm)
  then show thesis by (rule that)
qed

lemma server_turn_inv:
  assumes "server_inv n v" "drain_inv v" "server_turn rnd hash moved ev v = Some v'" "n + 2 < 2 ^ 64"
  shows "server_inv (n + 1) v' \<and> drain_inv v'"
proof -
  have c: "clients_ok v" using assms(1) by (simp add: server_inv_def)
  have same: "server_inv (n + 1) v' \<and> drain_inv v'" if "same_clients v v' \<and> drain_inv v'"
    using that same_clients_inv [OF _ assms(1), of v' 1] by simp
  have mono: "server_inv m w \<Longrightarrow> server_inv (m + 1) w" for m w using same_clients_inv [of w w m 1] by simp
  show ?thesis
  proof (cases ev)
    case (Begin_Drain grace cb)
    with assms(2,3) same beginDrain_turn [OF c assms(2)] mono [OF assms(1)] show ?thesis by (auto split: sum.splits)
  next
    case Stop_Server
    with assms(3) same stop_turn [OF c assms(2)] show ?thesis by auto
  next
    case Start_Server
    with assms(2,3) show ?thesis by (intro same) (auto simp: server_start_def)
  next
    case (Drain_Timer error)
    with assms(3) same timer_turn [OF c assms(2)] show ?thesis by (auto split: if_splits)
  next
    case Drain_Poll
    with assms(3) same poll_turn [OF c assms(2)] show ?thesis by (auto split: if_splits)
  next
    case Listener_Turn
    with assms(2,3) show ?thesis by (intro same) (auto split: list.splits)
  next
    case (Accept_Done r p)
    from accept_turn [OF assms(3) [unfolded Accept_Done]] obtain made l where
      a: "v' = (if made then accept_socket p v else v)\<lparr>srv_listener := l\<rparr>" .
    have "server_inv (n + 1) (if made then accept_socket p v else v)" "drain_inv (if made then accept_socket p v else v)"
      using accept_socket_inv [OF assms(1,4)] accept_drain [OF c assms(2)] mono [OF assms(1)] assms(2) by simp_all
    with a show ?thesis by simp
  next
    case Retry_Done
    with assms(2,3) show ?thesis by (intro same) (auto split: if_splits)
  next
    case (Client sid clk ev')
    then have step: "from_outside ev'" "client_step rnd hash moved clk sid ev' v = Some v'" using assms(3) by (auto split: if_splits)
    have "\<And>reason. ev' = Stops reason \<Longrightarrow> reason \<noteq> SR_None" using step(1) by auto
    then have "server_inv n v'" using client_step_inv [OF assms(1) step(2)] assms(4) by simp
    with client_drain [OF c assms(2) step(2,1)] mono show ?thesis by simp
  next
    case (Deliver i clk)
    let ?v1 = "v\<lparr>posted := take i (posted v) @ drop (i + 1) (posted v)\<rparr>"
    obtain sid ev' where e: "posted v ! i = (sid, ev')" by fastforce
    with Deliver assms(3) have i: "i < length (posted v)" and step: "client_step rnd hash moved clk sid ev' ?v1 = Some v'"
      by (auto split: if_splits)
    have "server_inv n ?v1" using assms(1) by (simp add: server_inv_def clients_ok_def counters_ok_def)
    moreover have "ev' = Drains \<or> ev' = Stops SR_ServerShutdown"
      using posted_kinds [OF assms(2) i e] .
    ultimately have "server_inv n v'" using client_step_inv [OF _ step] assms(4) by auto
    with deliver_drain [OF c assms(2) i e step] mono show ?thesis by auto
  qed
qed

section \<open>Reachable states\<close>

lemma made_server:
  assumes "HttpServer_make r MetricsRegistry_default lg l backlog address_ok socket_ok = Inr v"
  shows "server_inv 0 v" "drain_inv v" "srv_limits v = l"
proof -
  from assms obtain reg q li where "SessionRegistry_make (max_connections l) = Inr reg"
      "v = \<lparr>srv_gateway = \<lparr>gw_registry = reg, gw_router = q\<lparr>metrics := Some MetricsRegistry_default\<rparr>, gw_logger = lg\<rparr>,
        srv_limits = l, srv_listener = li, listener_tasks = [], clients = Map.empty, next_session_id = 1,
        posted = [], srv_draining = False, drain_finished = False, drain_deadline_expired = False,
        on_drain_complete = False, drain_timer = False, drain_polls = 0, reports = [], refused = 0\<rparr>"
    by (auto simp: HttpServer_make_def ebind_def split: sum.splits option.splits if_splits)
  then show "server_inv 0 v" "drain_inv v" "srv_limits v = l"
    by (auto simp: server_inv_def clients_ok_def counters_ok_def drain_inv_def conns_def MetricsRegistry_default_def
        SessionRegistry_make_def registry_inv_def registered_def total_closed_def closedCount_def all_reasons_def split: if_splits)
qed

lemma same_limits: "server_turn rnd hash moved ev v = Some v' \<Longrightarrow> server_inv n v \<Longrightarrow> drain_inv v \<Longrightarrow> n + 2 < 2 ^ 64 \<Longrightarrow>
    maximum_sessions (registry v') = max_connections (srv_limits v')"
  using server_turn_inv [of n v rnd hash moved ev v'] by (simp add: server_inv_def counters_ok_def)

lemma reach_inv:
  assumes "server_reach rnd hash moved v0 n v" "server_inv 0 v0" "drain_inv v0"
  shows "n + 1 < 2 ^ 64 \<Longrightarrow> server_inv n v \<and> drain_inv v"
  using assms(1)
proof induction
  case (reach_turn n v ev v')
  then show ?case using server_turn_inv [of n v rnd hash moved ev v'] by simp
qed (use assms(2,3) in simp)

text \<open>Reports are made only by a check that finds the registry empty.\<close>

lemma checkDrain_reports:
  assumes "clients_ok v"
  shows "reports (checkDrain v) = reports v \<or> \<not> drain_finished v \<and> drain_finished (checkDrain v) \<and> sessions (registry v) = [] \<and>
    reports (checkDrain v) = reports v @ [\<not> drain_deadline_expired (checkDrain v)]"
  by (auto simp: checkDrain_eq [OF assms] finishDrain_def)

lemma drain_sessions_reports [simp]: "reports (drain_sessions v) = reports v" "drain_finished (drain_sessions v) = drain_finished v"
  by (simp_all add: drain_sessions_def post_all_def with_registry_def split: prod.splits)

lemma force_close_reports [simp]: "reports (force_close v) = reports v" "drain_finished (force_close v) = drain_finished v"
  by (simp_all add: force_close_def post_all_def with_registry_def split: prod.splits)

lemma accept_socket_reports [simp]: "reports (accept_socket p v) = reports v"
  by (simp add: accept_socket_def note_server_def with_registry_def Let_def split: sum.splits prod.splits bool.splits)

lemma client_step_reports: "client_step rnd hash moved clk sid ev v = Some v' \<Longrightarrow> reports v' = reports v"
  by (auto simp: client_step_def split: option.splits)

definition reports_grow :: "HttpServer \<Rightarrow> HttpServer \<Rightarrow> bool" where
  "reports_grow v v' \<longleftrightarrow> reports v' = reports v \<or> reports v' = reports v @ [\<not> drain_deadline_expired v'] \<and> drain_finished v'"

lemma server_turn_reports:
  assumes "clients_ok v" "server_turn rnd hash moved ev v = Some v'"
  shows "reports_grow v v'"
proof -
  have check: "reports_grow v (checkDrain w)" if "reports w = reports v" "same_clients v w" for w
    using checkDrain_reports [OF same_clients_ok [OF that(2) assms(1)]] that(1) by (auto simp: reports_grow_def)
  show ?thesis
  proof (cases ev)
    case (Begin_Drain grace cb)
    show ?thesis
    proof (cases "0 < grace \<and> \<not> srv_draining v")
      case True
      let ?v1 = "v\<lparr>srv_draining := True, drain_finished := False, drain_deadline_expired := False,
          on_drain_complete := cb, listener_tasks := listener_tasks v @ [Stop_Listening]\<rparr>"
      have s1: "same_clients v ?v1" by simp
      have "same_clients v ((drain_sessions ?v1)\<lparr>drain_timer := True\<rparr>)"
        using same_clients_trans [OF s1 drain_sessions_same [OF same_clients_ok [OF s1 assms(1)]]] by simp
      from check [OF _ this] True Begin_Drain assms(2) show ?thesis by (auto simp: server_beginDrain_def)
    next
      case False
      with Begin_Drain assms(2) show ?thesis by (auto simp: server_beginDrain_def reports_grow_def split: if_splits)
    qed
  next
    case Stop_Server
    with assms(2) show ?thesis by (auto simp: server_stop_def reports_grow_def)
  next
    case (Drain_Timer error)
    show ?thesis
    proof (cases error)
      case False
      let ?v1 = "v\<lparr>drain_timer := False, drain_deadline_expired := True\<rparr>"
      have s1: "same_clients v ?v1" by simp
      have "same_clients v (force_close ?v1)"
        using same_clients_trans [OF s1 force_close_same [OF same_clients_ok [OF s1 assms(1)]]] by simp
      from check [OF _ this] False Drain_Timer assms(2) show ?thesis by (auto simp: drain_timer_completes_def split: if_splits)
    qed (use Drain_Timer assms(2) in \<open>auto simp: drain_timer_completes_def reports_grow_def split: if_splits\<close>)
  next
    case Drain_Poll
    with assms(2) check [of "v\<lparr>drain_polls := drain_polls v - 1\<rparr>"] show ?thesis by (auto simp: drain_poll_completes_def split: if_splits)
  next
    case (Client sid clk ev')
    with assms(2) show ?thesis by (auto simp: reports_grow_def client_step_reports split: if_splits)
  next
    case (Deliver i clk)
    with assms(2) show ?thesis by (auto simp: reports_grow_def dest: client_step_reports split: if_splits prod.splits)
  next
    case (Accept_Done r p)
    with assms(2) show ?thesis
      by (cases "accept_completes (srv_listener v) r") (auto simp: reports_grow_def split: if_split_asm)
  qed (use assms(2) in \<open>auto simp: reports_grow_def server_start_def split: if_splits list.splits\<close>)
qed

text \<open>While the registry drains, no turn adds a session.\<close>

lemma server_turn_registered:
  assumes "server_inv n v" "drain_inv v" "server_turn rnd hash moved ev v = Some v'" "srv_draining v"
  shows "registered (registry v') \<subseteq> registered (registry v)"
proof -
  have c: "clients_ok v" using assms(1) by (simp add: server_inv_def)
  have same: "registered (registry v') \<subseteq> registered (registry v)" if "same_clients v v'" using that by (simp add: same_clients_def registered_def)
  have drain: "reg_draining (registry v)" using assms(2,4) by (simp add: drain_inv_def)
  show ?thesis
  proof (cases ev)
    case (Begin_Drain grace cb)
    with assms(3,4) show ?thesis by (auto simp: server_beginDrain_def split: if_splits)
  next
    case Stop_Server
    with assms(3) stop_turn [OF c assms(2)] same show ?thesis by auto
  next
    case (Drain_Timer error)
    with assms(3) timer_turn [OF c assms(2)] same show ?thesis by (auto split: if_split_asm)
  next
    case Drain_Poll
    with assms(3) poll_turn [OF c assms(2)] same show ?thesis by (auto split: if_split_asm)
  next
    case (Accept_Done r p)
    let ?sid = "next_session_id v"
    have gone: "session_gone (v\<lparr>next_session_id := u64_inc ?sid\<rparr>) = session_gone v" by (simp add: fun_eq_iff session_gone_def)
    obtain ok q where add: "tryAdd (session_gone v) (registry v) ?sid ?sid = (ok, q)" by fastforce
    have "\<not> ok" using tryAdd_True(3) [OF _ nothing_gone [OF c]] add drain by (cases ok) auto
    moreover from this have "q = registry v" using tryAdd_False(1) [OF _ nothing_gone [OF c]] add by (cases ok) auto
    ultimately have "registered (registry (accept_socket p v)) = registered (registry v)"
      using add gone by (simp add: accept_socket_def Let_def note_server_def with_registry_def recordRejected_def split: sum.splits)
    then have same: "gw_registry (srv_gateway (accept_socket p v)) = registry v \<or> registered (registry (accept_socket p v)) = registered (registry v)" by simp
    from accept_turn [OF assms(3) [unfolded Accept_Done]] obtain made l where
      "v' = (if made then accept_socket p v else v)\<lparr>srv_listener := l\<rparr>" .
    with same show ?thesis by (cases made) auto
  next
    case (Client sid clk ev')
    then have step: "from_outside ev'" "client_step rnd hash moved clk sid ev' v = Some v'" using assms(3) by (auto split: if_split_asm)
    then have "\<And>reason. ev' = Stops reason \<Longrightarrow> reason \<noteq> SR_None" by auto
    from client_step_registry(1) [OF c step(2) this] show ?thesis by blast
  next
    case (Deliver i clk)
    let ?v1 = "v\<lparr>posted := take i (posted v) @ drop (i + 1) (posted v)\<rparr>"
    obtain sid ev' where e: "posted v ! i = (sid, ev')" by fastforce
    with Deliver assms(3) have i: "i < length (posted v)" and step: "client_step rnd hash moved clk sid ev' ?v1 = Some v'"
      by (auto split: if_split_asm)
    from posted_kinds [OF assms(2) i e] have "\<And>reason. ev' = Stops reason \<Longrightarrow> reason \<noteq> SR_None" by auto
    moreover have "clients_ok ?v1" using c by (simp add: clients_ok_def)
    ultimately show ?thesis using client_step_registry(1) [OF _ step] by auto
  qed (use assms(3) same in \<open>auto simp: server_start_def split: if_split_asm list.splits\<close>)
qed

section \<open>The end of a drain\<close>

fun server_turns :: "(real \<Rightarrow> real) \<Rightarrow> (string \<Rightarrow> nat) \<Rightarrow> HttpRequest \<Rightarrow> server_event list \<Rightarrow> HttpServer \<Rightarrow> HttpServer option" where
  "server_turns rnd hash moved [] v = Some v"
| "server_turns rnd hash moved (ev # evs) v =
     (case server_turn rnd hash moved ev v of None \<Rightarrow> None | Some v' \<Rightarrow> server_turns rnd hash moved evs v')"

lemma poll_ends_drain:
  assumes "server_inv n v" "drain_inv v" "drain_deadline_expired v" "\<not> drain_finished v" "posted v = []"
  shows "\<exists>v'. server_turn rnd hash moved Drain_Poll v = Some v' \<and> drain_finished v' \<and>
    reports v' = (if on_drain_complete v then [False] else []) \<and> sessions (registry v') = []"
proof -
  let ?v1 = "v\<lparr>drain_polls := drain_polls v - 1\<rparr>"
  have c: "clients_ok ?v1" using assms(1) by (simp add: server_inv_def clients_ok_def)
  have "registered (registry v) = {}" using assms(2,3,5) by (auto simp: drain_inv_def)
  then have empty: "sessions (registry v) = []" by (simp add: registered_def)
  have "0 < drain_polls v" "reports v = []" using assms(2-4) by (auto simp: drain_inv_def)
  moreover have "checkDrain ?v1 = finishDrain False ?v1" using checkDrain_eq [OF c] empty assms(3,4) by simp
  ultimately show ?thesis using empty assms(4) by (simp add: drain_poll_completes_def finishDrain_def)
qed

lemma deliver_possible:
  assumes "server_inv n v" "drain_inv v" "posted v = x # rest"
  shows "\<exists>v'. server_turn rnd hash moved (Deliver 0 clk) v = Some v' \<and> posted v' = rest \<and>
    drain_deadline_expired v' = drain_deadline_expired v \<and> drain_finished v' = drain_finished v \<and> on_drain_complete v' = on_drain_complete v"
proof -
  obtain sid ev where x: "x = (sid, ev)" by fastforce
  with assms(2,3) obtain s where s: "clients v sid = Some s" "ev = Drains \<or> ev = Stops SR_ServerShutdown"
    by (auto simp: drain_inv_def)
  then have "\<exists>y. session_step rnd hash moved clk ev (s, srv_gateway v) = Some y"
    by (elim disjE) (simp_all add: session_step_def del: split_paired_Ex)
  then obtain y where "session_step rnd hash moved clk ev (s, srv_gateway v) = Some y" ..
  then show ?thesis using assms(3) x s(1) by (cases y) (simp add: client_step_def)
qed

lemma drain_runs_out:
  assumes "server_inv n v" "drain_inv v" "drain_deadline_expired v" "\<not> drain_finished v" "n + length (posted v) + 2 < 2 ^ 64"
  shows "\<exists>v'. server_turns rnd hash moved (replicate (length (posted v)) (Deliver 0 clk) @ [Drain_Poll]) v = Some v' \<and>
    drain_finished v' \<and> reports v' = (if on_drain_complete v then [False] else []) \<and> sessions (registry v') = []"
  using assms
proof (induction "length (posted v)" arbitrary: n v)
  case 0
  from poll_ends_drain [OF 0(2-5), of rnd hash moved] 0(1) show ?case by (auto simp del: server_turn.simps)
next
  case (Suc m)
  then obtain x rest where p: "posted v = x # rest" by (metis length_Suc_conv)
  from deliver_possible [OF Suc.prems(1,2) p] obtain v1 where v1: "server_turn rnd hash moved (Deliver 0 clk) v = Some v1" "posted v1 = rest"
    "drain_deadline_expired v1 = drain_deadline_expired v" "drain_finished v1 = drain_finished v" "on_drain_complete v1 = on_drain_complete v" by blast
  have "server_inv (n + 1) v1 \<and> drain_inv v1" using server_turn_inv [OF Suc.prems(1,2) v1(1)] Suc.prems(5) by simp
  with Suc.hyps(1) [of v1 "n + 1"] Suc.hyps(2) Suc.prems(3-5) v1 p show ?case by (auto simp del: server_turn.simps)
qed

section \<open>Properties\<close>

lemma connectionCount_eq: "clients_ok v \<Longrightarrow> connectionCount v = length (sessions (registry v))"
  using no_pruning [of v] by (simp add: connectionCount_def registry_size_def Let_def)

text \<open>
  C4: The registry and the metrics agree with the sessions in every reachable state: registered are exactly
  the sessions whose socket is open, at most \<open>max_connections\<close> of them; the gauge of active connections is
  their number; and every accepted connection that is no longer active, like every refused
  one, was counted as closed exactly once.
\<close>

theorem registry_matches_open_sessions:
  assumes "HttpServer_make r MetricsRegistry_default lg l backlog address_ok socket_ok = Inr v0"
    and "server_reach rnd hash moved v0 n v" "n + 1 < 2 ^ 64"
  shows "\<exists>m. metrics (gw_router (srv_gateway v)) = Some m \<and>
     (\<forall>sid. sid \<in> registered (registry v) \<longleftrightarrow> (\<exists>s. clients v sid = Some s \<and> socket_open s)) \<and>
     connectionCount v = card (registered (registry v)) \<and> connectionCount v \<le> max_connections (srv_limits v) \<and>
     active_connections m = connectionCount v \<and>
     accepted_connections m + refused v = connectionCount v + (\<Sum>reason\<leftarrow>all_reasons. closedCount (registry v) reason)"
proof -
  have inv: "clients_ok v" "counters_ok n v"
    using reach_inv [OF assms(2) made_server(1,2) [OF assms(1)] assms(3)] by (simp_all add: server_inv_def)
  then obtain m where m: "metrics (gw_router (srv_gateway v)) = Some m" "active_connections m = length (sessions (registry v))"
      "total_closed (registry v) + length (sessions (registry v)) = accepted_connections m + refused v"
    by (auto simp: counters_ok_def conns_def)
  have "sid \<in> registered (registry v) \<longleftrightarrow> (\<exists>s. clients v sid = Some s \<and> socket_open s)" for sid
    using inv(1) by (auto simp: clients_ok_def session_ok_def session_core_def)
  moreover have "card (registered (registry v)) = length (sessions (registry v))"
    using inv(2) distinct_card [of "map fst (sessions (registry v))"] by (simp add: registered_def counters_ok_def registry_inv_def)
  ultimately show ?thesis
    using m inv(2) connectionCount_eq [OF inv(1)] by (auto simp: counters_ok_def registry_inv_def total_closed_def)
qed

text \<open>
  C8: A drain reports once and tells the truth: in every run the callback is called at most once, when no session
  is left, with true exactly if the grace period has not expired; and from the moment a drain has
  begun no session is added.
\<close>

theorem drain_reports_once_and_truthfully:
  assumes "HttpServer_make r MetricsRegistry_default lg l backlog address_ok socket_ok = Inr v0"
    and "server_reach rnd hash moved v0 n v" "n + 2 < 2 ^ 64" "server_turn rnd hash moved ev v = Some v'"
  shows "length (reports v') \<le> 1 \<and>
     (reports v' \<noteq> reports v \<longrightarrow> reports v = [] \<and> reports v' = [\<not> drain_deadline_expired v'] \<and> connectionCount v' = 0) \<and>
     (srv_draining v \<longrightarrow> registered (registry v') \<subseteq> registered (registry v))"
proof -
  have v: "server_inv n v" "drain_inv v" using reach_inv [OF assms(2) made_server(1,2) [OF assms(1)]] assms(3) by simp_all
  have v': "server_inv (n + 1) v'" "drain_inv v'" using server_turn_inv [OF v assms(4,3)] by simp_all
  have c: "clients_ok v" "clients_ok v'" using v(1) v'(1) by (simp_all add: server_inv_def)
  have "length (reports v') \<le> 1" using v'(2) by (cases "drain_finished v'") (auto simp: drain_inv_def)
  moreover have "reports v = [] \<and> reports v' = [\<not> drain_deadline_expired v'] \<and> connectionCount v' = 0" if "reports v' \<noteq> reports v"
  proof -
    have g: "reports v' = reports v @ [\<not> drain_deadline_expired v']" "drain_finished v'"
      using server_turn_reports [OF c(1) assms(4)] that by (auto simp: reports_grow_def)
    moreover have "reports v = []" using g(1) \<open>length (reports v') \<le> 1\<close> by simp
    ultimately show ?thesis using v'(2) connectionCount_eq [OF c(2)] by (simp add: drain_inv_def)
  qed
  ultimately show ?thesis using server_turn_registered [OF v assms(4)] by blast
qed

text \<open>
  C9: A drain ends. In every reachable state in which the grace period of an unfinished drain has expired, the
  stops that are posted to the sessions and one poll are enough: each of them can happen, and after them
  the drain has finished with an empty registry and has reported false to its callback.
\<close>

theorem expired_drain_ends:
  assumes "HttpServer_make r MetricsRegistry_default lg l backlog address_ok socket_ok = Inr v0"
    and "server_reach rnd hash moved v0 n v" "n + length (posted v) + 2 < 2 ^ 64"
    and "drain_deadline_expired v" "\<not> drain_finished v"
  shows "\<exists>v'. server_turns rnd hash moved (replicate (length (posted v)) (Deliver 0 clk) @ [Drain_Poll]) v = Some v' \<and>
     drain_finished v' \<and> reports v' = (if on_drain_complete v then [False] else []) \<and> registered (registry v') = {}"
  using drain_runs_out [OF _ _ assms(4,5,3), of rnd hash moved clk] reach_inv [OF assms(2) made_server(1,2) [OF assms(1)]] assms(3)
  by (auto simp: registered_def)

text \<open>A server to evaluate.\<close>

lemma turns_reach:
  "server_reach rnd hash moved v0 n v \<Longrightarrow> server_turns rnd hash moved evs v = Some v' \<Longrightarrow> server_reach rnd hash moved v0 (n + length evs) v'"
proof (induction evs arbitrary: n v)
  case (Cons ev evs)
  then obtain v1 where v1: "server_turn rnd hash moved ev v = Some v1" "server_turns rnd hash moved evs v1 = Some v'"
    by (auto split: option.splits simp del: server_turn.simps)
  from Cons.IH [OF reach_turn [OF Cons.prems(1) v1(1)] v1(2)] show ?case by simp
qed simp

definition tiny_limits :: SessionLimits where
  "tiny_limits = SessionLimits_default\<lparr>parser_limits := \<lparr>max_request_line_bytes = 40, max_header_bytes = 80, max_header_count = 4,
     max_header_line_bytes = 40, max_body_bytes = 10\<rparr>, sl_read_chunk_bytes := 60, sl_max_buffer_bytes := 200, max_connections := 1\<rparr>"

definition tiny_server :: HttpServer where
  "tiny_server = (case HttpServer_make (Some (case Router_make None 0 of Inr r \<Rightarrow> r)) MetricsRegistry_default
     (case AsyncLogger_make LoggerConfig_default of Inr lg \<Rightarrow> lg) tiny_limits 10 True True of Inr v \<Rightarrow> v)"

lemma tiny_server_made:
  "HttpServer_make (Some (case Router_make None 0 of Inr r \<Rightarrow> r)) MetricsRegistry_default
     (case AsyncLogger_make LoggerConfig_default of Inr lg \<Rightarrow> lg) tiny_limits 10 True True = Inr tiny_server"
proof -
  have "(case HttpServer_make (Some (case Router_make None 0 of Inr r \<Rightarrow> r)) MetricsRegistry_default
     (case AsyncLogger_make LoggerConfig_default of Inr lg \<Rightarrow> lg) tiny_limits 10 True True of Inr v \<Rightarrow> True | Inl e \<Rightarrow> False)" by code_simp
  then show ?thesis by (auto simp: tiny_server_def split: sum.splits)
qed

text \<open>Two sockets, one of them refused; a request timeout is never reached before the drain begins and expires.\<close>

definition tiny_events :: "server_event list" where
  "tiny_events = [Start_Server, Listener_Turn, Accept_Done Accepted (False, ''c''), Accept_Done Accepted (False, ''d''),
     Client 1 (\<lambda>_. 0) Starts, Begin_Drain 1000 True, Drain_Timer False]"

definition tiny_run :: "server_event list \<Rightarrow> HttpServer option" where
  "tiny_run evs = server_turns (\<lambda>x. x) length HttpRequest_default evs tiny_server"

lemma tiny_reach: "tiny_run evs = Some v \<Longrightarrow> server_reach (\<lambda>x. x) length HttpRequest_default tiny_server (length evs) v"
  using turns_reach [OF reach_start] by (simp add: tiny_run_def)

text \<open>The runs the examples below need, evaluated together.\<close>

definition tiny_drain :: "server_event list" where
  "tiny_drain = tiny_events @ [Deliver 0 (\<lambda>_. 0), Deliver 0 (\<lambda>_. 0)]"

definition tiny_unstarted :: "server_event list" where
  "tiny_unstarted = take 4 tiny_events @ [Begin_Drain 1000 True, Deliver 0 (\<lambda>_. 0), Client 1 (\<lambda>_. 0) Starts]"

lemma tiny_values:
  "(case tiny_run (take 4 tiny_events) of Some v \<Rightarrow> connectionCount v = 1 \<and> refused v = 1 | None \<Rightarrow> False) \<and>
   (case tiny_run tiny_drain of None \<Rightarrow> False | Some v \<Rightarrow> reports v = [] \<and>
      (case server_turn (\<lambda>x. x) length HttpRequest_default Drain_Poll v of None \<Rightarrow> False | Some v' \<Rightarrow> reports v' \<noteq> [] \<and> drain_deadline_expired v')) \<and>
   (case tiny_run tiny_events of None \<Rightarrow> False | Some v \<Rightarrow> sessions (registry v) \<noteq> [] \<and> drain_deadline_expired v \<and>
      \<not> drain_finished v \<and> on_drain_complete v \<and> length (posted v) = 2) \<and>
   (case tiny_run tiny_unstarted of None \<Rightarrow> False
    | Some v \<Rightarrow> (case clients v 1 of None \<Rightarrow> False | Some s \<Rightarrow> ss_state s = SS_Draining \<and> reading s \<and> socket_open s) \<and> posted v = [])"
  by code_simp

theorem registry_matches_open_sessions_witness:
  "\<exists>v m. tiny_run (take 4 tiny_events) = Some v \<and> metrics (gw_router (srv_gateway v)) = Some m \<and>
     active_connections m = 1 \<and> connectionCount v = 1 \<and> accepted_connections m + 1 = 1 + (\<Sum>reason\<leftarrow>all_reasons. closedCount (registry v) reason)"
proof -
  obtain v where v: "tiny_run (take 4 tiny_events) = Some v" "connectionCount v = 1" "refused v = 1"
    using tiny_values by (auto split: option.splits)
  have "length (take 4 tiny_events) + 1 < 2 ^ 64" by (simp add: tiny_events_def)
  from registry_matches_open_sessions [OF tiny_server_made tiny_reach [OF v(1)] this] v show ?thesis by auto
qed

theorem drain_reports_once_and_truthfully_witness:
  "\<exists>v v'. tiny_run tiny_drain = Some v \<and> reports v = [] \<and>
     server_turn (\<lambda>x. x) length HttpRequest_default Drain_Poll v = Some v' \<and> reports v' = [False] \<and> connectionCount v' = 0"
proof -
  obtain v v' where v: "tiny_run tiny_drain = Some v" "reports v = []" "server_turn (\<lambda>x. x) length HttpRequest_default Drain_Poll v = Some v'"
      "reports v' \<noteq> []" "drain_deadline_expired v'"
    using tiny_values by (auto split: option.splits simp del: server_turn.simps)
  have "length tiny_drain + 2 < 2 ^ 64" by (simp add: tiny_drain_def tiny_events_def)
  from drain_reports_once_and_truthfully [OF tiny_server_made tiny_reach [OF v(1)] this v(3)] v show ?thesis by auto
qed

theorem expired_drain_ends_witness:
  "\<exists>v v' k. tiny_run tiny_events = Some v \<and> registered (registry v) \<noteq> {} \<and>
     server_turns (\<lambda>x. x) length HttpRequest_default (replicate k (Deliver 0 (\<lambda>_. 0)) @ [Drain_Poll]) v = Some v' \<and> reports v' = [False]"
proof -
  obtain v where v: "tiny_run tiny_events = Some v" "sessions (registry v) \<noteq> []" "drain_deadline_expired v" "\<not> drain_finished v"
      "on_drain_complete v" "length (posted v) = 2"
    using tiny_values by (auto split: option.splits)
  have "length tiny_events + length (posted v) + 2 < 2 ^ 64" using v(6) by (simp add: tiny_events_def)
  from expired_drain_ends [OF tiny_server_made tiny_reach [OF v(1)] this v(3,4), of "\<lambda>_. 0"] v(1,2,5) show ?thesis
    by (auto simp: registered_def)
qed

text \<open>
  A session that was accepted but had not run yet when the drain began goes on to read: it is draining, yet it waits
  for a client that sends nothing, until the grace period expires.
\<close>

lemma unstarted_session_outlives_drain:
  "case tiny_run tiny_unstarted of None \<Rightarrow> False
   | Some v \<Rightarrow> (case clients v 1 of None \<Rightarrow> False | Some s \<Rightarrow> ss_state s = SS_Draining \<and> reading s \<and> socket_open s) \<and> posted v = []"
  using tiny_values by blast

end
