(* ===== verification/Config.thy ===== *)
theory Config
  imports HttpServer
begin

text \<open>
  The configuration, \<open>src/http/config.cpp\<close>: the loader over a parsed YAML document, validation, and the manager that
  publishes reloaded snapshots. The YAML library is a parameter: \<open>yaml\<close> is its document tree, and a
  record of conversions gives the value or the message of the exception of \<open>as<T>\<close>.
\<close>

section \<open>Data\<close>

record ConfigError =
  err_path :: string
  err_message :: string

definition config_error :: "string \<Rightarrow> string \<Rightarrow> ConfigError" where
  "config_error p m = \<lparr>err_path = p, err_message = m\<rparr>"

definition error_format :: "ConfigError \<Rightarrow> string" where
  "error_format e = err_path e @ '': '' @ err_message e"

definition joinErrors :: "ConfigError list \<Rightarrow> string" where
  "joinErrors errors = concat (map (\<lambda>e. error_format e @ [LF]) errors)"

record ServerConfig =
  sc_listen_host :: string
  sc_listen_port :: nat
  sc_io_threads :: nat
  sc_idle_timeout :: int
  sc_header_timeout :: int
  sc_body_timeout :: int
  sc_graceful_shutdown :: int
  sc_max_connections :: nat
  sc_max_header_bytes :: nat
  sc_max_body_bytes :: nat
  sc_output_high_water_bytes :: nat
  sc_output_low_water_bytes :: nat

definition ServerConfig_default :: ServerConfig where
  "ServerConfig_default =
     \<lparr>sc_listen_host = ''127.0.0.1'', sc_listen_port = 8080, sc_io_threads = 1, sc_idle_timeout = 15000,
      sc_header_timeout = 10000, sc_body_timeout = 30000, sc_graceful_shutdown = 15000, sc_max_connections = 1024,
      sc_max_header_bytes = 16 * 1024, sc_max_body_bytes = 1024 * 1024, sc_output_high_water_bytes = 4 * 1024 * 1024,
      sc_output_low_water_bytes = 2 * 1024 * 1024\<rparr>"

record UpstreamConfig =
  uc_name :: string
  uc_endpoints :: "UpstreamEndpoint list"
  uc_proxy_limits :: ProxyLimits
  uc_pool_shards :: nat

definition UpstreamConfig_default :: UpstreamConfig where
  "UpstreamConfig_default = \<lparr>uc_name = [], uc_endpoints = [], uc_proxy_limits = ProxyLimits_default, uc_pool_shards = 1\<rparr>"

record RouteConfig =
  ro_path_prefix :: string
  ro_upstream :: string
  ro_rate_limit :: "RateLimitConfig option"
  ro_cache :: "ResponseCacheConfig option"

definition RouteConfig_default :: RouteConfig where
  "RouteConfig_default = \<lparr>ro_path_prefix = [], ro_upstream = [], ro_rate_limit = None, ro_cache = None\<rparr>"

record LoggingConfig =
  lo_level :: string
  lo_format :: string

record Config =
  cf_server :: ServerConfig
  cf_routes :: "RouteConfig list"
  cf_upstreams :: "UpstreamConfig list"
  cf_logging :: LoggingConfig

definition Config_default :: Config where
  "Config_default = \<lparr>cf_server = ServerConfig_default, cf_routes = [], cf_upstreams = [],
     cf_logging = \<lparr>lo_level = ''info'', lo_format = ''text''\<rparr>\<rparr>"

text \<open>The defaults of the two configurations a route may carry.\<close>

definition RateLimitConfig_default :: RateLimitConfig where
  "RateLimitConfig_default = \<lparr>requests_per_second = Finite 0, burst = Finite 0, per_client = False, shard_count = 16,
     max_keys = 10000, idle_ttl = 600000\<rparr>"

definition ResponseCacheConfig_default :: ResponseCacheConfig where
  "ResponseCacheConfig_default = \<lparr>ttl = 30000, max_entry_bytes = 256 * 1024, max_bytes = 4 * 1024 * 1024,
     cc_shard_count = 16, vary_headers = []\<rparr>"

section \<open>Validation\<close>

definition must_be_positive :: "string \<Rightarrow> nat \<Rightarrow> ConfigError list" where
  "must_be_positive p v = (if v = 0 then [config_error p ''must be positive''] else [])"

definition must :: "bool \<Rightarrow> string \<Rightarrow> string \<Rightarrow> ConfigError list" where
  "must ok p m = (if ok then [] else [config_error p m])"

definition log_levels :: "string list" where
  "log_levels = [''trace'', ''debug'', ''info'', ''warn'', ''warning'', ''error'', ''critical'']"

definition validate_server :: "ServerConfig \<Rightarrow> LoggingConfig \<Rightarrow> ConfigError list" where
  "validate_server s lo =
     must (sc_listen_host s \<noteq> []) ''server.listen_host'' ''must not be empty'' @
     must (sc_listen_port s \<noteq> 0 \<and> sc_listen_port s \<le> 65535) ''server.listen_port'' ''must be between 1 and 65535'' @
     must_be_positive ''server.io_threads'' (sc_io_threads s) @
     must_be_positive ''server.max_connections'' (sc_max_connections s) @
     must_be_positive ''server.max_header_bytes'' (sc_max_header_bytes s) @
     must_be_positive ''server.max_body_bytes'' (sc_max_body_bytes s) @
     must (sc_max_body_bytes s \<le> 64 * 1024 * 1024) ''server.max_body_bytes'' ''must not exceed 67108864'' @
     must (0 < sc_idle_timeout s \<and> 0 < sc_header_timeout s \<and> 0 < sc_body_timeout s \<and> 0 < sc_graceful_shutdown s)
       ''server'' ''timeout values must be positive'' @
     must (sc_output_low_water_bytes s < sc_output_high_water_bytes s) ''server.output_low_water_bytes'' ''must be lower than high water'' @
     must (lo_level lo \<in> set log_levels) ''logging.level'' ''must be trace, debug, info, warn, error, or critical'' @
     must (lo_format lo = ''json'' \<or> lo_format lo = ''text'') ''logging.format'' ''must be json or text''"

definition indexed :: "string \<Rightarrow> nat \<Rightarrow> string" where
  "indexed name i = name @ ''['' @ to_string i @ '']''"

text \<open>The endpoints of an upstream, with the set of those before.\<close>

fun validate_endpoints :: "string \<Rightarrow> nat \<Rightarrow> string set \<Rightarrow> UpstreamEndpoint list \<Rightarrow> ConfigError list" where
  "validate_endpoints base i seen [] = []"
| "validate_endpoints base i seen (e # es) =
     (let p = base @ indexed ''.endpoints'' i
      in must (host e \<noteq> [] \<and> service e \<noteq> []) p ''host and port must not be empty'' @
         must (endpoint_id e \<notin> seen) p ''must not duplicate an endpoint'' @
         validate_endpoints base (i + 1) (insert (endpoint_id e) seen) es)"

fun validate_upstreams :: "nat \<Rightarrow> string set \<Rightarrow> UpstreamConfig list \<Rightarrow> ConfigError list \<times> string set" where
  "validate_upstreams i names [] = ([], names)"
| "validate_upstreams i names (u # us) =
     (let p = indexed ''upstreams'' i;
          (rest, known) = validate_upstreams (i + 1) (insert (uc_name u) names) us
      in (must (uc_name u \<noteq> []) (p @ ''.name'') ''must not be empty'' @
          must (uc_name u \<notin> names) (p @ ''.name'') ''must be unique'' @
          must (uc_endpoints u \<noteq> []) (p @ ''.endpoints'') ''must not be empty'' @
          must_be_positive (p @ ''.pool_shards'') (uc_pool_shards u) @
          validate_endpoints p 0 {} (uc_endpoints u) @ rest, known))"

definition validate_cache :: "string \<Rightarrow> ResponseCacheConfig \<Rightarrow> ConfigError list" where
  "validate_cache p c =
     (if ttl c \<le> 0 \<or> max_entry_bytes c = 0 \<or> max_bytes c = 0 \<or> cc_shard_count c = 0
      then [config_error (p @ ''.cache'') ''ttl, sizes, and shards must be positive'']
      else must (max_entry_bytes c \<le> max_bytes c div cc_shard_count c) (p @ ''.cache.max_object_bytes'') ''must fit within one cache shard'')"

definition validate_route :: "string set \<Rightarrow> nat \<Rightarrow> RouteConfig \<Rightarrow> ConfigError list" where
  "validate_route names i r =
     (let p = indexed ''routes'' i
      in must (ro_path_prefix r \<noteq> [] \<and> hd (ro_path_prefix r) = CHR ''/'') (p @ ''.path_prefix'') ''must be an absolute path prefix'' @
         must (ro_upstream r \<in> names) (p @ ''.upstream'') (''unknown upstream '' @ DQ @ ro_upstream r @ DQ) @
         (case ro_rate_limit r of
            None \<Rightarrow> []
          | Some l \<Rightarrow> must (\<not> double_le (requests_per_second l) (Finite 0) \<and> \<not> double_le (burst l) (Finite 0)) (p @ ''.rate_limit'')
              ''requests_per_second and burst must be positive'') @
         (case ro_cache r of None \<Rightarrow> [] | Some c \<Rightarrow> validate_cache p c))"

definition validate :: "Config \<Rightarrow> ConfigError list" where
  "validate c =
     (case validate_upstreams 0 {} (cf_upstreams c) of
        (errors, names) \<Rightarrow>
          validate_server (cf_server c) (cf_logging c) @ errors @
          concat (map (\<lambda>(i, r). validate_route names i r) (enumerate 0 (cf_routes c))))"

section \<open>Loading\<close>

datatype yaml = Y_Null | Y_Scalar string | Y_Seq "yaml list" | Y_Map "(string \<times> yaml) list"

record yaml_library =
  as_string :: "yaml \<Rightarrow> string + string"
  as_uint32 :: "yaml \<Rightarrow> string + nat"
  as_size :: "yaml \<Rightarrow> string + nat"
  as_uint64 :: "yaml \<Rightarrow> string + nat"
  as_double :: "yaml \<Rightarrow> string + double"
  as_bool :: "yaml \<Rightarrow> string + bool"

fun yaml_get :: "yaml \<Rightarrow> string \<Rightarrow> yaml option" where
  "yaml_get (Y_Map m) k = map_of m k"
| "yaml_get _ k = None"

text \<open>A reader takes the value so far and the errors so far.\<close>

definition readScalar :: "(yaml \<Rightarrow> string + 'a) \<Rightarrow> yaml \<Rightarrow> string \<Rightarrow> string \<Rightarrow> 'a \<Rightarrow> ConfigError list \<Rightarrow> 'a \<times> ConfigError list" where
  "readScalar conv obj key p out errors =
     (case yaml_get obj key of
        None \<Rightarrow> (out, errors)
      | Some node \<Rightarrow> (case conv node of Inr v \<Rightarrow> (v, errors) | Inl msg \<Rightarrow> (out, errors @ [config_error p msg])))"

definition milliseconds :: "nat \<Rightarrow> int" where
  "milliseconds v = (if 2 ^ 63 - 1 < v then 2 ^ 63 - 1 else int v)"

definition readMilliseconds :: "yaml_library \<Rightarrow> yaml \<Rightarrow> string \<Rightarrow> string \<Rightarrow> int \<Rightarrow> ConfigError list \<Rightarrow> int \<times> ConfigError list" where
  "readMilliseconds y obj key p out errors =
     (case readScalar (as_uint64 y) obj key p 0 errors of
        (v, errors1) \<Rightarrow>
          (if length errors1 = length errors \<and> yaml_get obj key \<noteq> None then milliseconds v else out, errors1))"

definition endpointFromText :: "string \<Rightarrow> string + UpstreamEndpoint" where
  "endpointFromText v =
     (let split = (if v \<noteq> [] \<and> hd v = CHR ''['' then
            (case find_char (CHR '']'') v of
               None \<Rightarrow> Inl ''IPv6 endpoint must look like [::1]:8080''
             | Some closing \<Rightarrow>
                 if length v \<le> closing + 1 \<or> v ! (closing + 1) \<noteq> CHR '':'' then Inl ''IPv6 endpoint must look like [::1]:8080''
                 else Inr (take (closing - 1) (drop 1 v), drop (closing + 2) v))
          else
            (case rfind_char (CHR '':'') v of
               None \<Rightarrow> Inl ''endpoint must look like HOST:PORT''
             | Some separator \<Rightarrow> Inr (take separator v, drop (separator + 1) v)))
      in case split of
           Inl msg \<Rightarrow> Inl msg
         | Inr (h, s) \<Rightarrow> if h = [] \<or> s = [] then Inl ''endpoint is incomplete'' else Inr \<lparr>host = h, service = s\<rparr>)"

definition is_map :: "yaml \<Rightarrow> bool" where
  "is_map y = (case y of Y_Map m \<Rightarrow> True | _ \<Rightarrow> False)"

text \<open>The fields of the server mapping, one after the other.\<close>

definition load_server :: "yaml_library \<Rightarrow> yaml \<Rightarrow> ServerConfig \<Rightarrow> ConfigError list \<Rightarrow> ServerConfig \<times> ConfigError list" where
  "load_server y o1 s e0 =
     (let (v1, e1) = readScalar (as_string y) o1 ''listen_host'' ''server.listen_host'' (sc_listen_host s) e0;
          (v2, e2) = readScalar (as_uint32 y) o1 ''listen_port'' ''server.listen_port'' (sc_listen_port s) e1;
          (v3, e3) = readScalar (as_size y) o1 ''io_threads'' ''server.io_threads'' (sc_io_threads s) e2;
          (v4, e4) = readMilliseconds y o1 ''idle_timeout_ms'' ''server.idle_timeout_ms'' (sc_idle_timeout s) e3;
          (v5, e5) = readMilliseconds y o1 ''header_timeout_ms'' ''server.header_timeout_ms'' (sc_header_timeout s) e4;
          (v6, e6) = readMilliseconds y o1 ''body_timeout_ms'' ''server.body_timeout_ms'' (sc_body_timeout s) e5;
          (v7, e7) = readMilliseconds y o1 ''graceful_shutdown_ms'' ''server.graceful_shutdown_ms'' (sc_graceful_shutdown s) e6;
          (v8, e8) = readScalar (as_size y) o1 ''max_connections'' ''server.max_connections'' (sc_max_connections s) e7;
          (v9, e9) = readScalar (as_size y) o1 ''max_header_bytes'' ''server.max_header_bytes'' (sc_max_header_bytes s) e8;
          (v10, e10) = readScalar (as_size y) o1 ''max_body_bytes'' ''server.max_body_bytes'' (sc_max_body_bytes s) e9;
          (v11, e11) = readScalar (as_size y) o1 ''output_high_water_bytes'' ''server.output_high_water_bytes'' (sc_output_high_water_bytes s) e10;
          (v12, e12) = readScalar (as_size y) o1 ''output_low_water_bytes'' ''server.output_low_water_bytes'' (sc_output_low_water_bytes s) e11
      in (\<lparr>sc_listen_host = v1, sc_listen_port = v2, sc_io_threads = v3, sc_idle_timeout = v4, sc_header_timeout = v5,
           sc_body_timeout = v6, sc_graceful_shutdown = v7, sc_max_connections = v8, sc_max_header_bytes = v9,
           sc_max_body_bytes = v10, sc_output_high_water_bytes = v11, sc_output_low_water_bytes = v12\<rparr>, e12))"

fun load_endpoints :: "yaml_library \<Rightarrow> string \<Rightarrow> nat \<Rightarrow> yaml list \<Rightarrow> UpstreamEndpoint list \<Rightarrow> ConfigError list \<Rightarrow>
    UpstreamEndpoint list \<times> ConfigError list" where
  "load_endpoints y base i [] es errors = (es, errors)"
| "load_endpoints y base i (n # ns) es errors =
     (case (case as_string y n of Inl msg \<Rightarrow> Inl msg | Inr t \<Rightarrow> endpointFromText t) of
        Inl msg \<Rightarrow> load_endpoints y base (i + 1) ns es (errors @ [config_error (base @ indexed ''.endpoints'' i) msg])
      | Inr e \<Rightarrow> load_endpoints y base (i + 1) ns (es @ [e]) errors)"

text \<open>What an upstream's mapping sets of its proxy limits.\<close>

definition upstream_limits :: "int \<Rightarrow> int \<Rightarrow> nat \<Rightarrow> ProxyLimits" where
  "upstream_limits ct rt max_conns = ProxyLimits_default
     \<lparr>connect_timeout := ct, response_timeout := rt,
      pool_limits := PoolLimits_default
        \<lparr>PoolLimits.max_connections := max_conns,
         max_idle_connections := min (max_idle_connections PoolLimits_default) max_conns\<rparr>\<rparr>"

definition load_upstream :: "yaml_library \<Rightarrow> string \<Rightarrow> yaml \<Rightarrow> ConfigError list \<Rightarrow> UpstreamConfig \<times> ConfigError list" where
  "load_upstream y p n e0 =
     (let l = ProxyLimits_default;
          (v1, e1) = readScalar (as_string y) n ''name'' (p @ ''.name'') [] e0;
          (v2, e2) = readMilliseconds y n ''connect_timeout_ms'' (p @ ''.connect_timeout_ms'') (connect_timeout l) e1;
          (v3, e3) = readMilliseconds y n ''response_timeout_ms'' (p @ ''.response_timeout_ms'') (response_timeout l) e2;
          (v4, e4) = readScalar (as_size y) n ''max_connections_per_endpoint'' (p @ ''.max_connections_per_endpoint'')
                       (PoolLimits.max_connections (pool_limits l)) e3;
          (v5, e5) = readScalar (as_size y) n ''pool_shards'' (p @ ''.pool_shards'') 1 e4;
          (es, e6) = (case yaml_get n ''endpoints'' of
             Some (Y_Seq ns) \<Rightarrow> load_endpoints y p 0 ns [] e5
           | _ \<Rightarrow> ([], e5 @ [config_error (p @ ''.endpoints'') ''must be a sequence'']))
      in (\<lparr>uc_name = v1, uc_endpoints = es, uc_proxy_limits = upstream_limits v2 v3 v4, uc_pool_shards = v5\<rparr>, e6))"

text \<open>The loops over upstreams and routes share their shape: an element that is no mapping is an error.\<close>

fun load_items :: "(string \<Rightarrow> yaml \<Rightarrow> ConfigError list \<Rightarrow> 'a \<times> ConfigError list) \<Rightarrow> string \<Rightarrow> nat \<Rightarrow> yaml list \<Rightarrow> 'a list \<Rightarrow>
    ConfigError list \<Rightarrow> 'a list \<times> ConfigError list" where
  "load_items load_item name i [] out errors = (out, errors)"
| "load_items load_item name i (n # ns) out errors =
     (if \<not> is_map n then load_items load_item name (i + 1) ns out (errors @ [config_error (indexed name i) ''must be a mapping''])
      else case load_item (indexed name i) n errors of (v, errors1) \<Rightarrow> load_items load_item name (i + 1) ns (out @ [v]) errors1)"

definition load_rate :: "yaml_library \<Rightarrow> string \<Rightarrow> yaml \<Rightarrow> ConfigError list \<Rightarrow> RateLimitConfig option \<times> ConfigError list" where
  "load_rate y p limit e0 =
     (if \<not> is_map limit then (None, e0 @ [config_error (p @ ''.rate_limit'') ''must be a mapping''])
      else
        let d = RateLimitConfig_default;
            (v1, e1) = readScalar (as_double y) limit ''requests_per_second'' (p @ ''.rate_limit.requests_per_second'') (requests_per_second d) e0;
            (v2, e2) = readScalar (as_double y) limit ''burst'' (p @ ''.rate_limit.burst'') (burst d) e1
        in (Some (d\<lparr>requests_per_second := v1, burst := v2\<rparr>), e2))"

definition load_cache :: "yaml_library \<Rightarrow> string \<Rightarrow> yaml \<Rightarrow> ConfigError list \<Rightarrow> ResponseCacheConfig option \<times> ConfigError list" where
  "load_cache y p cache e0 =
     (if \<not> is_map cache then (None, e0 @ [config_error (p @ ''.cache'') ''must be a mapping''])
      else
        let d = ResponseCacheConfig_default;
            (enabled, e1) = readScalar (as_bool y) cache ''enabled'' (p @ ''.cache.enabled'') False e0
        in if \<not> enabled then (None, e1)
           else
             let (v1, e2) = readMilliseconds y cache ''ttl_ms'' (p @ ''.cache.ttl_ms'') (ttl d) e1;
                 (v2, e3) = readScalar (as_size y) cache ''max_object_bytes'' (p @ ''.cache.max_object_bytes'') (max_entry_bytes d) e2;
                 (v3, e4) = readScalar (as_size y) cache ''max_bytes'' (p @ ''.cache.max_bytes'') (max_bytes d) e3;
                 (v4, e5) = readScalar (as_size y) cache ''shards'' (p @ ''.cache.shards'') (cc_shard_count d) e4
             in (Some (d\<lparr>ttl := v1, max_entry_bytes := v2, max_bytes := v3, cc_shard_count := v4\<rparr>), e5))"

definition load_route :: "yaml_library \<Rightarrow> string \<Rightarrow> yaml \<Rightarrow> ConfigError list \<Rightarrow> RouteConfig \<times> ConfigError list" where
  "load_route y p n e0 =
     (let (v1, e1) = readScalar (as_string y) n ''path_prefix'' (p @ ''.path_prefix'') [] e0;
          (v2, e2) = readScalar (as_string y) n ''upstream'' (p @ ''.upstream'') [] e1;
          (v3, e3) = (case yaml_get n ''rate_limit'' of None \<Rightarrow> (None, e2) | Some limit \<Rightarrow> load_rate y p limit e2);
          (v4, e4) = (case yaml_get n ''cache'' of None \<Rightarrow> (None, e3) | Some cache \<Rightarrow> load_cache y p cache e3)
      in (\<lparr>ro_path_prefix = v1, ro_upstream = v2, ro_rate_limit = v3, ro_cache = v4\<rparr>, e4))"

definition load_section :: "(string \<Rightarrow> yaml \<Rightarrow> ConfigError list \<Rightarrow> 'a \<times> ConfigError list) \<Rightarrow> string \<Rightarrow> yaml \<Rightarrow> ConfigError list \<Rightarrow>
    'a list \<times> ConfigError list" where
  "load_section load_item name doc errors =
     (case yaml_get doc name of
        None \<Rightarrow> ([], errors)
      | Some (Y_Seq ns) \<Rightarrow> load_items load_item name 0 ns [] errors
      | Some _ \<Rightarrow> ([], errors @ [config_error name ''must be a sequence'']))"

definition load_server_section :: "yaml_library \<Rightarrow> yaml \<Rightarrow> ServerConfig \<times> ConfigError list" where
  "load_server_section y doc =
     (let d = ServerConfig_default
      in case yaml_get doc ''server'' of
           None \<Rightarrow> (d, [])
         | Some s \<Rightarrow> if is_map s then load_server y s d [] else (d, [config_error ''server'' ''must be a mapping'']))"

definition load_logging_section :: "yaml_library \<Rightarrow> yaml \<Rightarrow> ConfigError list \<Rightarrow> LoggingConfig \<times> ConfigError list" where
  "load_logging_section y doc e0 =
     (let d = cf_logging Config_default
      in case yaml_get doc ''logging'' of
           None \<Rightarrow> (d, e0)
         | Some n \<Rightarrow>
             if \<not> is_map n then (d, e0 @ [config_error ''logging'' ''must be a mapping''])
             else
               let (v1, e1) = readScalar (as_string y) n ''level'' ''logging.level'' (lo_level d) e0;
                   (v2, e2) = readScalar (as_string y) n ''format'' ''logging.format'' (lo_format d) e1
               in (\<lparr>lo_level = v1, lo_format = v2\<rparr>, e2))"

definition load_config :: "yaml_library \<Rightarrow> yaml \<Rightarrow> Config \<times> ConfigError list" where
  "load_config y doc =
     (let (server, e1) = load_server_section y doc;
          (ups, e2) = load_section (load_upstream y) ''upstreams'' doc e1;
          (ros, e3) = load_section (load_route y) ''routes'' doc e2;
          (logging, e4) = load_logging_section y doc e3
      in (\<lparr>cf_server = server, cf_routes = ros, cf_upstreams = ups, cf_logging = logging\<rparr>, e4))"

text \<open>\<open>document\<close> is what \<open>YAML::LoadFile\<close> returns; the left side is the list of the exception's errors.\<close>

definition loadFromFile :: "yaml_library \<Rightarrow> string + yaml \<Rightarrow> ConfigError list + Config" where
  "loadFromFile y document =
     (case document of
        Inl msg \<Rightarrow> Inl [config_error ''config'' msg]
      | Inr doc \<Rightarrow>
          if \<not> is_map doc then Inl [config_error ''config'' ''must be a mapping'']
          else
            let (c, e) = load_config y doc; errors = e @ validate c
            in if errors \<noteq> [] then Inl errors else Inr c)"

end
