(* ===== verification/CommandLine.thy ===== *)
theory CommandLine
  imports Config
begin

text \<open>
  The command line of \<open>app/pulsegate_main.cpp\<close>: addresses, numbers, the option loop and the checks between
  options. An error is the message of the \<open>std::invalid_argument\<close>. \<open>stod\<close>, the library's conversion to
  double, is a parameter: None when it throws, else the value and the characters consumed.
\<close>

section \<open>Addresses and numbers\<close>

type_synonym 'a parsed = "string + 'a"

definition pbind :: "'a parsed \<Rightarrow> ('a \<Rightarrow> 'b parsed) \<Rightarrow> 'b parsed" where
  "pbind r f = (case r of Inl msg \<Rightarrow> Inl msg | Inr a \<Rightarrow> f a)"

lemma pbind_simps [simp]: "pbind (Inl msg) f = Inl msg" "pbind (Inr a) f = f a"
  by (simp_all add: pbind_def)

record ListenConfig =
  li_host :: string
  li_port :: nat
  li_backlog :: int

definition ListenConfig_default :: ListenConfig where
  "ListenConfig_default = \<lparr>li_host = ''127.0.0.1'', li_port = 8080, li_backlog = 1024\<rparr>"

definition parseListenAddress :: "string \<Rightarrow> ListenConfig parsed" where
  "parseListenAddress v =
     pbind (if v \<noteq> [] \<and> hd v = CHR ''['' then
              (case find_char (CHR '']'') v of
                 None \<Rightarrow> Inl ''IPv6 listen addresses must look like [::1]:8080''
               | Some closing_bracket \<Rightarrow>
                   if length v \<le> closing_bracket + 1 \<or> v ! (closing_bracket + 1) \<noteq> CHR '':''
                   then Inl ''IPv6 listen addresses must look like [::1]:8080''
                   else Inr (take (closing_bracket - 1) (drop 1 v), drop (closing_bracket + 2) v))
            else
              (case rfind_char (CHR '':'') v of
                 None \<Rightarrow> Inl ''listen address must look like HOST:PORT''
               | Some colon \<Rightarrow> Inr (take colon v, drop (colon + 1) v)))
     (\<lambda>(h, port_text).
        if h = [] \<or> port_text = [] then Inl ''listen host and port must not be empty''
        else case from_chars_all 10 (2 ^ 32 - 1) port_text of
               None \<Rightarrow> Inl ''listen port must be between 0 and 65535''
             | Some port \<Rightarrow>
                 if 65535 < port then Inl ''listen port must be between 0 and 65535''
                 else Inr (ListenConfig_default\<lparr>li_host := h, li_port := port\<rparr>))"

definition parseUpstreamEndpoint :: "string \<Rightarrow> UpstreamEndpoint parsed" where
  "parseUpstreamEndpoint v =
     pbind (if v \<noteq> [] \<and> hd v = CHR ''['' then
              (case find_char (CHR '']'') v of
                 None \<Rightarrow> Inl ''IPv6 upstream addresses must look like [::1]:8081''
               | Some closing_bracket \<Rightarrow>
                   if length v \<le> closing_bracket + 1 \<or> v ! (closing_bracket + 1) \<noteq> CHR '':''
                   then Inl ''IPv6 upstream addresses must look like [::1]:8081''
                   else Inr (take (closing_bracket - 1) (drop 1 v), drop (closing_bracket + 2) v))
            else
              (case rfind_char (CHR '':'') v of
                 None \<Rightarrow> Inl ''upstream address must look like HOST:PORT''
               | Some colon \<Rightarrow> Inr (take colon v, drop (colon + 1) v)))
     (\<lambda>(h, s). if h = [] \<or> s = [] then Inl ''upstream host and port must not be empty'' else Inr \<lparr>host = h, service = s\<rparr>)"

definition parseThreadCount :: "string \<Rightarrow> nat parsed" where
  "parseThreadCount v =
     (case from_chars_all 10 (2 ^ 32 - 1) v of
        None \<Rightarrow> Inl ''thread count must be a positive integer''
      | Some n \<Rightarrow> if v = [] \<or> n = 0 then Inl ''thread count must be a positive integer'' else Inr n)"

definition parsePositiveSize :: "string \<Rightarrow> string \<Rightarrow> nat parsed" where
  "parsePositiveSize v opt =
     (case from_chars_all 10 (2 ^ 64 - 1) v of
        None \<Rightarrow> Inl (opt @ '' must be a positive integer'')
      | Some n \<Rightarrow> if v = [] \<or> n = 0 \<or> size_max < n then Inl (opt @ '' must be a positive integer'') else Inr n)"

definition defaultThreadCount :: "nat \<Rightarrow> nat" where
  "defaultThreadCount detected = (if detected = 0 then 1 else detected)"

definition parsePositiveDouble :: "(string \<Rightarrow> (double \<times> nat) option) \<Rightarrow> string \<Rightarrow> string \<Rightarrow> double parsed" where
  "parsePositiveDouble stod v opt =
     (case stod v of
        None \<Rightarrow> Inl (opt @ '' must be a positive number'')
      | Some (d, consumed) \<Rightarrow>
          if consumed \<noteq> length v \<or> \<not> isfinite d \<or> double_le d (Finite 0) then Inl (opt @ '' must be a positive number'')
          else Inr d)"

section \<open>The options\<close>

record options =
  op_listen :: ListenConfig
  op_threads :: nat
  op_document_root :: "string option"
  op_config_path :: "string option"
  op_proxy_upstreams :: "UpstreamEndpoint list"
  op_rate_limit :: "double option"
  op_rate_burst :: "double option"
  op_rate_per_client :: bool
  op_proxy_rate_limit :: "double option"
  op_proxy_rate_burst :: "double option"
  op_proxy_rate_per_client :: bool
  op_cache_ttl_ms :: "nat option"
  op_cache_max_bytes :: "nat option"
  op_cache_entry_max_bytes :: "nat option"
  op_cache_shards :: "nat option"

definition options_default :: "nat \<Rightarrow> options" where
  "options_default detected =
     \<lparr>op_listen = ListenConfig_default, op_threads = defaultThreadCount detected, op_document_root = None, op_config_path = None,
      op_proxy_upstreams = [], op_rate_limit = None, op_rate_burst = None, op_rate_per_client = False,
      op_proxy_rate_limit = None, op_proxy_rate_burst = None, op_proxy_rate_per_client = False, op_cache_ttl_ms = None,
      op_cache_max_bytes = None, op_cache_entry_max_bytes = None, op_cache_shards = None\<rparr>"

text \<open>The options with a value; None for any other word.\<close>

definition apply_option :: "(string \<Rightarrow> (double \<times> nat) option) \<Rightarrow> string \<Rightarrow> string \<Rightarrow> options \<Rightarrow> options parsed option" where
  "apply_option stod a v o1 =
     (if a = ''--listen'' then Some (pbind (parseListenAddress v) (\<lambda>c. Inr (o1\<lparr>op_listen := c\<rparr>)))
      else if a = ''--config'' then Some (Inr (o1\<lparr>op_config_path := Some v\<rparr>))
      else if a = ''--threads'' then Some (pbind (parseThreadCount v) (\<lambda>n. Inr (o1\<lparr>op_threads := n\<rparr>)))
      else if a = ''--document-root'' then Some (Inr (o1\<lparr>op_document_root := Some v\<rparr>))
      else if a = ''--proxy-upstream'' then
        Some (pbind (parseUpstreamEndpoint v) (\<lambda>e. Inr (o1\<lparr>op_proxy_upstreams := op_proxy_upstreams o1 @ [e]\<rparr>)))
      else if a = ''--rate-limit'' then Some (pbind (parsePositiveDouble stod v a) (\<lambda>d. Inr (o1\<lparr>op_rate_limit := Some d\<rparr>)))
      else if a = ''--rate-burst'' then Some (pbind (parsePositiveDouble stod v a) (\<lambda>d. Inr (o1\<lparr>op_rate_burst := Some d\<rparr>)))
      else if a = ''--proxy-rate-limit'' then Some (pbind (parsePositiveDouble stod v a) (\<lambda>d. Inr (o1\<lparr>op_proxy_rate_limit := Some d\<rparr>)))
      else if a = ''--proxy-rate-burst'' then Some (pbind (parsePositiveDouble stod v a) (\<lambda>d. Inr (o1\<lparr>op_proxy_rate_burst := Some d\<rparr>)))
      else if a = ''--proxy-cache-ttl-ms'' then Some (pbind (parsePositiveSize v a) (\<lambda>n. Inr (o1\<lparr>op_cache_ttl_ms := Some n\<rparr>)))
      else if a = ''--proxy-cache-max-bytes'' then Some (pbind (parsePositiveSize v a) (\<lambda>n. Inr (o1\<lparr>op_cache_max_bytes := Some n\<rparr>)))
      else if a = ''--proxy-cache-entry-max-bytes'' then
        Some (pbind (parsePositiveSize v a) (\<lambda>n. Inr (o1\<lparr>op_cache_entry_max_bytes := Some n\<rparr>)))
      else if a = ''--proxy-cache-shards'' then Some (pbind (parsePositiveSize v a) (\<lambda>n. Inr (o1\<lparr>op_cache_shards := Some n\<rparr>)))
      else None)"

datatype command = Print_Version | Print_Usage | Run options

definition unknown_argument :: "string \<Rightarrow> string" where
  "unknown_argument a = ''unknown or incomplete argument: '' @ a"

text \<open>The loop over the words after the program's name; \<open>argc\<close> counts the name too.\<close>

fun parse_options :: "(string \<Rightarrow> (double \<times> nat) option) \<Rightarrow> nat \<Rightarrow> string list \<Rightarrow> options \<Rightarrow> command parsed" where
  "parse_options stod argc [] o1 = Inr (Run o1)"
| "parse_options stod argc (a # rest) o1 =
     (if a = ''--version'' then
        if argc \<noteq> 2 then Inl ''--version cannot be combined with other arguments'' else Inr Print_Version
      else if a = ''--help'' \<or> a = ''-h'' then Inr Print_Usage
      else if a = ''--rate-per-client'' then parse_options stod argc rest (o1\<lparr>op_rate_per_client := True\<rparr>)
      else if a = ''--proxy-rate-per-client'' then parse_options stod argc rest (o1\<lparr>op_proxy_rate_per_client := True\<rparr>)
      else
        case rest of
          [] \<Rightarrow> Inl (unknown_argument a)
        | v # rest' \<Rightarrow>
            (case apply_option stod a v o1 of
               None \<Rightarrow> Inl (unknown_argument a)
             | Some (Inl msg) \<Rightarrow> Inl msg
             | Some (Inr o2) \<Rightarrow> parse_options stod argc rest' o2))"

text \<open>What the options mean together: the configurations they build.\<close>

record plan =
  pl_global_rate_limit :: "RateLimitConfig option"
  pl_proxy_route_limit :: "RateLimitConfig option"
  pl_proxy_cache :: "ResponseCacheConfig option"

definition rate_of :: "double option \<Rightarrow> double option \<Rightarrow> bool \<Rightarrow> RateLimitConfig option" where
  "rate_of limit b per =
     (case limit of
        None \<Rightarrow> None
      | Some l \<Rightarrow> Some (RateLimitConfig_default\<lparr>requests_per_second := l, burst := the b, per_client := per\<rparr>))"

text \<open>A 64-bit count as \<open>std::chrono::milliseconds\<close>, whose representation is signed.\<close>

definition to_milliseconds :: "nat \<Rightarrow> int" where
  "to_milliseconds n = (if 2 ^ 63 \<le> n then int n - 2 ^ 64 else int n)"

definition cache_of :: "nat \<Rightarrow> nat \<Rightarrow> nat option \<Rightarrow> nat option \<Rightarrow> ResponseCacheConfig parsed" where
  "cache_of ttl_ms max_b entry shards =
     (let max_entry = (case entry of None \<Rightarrow> min (256 * 1024) max_b | Some n \<Rightarrow> n);
          shard_n = (case shards of None \<Rightarrow> min 16 (max_b div max_entry) | Some n \<Rightarrow> n)
      in if max_b < max_entry then Inl ''--proxy-cache-entry-max-bytes cannot exceed cache size''
         else if max_b div shard_n < max_entry then
           Inl ''--proxy-cache-entry-max-bytes is too large for the selected shard count''
         else Inr (\<lparr>ttl = to_milliseconds ttl_ms, max_entry_bytes = max_entry, max_bytes = max_b, cc_shard_count = shard_n,
                    vary_headers = []\<rparr>))"

definition check_options :: "options \<Rightarrow> plan parsed" where
  "check_options o1 =
     (if (op_rate_limit o1 \<noteq> None) \<noteq> (op_rate_burst o1 \<noteq> None) then
        Inl ''--rate-limit and --rate-burst must be used together''
      else if (op_proxy_rate_limit o1 \<noteq> None) \<noteq> (op_proxy_rate_burst o1 \<noteq> None) then
        Inl ''--proxy-rate-limit and --proxy-rate-burst must be used together''
      else if (op_cache_ttl_ms o1 \<noteq> None) \<noteq> (op_cache_max_bytes o1 \<noteq> None) then
        Inl ''--proxy-cache-ttl-ms and --proxy-cache-max-bytes must be used together''
      else if (op_cache_entry_max_bytes o1 \<noteq> None \<or> op_cache_shards o1 \<noteq> None) \<and> op_cache_ttl_ms o1 = None then
        Inl ''proxy cache entry and shard options require --proxy-cache-ttl-ms and --proxy-cache-max-bytes''
      else
        pbind (case op_cache_ttl_ms o1 of
                 None \<Rightarrow> Inr None
               | Some t \<Rightarrow> pbind (cache_of t (the (op_cache_max_bytes o1)) (op_cache_entry_max_bytes o1) (op_cache_shards o1)) (\<lambda>c. Inr (Some c)))
        (\<lambda>cache. Inr \<lparr>pl_global_rate_limit = rate_of (op_rate_limit o1) (op_rate_burst o1) (op_rate_per_client o1),
                       pl_proxy_route_limit = rate_of (op_proxy_rate_limit o1) (op_proxy_rate_burst o1) (op_proxy_rate_per_client o1),
                       pl_proxy_cache = cache\<rparr>))"

text \<open>The command line up to the start of a server: print, serve a configuration file, or serve a plan.\<close>

datatype startup = Just_Print | Serve_File string | Serve_Plan options plan

definition command_line :: "(string \<Rightarrow> (double \<times> nat) option) \<Rightarrow> nat \<Rightarrow> string list \<Rightarrow> startup parsed" where
  "command_line stod detected words =
     (let argc = length words + 1
      in pbind (parse_options stod argc words (options_default detected)) (\<lambda>cmd.
           case cmd of
             Run o1 \<Rightarrow>
               (case op_config_path o1 of
                  Some p \<Rightarrow> if argc \<noteq> 3 then Inl ''--config cannot be combined with other options'' else Inr (Serve_File p)
                | None \<Rightarrow> pbind (check_options o1) (\<lambda>pl. Inr (Serve_Plan o1 pl)))
           | _ \<Rightarrow> Inr Just_Print))"

end
