(* ===== verification/ConfigManager.thy ===== *)
theory ConfigManager
  imports Config "HOL-Library.Multiset"
begin

text \<open>
  The configuration manager, \<open>src/http/config.cpp\<close>: which differences between two configurations
  need a restart, and the reload protocol. The strand and the one-thread worker are queues of
  posted tasks; a step of either runs its first task. Whatever the file holds when the worker reads
  it is the argument of the worker's step, and the calls of the handlers are recorded.
\<close>

section \<open>Changes that need a restart\<close>

definition changed :: "bool \<Rightarrow> string \<Rightarrow> string list" where
  "changed differ field = (if differ then [field] else [])"

definition equal_rate :: "RateLimitConfig option \<Rightarrow> RateLimitConfig option \<Rightarrow> bool" where
  "equal_rate left right =
     (case (left, right) of
        (None, None) \<Rightarrow> True
      | (Some l, Some r) \<Rightarrow>
          double_eq (requests_per_second l) (requests_per_second r) \<and> double_eq (burst l) (burst r) \<and> per_client l = per_client r \<and>
          shard_count l = shard_count r \<and> max_keys l = max_keys r \<and> idle_ttl l = idle_ttl r
      | _ \<Rightarrow> False)"

definition equal_cache :: "ResponseCacheConfig option \<Rightarrow> ResponseCacheConfig option \<Rightarrow> bool" where
  "equal_cache left right =
     (case (left, right) of
        (None, None) \<Rightarrow> True
      | (Some l, Some r) \<Rightarrow>
          ttl l = ttl r \<and> max_entry_bytes l = max_entry_bytes r \<and> max_bytes l = max_bytes r \<and>
          cc_shard_count l = cc_shard_count r \<and> vary_headers l = vary_headers r
      | _ \<Rightarrow> False)"

definition equal_upstream :: "UpstreamConfig \<Rightarrow> UpstreamConfig \<Rightarrow> bool" where
  "equal_upstream left right =
     (if uc_name left \<noteq> uc_name right \<or> uc_pool_shards left \<noteq> uc_pool_shards right \<or>
         length (uc_endpoints left) \<noteq> length (uc_endpoints right) then False
      else if connect_timeout (uc_proxy_limits left) \<noteq> connect_timeout (uc_proxy_limits right) \<or>
         response_timeout (uc_proxy_limits left) \<noteq> response_timeout (uc_proxy_limits right) \<or>
         PoolLimits.max_connections (pool_limits (uc_proxy_limits left)) \<noteq>
           PoolLimits.max_connections (pool_limits (uc_proxy_limits right)) then False
      else list_all2 (\<lambda>e f. host e = host f \<and> service e = service f) (uc_endpoints left) (uc_endpoints right))"

definition equal_route :: "RouteConfig \<Rightarrow> RouteConfig \<Rightarrow> bool" where
  "equal_route left right =
     (\<not> (ro_path_prefix left \<noteq> ro_path_prefix right \<or> ro_upstream left \<noteq> ro_upstream right \<or>
         \<not> equal_rate (ro_rate_limit left) (ro_rate_limit right) \<or> \<not> equal_cache (ro_cache left) (ro_cache right)))"

definition changed_items :: "('a \<Rightarrow> 'a \<Rightarrow> bool) \<Rightarrow> string \<Rightarrow> 'a list \<Rightarrow> 'a list \<Rightarrow> string list" where
  "changed_items eq field before after =
     (if length before \<noteq> length after then [field]
      else concat (map (\<lambda>(i, l, r). changed (\<not> eq l r) (indexed field i)) (enumerate 0 (zip before after))))"

definition staticChanges :: "Config \<Rightarrow> Config \<Rightarrow> string list" where
  "staticChanges before after =
     (let b = cf_server before; a = cf_server after
      in changed (sc_listen_host b \<noteq> sc_listen_host a) ''server.listen_host'' @
         changed (sc_listen_port b \<noteq> sc_listen_port a) ''server.listen_port'' @
         changed (sc_io_threads b \<noteq> sc_io_threads a) ''server.io_threads'' @
         changed (sc_max_connections b \<noteq> sc_max_connections a) ''server.max_connections'' @
         changed (sc_idle_timeout b \<noteq> sc_idle_timeout a \<or> sc_header_timeout b \<noteq> sc_header_timeout a \<or>
                  sc_body_timeout b \<noteq> sc_body_timeout a \<or> sc_graceful_shutdown b \<noteq> sc_graceful_shutdown a \<or>
                  sc_max_header_bytes b \<noteq> sc_max_header_bytes a \<or> sc_max_body_bytes b \<noteq> sc_max_body_bytes a \<or>
                  sc_output_high_water_bytes b \<noteq> sc_output_high_water_bytes a \<or>
                  sc_output_low_water_bytes b \<noteq> sc_output_low_water_bytes a) ''server.limits'' @
         changed_items equal_route ''routes'' (cf_routes before) (cf_routes after) @
         changed_items equal_upstream ''upstreams'' (cf_upstreams before) (cf_upstreams after))"

section \<open>The manager\<close>

record ConfigSnapshot =
  sn_value :: Config
  sn_source_path :: string
  sn_loaded_at :: int

record ConfigReloadResult =
  rr_published :: bool
  rr_errors :: "ConfigError list"
  rr_restart_required :: "string list"

definition ConfigReloadResult_default :: ConfigReloadResult where
  "ConfigReloadResult_default = \<lparr>rr_published = False, rr_errors = [], rr_restart_required = []\<rparr>"

text \<open>A handler is its number, or None for an empty function object.\<close>

datatype strand_task =
    Start_Reload "nat option"
  | Publish "nat option" ConfigReloadResult "ConfigSnapshot option"

record ConfigManager =
  cm_path :: string
  cm_snapshot :: ConfigSnapshot
  reload_in_progress :: bool
  strand_tasks :: "strand_task list"
  worker_tasks :: "nat option list"
  cm_calls :: "(nat \<times> ConfigReloadResult) list"

definition ConfigManager_make :: "string \<Rightarrow> ConfigSnapshot option \<Rightarrow> ConfigManager outcome" where
  "ConfigManager_make p initial =
     (case initial of
        None \<Rightarrow> Inl Invalid_Argument
      | Some s \<Rightarrow> Inr \<lparr>cm_path = p, cm_snapshot = s, reload_in_progress = False, strand_tasks = [], worker_tasks = [],
                       cm_calls = []\<rparr>)"

definition requestReload :: "nat option \<Rightarrow> ConfigManager \<Rightarrow> ConfigManager" where
  "requestReload h m = m\<lparr>strand_tasks := strand_tasks m @ [Start_Reload h]\<rparr>"

definition call_handler :: "nat option \<Rightarrow> ConfigReloadResult \<Rightarrow> ConfigManager \<Rightarrow> ConfigManager" where
  "call_handler h r m = (case h of None \<Rightarrow> m | Some k \<Rightarrow> m\<lparr>cm_calls := cm_calls m @ [(k, r)]\<rparr>)"

text \<open>The first posted function: a second reload is refused, the first goes to the worker.\<close>

definition start_reload :: "nat option \<Rightarrow> ConfigManager \<Rightarrow> ConfigManager" where
  "start_reload h m =
     (if reload_in_progress m
      then call_handler h (ConfigReloadResult_default\<lparr>rr_errors := [config_error ''config'' ''reload already in progress'']\<rparr>) m
      else m\<lparr>reload_in_progress := True, worker_tasks := worker_tasks m @ [h]\<rparr>)"

text \<open>What the worker's function computes; \<open>Inl msg\<close> is an exception other than the loader's own.\<close>

definition load_snapshot :: "yaml_library \<Rightarrow> string + (string + yaml) \<Rightarrow> string \<Rightarrow> int \<Rightarrow>
    ConfigReloadResult \<times> ConfigSnapshot option" where
  "load_snapshot y file p now =
     (case file of
        Inl msg \<Rightarrow> (ConfigReloadResult_default\<lparr>rr_errors := [config_error ''config'' msg]\<rparr>, None)
      | Inr document \<Rightarrow>
          (case loadFromFile y document of
             Inl errors \<Rightarrow> (ConfigReloadResult_default\<lparr>rr_errors := errors\<rparr>, None)
           | Inr c \<Rightarrow> (ConfigReloadResult_default, Some \<lparr>sn_value = c, sn_source_path = p, sn_loaded_at = now\<rparr>)))"

definition run_worker :: "yaml_library \<Rightarrow> string + (string + yaml) \<Rightarrow> int \<Rightarrow> ConfigManager \<Rightarrow> ConfigManager" where
  "run_worker y file now m =
     (case worker_tasks m of
        [] \<Rightarrow> m
      | h # hs \<Rightarrow>
          (case load_snapshot y file (cm_path m) now of
             (r, s) \<Rightarrow> m\<lparr>worker_tasks := hs, strand_tasks := strand_tasks m @ [Publish h r s]\<rparr>))"

text \<open>The function posted back: it ends the reload and publishes unless a restart is needed.\<close>

definition publish :: "nat option \<Rightarrow> ConfigReloadResult \<Rightarrow> ConfigSnapshot option \<Rightarrow> ConfigManager \<Rightarrow> ConfigManager" where
  "publish h r s m =
     (let m1 = m\<lparr>reload_in_progress := False\<rparr>
      in case s of
           None \<Rightarrow> call_handler h r m1
         | Some sn \<Rightarrow>
             (let required = staticChanges (sn_value (cm_snapshot m1)) (sn_value sn)
              in if required = [] then call_handler h (r\<lparr>rr_restart_required := [], rr_published := True\<rparr>) (m1\<lparr>cm_snapshot := sn\<rparr>)
                 else call_handler h (r\<lparr>rr_restart_required := required\<rparr>) m1))"

definition run_strand :: "ConfigManager \<Rightarrow> ConfigManager" where
  "run_strand m =
     (case strand_tasks m of
        [] \<Rightarrow> m
      | Start_Reload h # ts \<Rightarrow> start_reload h (m\<lparr>strand_tasks := ts\<rparr>)
      | Publish h r s # ts \<Rightarrow> publish h r s (m\<lparr>strand_tasks := ts\<rparr>))"

text \<open>Histories: requests from any thread, in any order with the two queues' steps.\<close>

inductive manager_run :: "yaml_library \<Rightarrow> ConfigManager \<Rightarrow> nat option list \<Rightarrow> ConfigManager \<Rightarrow> bool" for y m0 where
  start: "manager_run y m0 [] m0"
| request: "manager_run y m0 hs m \<Longrightarrow> manager_run y m0 (hs @ [h]) (requestReload h m)"
| strand: "manager_run y m0 hs m \<Longrightarrow> manager_run y m0 hs (run_strand m)"
| worker: "manager_run y m0 hs m \<Longrightarrow> manager_run y m0 hs (run_worker y file now m)"

section \<open>Loaded configurations\<close>

lemma must_empty [simp]: "must ok p msg = [] \<longleftrightarrow> ok"
  by (simp add: must_def)

lemma must_be_positive_empty [simp]: "must_be_positive p v = [] \<longleftrightarrow> 0 < v"
  by (simp add: must_be_positive_def)

text \<open>The limits of a loaded upstream are the defaults but for the three values of the file.\<close>

definition loaded_upstream :: "UpstreamConfig \<Rightarrow> bool" where
  "loaded_upstream u \<longleftrightarrow> (\<exists>c r n. uc_proxy_limits u = upstream_limits c r n)"

lemma load_upstream_loaded: "loaded_upstream (fst (load_upstream y p n e))"
  unfolding load_upstream_def loaded_upstream_def Let_def
  by (simp split: prod.split) blast

lemma load_items_all:
  assumes "\<forall>q n e. P (fst (load_item q n e))" "list_all P out"
  shows "list_all P (fst (load_items load_item field i ns out errors))"
  using assms(2)
proof (induction ns arbitrary: i out errors)
  case (Cons n ns)
  have "P v" if "load_item (indexed field i) n errors = (v, e)" for v e
    using assms(1) that by (metis fst_conv)
  with Cons show ?case by (auto split: prod.split)
qed simp

lemma load_section_all:
  assumes "\<forall>q n e. P (fst (load_item q n e))"
  shows "list_all P (fst (load_section load_item field doc errors))"
  using load_items_all [OF assms, of "[]"]
  by (auto simp: load_section_def split: option.split yaml.split)

lemma loadFromFile_cases:
  assumes "loadFromFile y document = Inr c"
  obtains doc where "document = Inr doc" "is_map doc" "load_config y doc = (c, [])" "validate c = []"
proof -
  obtain doc where doc: "document = Inr doc" using assms by (cases document) (simp_all add: loadFromFile_def)
  obtain d e where "load_config y doc = (d, e)" by (metis surj_pair)
  with assms doc show thesis
    by (intro that [of doc]) (simp_all add: loadFromFile_def split: if_splits)
qed

lemma load_config_upstreams: "list_all loaded_upstream (cf_upstreams (fst (load_config y doc)))"
proof -
  have "\<exists>e. cf_upstreams (fst (load_config y doc)) = fst (load_section (load_upstream y) ''upstreams'' doc e)"
    by (auto simp: load_config_def split: prod.split intro: exI [of _ "snd (load_server_section y doc)"])
  then show ?thesis
    using load_section_all [of loaded_upstream "load_upstream y"] load_upstream_loaded by metis
qed

lemma loadFromFile_valid: "loadFromFile y document = Inr c \<Longrightarrow> validate c = []"
  by (erule loadFromFile_cases)

lemma loadFromFile_upstreams: "loadFromFile y document = Inr c \<Longrightarrow> list_all loaded_upstream (cf_upstreams c)"
  by (erule loadFromFile_cases) (metis load_config_upstreams fst_conv)

section \<open>The comparison is exact\<close>

lemma changed_empty [simp]: "changed b field = [] \<longleftrightarrow> \<not> b"
  by (simp add: changed_def)

lemma changed_items_empty: "changed_items eq field before after = [] \<longleftrightarrow> list_all2 eq before after"
proof (cases "length before = length after")
  case True
  let ?n = "length before"
  have "changed_items eq field before after = [] \<longleftrightarrow>
      (\<forall>x \<in> set (enumerate 0 (zip before after)). eq (fst (snd x)) (snd (snd x)))"
    using True by (auto simp: changed_items_def)
  also have "set (enumerate 0 (zip before after)) = (\<lambda>i. (i, before ! i, after ! i)) ` {..<?n}"
    using True by (auto simp: in_set_conv_nth nth_enumerate_eq image_iff intro!: exI) 
  finally show ?thesis using True by (simp add: list_all2_conv_all_nth lessThan_def)
qed (simp add: changed_items_def list_all2_conv_all_nth)

text \<open>NaN differs from itself, so a limit with NaN differs from any limit, itself included.\<close>

definition comparable_rate :: "RouteConfig \<Rightarrow> bool" where
  "comparable_rate t \<longleftrightarrow> (\<forall>l \<in> set_option (ro_rate_limit t). requests_per_second l \<noteq> NaN \<and> burst l \<noteq> NaN)"

lemma equal_rate_iff: "equal_rate l r \<longleftrightarrow> l = r \<and> (\<forall>c \<in> set_option l. requests_per_second c \<noteq> NaN \<and> burst c \<noteq> NaN)"
  by (cases l; cases r) (auto simp: equal_rate_def double_eq_iff)

lemma equal_cache_iff [simp]: "equal_cache l r \<longleftrightarrow> l = r"
  by (cases l; cases r) (auto simp: equal_cache_def)

lemma equal_route_iff: "equal_route l r \<longleftrightarrow> l = r \<and> comparable_rate l"
  by (cases l; cases r) (auto simp: equal_route_def equal_rate_iff comparable_rate_def)

lemma routes_equal_iff: "list_all2 equal_route ls rs \<longleftrightarrow> ls = rs \<and> list_all comparable_rate ls"
  by (induction ls rs rule: list_induct2') (auto simp: equal_route_iff)

lemma endpoints_equal_iff: "list_all2 (\<lambda>e f. host e = host f \<and> service e = service f) es fs \<longleftrightarrow> es = fs"
  for es fs :: "UpstreamEndpoint list"
proof -
  have "(\<lambda>e f. host e = host f \<and> service e = service f) = ((=) :: UpstreamEndpoint \<Rightarrow> UpstreamEndpoint \<Rightarrow> bool)"
    by (auto simp: fun_eq_iff)
  then show ?thesis by (simp add: list.rel_eq)
qed

lemma upstream_limits_inject:
  "upstream_limits c r n = upstream_limits c' r' n' \<longleftrightarrow> c = c' \<and> r = r' \<and> n = n'"
  by (auto simp: upstream_limits_def ProxyLimits_default_def PoolLimits_default_def)

lemma upstream_limits_fields [simp]:
  "connect_timeout (upstream_limits c r n) = c" "response_timeout (upstream_limits c r n) = r"
  "PoolLimits.max_connections (pool_limits (upstream_limits c r n)) = n"
  by (simp_all add: upstream_limits_def)

lemma equal_upstream_iff:
  assumes "loaded_upstream u" "loaded_upstream v"
  shows "equal_upstream u v \<longleftrightarrow> u = v"
  using assms by (cases u; cases v) (auto simp: loaded_upstream_def equal_upstream_def endpoints_equal_iff)

lemma upstreams_equal_iff:
  assumes "list_all loaded_upstream us" "list_all loaded_upstream vs"
  shows "list_all2 equal_upstream us vs \<longleftrightarrow> us = vs"
proof -
  have "list_all2 equal_upstream us vs \<longleftrightarrow> list_all2 (=) us vs"
    using assms equal_upstream_iff by (auto simp: list_all2_conv_all_nth list_all_length)
  then show ?thesis by (simp add: list.rel_eq)
qed

lemma ServerConfig_equality:
  "(s :: ServerConfig) = t \<longleftrightarrow>
     sc_listen_host s = sc_listen_host t \<and> sc_listen_port s = sc_listen_port t \<and> sc_io_threads s = sc_io_threads t \<and>
     sc_idle_timeout s = sc_idle_timeout t \<and> sc_header_timeout s = sc_header_timeout t \<and>
     sc_body_timeout s = sc_body_timeout t \<and> sc_graceful_shutdown s = sc_graceful_shutdown t \<and>
     sc_max_connections s = sc_max_connections t \<and> sc_max_header_bytes s = sc_max_header_bytes t \<and>
     sc_max_body_bytes s = sc_max_body_bytes t \<and> sc_output_high_water_bytes s = sc_output_high_water_bytes t \<and>
     sc_output_low_water_bytes s = sc_output_low_water_bytes t"
  by (cases s; cases t) auto

lemma staticChanges_iff:
  assumes "list_all loaded_upstream (cf_upstreams a)" "list_all loaded_upstream (cf_upstreams b)"
  shows "staticChanges a b = [] \<longleftrightarrow> b = a\<lparr>cf_logging := cf_logging b\<rparr> \<and> list_all comparable_rate (cf_routes a)"
proof -
  have "staticChanges a b = [] \<longleftrightarrow>
      cf_server a = cf_server b \<and> (cf_routes a = cf_routes b \<and> list_all comparable_rate (cf_routes a)) \<and>
      cf_upstreams a = cf_upstreams b"
    using upstreams_equal_iff [OF assms]
    unfolding staticChanges_def Let_def changed_items_empty routes_equal_iff ServerConfig_equality
      append_is_Nil_conv changed_empty de_Morgan_disj not_not
    by argo
  then show ?thesis by (cases a; cases b) auto
qed

section \<open>The reload protocol\<close>

abbreviation same_but_logging :: "Config \<Rightarrow> Config \<Rightarrow> bool" where
  "same_but_logging a b \<equiv> b = a\<lparr>cf_logging := cf_logging b\<rparr>"

lemma same_but_logging_trans:
  "same_but_logging a b \<Longrightarrow> same_but_logging b c \<Longrightarrow> same_but_logging a c"
  by (cases a; cases b; cases c) simp

definition from_file :: "yaml_library \<Rightarrow> Config \<Rightarrow> bool" where
  "from_file y c \<longleftrightarrow> (\<exists>document. loadFromFile y document = Inr c)"

lemma from_fileD:
  assumes "from_file y c"
  shows "validate c = []" "list_all loaded_upstream (cf_upstreams c)"
  using assms loadFromFile_valid loadFromFile_upstreams by (auto simp: from_file_def)

fun task_ok :: "yaml_library \<Rightarrow> strand_task \<Rightarrow> bool" where
  "task_ok y (Start_Reload h) = True"
| "task_ok y (Publish h r s) = (\<forall>sn \<in> set_option s. from_file y (sn_value sn))"

fun is_publish :: "strand_task \<Rightarrow> bool" where
  "is_publish (Start_Reload h) = False"
| "is_publish (Publish h r s) = True"

definition manager_inv :: "yaml_library \<Rightarrow> Config \<Rightarrow> ConfigManager \<Rightarrow> bool" where
  "manager_inv y c0 m \<longleftrightarrow>
     from_file y (sn_value (cm_snapshot m)) \<and> same_but_logging c0 (sn_value (cm_snapshot m)) \<and>
     list_all (task_ok y) (strand_tasks m) \<and>
     length (worker_tasks m) + length (filter is_publish (strand_tasks m)) = (if reload_in_progress m then 1 else 0)"

lemma call_handler_fields [simp]:
  "cm_snapshot (call_handler h r m) = cm_snapshot m" "strand_tasks (call_handler h r m) = strand_tasks m"
  "worker_tasks (call_handler h r m) = worker_tasks m" "reload_in_progress (call_handler h r m) = reload_in_progress m"
  by (simp_all add: call_handler_def split: option.split)

lemma load_snapshot_ok: "load_snapshot y file p now = (r, s) \<Longrightarrow> task_ok y (Publish h r s)"
  by (auto simp: load_snapshot_def from_file_def split: sum.splits)

lemma manager_inv_strand:
  assumes "manager_inv y c0 m"
  shows "manager_inv y c0 (run_strand m)"
proof (cases "strand_tasks m")
  case (Cons t ts)
  show ?thesis
  proof (cases t)
    case (Start_Reload h)
    with Cons assms show ?thesis by (auto simp: run_strand_def start_reload_def manager_inv_def)
  next
    case (Publish h r s)
    have busy: "reload_in_progress m" "worker_tasks m = []" "filter is_publish ts = []"
      using assms Cons Publish by (auto simp: manager_inv_def split: if_splits)
    show ?thesis
    proof (cases s)
      case None
      with Cons Publish busy assms show ?thesis by (simp add: run_strand_def publish_def manager_inv_def)
    next
      case (Some sn)
      have new: "from_file y (sn_value sn)" using assms Cons Publish Some by (simp add: manager_inv_def)
      have old: "from_file y (sn_value (cm_snapshot m))" "same_but_logging c0 (sn_value (cm_snapshot m))"
        using assms by (simp_all add: manager_inv_def)
      have "same_but_logging c0 (sn_value sn)" if "staticChanges (sn_value (cm_snapshot m)) (sn_value sn) = []"
        using that staticChanges_iff [OF from_fileD(2) [OF old(1)] from_fileD(2) [OF new]]
        by (intro same_but_logging_trans [OF old(2)]) simp
      with Cons Publish busy assms Some new show ?thesis
        by (simp add: run_strand_def publish_def manager_inv_def Let_def)
    qed
  qed
qed (use assms in \<open>simp add: run_strand_def\<close>)

lemma manager_inv_worker:
  assumes "manager_inv y c0 m"
  shows "manager_inv y c0 (run_worker y file now m)"
proof (cases "worker_tasks m")
  case (Cons h hs)
  obtain r s where load: "load_snapshot y file (cm_path m) now = (r, s)" by (metis surj_pair)
  have "task_ok y (Publish h r s)" using load_snapshot_ok [OF load] .
  with Cons load assms show ?thesis by (simp add: run_worker_def manager_inv_def)
qed (use assms in \<open>simp add: run_worker_def\<close>)

lemma manager_inv_run:
  assumes "manager_run y m0 hs m" "manager_inv y c0 m0"
  shows "manager_inv y c0 m"
  using assms
proof (induction rule: manager_run.induct)
  case (request hs m h)
  then show ?case by (simp add: requestReload_def manager_inv_def)
qed (simp_all add: manager_inv_strand manager_inv_worker)

lemma manager_inv_make:
  assumes "ConfigManager_make p (Some sn) = Inr m0" "from_file y (sn_value sn)"
  shows "manager_inv y (sn_value sn) m0"
  using assms by (auto simp: ConfigManager_make_def manager_inv_def)

section \<open>Every request is answered\<close>

fun task_handler :: "strand_task \<Rightarrow> nat option" where
  "task_handler (Start_Reload h) = h"
| "task_handler (Publish h r s) = h"

fun task_work :: "strand_task \<Rightarrow> nat" where
  "task_work (Start_Reload h) = 3"
| "task_work (Publish h r s) = 1"

definition unanswered :: "ConfigManager \<Rightarrow> nat option list" where
  "unanswered m = worker_tasks m @ map task_handler (strand_tasks m)"

definition pending_work :: "ConfigManager \<Rightarrow> nat" where
  "pending_work m = 2 * length (worker_tasks m) + sum_list (map task_work (strand_tasks m))"

definition handlers :: "nat option list \<Rightarrow> nat list" where
  "handlers hs = List.map_filter id hs"

lemma handlers_simps [simp]:
  "handlers [] = []" "handlers (h # hs) = (case h of None \<Rightarrow> handlers hs | Some k \<Rightarrow> k # handlers hs)"
  "handlers (hs @ hs') = handlers hs @ handlers hs'"
  by (auto simp: handlers_def List.map_filter_def split: option.split)

lemma call_handler_calls [simp]:
  "image_mset fst (mset (cm_calls (call_handler h r m))) = image_mset fst (mset (cm_calls m)) + mset (handlers [h])"
  by (simp add: call_handler_def split: option.split)

definition accounts :: "nat option list \<Rightarrow> ConfigManager \<Rightarrow> bool" where
  "accounts hs m \<longleftrightarrow> mset (handlers hs) = mset (map fst (cm_calls m)) + mset (handlers (unanswered m))"

lemma accounts_strand: "accounts hs m \<Longrightarrow> accounts hs (run_strand m)"
  by (cases "strand_tasks m"; cases "hd (strand_tasks m)")
    (auto simp: accounts_def unanswered_def run_strand_def start_reload_def publish_def Let_def split: option.split)

lemma accounts_worker: "accounts hs m \<Longrightarrow> accounts hs (run_worker y file now m)"
  by (cases "worker_tasks m") (auto simp: accounts_def unanswered_def run_worker_def split: prod.split option.split)

lemma accounts_run: "manager_run y m0 hs m \<Longrightarrow> accounts [] m0 \<Longrightarrow> accounts hs m"
proof (induction rule: manager_run.induct)
  case (request hs m h)
  then show ?case by (auto simp: accounts_def unanswered_def requestReload_def split: option.split)
qed (simp_all add: accounts_strand accounts_worker)

lemma accounts_make: "ConfigManager_make p (Some sn) = Inr m0 \<Longrightarrow> accounts [] m0"
  by (auto simp: ConfigManager_make_def accounts_def unanswered_def)

text \<open>One round: the worker runs its task, if it has one, and the strand one of its own.\<close>

definition manager_round :: "yaml_library \<Rightarrow> string + (string + yaml) \<Rightarrow> int \<Rightarrow> ConfigManager \<Rightarrow> ConfigManager" where
  "manager_round y file now m = run_strand (run_worker y file now m)"

lemma run_worker_work: "pending_work (run_worker y file now m) = pending_work m - length (take 1 (worker_tasks m))"
  by (cases "worker_tasks m") (auto simp: pending_work_def run_worker_def split: prod.split)

lemma run_strand_work: "strand_tasks m \<noteq> [] \<Longrightarrow> pending_work (run_strand m) < pending_work m"
  by (cases "strand_tasks m"; cases "hd (strand_tasks m)")
    (auto simp: pending_work_def run_strand_def start_reload_def publish_def Let_def split: option.split)

lemma pending_work_0: "pending_work m = 0 \<longleftrightarrow> worker_tasks m = [] \<and> strand_tasks m = []"
proof -
  have "0 < task_work t" for t by (cases t) simp_all
  then show ?thesis by (cases "strand_tasks m") (auto simp: pending_work_def)
qed

lemma manager_round_work:
  assumes "pending_work m \<noteq> 0"
  shows "pending_work (manager_round y file now m) < pending_work m"
proof (cases "strand_tasks (run_worker y file now m) = []")
  case False
  from run_strand_work [OF this] run_worker_work [of y "file" now m] show ?thesis by (simp add: manager_round_def)
next
  case True
  then have "worker_tasks m = [] \<and> strand_tasks m = []"
    by (cases "worker_tasks m") (auto simp: run_worker_def split: prod.splits)
  with assms show ?thesis by (simp add: pending_work_0)
qed

lemma manager_rounds_end: "pending_work m \<le> n \<Longrightarrow> pending_work ((manager_round y file now ^^ n) m) = 0"
proof (induction n arbitrary: m)
  case (Suc n)
  have "pending_work (manager_round y file now m) \<le> n"
  proof (cases "pending_work m = 0")
    case True
    then have "worker_tasks m = []" "strand_tasks m = []" by (simp_all add: pending_work_0)
    then have "manager_round y file now m = m" by (simp add: manager_round_def run_worker_def run_strand_def)
    with True show ?thesis by simp
  next
    case False
    from manager_round_work [OF this, of y "file" now] Suc.prems show ?thesis by simp
  qed
  from Suc.IH [OF this] show ?case by (simp add: funpow_swap1)
qed simp

lemma manager_rounds_run: "manager_run y m0 hs m \<Longrightarrow> manager_run y m0 hs ((manager_round y file now ^^ n) m)"
  by (induction n) (auto simp: manager_round_def intro: manager_run.intros)

section \<open>Properties\<close>

text \<open>
  C36: the comparison behind a reload is exact. Two configurations loaded from files need no restart
  if and only if they agree in everything but logging and no rate or burst of a route is NaN, which
  compares unequal to itself: no field of a server, route, limiter, cache, upstream or endpoint is forgotten.
\<close>

theorem staticChanges_exact:
  assumes "loadFromFile y before = Inr a" "loadFromFile y after = Inr b"
  shows "staticChanges a b = [] \<longleftrightarrow>
     b = a\<lparr>cf_logging := cf_logging b\<rparr> \<and>
     (\<forall>t \<in> set (cf_routes a). \<forall>l \<in> set_option (ro_rate_limit t). requests_per_second l \<noteq> NaN \<and> burst l \<noteq> NaN)"
  using staticChanges_iff [OF loadFromFile_upstreams [OF assms(1)] loadFromFile_upstreams [OF assms(2)]]
  by (simp add: list_all_iff comparable_rate_def)

text \<open>A library that knows only strings, and a document for it.\<close>

definition string_library :: yaml_library where
  "string_library =
     \<lparr>as_string = (\<lambda>n. case n of Y_Scalar s \<Rightarrow> Inr s | _ \<Rightarrow> Inl ''bad conversion''),
      as_uint32 = (\<lambda>n. Inl ''bad conversion''), as_size = (\<lambda>n. Inl ''bad conversion''),
      as_uint64 = (\<lambda>n. Inl ''bad conversion''), as_double = (\<lambda>n. Inl ''bad conversion''),
      as_bool = (\<lambda>n. Inl ''bad conversion'')\<rparr>"

definition sample_document :: "string \<Rightarrow> string \<Rightarrow> string + yaml" where
  "sample_document lv lh = Inr (Y_Map
     [(''server'', Y_Map [(''listen_host'', Y_Scalar lh)]),
      (''upstreams'', Y_Seq [Y_Map [(''name'', Y_Scalar ''app''), (''endpoints'', Y_Seq [Y_Scalar ''10.0.0.1:80'', Y_Scalar ''[::1]:81''])]]),
      (''routes'', Y_Seq [Y_Map [(''path_prefix'', Y_Scalar ''/app''), (''upstream'', Y_Scalar ''app'')]]),
      (''logging'', Y_Map [(''level'', Y_Scalar lv)])])"

definition sample_config :: "string \<Rightarrow> string \<Rightarrow> Config" where
  "sample_config lv lh =
     \<lparr>cf_server = ServerConfig_default\<lparr>sc_listen_host := lh\<rparr>,
      cf_routes = [RouteConfig_default\<lparr>ro_path_prefix := ''/app'', ro_upstream := ''app''\<rparr>],
      cf_upstreams = [UpstreamConfig_default\<lparr>uc_name := ''app'',
        uc_endpoints := [\<lparr>host = ''10.0.0.1'', service = ''80''\<rparr>, \<lparr>host = ''::1'', service = ''81''\<rparr>]\<rparr>],
      cf_logging = \<lparr>lo_level = lv, lo_format = ''text''\<rparr>\<rparr>"

lemma sample_loads:
  "loadFromFile string_library (sample_document ''info'' ''0.0.0.0'') = Inr (sample_config ''info'' ''0.0.0.0'')"
  "loadFromFile string_library (sample_document ''debug'' ''0.0.0.0'') = Inr (sample_config ''debug'' ''0.0.0.0'')"
  "loadFromFile string_library (sample_document ''info'' ''localhost'') = Inr (sample_config ''info'' ''localhost'')"
  by code_simp+

theorem staticChanges_exact_witness:
  "staticChanges (sample_config ''info'' ''0.0.0.0'') (sample_config ''debug'' ''0.0.0.0'') = [] \<and>
   staticChanges (sample_config ''info'' ''0.0.0.0'') (sample_config ''info'' ''localhost'') \<noteq> []"
proof
  have "same_but_logging (sample_config ''info'' ''0.0.0.0'') (sample_config ''debug'' ''0.0.0.0'')"
    by (simp add: sample_config_def)
  moreover have "ro_rate_limit t = None" if "t \<in> set (cf_routes (sample_config ''info'' ''0.0.0.0''))" for t
    using that by (simp add: sample_config_def RouteConfig_default_def)
  ultimately show "staticChanges (sample_config ''info'' ''0.0.0.0'') (sample_config ''debug'' ''0.0.0.0'') = []"
    using staticChanges_exact [OF sample_loads(1,2)] by simp
  have "\<not> same_but_logging (sample_config ''info'' ''0.0.0.0'') (sample_config ''info'' ''localhost'')"
    by (simp add: sample_config_def ServerConfig_default_def)
  then show "staticChanges (sample_config ''info'' ''0.0.0.0'') (sample_config ''info'' ''localhost'') \<noteq> []"
    using staticChanges_exact [OF sample_loads(1,3)] by blast
qed

text \<open>
  C15: a reload cannot change what the running server was built from. In whatever order requests,
  worker and strand run and whatever the file holds at each read, the published snapshot is a
  configuration that loads and validates and differs from the initial one at most in logging; and
  never more than one reload is under way.
\<close>

theorem reload_keeps_static_configuration:
  assumes "ConfigManager_make p (Some sn) = Inr m0" "loadFromFile y document = Inr (sn_value sn)" "manager_run y m0 hs m"
  shows "validate (sn_value (cm_snapshot m)) = [] \<and>
     sn_value (cm_snapshot m) = (sn_value sn)\<lparr>cf_logging := cf_logging (sn_value (cm_snapshot m))\<rparr> \<and>
     length (worker_tasks m) \<le> 1"
proof -
  have "from_file y (sn_value sn)" using assms(2) by (auto simp: from_file_def)
  from manager_inv_run [OF assms(3) manager_inv_make [OF assms(1) this]]
  have "manager_inv y (sn_value sn) m" .
  then show ?thesis using from_fileD(1) by (auto simp: manager_inv_def split: if_splits)
qed

text \<open>Two requests close together, then the worker reads a file with another log level.\<close>

definition sample_snapshot :: ConfigSnapshot where
  "sample_snapshot = \<lparr>sn_value = sample_config ''info'' ''0.0.0.0'', sn_source_path = ''pg.yaml'', sn_loaded_at = 0\<rparr>"

definition sample_manager :: ConfigManager where
  "sample_manager = \<lparr>cm_path = ''pg.yaml'', cm_snapshot = sample_snapshot, reload_in_progress = False, strand_tasks = [],
     worker_tasks = [], cm_calls = []\<rparr>"

definition two_requests :: ConfigManager where
  "two_requests = run_strand (run_strand (requestReload (Some 2) (requestReload (Some 1) sample_manager)))"

definition after_reload :: ConfigManager where
  "after_reload = run_strand (run_worker string_library (Inr (sample_document ''debug'' ''0.0.0.0'')) 7 two_requests)"

lemma sample_manager_make: "ConfigManager_make ''pg.yaml'' (Some sample_snapshot) = Inr sample_manager"
  by (simp add: ConfigManager_make_def sample_manager_def)

lemma sample_snapshot_loads:
  "loadFromFile string_library (sample_document ''info'' ''0.0.0.0'') = Inr (sn_value sample_snapshot)"
  by (simp add: sample_snapshot_def sample_loads)

lemma two_requests_run: "manager_run string_library sample_manager [Some 1, Some 2] two_requests"
proof -
  have "manager_run string_library sample_manager (([] @ [Some 1]) @ [Some 2]) two_requests"
    unfolding two_requests_def by (intro manager_run.intros)
  then show ?thesis by simp
qed

theorem reload_keeps_static_configuration_witness:
  "lo_level (cf_logging (sn_value (cm_snapshot after_reload))) = ''debug'' \<and>
   validate (sn_value (cm_snapshot after_reload)) = []"
proof
  show "lo_level (cf_logging (sn_value (cm_snapshot after_reload))) = ''debug''" by code_simp
  have "manager_run string_library sample_manager [Some 1, Some 2] after_reload"
    unfolding after_reload_def by (intro manager_run.strand manager_run.worker two_requests_run)
  from reload_keeps_static_configuration [OF sample_manager_make sample_snapshot_loads this]
  show "validate (sn_value (cm_snapshot after_reload)) = []" by simp
qed

text \<open>
  C37: every reload request is answered exactly once. From any reachable state, once the queues have
  run as many rounds as there is work posted, they are empty, the gate for the next reload is open,
  and the handlers called are exactly the handlers passed to the requests.
\<close>

theorem reload_requests_are_answered:
  assumes "ConfigManager_make p (Some sn) = Inr m0" "loadFromFile y document = Inr (sn_value sn)" "manager_run y m0 hs m"
    and "final = (manager_round y file now ^^ pending_work m) m"
  shows "strand_tasks final = [] \<and> worker_tasks final = [] \<and> \<not> reload_in_progress final \<and>
     mset (map fst (cm_calls final)) = mset (handlers hs)"
proof -
  have run: "manager_run y m0 hs final" using assms(3,4) by (simp add: manager_rounds_run)
  have empty: "worker_tasks final = [] \<and> strand_tasks final = []"
    using manager_rounds_end [of m "pending_work m"] assms(4) by (simp add: pending_work_0)
  have "from_file y (sn_value sn)" using assms(2) by (auto simp: from_file_def)
  from manager_inv_run [OF run manager_inv_make [OF assms(1) this]] empty
  have "\<not> reload_in_progress final" by (auto simp: manager_inv_def split: if_splits)
  moreover have "accounts hs final" using accounts_run [OF run accounts_make [OF assms(1)]] .
  ultimately show ?thesis using empty by (simp add: accounts_def unanswered_def)
qed

theorem reload_requests_are_answered_witness:
  "mset (map fst (cm_calls ((manager_round string_library (Inl ''bad file'') 7 ^^ pending_work two_requests) two_requests))) = {#1, 2#}"
  using reload_requests_are_answered [OF sample_manager_make sample_snapshot_loads two_requests_run refl, of "Inl ''bad file''" 7]
  by (simp add: ac_simps)

end
