(* ===== verification/HealthChecker.thy ===== *)
theory HealthChecker
  imports ReverseProxy UpstreamHealth
begin

text \<open>
  The active health checker, \<open>src/http/health_checker.cpp\<close>: the probe loop and the probes it spawns run on one
  strand, so every step here is atomic. A step of the environment starts or stops the checker, lets the
  interval timer complete, or lets a spawned probe run or end. What the network does to a probe is a
  parameter: the errors of its calls, its timer, and the first bytes read.
\<close>

section \<open>State\<close>

record HealthCheckConfig =
  hc_path :: string
  hc_interval :: int
  hc_timeout :: int
  max_concurrent_probes :: nat

definition HealthCheckConfig_default :: HealthCheckConfig where
  "HealthCheckConfig_default = \<lparr>hc_path = ''/healthz'', hc_interval = 2000, hc_timeout = 500, max_concurrent_probes = 4\<rparr>"

text \<open>Where the loop's coroutine stands.\<close>

datatype loop_point = HL_Idle | HL_Spawned | HL_Waiting | HL_Done

record active_probe =
  pr_endpoint :: UpstreamEndpoint
  pr_id :: nat
  pr_running :: bool

record HealthChecker =
  hk_config :: HealthCheckConfig
  hk_endpoints :: "UpstreamEndpoint list"
  hk_health :: HealthStateStore
  hk_started :: bool
  hk_stopping :: bool
  active_probes :: nat
  next_endpoint :: nat
  next_probe_id :: nat
  active_cancellations :: "nat list"
  cancelled_probes :: "nat list"
  hk_loop :: loop_point
  hk_probes :: "active_probe list"
  probed :: "nat list"

definition HealthChecker_make :: "HealthCheckConfig \<Rightarrow> UpstreamEndpoint list \<Rightarrow> HealthStateStore option \<Rightarrow> HealthChecker outcome" where
  "HealthChecker_make cfg es store =
     (case store of
        None \<Rightarrow> Inl Invalid_Argument
      | Some h \<Rightarrow>
          if hc_path cfg = [] \<or> hc_interval cfg \<le> 0 \<or> hc_timeout cfg \<le> 0 \<or> max_concurrent_probes cfg = 0
          then Inl Invalid_Argument
          else Inr \<lparr>hk_config = cfg, hk_endpoints = es, hk_health = h, hk_started = False, hk_stopping = False,
                    active_probes = 0, next_endpoint = 0, next_probe_id = 1, active_cancellations = [],
                    cancelled_probes = [], hk_loop = HL_Idle, hk_probes = [], probed = []\<rparr>)"

definition checker_endpoint_id :: "UpstreamEndpoint \<Rightarrow> string" where
  "checker_endpoint_id e = host e @ '':'' @ service e"

section \<open>One probe\<close>

definition probe_request :: "HealthCheckConfig \<Rightarrow> UpstreamEndpoint \<Rightarrow> string" where
  "probe_request cfg e =
     ''GET '' @ hc_path cfg @ '' HTTP/1.1'' @ CRLF @ ''Host: '' @ host e @ CRLF @ ''Connection: close'' @ CRLF @ CRLF"

text \<open>The calls in order, each of which may fail; a call after a failure is not made.\<close>

record probe_network =
  resolve_error :: bool
  connect_error :: bool
  write_error :: bool
  read_error :: bool
  read_bytes :: string
  timed_out :: bool

definition probe_status :: "probe_network \<Rightarrow> string \<times> bool" where
  "probe_status n =
     (let e1 = resolve_error n;
          e2 = (if \<not> e1 then connect_error n else e1);
          e3 = (if \<not> e2 then write_error n else e2)
      in if \<not> e3 then (take 64 (read_bytes n), read_error n) else ([], e3))"

definition probe :: "probe_network \<Rightarrow> bool" where
  "probe n =
     (case probe_status n of
        (status, error) \<Rightarrow>
          if error \<or> timed_out n then False
          else take 10 status = ''HTTP/1.1 2'' \<or> take 10 status = ''HTTP/1.0 2'')"

section \<open>The loop\<close>

definition spawn_probe :: "HealthChecker \<Rightarrow> HealthChecker" where
  "spawn_probe c =
     (let endpoint = hk_endpoints c ! next_endpoint c;
          pid = next_probe_id c
      in c\<lparr>next_endpoint := (next_endpoint c + 1) mod length (hk_endpoints c), next_probe_id := u64_inc pid,
           active_probes := active_probes c + 1,
           hk_probes := hk_probes c @ [\<lparr>pr_endpoint = endpoint, pr_id = pid, pr_running = False\<rparr>],
           probed := probed c @ [next_endpoint c]\<rparr>)"

text \<open>The \<open>for\<close> loop of a round, with the rounds it has left.\<close>

fun spawn_probes :: "nat \<Rightarrow> HealthChecker \<Rightarrow> HealthChecker" where
  "spawn_probes 0 c = c"
| "spawn_probes (Suc k) c =
     (if hk_stopping c then c
      else if max_concurrent_probes (hk_config c) \<le> active_probes c then c
      else spawn_probes k (spawn_probe c))"

definition run_round :: "HealthChecker \<Rightarrow> HealthChecker" where
  "run_round c =
     (if hk_stopping c then c\<lparr>hk_loop := HL_Done\<rparr>
      else (spawn_probes (min (length (hk_endpoints c)) (max_concurrent_probes (hk_config c))) c)\<lparr>hk_loop := HL_Waiting\<rparr>)"

definition interval_completes :: "bool \<Rightarrow> HealthChecker \<Rightarrow> HealthChecker" where
  "interval_completes error c = (if error \<or> hk_stopping c then c\<lparr>hk_loop := HL_Done\<rparr> else run_round c)"

definition startInStrand :: "HealthChecker \<Rightarrow> HealthChecker" where
  "startInStrand c = (if hk_started c \<or> hk_stopping c then c else c\<lparr>hk_started := True, hk_loop := HL_Spawned\<rparr>)"

definition stopInStrand :: "HealthChecker \<Rightarrow> HealthChecker" where
  "stopInStrand c =
     (if hk_stopping c then c
      else c\<lparr>hk_stopping := True, cancelled_probes := cancelled_probes c @ active_cancellations c\<rparr>)"

text \<open>The two halves of \<open>probeAndPublish\<close>, around the probe itself.\<close>

definition probe_starts :: "nat \<Rightarrow> HealthChecker \<Rightarrow> HealthChecker" where
  "probe_starts i c =
     (let p = hk_probes c ! i
      in c\<lparr>hk_probes := (hk_probes c)[i := p\<lparr>pr_running := True\<rparr>],
           active_cancellations := active_cancellations c @ [pr_id p]\<rparr>)"

definition probe_ends :: "nat \<Rightarrow> bool \<Rightarrow> int \<Rightarrow> HealthChecker \<Rightarrow> HealthChecker" where
  "probe_ends i ok now c =
     (let p = hk_probes c ! i;
          eid = checker_endpoint_id (pr_endpoint p);
          c1 = c\<lparr>hk_probes := take i (hk_probes c) @ drop (Suc i) (hk_probes c),
                 active_cancellations := remove1 (pr_id p) (active_cancellations c)\<rparr>;
          c2 = (if hk_stopping c1 then c1
                else if ok then c1\<lparr>hk_health := health_recordSuccess (hk_health c1) eid now\<rparr>
                else c1\<lparr>hk_health := health_recordFailure (hk_health c1) eid now\<rparr>)
      in c2\<lparr>active_probes := active_probes c2 - 1\<rparr>)"

datatype checker_event =
    HE_Start | HE_Stop | HE_Loop_Runs | HE_Interval bool | HE_Probe_Starts nat | HE_Probe_Ends nat probe_network int

fun checker_step :: "HealthChecker \<Rightarrow> checker_event \<Rightarrow> HealthChecker" where
  "checker_step c HE_Start = startInStrand c"
| "checker_step c HE_Stop = stopInStrand c"
| "checker_step c HE_Loop_Runs = (if hk_loop c = HL_Spawned then run_round c else c)"
| "checker_step c (HE_Interval error) = (if hk_loop c = HL_Waiting then interval_completes error c else c)"
| "checker_step c (HE_Probe_Starts i) = (if i < length (hk_probes c) \<and> \<not> pr_running (hk_probes c ! i) then probe_starts i c else c)"
| "checker_step c (HE_Probe_Ends i n now) =
     (if i < length (hk_probes c) \<and> pr_running (hk_probes c ! i) then probe_ends i (probe n) now c else c)"

section \<open>Invariant\<close>

definition checker_inv :: "HealthCheckConfig \<Rightarrow> UpstreamEndpoint list \<Rightarrow> HealthChecker \<Rightarrow> bool" where
  "checker_inv cfg es c \<longleftrightarrow>
     hk_config c = cfg \<and> hk_endpoints c = es \<and> active_probes c = length (hk_probes c) \<and>
     length (hk_probes c) \<le> max_concurrent_probes cfg \<and> (\<forall>p \<in> set (hk_probes c). pr_endpoint p \<in> set es) \<and>
     probed c = map (\<lambda>i. i mod length es) [0..<length (probed c)] \<and> next_endpoint c = length (probed c) mod length es \<and>
     (es = [] \<longrightarrow> probed c = [])"

lemma spawn_probe_inv:
  assumes "checker_inv cfg es c" "active_probes c < max_concurrent_probes cfg" "es \<noteq> []"
  shows "checker_inv cfg es (spawn_probe c)"
proof -
  have "next_endpoint c < length es" using assms by (simp add: checker_inv_def)
  with assms show ?thesis by (auto simp: checker_inv_def spawn_probe_def Let_def mod_Suc_eq)
qed

lemma spawn_probes_inv:
  "checker_inv cfg es c \<Longrightarrow> k \<le> length es \<Longrightarrow> checker_inv cfg es (spawn_probes k c)"
proof (induction k arbitrary: c)
  case (Suc k)
  show ?case
  proof (cases "hk_stopping c \<or> max_concurrent_probes (hk_config c) \<le> active_probes c")
    case False
    then have "checker_inv cfg es (spawn_probe c)"
      using Suc.prems by (intro spawn_probe_inv) (auto simp: checker_inv_def)
    with Suc False show ?thesis by simp
  qed (use Suc.prems in auto)
qed simp

lemma run_round_inv: "checker_inv cfg es c \<Longrightarrow> checker_inv cfg es (run_round c)"
  using spawn_probes_inv [of cfg es c "min (length es) (max_concurrent_probes cfg)"]
  by (simp add: run_round_def checker_inv_def)

lemma probe_ends_inv:
  assumes "checker_inv cfg es c" "i < length (hk_probes c)"
  shows "checker_inv cfg es (probe_ends i ok now c)"
proof -
  have "set (take i (hk_probes c) @ drop (Suc i) (hk_probes c)) \<subseteq> set (hk_probes c)"
    by (auto dest: in_set_takeD in_set_dropD)
  with assms show ?thesis by (auto simp: checker_inv_def probe_ends_def Let_def)
qed

lemma probe_starts_inv:
  assumes "checker_inv cfg es c" "i < length (hk_probes c)"
  shows "checker_inv cfg es (probe_starts i c)"
proof -
  have "pr_endpoint p \<in> set es" if "p \<in> set ((hk_probes c)[i := (hk_probes c ! i)\<lparr>pr_running := True\<rparr>])" for p
    using set_update_subset_insert that assms by (fastforce simp: checker_inv_def)
  with assms(1) show ?thesis by (simp add: checker_inv_def probe_starts_def Let_def)
qed

lemma control_inv:
  "checker_inv cfg es c \<Longrightarrow> checker_inv cfg es (startInStrand c)"
  "checker_inv cfg es c \<Longrightarrow> checker_inv cfg es (stopInStrand c)"
  "checker_inv cfg es c \<Longrightarrow> checker_inv cfg es (c\<lparr>hk_loop := l\<rparr>)"
  by (simp_all add: startInStrand_def stopInStrand_def checker_inv_def)

lemma checker_inv_step: "checker_inv cfg es c \<Longrightarrow> checker_inv cfg es (checker_step c ev)"
  by (cases ev) (simp_all add: run_round_inv probe_ends_inv probe_starts_inv control_inv interval_completes_def)

lemma checker_inv_history:
  assumes "HealthChecker_make cfg es h = Inr c"
  shows "checker_inv cfg es (foldl checker_step c evs)"
proof (induction evs rule: rev_induct)
  case Nil
  show ?case using assms by (auto simp: HealthChecker_make_def checker_inv_def split: option.splits if_splits)
qed (simp add: checker_inv_step)

lemma stopped_step:
  assumes "hk_stopping c"
  shows "hk_stopping (checker_step c ev) \<and> hk_health (checker_step c ev) = hk_health c \<and> probed (checker_step c ev) = probed c"
  using assms
  by (cases ev) (simp_all add: startInStrand_def stopInStrand_def interval_completes_def run_round_def probe_starts_def
      probe_ends_def Let_def)

section \<open>Properties\<close>

text \<open>
  C38: probing is bounded and fair. In every history at most the configured number of probes is under way,
  each of a configured endpoint, and the endpoints are probed in strict rotation: the n-th probe is of
  the endpoint n modulo their number.
\<close>

theorem probes_are_bounded_and_rotate:
  assumes "HealthChecker_make cfg es h = Inr c0" "c = foldl checker_step c0 evs"
  shows "active_probes c = length (hk_probes c) \<and> active_probes c \<le> max_concurrent_probes cfg \<and>
     (\<forall>p \<in> set (hk_probes c). pr_endpoint p \<in> set es) \<and>
     probed c = map (\<lambda>i. i mod length es) [0..<length (probed c)]"
  using checker_inv_history [OF assms(1), of evs] assms(2) by (simp add: checker_inv_def)

definition sample_checker :: HealthChecker where
  "sample_checker =
     \<lparr>hk_config = HealthCheckConfig_default, hk_endpoints = [\<lparr>host = ''a'', service = ''1''\<rparr>, \<lparr>host = ''b'', service = ''2''\<rparr>],
      hk_health = \<lparr>hs_thresholds = HealthThresholds_default, hs_snapshot = \<lparr>endpoints = Map.empty\<rparr>\<rparr>, hk_started = False,
      hk_stopping = False, active_probes = 0, next_endpoint = 0, next_probe_id = 1, active_cancellations = [],
      cancelled_probes = [], hk_loop = HL_Idle, hk_probes = [], probed = []\<rparr>"

lemma sample_checker_make:
  "HealthChecker_make HealthCheckConfig_default (hk_endpoints sample_checker) (Some (hk_health sample_checker)) = Inr sample_checker"
  by (simp add: HealthChecker_make_def HealthCheckConfig_default_def sample_checker_def)

theorem probes_are_bounded_and_rotate_witness:
  "active_probes (foldl checker_step sample_checker [HE_Start, HE_Loop_Runs, HE_Interval False]) \<le> 4 \<and>
   length (probed (foldl checker_step sample_checker [HE_Start, HE_Loop_Runs, HE_Interval False])) = 4"
proof
  show "active_probes (foldl checker_step sample_checker [HE_Start, HE_Loop_Runs, HE_Interval False]) \<le> 4"
    using probes_are_bounded_and_rotate [OF sample_checker_make refl, of "[HE_Start, HE_Loop_Runs, HE_Interval False]"]
    by (simp add: HealthCheckConfig_default_def)
  show "length (probed (foldl checker_step sample_checker [HE_Start, HE_Loop_Runs, HE_Interval False])) = 4"
    by code_simp
qed

text \<open>
  a stopped checker is silent: whatever its probes under way still do, it starts no probe and reports
  nothing to the health store.
\<close>

theorem stopped_checker_is_silent:
  assumes "hk_stopping c"
  shows "hk_health (foldl checker_step c evs) = hk_health c \<and> probed (foldl checker_step c evs) = probed c"
proof -
  have "hk_stopping (foldl checker_step c evs) \<and> hk_health (foldl checker_step c evs) = hk_health c \<and>
      probed (foldl checker_step c evs) = probed c"
    using assms by (induction evs rule: rev_induct) (auto simp: stopped_step)
  then show ?thesis by simp
qed

theorem stopped_checker_is_silent_witness:
  "probed (foldl checker_step (stopInStrand sample_checker) [HE_Start, HE_Loop_Runs]) = []"
  using stopped_checker_is_silent [of "stopInStrand sample_checker" "[HE_Start, HE_Loop_Runs]"]
  by (simp add: stopInStrand_def sample_checker_def)

text \<open>A status line that arrives in two segments fails the probe.\<close>

lemma split_status_line_fails_probe:
  "\<not> probe \<lparr>resolve_error = False, connect_error = False, write_error = False, read_error = False,
     read_bytes = ''HTTP/1.1'', timed_out = False\<rparr>"
  by code_simp

end
