(* ===== verification/Runtime.thy ===== *)
theory Runtime
  imports Prelude
begin

text \<open>
  The worker threads of \<open>src/runtime/asio_runtime.cpp\<close>. What \<open>io_context::run\<close> does on a worker is a parameter: it
  returns, or an exception leaves it; \<open>True\<close> stands for the exception. A worker that has not returned is
  in the list \<open>workers\<close>.
\<close>

record AsioRuntime =
  thread_count :: nat
  has_error_handler :: bool
  rt_started :: bool
  stop_requested :: bool
  work_guard :: bool
  workers :: "nat list"
  errors_handled :: "nat list"
  errors_printed :: "nat list"

definition AsioRuntime_make :: "nat \<Rightarrow> bool \<Rightarrow> AsioRuntime outcome" where
  "AsioRuntime_make n on_error =
     (if n = 0 then Inl Invalid_Argument
      else Inr \<lparr>thread_count = n, has_error_handler = on_error, rt_started = False, stop_requested = False, work_guard = False,
                workers = [], errors_handled = [], errors_printed = []\<rparr>)"

definition runtime_start :: "AsioRuntime \<Rightarrow> AsioRuntime outcome" where
  "runtime_start r =
     (if rt_started r then Inl Logic_Error
      else Inr (r\<lparr>rt_started := True, work_guard := True, workers := [0..<thread_count r]\<rparr>))"

definition requestStop :: "AsioRuntime \<Rightarrow> AsioRuntime" where
  "requestStop r =
     (if \<not> rt_started r then r
      else if \<not> stop_requested r then r\<lparr>stop_requested := True, work_guard := False\<rparr> else r)"

definition runWorker :: "nat \<Rightarrow> bool \<Rightarrow> AsioRuntime \<Rightarrow> AsioRuntime" where
  "runWorker i threw r =
     (let r1 = r\<lparr>workers := remove1 i (workers r)\<rparr>
      in if \<not> threw then r1
         else requestStop (if has_error_handler r1 then r1\<lparr>errors_handled := errors_handled r1 @ [i]\<rparr>
                           else r1\<lparr>errors_printed := errors_printed r1 @ [i]\<rparr>))"

text \<open>\<open>join\<close> returns when no worker is left.\<close>

definition runtime_join_returns :: "AsioRuntime \<Rightarrow> bool" where
  "runtime_join_returns r = (workers r = [])"

datatype runtime_event = RE_Start | RE_Stop | RE_Worker nat bool

fun runtime_step :: "AsioRuntime \<Rightarrow> runtime_event \<Rightarrow> AsioRuntime" where
  "runtime_step r RE_Start = (case runtime_start r of Inl e \<Rightarrow> r | Inr r' \<Rightarrow> r')"
| "runtime_step r RE_Stop = requestStop r"
| "runtime_step r (RE_Worker i threw) = (if i \<in> set (workers r) then runWorker i threw r else r)"

section \<open>Lemmas\<close>

text \<open>
  The guard is held exactly between start and the request to stop, and a worker's exception is such a
  request: it is reported once, by its worker.
\<close>

definition runtime_inv :: "AsioRuntime \<Rightarrow> bool" where
  "runtime_inv r \<longleftrightarrow>
     (work_guard r \<longleftrightarrow> rt_started r \<and> \<not> stop_requested r) \<and> distinct (workers r @ errors_handled r @ errors_printed r) \<and>
     set (workers r @ errors_handled r @ errors_printed r) \<subseteq> {..<thread_count r} \<and>
     (\<not> rt_started r \<longrightarrow> workers r = [] \<and> errors_handled r = [] \<and> errors_printed r = [] \<and> \<not> stop_requested r) \<and>
     (errors_handled r @ errors_printed r \<noteq> [] \<longrightarrow> stop_requested r)"

lemma runtime_inv_stop: "runtime_inv r \<Longrightarrow> runtime_inv (requestStop r)"
  by (simp add: runtime_inv_def requestStop_def)

lemma runtime_inv_worker:
  assumes "runtime_inv r" "i \<in> set (workers r)"
  shows "runtime_inv (runWorker i threw r)"
proof -
  have "rt_started r" "distinct (workers r)" using assms by (auto simp: runtime_inv_def)
  with assms show ?thesis
    by (cases threw) (auto simp: runtime_inv_def runWorker_def requestStop_def Let_def dest: notin_set_remove1 split: if_splits)
qed

lemma runtime_inv_history:
  assumes "AsioRuntime_make n h = Inr r"
  shows "runtime_inv (foldl runtime_step r evs)"
proof (induction evs rule: rev_induct)
  case Nil
  show ?case using assms by (auto simp: AsioRuntime_make_def runtime_inv_def split: if_splits)
next
  case (snoc ev evs)
  then show ?case
    using runtime_inv_stop runtime_inv_worker
    by (cases ev) (auto simp: runtime_start_def runtime_inv_def)
qed

lemma second_start_is_refused: "runtime_start r = Inr r' \<Longrightarrow> runtime_start r' = Inl Logic_Error"
  by (auto simp: runtime_start_def split: if_splits)

end
