(* ===== verification/Gateway.thy ===== *)
theory Gateway
  imports CommandLine ConfigManager HealthChecker Runtime
begin

text \<open>
  What \<open>app/pulsegate_main.cpp\<close> builds before it serves: the session limits, the proxies with their health
  checkers, and the routes, from a configuration or from a command-line plan. A proxy handler has the
  number of the proxy after the default router's own handlers.
\<close>

section \<open>Session limits\<close>

definition sessionLimitsFromConfig :: "ServerConfig \<Rightarrow> SessionLimits" where
  "sessionLimitsFromConfig c =
     (let d = SessionLimits_default;
          q = (parser_limits d)\<lparr>HttpParserLimits.max_header_bytes := sc_max_header_bytes c, HttpParserLimits.max_body_bytes := sc_max_body_bytes c\<rparr>
      in d\<lparr>parser_limits := q,
           sl_max_buffer_bytes := max (sz_add (sc_max_body_bytes c) (HttpParserLimits.max_header_bytes q)) (sl_read_chunk_bytes d),
           header_timeout := sc_header_timeout c, body_timeout := sc_body_timeout c, idle_timeout := sc_idle_timeout c,
           SessionLimits.max_connections := sc_max_connections c\<rparr>)"

section \<open>Proxies and routes\<close>

record gateway_proxies =
  gp_proxies :: "(string \<times> ReverseProxy) list"
  gp_checkers :: "HealthChecker list"

text \<open>\<open>emplace\<close> keeps the proxy of a name that is already there.\<close>

fun build_proxies :: "int \<Rightarrow> UpstreamConfig list \<Rightarrow> gateway_proxies \<Rightarrow> gateway_proxies outcome" where
  "build_proxies now [] gp = Inr gp"
| "build_proxies now (u # us) gp =
     ebind (ReverseProxy_make (uc_endpoints u) (uc_proxy_limits u) now) (\<lambda>proxy.
     ebind (HealthChecker_make HealthCheckConfig_default (uc_endpoints u) (Some (health proxy))) (\<lambda>checker.
       build_proxies now us
         (gp\<lparr>gp_checkers := gp_checkers gp @ [startInStrand checker],
             gp_proxies := (if map_of (gp_proxies gp) (uc_name u) = None then gp_proxies gp @ [(uc_name u, proxy)]
                            else gp_proxies gp)\<rparr>)))"

definition proxied_methods :: "HttpMethod list" where
  "proxied_methods = [Get, Head, Post, Put, Delete]"

definition default_handlers :: nat where
  "default_handlers = 6"

fun position :: "string \<Rightarrow> (string \<times> 'a) list \<Rightarrow> nat option" where
  "position k [] = None"
| "position k (x # xs) = (if fst x = k then Some 0 else map_option Suc (position k xs))"

definition config_route :: "RouteConfig \<Rightarrow> nat \<Rightarrow> HttpMethod \<Rightarrow> Route" where
  "config_route r h m =
     \<lparr>rt_method = m, pattern = ro_path_prefix r, rt_name = ''config:'' @ ro_path_prefix r, prefix_match = True,
      handler = Some (default_handlers + h)\<rparr>"

fun add_routes :: "Route list \<Rightarrow> RateLimitConfig option \<Rightarrow> ResponseCacheConfig option \<Rightarrow> int \<Rightarrow> Router \<Rightarrow> Router outcome" where
  "add_routes [] l c now r = Inr r"
| "add_routes (t # ts) l c now r = ebind (router_add r t l c now) (\<lambda>r1. add_routes ts l c now r1)"

fun build_routes :: "int \<Rightarrow> (string \<times> ReverseProxy) list \<Rightarrow> RouteConfig list \<Rightarrow> Router \<Rightarrow> Router outcome" where
  "build_routes now ps [] r = Inr r"
| "build_routes now ps (t # ts) r =
     (case position (ro_upstream t) ps of
        None \<Rightarrow> Inl Logic_Error
      | Some h \<Rightarrow> ebind (add_routes (map (config_route t h) proxied_methods) (ro_rate_limit t) (ro_cache t) now r)
                    (\<lambda>r1. build_routes now ps ts r1))"

text \<open>\<open>runFromConfig\<close> up to the construction of the server.\<close>

record prepared_gateway =
  pg_runtime :: AsioRuntime
  pg_manager :: ConfigManager
  pg_router :: Router
  pg_proxies :: gateway_proxies
  pg_listen :: ListenConfig
  pg_logger :: LoggerConfig
  pg_limits :: SessionLimits

definition runFromConfig :: "string \<Rightarrow> Config \<Rightarrow> int \<Rightarrow> int \<Rightarrow> prepared_gateway outcome" where
  "runFromConfig path loaded wall now =
     ebind (AsioRuntime_make (sc_io_threads (cf_server loaded)) False) (\<lambda>runtime.
     ebind (ConfigManager_make path (Some \<lparr>sn_value = loaded, sn_source_path = path, sn_loaded_at = wall\<rparr>)) (\<lambda>manager.
     ebind (makeDefaultRouter None now) (\<lambda>router.
     ebind (build_proxies now (cf_upstreams loaded) \<lparr>gp_proxies = [], gp_checkers = []\<rparr>) (\<lambda>gp.
     ebind (build_routes now (gp_proxies gp) (cf_routes loaded) router) (\<lambda>routed.
     ebind (parseLogLevel (lo_level (cf_logging loaded))) (\<lambda>lv.
       Inr \<lparr>pg_runtime = runtime, pg_manager = manager, pg_router = routed, pg_proxies = gp,
            pg_listen = ListenConfig_default\<lparr>li_host := sc_listen_host (cf_server loaded),
                          li_port := sc_listen_port (cf_server loaded) mod 2 ^ 16\<rparr>,
            pg_logger = LoggerConfig_default\<lparr>lc_level := lv, lc_json := (lo_format (cf_logging loaded) = ''json'')\<rparr>,
            pg_limits = sessionLimitsFromConfig (cf_server loaded)\<rparr>))))))"

section \<open>From the command line\<close>

definition static_routes :: "Route list" where
  "static_routes = map (\<lambda>m. \<lparr>rt_method = m, pattern = ''/static/'', rt_name = ''static_files'', prefix_match = True,
     handler = Some default_handlers\<rparr>) [Get, Head]"

definition proxy_routes :: "Route list" where
  "proxy_routes = map (\<lambda>m. \<lparr>rt_method = m, pattern = ''/proxy/'', rt_name = ''reverse_proxy'', prefix_match = True,
     handler = Some (default_handlers + 1)\<rparr>) proxied_methods"

text \<open>\<open>files_ok\<close>: the file service and the static handler can be constructed over the document root.\<close>

definition run_plan :: "bool \<Rightarrow> options \<Rightarrow> plan \<Rightarrow> int \<Rightarrow> (AsioRuntime \<times> Router \<times> gateway_proxies) outcome" where
  "run_plan files_ok o1 pl now =
     ebind (AsioRuntime_make (op_threads o1) False) (\<lambda>runtime.
     ebind (makeDefaultRouter (pl_global_rate_limit pl) now) (\<lambda>router.
     ebind (case op_document_root o1 of
              None \<Rightarrow> Inr router
            | Some d \<Rightarrow> if \<not> files_ok then Inl Invalid_Argument else add_routes static_routes None None now router) (\<lambda>with_files.
     ebind (if op_proxy_upstreams o1 = [] then Inr (with_files, \<lparr>gp_proxies = [], gp_checkers = []\<rparr>)
            else
              ebind (build_proxies now [UpstreamConfig_default\<lparr>uc_endpoints := op_proxy_upstreams o1\<rparr>] \<lparr>gp_proxies = [], gp_checkers = []\<rparr>) (\<lambda>gp.
              ebind (add_routes proxy_routes (pl_proxy_route_limit pl) (pl_proxy_cache pl) now with_files) (\<lambda>routed.
                Inr (routed, gp)))) (\<lambda>(routed, gp).
       Inr (runtime, routed, gp)))))"

end
