(* ===== verification/GatewayProperties.thy ===== *)
theory GatewayProperties
  imports Gateway
begin

text \<open>
  Properties of the start: a configuration that loads, and a command line that is accepted, builds every
  proxy, limiter, cache and route it describes; and which of the validated limits the sessions accept.
\<close>

section \<open>Routes\<close>

definition limit_ok :: "RateLimitConfig option \<Rightarrow> bool" where
  "limit_ok l \<longleftrightarrow> (\<forall>c \<in> set_option l. validPositive (requests_per_second c) \<and> validPositive (burst c) \<and> 0 < shard_count c \<and> 0 < max_keys c \<and> 0 < idle_ttl c)"

text \<open>What validation leaves open of a limit: whether its rate and burst are finite.\<close>

definition finite_limit :: "RateLimitConfig option \<Rightarrow> bool" where
  "finite_limit l \<longleftrightarrow> (\<forall>c \<in> set_option l. isfinite (requests_per_second c) \<and> isfinite (burst c))"

definition cache_ok :: "ResponseCacheConfig option \<Rightarrow> bool" where
  "cache_ok k \<longleftrightarrow> (\<forall>c \<in> set_option k. 0 < ttl c \<and> 0 < max_entry_bytes c \<and> 0 < max_bytes c \<and> 0 < cc_shard_count c \<and>
     max_entry_bytes c \<le> max_bytes c div cc_shard_count c \<and> vary_headers c = [])"

lemma limiter_made: "limit_ok (Some c) \<Longrightarrow> \<exists>l. RateLimiter_make c now = Inr l"
  by (auto simp: limit_ok_def RateLimiter_make_def TokenBucket_make_def Let_def)

lemma cache_made:
  assumes "cache_ok (Some c)"
  shows "\<exists>k. ResponseCache_make c = Inr k"
proof -
  have b: "0 < ttl c" "0 < max_entry_bytes c" "0 < max_bytes c" "0 < cc_shard_count c"
      "max_entry_bytes c \<le> max_bytes c div cc_shard_count c" "vary_headers c = []"
    using assms by (simp_all add: cache_ok_def)
  have "max_entry_bytes c \<le> max_bytes c" using b(5) div_le_dividend le_trans by blast
  moreover have "cc_shard_count c \<le> max_bytes c" using b by (metis div_less leD less_le_trans not_le)
  ultimately show ?thesis using b by (auto simp: ResponseCache_make_def Let_def)
qed

definition route_ok :: "Route \<Rightarrow> bool" where
  "route_ok t \<longleftrightarrow> pattern t \<noteq> [] \<and> hd (pattern t) = CHR ''/'' \<and> rt_name t \<noteq> [] \<and> handler t \<noteq> None"

lemma limiter_added:
  assumes "limit_ok l"
  shows "\<exists>r1. (case l of None \<Rightarrow> Inr r | Some c \<Rightarrow> ebind (RateLimiter_make c now) (\<lambda>m.
      Inr (r\<lparr>limiter_store := limiter_store r @ [m],
             route_limiters := AList.update name (length (limiter_store r)) (route_limiters r)\<rparr>))) = Inr r1 \<and> routes r1 = routes r"
proof (cases l)
  case (Some c)
  then obtain m where "RateLimiter_make c now = Inr m" using limiter_made assms by blast
  with Some show ?thesis by simp
qed simp

lemma cache_added:
  assumes "cache_ok k"
  shows "\<exists>r1. (case k of None \<Rightarrow> Inr r | Some c \<Rightarrow> ebind (ResponseCache_make c) (\<lambda>m.
      Inr (r\<lparr>cache_store := cache_store r @ [m],
             route_caches := AList.update name (length (cache_store r)) (route_caches r)\<rparr>))) = Inr r1 \<and> routes r1 = routes r"
proof (cases k)
  case (Some c)
  then obtain m where "ResponseCache_make c = Inr m" using cache_made assms by blast
  with Some show ?thesis by simp
qed simp

lemma router_add_ok:
  assumes "route_ok t" "limit_ok l" "cache_ok k"
  shows "\<exists>r'. router_add r t l k now = Inr r' \<and> routes r' = routes r @ [t]"
proof -
  from limiter_added [OF assms(2)] obtain r1 where r1: "(case l of None \<Rightarrow> Inr r | Some c \<Rightarrow> ebind (RateLimiter_make c now) (\<lambda>m.
      Inr (r\<lparr>limiter_store := limiter_store r @ [m],
             route_limiters := AList.update (rt_name t) (length (limiter_store r)) (route_limiters r)\<rparr>))) = Inr r1" "routes r1 = routes r"
    by blast
  from cache_added [OF assms(3)] obtain r2 where r2: "(case k of None \<Rightarrow> Inr r1 | Some c \<Rightarrow> ebind (ResponseCache_make c) (\<lambda>m.
      Inr (r1\<lparr>cache_store := cache_store r1 @ [m],
              route_caches := AList.update (rt_name t) (length (cache_store r1)) (route_caches r1)\<rparr>))) = Inr r2" "routes r2 = routes r1"
    by blast
  have "router_add r t l k now = Inr (r2\<lparr>routes := routes r2 @ [t]\<rparr>)"
    using assms(1) unfolding router_add_def r1(1) ebind_simps r2(1) by (simp add: route_ok_def)
  with r1(2) r2(2) show ?thesis by simp
qed

lemma add_routes_ok:
  assumes "list_all route_ok ts" "limit_ok l" "cache_ok k"
  shows "\<exists>r'. add_routes ts l k now r = Inr r' \<and> routes r' = routes r @ ts"
  using assms(1)
proof (induction ts arbitrary: r)
  case (Cons t ts)
  have "route_ok t" using Cons.prems by simp
  from router_add_ok [OF this assms(2,3)] obtain r1 where r1: "router_add r t l k now = Inr r1" "routes r1 = routes r @ [t]" by blast
  from Cons.IH [of r1] Cons.prems r1 show ?case by auto
qed simp

lemma makeDefaultRouter_ok:
  assumes "limit_ok l"
  shows "\<exists>r. makeDefaultRouter l now = Inr r"
proof -
  obtain r where r: "Router_make l now = Inr r"
    using limiter_made [of _ now] assms by (cases l) (fastforce simp: Router_make_def Let_def)+
  then show ?thesis by (simp add: makeDefaultRouter_def add_get_and_head_def router_add_def)
qed

section \<open>Proxies\<close>

definition endpoint_ok :: "UpstreamEndpoint \<Rightarrow> bool" where
  "endpoint_ok e \<longleftrightarrow> host e \<noteq> [] \<and> service e \<noteq> []"

lemma add_endpoints_ok: "\<exists>h' cs'. add_endpoints us CircuitBreakerLimits_default now h cs = Inr (h', cs')"
proof (induction us arbitrary: h cs)
  case (Cons u us)
  have "\<exists>h1. addEndpoint h (endpoint_id u) True now = Inr h1" by (simp add: addEndpoint_def endpoint_id_def Let_def)
  moreover have "\<exists>c. CircuitBreaker_make CircuitBreakerLimits_default = Inr c" using sample_breaker_make by blast
  ultimately show ?case using Cons.IH by auto
qed simp

lemma ReverseProxy_made:
  assumes "es \<noteq> []" "list_all endpoint_ok es"
  shows "\<exists>st. ReverseProxy_make es (upstream_limits c r n) now = Inr st"
proof -
  have "\<not> list_ex (\<lambda>u. host u = [] \<or> service u = []) es" using assms(2) by (auto simp: list_all_iff list_ex_iff endpoint_ok_def)
  moreover obtain h0 where "HealthStateStore_make HealthThresholds_default = Inr h0"
    by (simp add: HealthStateStore_make_def HealthThresholds_default_def)
  moreover obtain h cs where "add_endpoints es CircuitBreakerLimits_default now h0 [] = Inr (h, cs)"
    using add_endpoints_ok by blast
  ultimately show ?thesis using assms(1)
    by (simp add: ReverseProxy_make_def upstream_limits_def ProxyLimits_default_def)
qed

lemma checker_made: "\<exists>k. HealthChecker_make HealthCheckConfig_default es (Some h) = Inr k"
  by (simp add: HealthChecker_make_def HealthCheckConfig_default_def)

definition upstream_ok :: "UpstreamConfig \<Rightarrow> bool" where
  "upstream_ok u \<longleftrightarrow> uc_endpoints u \<noteq> [] \<and> list_all endpoint_ok (uc_endpoints u) \<and> loaded_upstream u"

lemma build_proxies_ok:
  assumes "list_all upstream_ok us" "distinct (map fst (gp_proxies gp) @ map uc_name us)"
  shows "\<exists>gp'. build_proxies now us gp = Inr gp' \<and> map fst (gp_proxies gp') = map fst (gp_proxies gp) @ map uc_name us \<and>
     length (gp_checkers gp') = length (gp_checkers gp) + length us"
  using assms
proof (induction us arbitrary: gp)
  case (Cons u us)
  obtain c r n where lim: "uc_proxy_limits u = upstream_limits c r n" and es: "uc_endpoints u \<noteq> []" "list_all endpoint_ok (uc_endpoints u)"
    using Cons.prems(1) by (auto simp: upstream_ok_def loaded_upstream_def)
  obtain proxy where p: "ReverseProxy_make (uc_endpoints u) (uc_proxy_limits u) now = Inr proxy"
    using ReverseProxy_made [OF es] unfolding lim by blast
  obtain k where k: "HealthChecker_make HealthCheckConfig_default (uc_endpoints u) (Some (health proxy)) = Inr k"
    using checker_made by blast
  let ?gp = "gp\<lparr>gp_checkers := gp_checkers gp @ [startInStrand k], gp_proxies := gp_proxies gp @ [(uc_name u, proxy)]\<rparr>"
  have "map_of (gp_proxies gp) (uc_name u) = None" using Cons.prems(2) by (auto simp: map_of_eq_None_iff)
  then have step: "build_proxies now (u # us) gp = build_proxies now us ?gp" by (simp add: p k)
  have "list_all upstream_ok us" "distinct (map fst (gp_proxies ?gp) @ map uc_name us)" using Cons.prems by auto
  from Cons.IH [OF this] step show ?case by auto
qed simp

lemma position_Some: "k \<in> fst ` set ps \<Longrightarrow> \<exists>h. position k ps = Some h \<and> h < length ps \<and> fst (ps ! h) = k"
proof (induction ps)
  case (Cons x ps)
  then show ?case by (cases "fst x = k") auto
qed simp

definition gateway_route_ok :: "string list \<Rightarrow> RouteConfig \<Rightarrow> bool" where
  "gateway_route_ok known t \<longleftrightarrow>
     ro_path_prefix t \<noteq> [] \<and> hd (ro_path_prefix t) = CHR ''/'' \<and> ro_upstream t \<in> set known \<and> cache_ok (ro_cache t)"

definition routes_of :: "(string \<times> ReverseProxy) list \<Rightarrow> RouteConfig \<Rightarrow> Route list" where
  "routes_of ps t = map (config_route t (the (position (ro_upstream t) ps))) proxied_methods"

text \<open>The routes of one configured route, with a limiter that can be made or not.\<close>

lemma routes_of_ok:
  assumes "gateway_route_ok (map fst ps) t"
  shows "\<exists>h. position (ro_upstream t) ps = Some h \<and> list_all route_ok (map (config_route t h) proxied_methods) \<and>
     routes_of ps t = map (config_route t h) proxied_methods"
proof -
  obtain h where h: "position (ro_upstream t) ps = Some h" using assms position_Some by (force simp: gateway_route_ok_def)
  have "list_all route_ok (map (config_route t h) proxied_methods)"
    using assms by (simp add: gateway_route_ok_def route_ok_def config_route_def proxied_methods_def)
  with h show ?thesis by (simp add: routes_of_def)
qed

lemma build_routes_step:
  assumes "gateway_route_ok (map fst ps) t" "limit_ok (ro_rate_limit t)"
  shows "\<exists>r1. build_routes now ps (t # ts) r = build_routes now ps ts r1 \<and> routes r1 = routes r @ routes_of ps t"
proof -
  obtain h where h: "position (ro_upstream t) ps = Some h" "list_all route_ok (map (config_route t h) proxied_methods)"
      "routes_of ps t = map (config_route t h) proxied_methods"
    using routes_of_ok [OF assms(1)] by blast
  have "cache_ok (ro_cache t)" using assms(1) by (simp add: gateway_route_ok_def)
  from add_routes_ok [OF h(2) assms(2) this, of now r]
  obtain r1 where "add_routes (map (config_route t h) proxied_methods) (ro_rate_limit t) (ro_cache t) now r = Inr r1"
      "routes r1 = routes r @ map (config_route t h) proxied_methods" by blast
  with h show ?thesis by auto
qed

lemma build_routes_ok:
  assumes "list_all (gateway_route_ok (map fst ps)) ts" "list_all (\<lambda>t. limit_ok (ro_rate_limit t)) ts"
  shows "\<exists>r'. build_routes now ps ts r = Inr r' \<and> routes r' = routes r @ concat (map (routes_of ps) ts)"
  using assms
proof (induction ts arbitrary: r)
  case (Cons t ts)
  then have "gateway_route_ok (map fst ps) t" "limit_ok (ro_rate_limit t)" by simp_all
  from build_routes_step [OF this, of now ts r] obtain r1 where r1: "build_routes now ps (t # ts) r = build_routes now ps ts r1"
      "routes r1 = routes r @ routes_of ps t" by blast
  obtain r' where "build_routes now ps ts r1 = Inr r'" "routes r' = routes r1 @ concat (map (routes_of ps) ts)"
    using Cons by auto
  with r1 show ?case by simp
qed simp

text \<open>The first limiter that cannot be made ends the start with the exception of its constructor.\<close>

lemma build_routes_fails:
  assumes "list_all (gateway_route_ok (map fst ps)) ts"
    and "list_all (\<lambda>t. finite_limit (ro_rate_limit t) \<longrightarrow> limit_ok (ro_rate_limit t)) ts"
    and "\<not> list_all (\<lambda>t. finite_limit (ro_rate_limit t)) ts"
  shows "build_routes now ps ts r = Inl Invalid_Argument"
  using assms
proof (induction ts arbitrary: r)
  case (Cons t ts)
  have t: "gateway_route_ok (map fst ps) t" using Cons.prems(1) by simp
  show ?case
  proof (cases "finite_limit (ro_rate_limit t)")
    case True
    with Cons.prems(2) have "limit_ok (ro_rate_limit t)" by simp
    from build_routes_step [OF t this, of now ts r] obtain r1 where "build_routes now ps (t # ts) r = build_routes now ps ts r1" by blast
    with Cons True show ?thesis by simp
  next
    case False
    obtain h where h: "position (ro_upstream t) ps = Some h" "list_all route_ok (map (config_route t h) proxied_methods)"
      using routes_of_ok [OF t] by blast
    obtain m ms where ms: "map (config_route t h) proxied_methods = m # ms" by (simp add: proxied_methods_def)
    obtain l where l: "ro_rate_limit t = Some l" "\<not> (isfinite (requests_per_second l) \<and> isfinite (burst l))"
      using False by (auto simp: finite_limit_def)
    then have "RateLimiter_make l now = Inl Invalid_Argument" by (auto simp: RateLimiter_make_def validPositive_def)
    with ms h(2) l(1) have "router_add r m (ro_rate_limit t) (ro_cache t) now = Inl Invalid_Argument"
      by (simp add: router_add_def route_ok_def)
    with h(1) ms show ?thesis by simp
  qed
qed simp

section \<open>What validation and loading guarantee\<close>

lemma validate_endpoints_empty: "validate_endpoints base i seen es = [] \<Longrightarrow> list_all endpoint_ok es"
  by (induction base i seen es rule: validate_endpoints.induct) (auto simp: endpoint_ok_def Let_def)

lemma validate_upstreams_empty:
  assumes "validate_upstreams i known us = ([], all_names)"
  shows "all_names = known \<union> uc_name ` set us \<and> distinct (map uc_name us) \<and> uc_name ` set us \<inter> known = {} \<and>
     list_all (\<lambda>u. uc_endpoints u \<noteq> [] \<and> list_all endpoint_ok (uc_endpoints u)) us"
  using assms
proof (induction us arbitrary: i known)
  case (Cons u us)
  obtain rest known' where rest: "validate_upstreams (i + 1) (insert (uc_name u) known) us = (rest, known')" by fastforce
  with Cons.prems have u: "rest = []" "known' = all_names" "uc_name u \<notin> known" "uc_endpoints u \<noteq> []"
      "validate_endpoints (indexed ''upstreams'' i) 0 {} (uc_endpoints u) = []"
    by (simp_all add: Let_def)
  from Cons.IH [of "i + 1" "insert (uc_name u) known"] rest u validate_endpoints_empty [OF u(5)] show ?case by auto
qed simp

text \<open>The limits and caches of loaded routes are the defaults but for what the file sets.\<close>

definition loaded_route :: "RouteConfig \<Rightarrow> bool" where
  "loaded_route t \<longleftrightarrow>
     (\<forall>l \<in> set_option (ro_rate_limit t). shard_count l = 16 \<and> max_keys l = 10000 \<and> idle_ttl l = 600000) \<and>
     (\<forall>c \<in> set_option (ro_cache t). vary_headers c = [])"

lemma load_rate_loaded: "\<forall>l \<in> set_option (fst (load_rate y p n e)). shard_count l = 16 \<and> max_keys l = 10000 \<and> idle_ttl l = 600000"
  by (auto simp: load_rate_def Let_def RateLimitConfig_default_def split: prod.splits if_splits)

lemma load_cache_loaded: "\<forall>c \<in> set_option (fst (load_cache y p n e)). vary_headers c = []"
  by (auto simp: load_cache_def Let_def ResponseCacheConfig_default_def split: prod.splits if_splits)

lemma load_route_loaded: "loaded_route (fst (load_route y p n e))"
proof -
  have "loaded_route \<lparr>ro_path_prefix = v1, ro_upstream = v2, ro_rate_limit = fst (case yaml_get n ''rate_limit'' of None \<Rightarrow> (None, e2) | Some limit \<Rightarrow> load_rate y p limit e2),
      ro_cache = fst (case yaml_get n ''cache'' of None \<Rightarrow> (None, e3) | Some cache \<Rightarrow> load_cache y p cache e3)\<rparr>" for v1 v2 e2 e3
    using load_rate_loaded load_cache_loaded by (auto simp: loaded_route_def split: option.split)
  moreover have "\<exists>v1 v2 e2 e3. fst (load_route y p n e) =
      \<lparr>ro_path_prefix = v1, ro_upstream = v2, ro_rate_limit = fst (case yaml_get n ''rate_limit'' of None \<Rightarrow> (None, e2) | Some limit \<Rightarrow> load_rate y p limit e2),
       ro_cache = fst (case yaml_get n ''cache'' of None \<Rightarrow> (None, e3) | Some cache \<Rightarrow> load_cache y p cache e3)\<rparr>"
    unfolding load_route_def Let_def by (simp add: case_prod_beta) blast
  ultimately show ?thesis by auto
qed

lemma load_config_routes: "list_all loaded_route (cf_routes (fst (load_config y doc)))"
proof -
  have "\<exists>e. cf_routes (fst (load_config y doc)) = fst (load_section (load_route y) ''routes'' doc e)"
    by (auto simp: load_config_def case_prod_beta)
  then show ?thesis using load_section_all [of loaded_route "load_route y"] load_route_loaded by metis
qed

lemma loadFromFile_routes: "loadFromFile y document = Inr c \<Longrightarrow> list_all loaded_route (cf_routes c)"
  by (erule loadFromFile_cases) (metis load_config_routes fst_conv)

lemma validated_rate: "isfinite d \<Longrightarrow> \<not> double_le d (Finite 0) \<Longrightarrow> validPositive d"
  by (cases d) auto

lemma validate_route_empty:
  assumes "validate_route known i t = []" "loaded_route t" "known = set ns"
  shows "gateway_route_ok ns t \<and> (finite_limit (ro_rate_limit t) \<longrightarrow> limit_ok (ro_rate_limit t))"
proof -
  have "finite_limit (ro_rate_limit t) \<longrightarrow> limit_ok (ro_rate_limit t)"
    using assms(1,2) validated_rate
    by (cases "ro_rate_limit t") (auto simp: limit_ok_def finite_limit_def validate_route_def loaded_route_def Let_def)
  moreover have "cache_ok (ro_cache t)"
    using assms(1,2)
    by (cases "ro_cache t") (auto simp: cache_ok_def validate_route_def validate_cache_def loaded_route_def Let_def split: if_splits)
  ultimately show ?thesis using assms(1,3) by (simp add: gateway_route_ok_def validate_route_def Let_def)
qed

lemma log_level_parses: "lv \<in> set log_levels \<Longrightarrow> \<exists>l. parseLogLevel lv = Inr l"
  by (auto simp: log_levels_def parseLogLevel_def)

lemma validate_parts:
  assumes "validate c = []"
  shows "validate_server (cf_server c) (cf_logging c) = []"
    "validate_upstreams 0 {} (cf_upstreams c) = ([], uc_name ` set (cf_upstreams c))"
    "\<forall>i < length (cf_routes c). validate_route (uc_name ` set (cf_upstreams c)) i (cf_routes c ! i) = []"
proof -
  obtain errors known where u: "validate_upstreams 0 {} (cf_upstreams c) = (errors, known)" by fastforce
  with assms have e: "validate_server (cf_server c) (cf_logging c) = []" "errors = []"
      "\<forall>x \<in> set (enumerate 0 (cf_routes c)). validate_route known (fst x) (snd x) = []"
    by (auto simp: validate_def)
  show "validate_server (cf_server c) (cf_logging c) = []" by (rule e(1))
  have known: "known = uc_name ` set (cf_upstreams c)" using validate_upstreams_empty u e(2) by fastforce
  with u e(2) show "validate_upstreams 0 {} (cf_upstreams c) = ([], uc_name ` set (cf_upstreams c))" by simp
  show "\<forall>i < length (cf_routes c). validate_route (uc_name ` set (cf_upstreams c)) i (cf_routes c ! i) = []"
  proof (intro allI impI)
    fix i assume "i < length (cf_routes c)"
    then have "(i, cf_routes c ! i) \<in> set (enumerate 0 (cf_routes c))" by (auto simp: in_set_enumerate_eq)
    with e(3) known show "validate_route (uc_name ` set (cf_upstreams c)) i (cf_routes c ! i) = []" by fastforce
  qed
qed

lemma validated_routes:
  assumes "loadFromFile y document = Inr c"
  shows "list_all (gateway_route_ok (map uc_name (cf_upstreams c))) (cf_routes c)"
    "list_all (\<lambda>t. finite_limit (ro_rate_limit t) \<longrightarrow> limit_ok (ro_rate_limit t)) (cf_routes c)"
proof -
  have v: "\<forall>i < length (cf_routes c). validate_route (uc_name ` set (cf_upstreams c)) i (cf_routes c ! i) = []"
    using validate_parts(3) loadFromFile_valid [OF assms] by blast
  have l: "list_all loaded_route (cf_routes c)" using loadFromFile_routes [OF assms] .
  have "gateway_route_ok (map uc_name (cf_upstreams c)) (cf_routes c ! i) \<and>
      (finite_limit (ro_rate_limit (cf_routes c ! i)) \<longrightarrow> limit_ok (ro_rate_limit (cf_routes c ! i)))" if "i < length (cf_routes c)" for i
    using v l that by (intro validate_route_empty [where known = "uc_name ` set (cf_upstreams c)"]) (auto simp: list_all_length)
  then show "list_all (gateway_route_ok (map uc_name (cf_upstreams c))) (cf_routes c)"
    "list_all (\<lambda>t. finite_limit (ro_rate_limit t) \<longrightarrow> limit_ok (ro_rate_limit t)) (cf_routes c)"
    by (simp_all add: list_all_length)
qed

lemma validated_upstreams:
  assumes "loadFromFile y document = Inr c"
  shows "list_all upstream_ok (cf_upstreams c)" "distinct (map uc_name (cf_upstreams c))"
proof -
  have "validate c = []" using loadFromFile_valid [OF assms] .
  from validate_upstreams_empty [OF validate_parts(2) [OF this]] loadFromFile_upstreams [OF assms]
  show "list_all upstream_ok (cf_upstreams c)" "distinct (map uc_name (cf_upstreams c))"
    by (auto simp: list_all_iff upstream_ok_def)
qed

section \<open>Properties\<close>

text \<open>
  C17: which loaded configurations can be served. If every rate and burst of a loaded configuration is a
  finite number, every proxy, health checker, limiter, cache and route it describes is constructed without
  an exception, one proxy and one checker for each upstream in order, and the router holds the default routes
  followed by five for each configured route, whose handler is the proxy of the upstream that the route names.
  If one of them is infinite or NaN, which loading and validation let through, the start ends with the
  exception of the limiter's constructor.
\<close>

theorem loaded_configuration_builds:
  assumes "loadFromFile y document = Inr c"
  shows "if \<forall>t \<in> set (cf_routes c). finite_limit (ro_rate_limit t)
     then \<exists>g r0. runFromConfig path c wall now = Inr g \<and> makeDefaultRouter None now = Inr r0 \<and>
       map fst (gp_proxies (pg_proxies g)) = map uc_name (cf_upstreams c) \<and>
       length (gp_checkers (pg_proxies g)) = length (cf_upstreams c) \<and>
       routes (pg_router g) = routes r0 @ concat (map (routes_of (gp_proxies (pg_proxies g))) (cf_routes c)) \<and>
       (\<forall>t \<in> set (cf_routes c). \<exists>h. position (ro_upstream t) (gp_proxies (pg_proxies g)) = Some h \<and>
          fst (gp_proxies (pg_proxies g) ! h) = ro_upstream t)
     else runFromConfig path c wall now = Inl Invalid_Argument"
proof -
  have server: "validate_server (cf_server c) (cf_logging c) = []" using validate_parts(1) loadFromFile_valid [OF assms] .
  obtain runtime where runtime: "AsioRuntime_make (sc_io_threads (cf_server c)) False = Inr runtime"
    using server by (auto simp: AsioRuntime_make_def validate_server_def)
  obtain manager where manager: "ConfigManager_make path (Some \<lparr>sn_value = c, sn_source_path = path, sn_loaded_at = wall\<rparr>) = Inr manager"
    by (simp add: ConfigManager_make_def)
  obtain r0 where r0: "makeDefaultRouter None now = Inr r0" using makeDefaultRouter_ok [of None now] by (auto simp: limit_ok_def)
  obtain gp where gp: "build_proxies now (cf_upstreams c) \<lparr>gp_proxies = [], gp_checkers = []\<rparr> = Inr gp"
      "map fst (gp_proxies gp) = map uc_name (cf_upstreams c)" "length (gp_checkers gp) = length (cf_upstreams c)"
    using build_proxies_ok [OF validated_upstreams(1) [OF assms], of "\<lparr>gp_proxies = [], gp_checkers = []\<rparr>" now]
      validated_upstreams(2) [OF assms] by auto
  have ok: "list_all (gateway_route_ok (map fst (gp_proxies gp))) (cf_routes c)" using validated_routes(1) [OF assms] gp(2) by simp
  show ?thesis
  proof (cases "\<forall>t \<in> set (cf_routes c). finite_limit (ro_rate_limit t)")
    case True
    then have "list_all (\<lambda>t. limit_ok (ro_rate_limit t)) (cf_routes c)" using validated_routes(2) [OF assms] by (simp add: list_all_iff)
    from build_routes_ok [OF ok this, of now r0]
    obtain r where r: "build_routes now (gp_proxies gp) (cf_routes c) r0 = Inr r"
        "routes r = routes r0 @ concat (map (routes_of (gp_proxies gp)) (cf_routes c))" by blast
    obtain lv where lv: "parseLogLevel (lo_level (cf_logging c)) = Inr lv"
      using server log_level_parses by (auto simp: validate_server_def)
    have "\<exists>h. position (ro_upstream t) (gp_proxies gp) = Some h \<and> fst (gp_proxies gp ! h) = ro_upstream t" if "t \<in> set (cf_routes c)" for t
    proof -
      have "ro_upstream t \<in> fst ` set (gp_proxies gp)" using ok that by (auto simp: list_all_iff gateway_route_ok_def)
      from position_Some [OF this] show ?thesis by blast
    qed
    with True show ?thesis using runtime manager r0 gp r lv by (simp add: runFromConfig_def)
  next
    case False
    then have "\<not> list_all (\<lambda>t. finite_limit (ro_rate_limit t)) (cf_routes c)" by (simp add: list_all_iff)
    from build_routes_fails [OF ok validated_routes(2) [OF assms] this]
    show ?thesis unfolding if_not_P [OF False] using runtime manager r0 gp by (simp add: runFromConfig_def)
  qed
qed

text \<open>A file whose route has an infinite rate.\<close>

definition infinite_library :: yaml_library where
  "infinite_library = string_library\<lparr>as_double := (\<lambda>n. if n = Y_Scalar ''.inf'' then Inr Pos_Infinity else Inr (Finite 1))\<rparr>"

definition infinite_document :: "string + yaml" where
  "infinite_document = Inr (Y_Map
     [(''upstreams'', Y_Seq [Y_Map [(''name'', Y_Scalar ''app''), (''endpoints'', Y_Seq [Y_Scalar ''10.0.0.1:80''])]]),
      (''routes'', Y_Seq [Y_Map [(''path_prefix'', Y_Scalar ''/app''), (''upstream'', Y_Scalar ''app''),
         (''rate_limit'', Y_Map [(''requests_per_second'', Y_Scalar ''.inf''), (''burst'', Y_Scalar ''1'')])]])])"

definition infinite_config :: Config where
  "infinite_config = Config_default\<lparr>
     cf_upstreams := [UpstreamConfig_default\<lparr>uc_name := ''app'', uc_endpoints := [\<lparr>host = ''10.0.0.1'', service = ''80''\<rparr>]\<rparr>],
     cf_routes := [RouteConfig_default\<lparr>ro_path_prefix := ''/app'', ro_upstream := ''app'',
       ro_rate_limit := Some (RateLimitConfig_default\<lparr>requests_per_second := Pos_Infinity, burst := Finite 1\<rparr>)\<rparr>]\<rparr>"

lemma infinite_loads: "loadFromFile infinite_library infinite_document = Inr infinite_config"
  by code_simp

theorem loaded_configuration_builds_witness:
  "(\<exists>g. runFromConfig ''pg.yaml'' (sample_config ''info'' ''0.0.0.0'') 0 0 = Inr g \<and>
     map fst (gp_proxies (pg_proxies g)) = [''app'']) \<and>
   runFromConfig ''pg.yaml'' infinite_config 0 0 = Inl Invalid_Argument"
proof
  have "\<forall>t \<in> set (cf_routes (sample_config ''info'' ''0.0.0.0'')). finite_limit (ro_rate_limit t)"
    by (simp add: sample_config_def RouteConfig_default_def finite_limit_def)
  with loaded_configuration_builds [OF sample_loads(1), of "''pg.yaml''" 0 0]
  show "\<exists>g. runFromConfig ''pg.yaml'' (sample_config ''info'' ''0.0.0.0'') 0 0 = Inr g \<and> map fst (gp_proxies (pg_proxies g)) = [''app'']"
    by (auto simp: sample_config_def UpstreamConfig_default_def)
  have "\<not> (\<forall>t \<in> set (cf_routes infinite_config). finite_limit (ro_rate_limit t))"
    by (simp add: infinite_config_def finite_limit_def)
  with loaded_configuration_builds [OF infinite_loads, of "''pg.yaml''" 0 0]
  show "runFromConfig ''pg.yaml'' infinite_config 0 0 = Inl Invalid_Argument" by presburger
qed

text \<open>
  C39: which validated limits sessions accept. The sessions of a loaded configuration can be constructed
  exactly when its header limit is at most 64 KiB and its body limit at most 16 MiB; validation itself
  admits any header limit and bodies of 64 MiB, with which every accepted connection is dropped.
\<close>

theorem session_limits_accepted_iff:
  assumes "validate c = []"
  shows "(\<exists>s. HttpSession_make sid (sessionLimitsFromConfig (cf_server c)) p = Inr s) \<longleftrightarrow>
     sc_max_header_bytes (cf_server c) \<le> 64 * 1024 \<and> sc_max_body_bytes (cf_server c) \<le> 16 * 1024 * 1024"
proof -
  let ?s = "cf_server c"
  have v: "0 < sc_max_header_bytes ?s" "0 < sc_max_body_bytes ?s" "0 < sc_idle_timeout ?s" "0 < sc_header_timeout ?s" "0 < sc_body_timeout ?s"
    using validate_parts(1) [OF assms] by (simp_all add: validate_server_def)
  let ?q = "HttpParserLimits_default\<lparr>HttpParserLimits.max_header_bytes := sc_max_header_bytes ?s, HttpParserLimits.max_body_bytes := sc_max_body_bytes ?s\<rparr>"
  let ?fits = "sc_max_header_bytes ?s \<le> 64 * 1024 \<and> sc_max_body_bytes ?s \<le> 16 * 1024 * 1024"
  have parser: "(\<exists>q. HttpParser_make ?q = Inr q) \<longleftrightarrow> ?fits"
    using v by (auto simp: HttpParser_make_def HttpParserLimits_default_def kAbsoluteRequestLineLimit_def kAbsoluteHeaderLimit_def
        kAbsoluteHeaderCountLimit_def kAbsoluteBodyLimit_def)
  define l where "l = sessionLimitsFromConfig ?s"
  have l: "parser_limits l = ?q" "sl_read_chunk_bytes l = 4096" "header_timeout l = sc_header_timeout ?s"
      "body_timeout l = sc_body_timeout ?s" "idle_timeout l = sc_idle_timeout ?s"
      "sl_max_buffer_bytes l = max (sz_add (sc_max_body_bytes ?s) (sc_max_header_bytes ?s)) 4096"
    by (simp_all add: l_def sessionLimitsFromConfig_def SessionLimits_default_def Let_def)
  obtain b where b: "Buffer_make (sl_read_chunk_bytes l) (sl_max_buffer_bytes l) = Inr b" by (simp add: Buffer_make_def l)
  show ?thesis
  proof (cases ?fits)
    case True
    then obtain q where q: "HttpParser_make ?q = Inr q" using parser by blast
    have "sz_add (sc_max_body_bytes ?s) (sc_max_header_bytes ?s) = sc_max_body_bytes ?s + sc_max_header_bytes ?s"
      using True by (intro sz_add_exact) (simp add: size_max_def)
    with True q b v l show ?thesis
      unfolding l_def [symmetric] HttpSession_make_def l(1) by (auto simp: HttpParserLimits_default_def)
  next
    case False
    then have "\<exists>e. HttpParser_make ?q = Inl e" using parser by (cases "HttpParser_make ?q") auto
    with False b show ?thesis unfolding l_def [symmetric] HttpSession_make_def l(1) by auto
  qed
qed

lemma sample_config_valid: "validate (sample_config ''info'' ''0.0.0.0'') = []"
  using loadFromFile_valid [OF sample_loads(1)] .

theorem session_limits_accepted_iff_witness:
  "\<exists>s. HttpSession_make 1 (sessionLimitsFromConfig (cf_server (sample_config ''info'' ''0.0.0.0''))) (True, []) = Inr s"
  using session_limits_accepted_iff [OF sample_config_valid, of 1 "(True, [])"]
  by (simp add: sample_config_def ServerConfig_default_def)

text \<open>A valid configuration with a body limit of 32 MiB.\<close>

lemma large_bodies_validate_but_no_session_starts:
  "\<exists>c. validate c = [] \<and> (\<forall>sid p. \<exists>e. HttpSession_make sid (sessionLimitsFromConfig (cf_server c)) p = Inl e)"
proof -
  let ?c = "(Config_default\<lparr>cf_server := ServerConfig_default\<lparr>sc_max_body_bytes := 32 * 1024 * 1024\<rparr>\<rparr>)"
  have "validate ?c = []" by code_simp
  moreover have "\<exists>e. HttpSession_make sid (sessionLimitsFromConfig (cf_server ?c)) p = Inl e" for sid p
    by (simp add: HttpSession_make_def sessionLimitsFromConfig_def SessionLimits_default_def Let_def Buffer_make_def HttpParser_make_def
        HttpParserLimits_default_def ServerConfig_default_def kAbsoluteBodyLimit_def sz_add_def size_max_def)
  ultimately show ?thesis by blast
qed

end
