(* ===== verification/CommandLineProperties.thy ===== *)
theory CommandLineProperties
  imports GatewayProperties
begin

text \<open>
  Properties of the command line: addresses read back, the two readers of upstream addresses agree, and an
  accepted command line builds what it asks for.
\<close>

section \<open>Addresses\<close>

text \<open>How an endpoint is written: an address with colons goes into brackets.\<close>

definition show_endpoint :: "UpstreamEndpoint \<Rightarrow> string" where
  "show_endpoint e =
     (if CHR '':'' \<in> set (host e) then ''['' @ host e @ '']:'' @ service e else host e @ '':'' @ service e)"

lemma rfind_char_last: "c \<notin> set v \<Longrightarrow> rfind_char c (u @ c # v) = Some (length u)"
  by (simp add: rfind_char_def)

lemma parse_bracketed:
  assumes "CHR '']'' \<notin> set h" "h \<noteq> []" "s \<noteq> []"
  shows "parseUpstreamEndpoint (''['' @ h @ '']:'' @ s) = Inr \<lparr>host = h, service = s\<rparr>"
proof -
  have "find_char (CHR '']'') (CHR ''['' # h @ CHR '']'' # CHR '':'' # s) = Some (Suc (length h))"
    using assms(1) find_char_appendI [of "CHR '']''" "CHR ''['' # h"] by simp
  with assms show ?thesis by (simp add: parseUpstreamEndpoint_def nth_append)
qed

lemma parse_plain:
  assumes "CHR '':'' \<notin> set s" "h \<noteq> []" "hd h \<noteq> CHR ''[''" "s \<noteq> []"
  shows "parseUpstreamEndpoint (h @ '':'' @ s) = Inr \<lparr>host = h, service = s\<rparr>"
  using assms rfind_char_last [OF assms(1), of h] by (simp add: parseUpstreamEndpoint_def)

text \<open>The configuration file's reader and the command line's differ in their messages only.\<close>

lemma address_readers_agree: "parseUpstreamEndpoint v = Inr e \<longleftrightarrow> endpointFromText v = Inr e"
proof (cases "v \<noteq> [] \<and> hd v = CHR ''[''")
  case bracket: True
  show ?thesis
  proof (cases "find_char (CHR '']'') v")
    case (Some k)
    with bracket show ?thesis
      by (cases "length v \<le> k + 1 \<or> v ! (k + 1) \<noteq> CHR '':''") (simp_all add: parseUpstreamEndpoint_def endpointFromText_def)
  qed (use bracket in \<open>simp add: parseUpstreamEndpoint_def endpointFromText_def\<close>)
next
  case False
  show ?thesis
    unfolding parseUpstreamEndpoint_def endpointFromText_def Let_def if_not_P [OF False]
    by (cases "rfind_char (CHR '':'') v") simp_all
qed

text \<open>
  upstream addresses read back: any endpoint with a host and a port, the port without a colon and
  the host without brackets, is what both readers make of its text, IPv6 hosts in brackets.
\<close>

theorem endpoints_read_back:
  assumes "host e \<noteq> []" "service e \<noteq> []" "CHR '':'' \<notin> set (service e)" "CHR '']'' \<notin> set (host e)" "hd (host e) \<noteq> CHR ''[''"
  shows "parseUpstreamEndpoint (show_endpoint e) = Inr e \<and> endpointFromText (show_endpoint e) = Inr e"
proof -
  have "parseUpstreamEndpoint (show_endpoint e) = Inr e"
    using parse_bracketed [OF assms(4,1,2)] parse_plain [OF assms(3,1,5,2)] by (simp add: show_endpoint_def)
  then show ?thesis using address_readers_agree by blast
qed

theorem endpoints_read_back_witness:
  "endpointFromText (show_endpoint \<lparr>host = ''::1'', service = ''8081''\<rparr>) = Inr \<lparr>host = ''::1'', service = ''8081''\<rparr>"
  using endpoints_read_back [of "\<lparr>host = ''::1'', service = ''8081''\<rparr>"] by simp

section \<open>Options\<close>

definition positive :: "'a :: {zero, ord} option \<Rightarrow> bool" where
  "positive x \<longleftrightarrow> (\<forall>v \<in> set_option x. 0 < v)"

definition positive_doubles :: "double option \<Rightarrow> bool" where
  "positive_doubles x \<longleftrightarrow> (\<forall>d \<in> set_option x. validPositive d)"

definition options_ok :: "options \<Rightarrow> bool" where
  "options_ok o1 \<longleftrightarrow>
     0 < op_threads o1 \<and> list_all endpoint_ok (op_proxy_upstreams o1) \<and> positive_doubles (op_rate_limit o1) \<and>
     positive_doubles (op_rate_burst o1) \<and> positive_doubles (op_proxy_rate_limit o1) \<and> positive_doubles (op_proxy_rate_burst o1) \<and> positive (op_cache_ttl_ms o1) \<and>
     positive (op_cache_max_bytes o1) \<and> positive (op_cache_entry_max_bytes o1) \<and> positive (op_cache_shards o1)"

lemma parseThreadCount_pos: "parseThreadCount v = Inr n \<Longrightarrow> 0 < n"
  by (auto simp: parseThreadCount_def split: option.splits if_splits)

lemma parsePositiveSize_pos: "parsePositiveSize v a = Inr n \<Longrightarrow> 0 < n"
  by (auto simp: parsePositiveSize_def split: option.splits if_splits)

lemma parsePositiveDouble_pos: "parsePositiveDouble stod v a = Inr d \<Longrightarrow> validPositive d"
  by (auto intro: validated_rate simp: parsePositiveDouble_def split: option.splits prod.splits if_splits)

lemma parseUpstreamEndpoint_ok: "parseUpstreamEndpoint v = Inr e \<Longrightarrow> endpoint_ok e"
  by (auto simp: parseUpstreamEndpoint_def pbind_def endpoint_ok_def split: sum.splits if_splits prod.splits)

lemmas parsed_positive = parseThreadCount_pos parsePositiveSize_pos parsePositiveDouble_pos parseUpstreamEndpoint_ok

lemma pbind_Inr: "pbind r f = Inr b \<longleftrightarrow> (\<exists>a. r = Inr a \<and> f a = Inr b)"
  by (auto simp: pbind_def split: sum.split)

lemma apply_option_ok:
  assumes "options_ok o1" "apply_option stod a v o1 = Some (Inr o2)"
  shows "options_ok o2"
  using assms unfolding apply_option_def
  by (auto simp: pbind_Inr options_ok_def positive_def positive_doubles_def dest: parsed_positive split: if_splits)

lemma parse_options_ok:
  "parse_options stod argc ws o1 = Inr (Run o2) \<Longrightarrow> options_ok o1 \<Longrightarrow> options_ok o2"
proof (induction stod argc ws o1 rule: parse_options.induct)
  case (2 stod argc a rest o1)
  have flags: "options_ok (o1\<lparr>op_rate_per_client := True\<rparr>)" "options_ok (o1\<lparr>op_proxy_rate_per_client := True\<rparr>)"
    using 2(5) by (simp_all add: options_ok_def)
  show ?case
  proof (cases "a \<in> {''--version'', ''--help'', ''-h'', ''--rate-per-client'', ''--proxy-rate-per-client''}")
    case True
    with 2 flags show ?thesis by (auto split: if_splits)
  next
    case False
    with 2(4) obtain v rest' o3 where "rest = v # rest'" "apply_option stod a v o1 = Some (Inr o3)"
        "parse_options stod argc rest' o3 = Inr (Run o2)"
      by (auto split: list.splits option.splits sum.splits)
    with 2(3) 2(5) False apply_option_ok [of o1 stod a v o3] show ?thesis by simp
  qed
qed simp

lemma options_default_ok: "options_ok (options_default detected)"
  by (simp add: options_ok_def options_default_def positive_def positive_doubles_def defaultThreadCount_def)

lemma cache_of_ok:
  assumes "cache_of t m entry shards = Inr c" "0 < m" "positive entry" "positive shards" "0 < t" "t < 2 ^ 63"
  shows "cache_ok (Some c)"
proof -
  define e where "e = (case entry of None \<Rightarrow> min (256 * 1024) m | Some n \<Rightarrow> n)"
  define k where "k = (case shards of None \<Rightarrow> min 16 (m div e) | Some n \<Rightarrow> n)"
  have c: "e \<le> m" "e \<le> m div k" "c = \<lparr>ttl = to_milliseconds t, max_entry_bytes = e, max_bytes = m, cc_shard_count = k, vary_headers = []\<rparr>"
    using assms(1) by (simp_all add: cache_of_def e_def [symmetric] k_def [symmetric] Let_def split: if_splits)
  have "0 < e" using assms(2,3) by (cases entry) (auto simp: e_def positive_def)
  moreover from this c(1) have "0 < m div e" by (simp add: div_greater_zero_iff)
  then have "0 < k" using assms(4) by (cases shards) (auto simp: k_def positive_def)
  ultimately show ?thesis using c assms(2,5,6) by (simp add: cache_ok_def to_milliseconds_def)
qed

lemma rate_of_ok:
  assumes "positive_doubles l" "positive_doubles b" "(l \<noteq> None) = (b \<noteq> None)"
  shows "limit_ok (rate_of l b per)"
  using assms by (cases l; cases b) (auto simp: rate_of_def limit_ok_def positive_doubles_def RateLimitConfig_default_def)

lemma check_options_ok:
  assumes "check_options o1 = Inr pl" "options_ok o1" "\<forall>t \<in> set_option (op_cache_ttl_ms o1). t < 2 ^ 63"
  shows "limit_ok (pl_global_rate_limit pl) \<and> limit_ok (pl_proxy_route_limit pl) \<and> cache_ok (pl_proxy_cache pl)"
proof -
  have both: "(op_rate_limit o1 \<noteq> None) = (op_rate_burst o1 \<noteq> None)" "(op_proxy_rate_limit o1 \<noteq> None) = (op_proxy_rate_burst o1 \<noteq> None)"
      "(op_cache_ttl_ms o1 \<noteq> None) = (op_cache_max_bytes o1 \<noteq> None)"
    using assms(1) by (auto simp: check_options_def split: if_splits)
  obtain cache where cache: "(case op_cache_ttl_ms o1 of None \<Rightarrow> Inr None
      | Some t \<Rightarrow> pbind (cache_of t (the (op_cache_max_bytes o1)) (op_cache_entry_max_bytes o1) (op_cache_shards o1)) (\<lambda>c. Inr (Some c))) = Inr cache"
      "pl_global_rate_limit pl = rate_of (op_rate_limit o1) (op_rate_burst o1) (op_rate_per_client o1)"
      "pl_proxy_route_limit pl = rate_of (op_proxy_rate_limit o1) (op_proxy_rate_burst o1) (op_proxy_rate_per_client o1)"
      "pl_proxy_cache pl = cache"
    using assms(1) by (auto simp: check_options_def pbind_Inr split: if_splits)
  have "cache_ok cache"
  proof (cases "op_cache_ttl_ms o1")
    case (Some t)
    then obtain m c where m: "op_cache_max_bytes o1 = Some m" "cache_of t m (op_cache_entry_max_bytes o1) (op_cache_shards o1) = Inr c" "cache = Some c"
      using both(3) cache(1) by (auto simp: pbind_Inr)
    show ?thesis unfolding m(3)
      using assms(2,3) Some m(1) by (intro cache_of_ok [OF m(2)]) (auto simp: options_ok_def positive_def)
  qed (use cache(1) in \<open>simp add: cache_ok_def\<close>)
  then show ?thesis
    using cache rate_of_ok both assms(2) by (simp add: options_ok_def)
qed

lemma default_limits_loaded: "ProxyLimits_default = upstream_limits 2000 5000 (PoolLimits.max_connections PoolLimits_default)"
  by (simp add: upstream_limits_def ProxyLimits_default_def PoolLimits_default_def)

text \<open>
  C40: an accepted command line can be served. If the words parse and the options fit together, then,
  given a readable document root and a cache lifetime below 2^63 milliseconds, every limiter, cache, route,
  proxy and health checker asked for is constructed without an exception.
\<close>

theorem accepted_command_line_builds:
  assumes "command_line stod detected words = Inr (Serve_Plan o1 pl)" "\<forall>t \<in> set_option (op_cache_ttl_ms o1). t < 2 ^ 63"
  shows "\<exists>runtime routed gp. run_plan True o1 pl now = Inr (runtime, routed, gp) \<and>
     length (gp_checkers gp) = (if op_proxy_upstreams o1 = [] then 0 else 1)"
proof -
  have parsed: "parse_options stod (length words + 1) words (options_default detected) = Inr (Run o1)" "check_options o1 = Inr pl"
  proof -
    obtain cmd where cmd: "parse_options stod (length words + 1) words (options_default detected) = Inr cmd"
      using assms(1) by (auto simp: command_line_def Let_def pbind_Inr)
    then show "parse_options stod (length words + 1) words (options_default detected) = Inr (Run o1)" "check_options o1 = Inr pl"
      using assms(1) by (cases cmd; auto simp: command_line_def Let_def pbind_Inr split: option.splits if_splits)+
  qed
  have ok: "options_ok o1" using parse_options_ok [OF parsed(1) options_default_ok] .
  have pl: "limit_ok (pl_global_rate_limit pl)" "limit_ok (pl_proxy_route_limit pl)" "cache_ok (pl_proxy_cache pl)"
    using check_options_ok [OF parsed(2) ok assms(2)] by simp_all
  obtain runtime where runtime: "AsioRuntime_make (op_threads o1) False = Inr runtime" using ok by (simp add: AsioRuntime_make_def options_ok_def)
  obtain r0 where r0: "makeDefaultRouter (pl_global_rate_limit pl) now = Inr r0" using makeDefaultRouter_ok [OF pl(1)] by blast
  have none: "limit_ok None" "cache_ok None" by (simp_all add: limit_ok_def cache_ok_def)
  have static: "list_all route_ok static_routes" "list_all route_ok proxy_routes"
    by (simp_all add: static_routes_def proxy_routes_def proxied_methods_def route_ok_def)
  obtain r1 where r1: "(case op_document_root o1 of None \<Rightarrow> Inr r0 | Some d \<Rightarrow> add_routes static_routes None None now r0) = Inr r1"
    using add_routes_ok [OF static(1) none, of now r0] by (cases "op_document_root o1") auto
  obtain r2 where r2: "add_routes proxy_routes (pl_proxy_route_limit pl) (pl_proxy_cache pl) now r1 = Inr r2"
    using add_routes_ok [OF static(2) pl(2,3)] by blast
  let ?u = "UpstreamConfig_default\<lparr>uc_endpoints := op_proxy_upstreams o1\<rparr>"
  have "loaded_upstream ?u" using default_limits_loaded by (auto simp: loaded_upstream_def UpstreamConfig_default_def)
  then have "op_proxy_upstreams o1 \<noteq> [] \<Longrightarrow> list_all upstream_ok [?u]" using ok by (simp add: upstream_ok_def options_ok_def)
  then have gp: "op_proxy_upstreams o1 \<noteq> [] \<Longrightarrow> \<exists>gp. build_proxies now [?u] \<lparr>gp_proxies = [], gp_checkers = []\<rparr> = Inr gp \<and> length (gp_checkers gp) = 1"
    using build_proxies_ok [of "[?u]" "\<lparr>gp_proxies = [], gp_checkers = []\<rparr>" now] by auto
  show ?thesis
  proof (cases "op_proxy_upstreams o1 = []")
    case True
    with runtime r0 r1 show ?thesis by (simp add: run_plan_def cong: option.case_cong)
  next
    case False
    with gp obtain gp where "build_proxies now [?u] \<lparr>gp_proxies = [], gp_checkers = []\<rparr> = Inr gp" "length (gp_checkers gp) = 1" by blast
    with False runtime r0 r1 r2 show ?thesis by (simp add: run_plan_def cong: option.case_cong)
  qed
qed

definition sample_words :: "string list" where
  "sample_words = [''--proxy-upstream'', ''[::1]:8081'', ''--threads'', ''2'', ''--proxy-cache-ttl-ms'', ''500'', ''--proxy-cache-max-bytes'', ''65536'']"

definition sample_options :: options where
  "sample_options = (options_default 0)\<lparr>op_proxy_upstreams := [\<lparr>host = ''::1'', service = ''8081''\<rparr>], op_threads := 2,
     op_cache_ttl_ms := Some 500, op_cache_max_bytes := Some 65536\<rparr>"

definition sample_plan :: plan where
  "sample_plan = \<lparr>pl_global_rate_limit = None, pl_proxy_route_limit = None,
     pl_proxy_cache = Some \<lparr>ttl = 500, max_entry_bytes = 65536, max_bytes = 65536, cc_shard_count = 1, vary_headers = []\<rparr>\<rparr>"

lemma sample_command_line: "command_line (\<lambda>_. None) 0 sample_words = Inr (Serve_Plan sample_options sample_plan)"
  by code_simp

theorem accepted_command_line_builds_witness:
  "\<exists>runtime routed gp. run_plan True sample_options sample_plan 0 = Inr (runtime, routed, gp) \<and> length (gp_checkers gp) = 1"
proof -
  have "\<forall>t \<in> set_option (op_cache_ttl_ms sample_options). t < 2 ^ 63" "op_proxy_upstreams sample_options \<noteq> []"
    by (simp_all add: sample_options_def)
  from accepted_command_line_builds [OF sample_command_line this(1), of 0] this(2) show ?thesis by simp
qed

text \<open>A longer cache lifetime is accepted, turns negative, and stops the start.\<close>

lemma huge_cache_ttl_stops_the_start:
  "cache_of (2 ^ 63) 65536 None None = Inr c \<Longrightarrow> ResponseCache_make c = Inl Invalid_Argument"
  by (auto simp: cache_of_def to_milliseconds_def ResponseCache_make_def Let_def split: if_splits)

end
