(* ===== verification/FileService.thy ===== *)
theory FileService
  imports Messages "HOL-Library.Multiset"
begin

text \<open>
  Static files: \<open>src/http/file_service.cpp\<close> and \<open>src/http/static_file_handler.cpp\<close>. A path the handler builds is its
  text; a canonical path is the list of its names below \<open>/\<close>. The file system, which answers to
  canonical paths, is a parameter, and does not change while one file is read.
\<close>

section \<open>Percent decoding and media types\<close>

text \<open>None for the \<open>-1\<close> of a character that is no digit.\<close>

definition hexValue :: "char \<Rightarrow> nat option" where
  "hexValue c =
     (let n = char_code c
      in if 48 \<le> n \<and> n \<le> 57 then Some (n - 48)
         else if 97 \<le> n \<and> n \<le> 102 then Some (n - 97 + 10)
         else if 65 \<le> n \<and> n \<le> 70 then Some (n - 65 + 10)
         else None)"

definition keep_decoded :: "char \<Rightarrow> string option \<Rightarrow> string option" where
  "keep_decoded c rest = (if c = NUL \<or> c = CHR 0x5C then None else map_option (Cons c) rest)"

fun percentDecodePath :: "string \<Rightarrow> string option" where
  "percentDecodePath [] = Some []"
| "percentDecodePath (c # cs) =
     (if c = CHR ''%'' then
        (case cs of
           h # l # rest \<Rightarrow>
             (case (hexValue h, hexValue l) of
                (Some high, Some low) \<Rightarrow> keep_decoded (char_of (high * 16 + low)) (percentDecodePath rest)
              | _ \<Rightarrow> None)
         | _ \<Rightarrow> None)
      else keep_decoded c (percentDecodePath cs))"

text \<open>\<open>path::extension\<close> of a file name.\<close>

definition extension :: "string \<Rightarrow> string" where
  "extension name =
     (if name = ''.'' \<or> name = ''..'' then []
      else case rfind_char (CHR ''.'') name of None \<Rightarrow> [] | Some 0 \<Rightarrow> [] | Some k \<Rightarrow> drop k name)"

definition mimeTypeForPath :: "string list \<Rightarrow> string" where
  "mimeTypeForPath path =
     (let ext = lower (extension (if path = [] then [] else last path))
      in if ext = ''.html'' \<or> ext = ''.htm'' then ''text/html; charset=utf-8''
         else if ext = ''.css'' then ''text/css; charset=utf-8''
         else if ext = ''.js'' then ''application/javascript''
         else if ext = ''.json'' then ''application/json''
         else if ext = ''.txt'' then ''text/plain; charset=utf-8''
         else if ext = ''.png'' then ''image/png''
         else if ext = ''.jpg'' \<or> ext = ''.jpeg'' then ''image/jpeg''
         else ''application/octet-stream'')"

section \<open>Paths\<close>

text \<open>The pieces between the separators; one more than there are separators.\<close>

fun split_slash :: "string \<Rightarrow> string list" where
  "split_slash [] = [[]]"
| "split_slash (c # cs) =
     (if c = CHR ''/'' then [] # split_slash cs
      else case split_slash cs of p # ps \<Rightarrow> (c # p) # ps | [] \<Rightarrow> [[c]])"

text \<open>The elements of a relative path: a run of separators counts once, a last one leaves an empty element.\<close>

definition path_elements :: "string \<Rightarrow> string list" where
  "path_elements p =
     (let ps = split_slash p
      in filter (\<lambda>e. e \<noteq> []) ps @ (if p \<noteq> [] \<and> last ps = [] then [[]] else []))"

text \<open>\<open>lexically_normal\<close> of a relative path.\<close>

definition normal_step :: "string list \<Rightarrow> string \<Rightarrow> string list" where
  "normal_step out e =
     (if e = [] \<or> e = ''.'' then out
      else if e = ''..'' \<and> out \<noteq> [] \<and> last out \<noteq> ''..'' then butlast out
      else out @ [e])"

fun join_slash :: "string list \<Rightarrow> string" where
  "join_slash [] = []"
| "join_slash [e] = e"
| "join_slash (e # es) = e @ ''/'' @ join_slash es"

definition lexically_normal :: "string \<Rightarrow> string" where
  "lexically_normal p =
     (if p = [] then []
      else
        let ps = split_slash p;
            out = foldl normal_step [] ps;
            slash = (last ps = [] \<or> last ps = ''.'' \<or> last ps = ''..'') \<and> out \<noteq> [] \<and> last out \<noteq> ''..''
        in if out = [] then ''.'' else join_slash out @ (if slash then ''/'' else []))"

definition is_absolute :: "string \<Rightarrow> bool" where
  "is_absolute p = (p \<noteq> [] \<and> hd p = CHR ''/'')"

text \<open>\<open>operator/\<close>.\<close>

definition path_append :: "string \<Rightarrow> string \<Rightarrow> string" where
  "path_append base p =
     (if is_absolute p then p
      else if base = [] \<or> last base = CHR ''/'' then base @ p else base @ ''/'' @ p)"

text \<open>\<open>relative\<close> of canonical paths, as its elements.\<close>

fun relative_to :: "string list \<Rightarrow> string list \<Rightarrow> string list" where
  "relative_to path [] = (if path = [] then [''.''] else path)"
| "relative_to [] (b # bs) = replicate (length (b # bs)) ''..''"
| "relative_to (a # as) (b # bs) =
     (if a = b then relative_to as bs else replicate (length (b # bs)) ''..'' @ (a # as))"

definition isBelow :: "string list \<Rightarrow> string list \<Rightarrow> bool" where
  "isBelow root_dir candidate =
     (let relative = relative_to candidate root_dir
      in if relative = [] then False else list_all (\<lambda>e. e \<noteq> ''..'') relative)"

section \<open>Reading a file\<close>

datatype FileStatus = FS_Ok | FS_NotFound | FS_Forbidden | FS_TooLarge | FS_Busy | FS_InternalError

record FileResult =
  fr_status :: FileStatus
  fr_path :: "string list"
  fr_body :: string

definition failure :: "FileStatus \<Rightarrow> FileResult" where
  "failure s = \<lparr>fr_status = s, fr_path = [], fr_body = []\<rparr>"

text \<open>
  What the file system answers; \<open>open_file\<close> gives what the stream delivers, and whether it goes bad before
  the end of the file.
\<close>

record filesystem =
  canonical_dir :: "string \<Rightarrow> string list option"
  weakly_canonical :: "string \<Rightarrow> string list option"
  exists_file :: "string list \<Rightarrow> bool"
  is_regular_file :: "string list \<Rightarrow> bool"
  file_size :: "string list \<Rightarrow> nat option"
  open_file :: "string list \<Rightarrow> (string \<times> bool) option"

text \<open>A stream that ends early leaves the rest of the buffer zero.\<close>

definition readInWorker :: "filesystem \<Rightarrow> string list \<Rightarrow> string \<Rightarrow> nat \<Rightarrow> FileResult" where
  "readInWorker fs root_dir path maximum_bytes =
     (case weakly_canonical fs path of
        None \<Rightarrow> failure FS_NotFound
      | Some candidate \<Rightarrow>
          if \<not> isBelow root_dir candidate then failure FS_Forbidden
          else if \<not> exists_file fs candidate then failure FS_NotFound
          else if \<not> is_regular_file fs candidate then failure FS_Forbidden
          else
            (case file_size fs candidate of
               None \<Rightarrow> failure FS_InternalError
             | Some n \<Rightarrow>
                 if maximum_bytes < n then failure FS_TooLarge
                 else
                   (case open_file fs candidate of
                      None \<Rightarrow> failure FS_InternalError
                    | Some (bytes, bad) \<Rightarrow>
                        if bad \<and> length bytes < n then failure FS_InternalError
                        else \<lparr>fr_status = FS_Ok, fr_path = candidate,
                              fr_body = take n bytes @ replicate (n - length bytes) NUL\<rparr>)))"

section \<open>The service\<close>

text \<open>A read that got a slot is a job of the pool until a worker has run it.\<close>

record BoundedFileService =
  service_root :: "string list"
  queue_capacity :: nat
  pending :: nat
  jobs :: "(nat \<times> string \<times> nat) list"
  replies :: "(nat \<times> FileResult) list"

definition BoundedFileService_make :: "filesystem \<Rightarrow> string \<Rightarrow> nat \<Rightarrow> nat \<Rightarrow> BoundedFileService outcome" where
  "BoundedFileService_make fs document_root worker_count capacity =
     (if worker_count = 0 \<or> capacity = 0 then Inl Invalid_Argument
      else case canonical_dir fs document_root of
             None \<Rightarrow> Inl Invalid_Argument
           | Some d \<Rightarrow> Inr \<lparr>service_root = d, queue_capacity = capacity, pending = 0, jobs = [], replies = []\<rparr>)"

definition tryAcquireSlot :: "BoundedFileService \<Rightarrow> bool \<times> BoundedFileService" where
  "tryAcquireSlot s = (if pending s < queue_capacity s then (True, s\<lparr>pending := pending s + 1\<rparr>) else (False, s))"

definition releaseSlot :: "BoundedFileService \<Rightarrow> BoundedFileService" where
  "releaseSlot s = s\<lparr>pending := (if pending s = 0 then size_max else pending s - 1)\<rparr>"

definition service_read :: "nat \<Rightarrow> string \<Rightarrow> nat \<Rightarrow> BoundedFileService \<Rightarrow> BoundedFileService" where
  "service_read k path maximum_bytes s =
     (case tryAcquireSlot s of
        (False, s1) \<Rightarrow> s1\<lparr>replies := replies s1 @ [(k, failure FS_Busy)]\<rparr>
      | (True, s1) \<Rightarrow> s1\<lparr>jobs := jobs s1 @ [(k, path, maximum_bytes)]\<rparr>)"

text \<open>A worker runs a job of the pool, any of those it has.\<close>

definition run_job :: "filesystem \<Rightarrow> nat \<Rightarrow> BoundedFileService \<Rightarrow> BoundedFileService" where
  "run_job fs i s =
     (if i < length (jobs s) then
        (case jobs s ! i of
           (k, path, maximum_bytes) \<Rightarrow>
             (let result = readInWorker fs (service_root s) path maximum_bytes;
                  s1 = releaseSlot (s\<lparr>jobs := take i (jobs s) @ drop (Suc i) (jobs s)\<rparr>)
              in s1\<lparr>replies := replies s1 @ [(k, result)]\<rparr>))
      else s)"

section \<open>The handler\<close>

definition makeStaticError :: "int \<Rightarrow> string \<Rightarrow> string \<Rightarrow> HttpResponse" where
  "makeStaticError status reason body =
     HttpResponse_default\<lparr>rs_status_code := status, rs_reason := reason, rs_body := body,
       rs_headers := headers_add [] ''Content-Type'' ''text/plain''\<rparr>"

record StaticFileHandler =
  document_root :: string
  maximum_bytes :: nat

definition StaticFileHandler_make :: "string \<Rightarrow> bool \<Rightarrow> nat \<Rightarrow> StaticFileHandler outcome" where
  "StaticFileHandler_make d has_files limit =
     (if \<not> has_files \<or> limit = 0 then Inl Invalid_Argument else Inr \<lparr>document_root = d, maximum_bytes = limit\<rparr>)"

definition static_forbidden :: HttpResponse where
  "static_forbidden = makeStaticError 403 ''Forbidden'' (''forbidden'' @ [LF])"

definition static_not_found :: HttpResponse where
  "static_not_found = makeStaticError 404 ''Not Found'' (''not found'' @ [LF])"

text \<open>Before the read: a response, or the path to read.\<close>

definition static_path :: "StaticFileHandler \<Rightarrow> HttpRequest \<Rightarrow> HttpResponse + string" where
  "static_path h rq =
     (let path = upto (find_char (CHR ''?'') (rq_target rq)) (rq_target rq)
      in if take 8 path \<noteq> ''/static/'' then Inl static_not_found
         else
           case percentDecodePath (drop 8 path) of
             None \<Rightarrow> Inl static_forbidden
           | Some decoded \<Rightarrow>
               if decoded = [] then Inl static_forbidden
               else if is_absolute decoded \<or> \<not> list_all (\<lambda>e. e \<noteq> ''..'') (path_elements decoded) then Inl static_forbidden
               else Inr (path_append (document_root h) (lexically_normal decoded)))"

text \<open>After it.\<close>

definition static_response :: "FileResult \<Rightarrow> HttpResponse" where
  "static_response r =
     (case fr_status r of
        FS_Ok \<Rightarrow> HttpResponse_default\<lparr>rs_body := fr_body r,
          rs_headers := headers_add [] ''Content-Type'' (mimeTypeForPath (fr_path r))\<rparr>
      | FS_NotFound \<Rightarrow> static_not_found
      | FS_Forbidden \<Rightarrow> static_forbidden
      | FS_TooLarge \<Rightarrow> makeStaticError 413 ''Content Too Large'' (''static file too large'' @ [LF])
      | FS_Busy \<Rightarrow> makeStaticError 503 ''Service Unavailable'' (''file service busy'' @ [LF])
      | FS_InternalError \<Rightarrow> makeStaticError 500 ''Internal Server Error'' (''static file error'' @ [LF]))"

text \<open>The handler over a service that has a slot.\<close>

definition serve_static :: "filesystem \<Rightarrow> string list \<Rightarrow> StaticFileHandler \<Rightarrow> HttpRequest \<Rightarrow> HttpResponse" where
  "serve_static fs root_dir h rq =
     (case static_path h rq of
        Inl r \<Rightarrow> r
      | Inr path \<Rightarrow> static_response (readInWorker fs root_dir path (maximum_bytes h)))"

section \<open>Lemmas\<close>

lemma isBelow_iff: "isBelow root_dir c \<longleftrightarrow> (\<exists>rest. c = root_dir @ rest \<and> ''..'' \<notin> set rest)"
proof -
  have "(relative_to c root_dir \<noteq> [] \<and> list_all (\<lambda>e. e \<noteq> ''..'') (relative_to c root_dir)) \<longleftrightarrow>
      (\<exists>rest. c = root_dir @ rest \<and> ''..'' \<notin> set rest)"
    by (induction c root_dir rule: relative_to.induct) (auto simp: list_all_iff)
  then show ?thesis by (cases "relative_to c root_dir = []") (simp_all add: isBelow_def Let_def)
qed

lemma readInWorker_Ok:
  assumes "fr_status (readInWorker fs root_dir path limit) = FS_Ok"
  obtains c n bytes bad where "weakly_canonical fs path = Some c" "isBelow root_dir c" "exists_file fs c" "is_regular_file fs c"
    "file_size fs c = Some n" "n \<le> limit" "open_file fs c = Some (bytes, bad)" "bad \<longrightarrow> n \<le> length bytes"
    "readInWorker fs root_dir path limit =
       \<lparr>fr_status = FS_Ok, fr_path = c, fr_body = take n bytes @ replicate (n - length bytes) NUL\<rparr>"
proof -
  have [simp]: "fr_status (failure x) = x" for x by (simp add: failure_def)
  show thesis using assms that
    by (auto simp: readInWorker_def split: option.splits if_splits prod.splits)
qed

lemma static_errors_not_200 [simp]:
  "rs_status_code static_forbidden = 403" "rs_status_code static_not_found = 404"
  "rs_status_code (makeStaticError st re b) = st"
  by (simp_all add: static_forbidden_def static_not_found_def makeStaticError_def)

lemma static_response_200: "rs_status_code (static_response r) = 200 \<Longrightarrow> fr_status r = FS_Ok \<and> rs_body (static_response r) = fr_body r"
  by (auto simp: static_response_def HttpResponse_default_def split: FileStatus.splits)

text \<open>The text of a normal relative path: no element leads upwards.\<close>

lemma split_slash_nonempty [simp]: "split_slash p \<noteq> []"
  by (cases p) (auto split: list.split)

lemma split_slash_pieces: "e \<in> set (split_slash p) \<Longrightarrow> CHR ''/'' \<notin> set e"
proof (induction p arbitrary: e)
  case (Cons c p)
  then show ?case by (cases "split_slash p") (auto split: if_splits)
qed simp

lemma split_slash_plain: "CHR ''/'' \<notin> set e \<Longrightarrow> split_slash e = [e]"
  by (induction e) auto

lemma split_slash_append: "CHR ''/'' \<notin> set e \<Longrightarrow> split_slash (e @ CHR ''/'' # p) = e # split_slash p"
  by (induction e) auto

lemma split_join:
  assumes "\<forall>e \<in> set es. CHR ''/'' \<notin> set e" "es \<noteq> []"
  shows "split_slash (join_slash es) = es \<and> split_slash (join_slash es @ ''/'') = es @ [[]]"
  using assms
proof (induction es rule: join_slash.induct)
  case (2 e)
  then show ?case using split_slash_append [of e "[]"] by (simp add: split_slash_plain)
next
  case (3 e e' es)
  then show ?case
    using split_slash_append [of e "join_slash (e' # es)"] split_slash_append [of e "join_slash (e' # es) @ ''/''"] by simp
qed simp

definition plain_name :: "string \<Rightarrow> bool" where
  "plain_name e \<longleftrightarrow> CHR ''/'' \<notin> set e \<and> e \<noteq> ''..'' \<and> e \<noteq> []"

lemma normal_steps:
  "\<forall>e \<in> set es. CHR ''/'' \<notin> set e \<and> e \<noteq> ''..'' \<Longrightarrow> list_all plain_name out \<Longrightarrow> list_all plain_name (foldl normal_step out es)"
proof (induction es arbitrary: out)
  case (Cons e es)
  have "plain_name e \<or> e = []" using Cons.prems(1) by (auto simp: plain_name_def)
  then have "list_all plain_name (normal_step out e)" using Cons.prems by (auto simp: normal_step_def)
  moreover have "\<forall>e \<in> set es. CHR ''/'' \<notin> set e \<and> e \<noteq> ''..''" using Cons.prems(1) by simp
  ultimately show ?case using Cons.IH by simp
qed simp

lemma join_slash_hd: "es \<noteq> [] \<Longrightarrow> hd es \<noteq> [] \<Longrightarrow> join_slash es \<noteq> [] \<and> hd (join_slash es) = hd (hd es)"
  by (cases es rule: join_slash.cases) auto

lemma lexically_normal_stays_below:
  assumes "''..'' \<notin> set (path_elements d)"
  shows "\<not> is_absolute (lexically_normal d) \<and> ''..'' \<notin> set (path_elements (lexically_normal d))"
proof (cases "d = []")
  case False
  define out where "out = foldl normal_step [] (split_slash d)"
  have "''..'' \<notin> set (split_slash d)" using assms by (auto simp: path_elements_def Let_def)
  then have "list_all plain_name out"
    using split_slash_pieces unfolding out_def by (intro normal_steps) auto
  then have out: "\<forall>e \<in> set out. CHR ''/'' \<notin> set e \<and> e \<noteq> ''..'' \<and> e \<noteq> []"
    by (simp add: list_all_iff plain_name_def)
  show ?thesis
  proof (cases "out = []")
    case True
    with False show ?thesis by (simp add: lexically_normal_def out_def [symmetric] is_absolute_def path_elements_def)
  next
    case some: False
    have hd: "join_slash out \<noteq> []" "hd (join_slash out) \<noteq> CHR ''/''"
      using join_slash_hd [OF some] out some by (auto simp: neq_Nil_conv)
    have t: "lexically_normal d = join_slash out \<or> lexically_normal d = join_slash out @ ''/''"
      using some False by (simp add: lexically_normal_def out_def [symmetric] Let_def)
    then have "split_slash (lexically_normal d) = out \<or> split_slash (lexically_normal d) = out @ [[]]"
      using split_join [of out] out some by metis
    then have "''..'' \<notin> set (path_elements (lexically_normal d))" using out by (auto simp: path_elements_def Let_def)
    moreover have "\<not> is_absolute (lexically_normal d)" using t hd by (auto simp: is_absolute_def)
    ultimately show ?thesis by simp
  qed
qed (simp add: lexically_normal_def is_absolute_def path_elements_def)

lemma static_path_Inr:
  assumes "static_path h rq = Inr p"
  obtains q where "p = path_append (document_root h) q" "\<not> is_absolute q" "''..'' \<notin> set (path_elements q)"
proof -
  obtain d where d: "list_all (\<lambda>e. e \<noteq> ''..'') (path_elements d)" "p = path_append (document_root h) (lexically_normal d)"
    using assms by (auto simp: static_path_def Let_def split: if_splits option.splits)
  then have "''..'' \<notin> set (path_elements d)" by (auto simp: list_all_iff)
  from lexically_normal_stays_below [OF this] d(2) that show thesis by blast
qed

text \<open>Percent encoding, as a client does it.\<close>

definition percent_encode :: "string \<Rightarrow> string" where
  "percent_encode s = concat (map (\<lambda>c. if isalnum c \<or> c \<in> set ''-._~/'' then [c]
     else [CHR ''%'', hex_digit (char_code c div 16), hex_digit (char_code c mod 16)]) s)"

lemma hexValue_hex_digit [simp]: "n < 16 \<Longrightarrow> hexValue (hex_digit n) = Some n"
  by (simp add: hexValue_def hex_digit_def Let_def)

lemma char_of_split [simp]: "char_of (char_code c div 16 * 16 + char_code c mod 16) = c"
  by (simp add: char_code_def)

lemma percent_encode_Cons: "percent_encode (c # s) = percent_encode [c] @ percent_encode s"
  by (simp add: percent_encode_def)

lemma percentDecode_encode_char:
  assumes "c \<noteq> NUL" "c \<noteq> CHR 0x5C"
  shows "percentDecodePath (percent_encode [c] @ s) = map_option (Cons c) (percentDecodePath s)"
proof (cases "isalnum c \<or> c \<in> set ''-._~/''")
  case True
  then have "c \<noteq> CHR ''%''" by (auto simp: isalnum_def char_code_def)
  with True assms show ?thesis by (simp add: percent_encode_def keep_decoded_def)
next
  case False
  have "char_code c div 16 < 16" using char_code_bound [of c] by (simp add: less_mult_imp_div_less)
  then have "percentDecodePath (percent_encode [c] @ s) =
      keep_decoded (char_of (char_code c div 16 * 16 + char_code c mod 16)) (percentDecodePath s)"
    using False by (simp add: percent_encode_def del: char_of_split)
  also have "\<dots> = keep_decoded c (percentDecodePath s)" by (simp only: char_of_split)
  finally show ?thesis using assms by (simp add: keep_decoded_def)
qed

lemma keep_decoded_Some: "keep_decoded c r = Some d \<longleftrightarrow> c \<noteq> NUL \<and> c \<noteq> CHR 0x5C \<and> (\<exists>t. r = Some t \<and> d = c # t)"
  by (auto simp: keep_decoded_def)

lemma percentDecodePath_clean: "percentDecodePath s = Some d \<Longrightarrow> NUL \<notin> set d \<and> CHR 0x5C \<notin> set d \<and> length d \<le> length s"
proof (induction s arbitrary: d rule: percentDecodePath.induct)
  case (2 c cs)
  show ?case
  proof (cases "c = CHR ''%''")
    case True
    with 2(3) obtain h l t high low u where "cs = h # l # t" "hexValue h = Some high" "hexValue l = Some low"
        "percentDecodePath t = Some u" "d = char_of (high * 16 + low) # u" "char_of (high * 16 + low) \<noteq> NUL"
        "char_of (high * 16 + low) \<noteq> CHR 0x5C"
      by (auto simp: keep_decoded_Some split: list.splits option.splits)
    with 2(1) True show ?thesis by fastforce
  next
    case False
    with 2(3) obtain u where "percentDecodePath cs = Some u" "d = c # u" "c \<noteq> NUL" "c \<noteq> CHR 0x5C"
      by (auto simp: keep_decoded_Some)
    with 2(2) False show ?thesis by fastforce
  qed
qed simp

text \<open>Histories of the service: reads that come in, and workers that run any job of the pool.\<close>

datatype service_op = Read_File nat string nat | Run_Job nat

fun service_step :: "filesystem \<Rightarrow> BoundedFileService \<Rightarrow> service_op \<Rightarrow> BoundedFileService" where
  "service_step fs s (Read_File k path limit) = service_read k path limit s"
| "service_step fs s (Run_Job i) = run_job fs i s"

definition reads_of :: "service_op list \<Rightarrow> nat list" where
  "reads_of ops = concat (map (\<lambda>op. case op of Read_File k path limit \<Rightarrow> [k] | Run_Job i \<Rightarrow> []) ops)"

definition service_inv :: "service_op list \<Rightarrow> nat \<Rightarrow> BoundedFileService \<Rightarrow> bool" where
  "service_inv ops capacity s \<longleftrightarrow>
     queue_capacity s = capacity \<and> pending s = length (jobs s) \<and> length (jobs s) \<le> capacity \<and>
     mset (map fst (replies s)) + mset (map fst (jobs s)) = mset (reads_of ops)"

lemma service_inv_step:
  assumes "service_inv ops capacity s"
  shows "service_inv (ops @ [op]) capacity (service_step fs s op)"
proof (cases op)
  case (Read_File k path limit)
  with assms show ?thesis
    by (auto simp: service_inv_def reads_of_def service_read_def tryAcquireSlot_def)
next
  case (Run_Job i)
  show ?thesis
  proof (cases "i < length (jobs s)")
    case True
    obtain k path limit where job: "jobs s ! i = (k, path, limit)" by (metis surj_pair)
    from id_take_nth_drop [OF True] have "jobs s = take i (jobs s) @ (k, path, limit) # drop (Suc i) (jobs s)" by (simp add: job)
    then have "mset (map fst (jobs s)) = mset (map fst (take i (jobs s) @ (k, path, limit) # drop (Suc i) (jobs s)))" by simp
    then have "mset (map fst (jobs s)) = add_mset k (mset (map fst (take i (jobs s) @ drop (Suc i) (jobs s))))" by simp
    with assms Run_Job True job show ?thesis
      by (auto simp: service_inv_def reads_of_def run_job_def releaseSlot_def Let_def)
  qed (use assms Run_Job in \<open>simp add: service_inv_def reads_of_def run_job_def\<close>)
qed

lemma service_inv_history:
  assumes "BoundedFileService_make fs d workers capacity = Inr s0"
  shows "service_inv ops capacity (foldl (service_step fs) s0 ops)"
proof (induction ops rule: rev_induct)
  case Nil
  show ?case using assms by (auto simp: BoundedFileService_make_def service_inv_def reads_of_def split: if_splits option.splits)
qed (simp add: service_inv_step)

section \<open>Properties\<close>

text \<open>
  C14: a static response never leaves the document root. Whatever the request target and the file system,
  a 200 carries the bytes of a regular file, within the size limit, whose canonical path lies below the
  root; and the path asked for is the root followed by a relative path without a step upwards.
\<close>

theorem static_files_stay_below_the_root:
  assumes "rs_status_code (serve_static fs root_dir h rq) = 200"
  shows "\<exists>q rest n bytes bad.
     static_path h rq = Inr (path_append (document_root h) q) \<and> \<not> is_absolute q \<and> ''..'' \<notin> set (path_elements q) \<and>
     weakly_canonical fs (path_append (document_root h) q) = Some (root_dir @ rest) \<and> ''..'' \<notin> set rest \<and>
     is_regular_file fs (root_dir @ rest) \<and> file_size fs (root_dir @ rest) = Some n \<and> n \<le> maximum_bytes h \<and>
     open_file fs (root_dir @ rest) = Some (bytes, bad) \<and>
     rs_body (serve_static fs root_dir h rq) = take n bytes @ replicate (n - length bytes) NUL"
proof (cases "static_path h rq")
  case (Inl r)
  then have "r = static_forbidden \<or> r = static_not_found"
    by (auto simp: static_path_def Let_def split: if_splits option.splits)
  with assms Inl show ?thesis by (auto simp: serve_static_def)
next
  case (Inr p)
  from static_path_Inr [OF this] obtain q where
    q: "p = path_append (document_root h) q" "\<not> is_absolute q" "''..'' \<notin> set (path_elements q)" .
  let ?f = "readInWorker fs root_dir p (maximum_bytes h)"
  have r: "serve_static fs root_dir h rq = static_response ?f" using Inr by (simp add: serve_static_def)
  have ok: "fr_status ?f = FS_Ok" "rs_body (static_response ?f) = fr_body ?f" using static_response_200 assms r by auto
  from readInWorker_Ok [OF ok(1)] obtain c n bytes bad where
    c: "weakly_canonical fs p = Some c" "isBelow root_dir c" "is_regular_file fs c" "file_size fs c = Some n"
      "n \<le> maximum_bytes h" "open_file fs c = Some (bytes, bad)"
      "?f = \<lparr>fr_status = FS_Ok, fr_path = c, fr_body = take n bytes @ replicate (n - length bytes) NUL\<rparr>" .
  from c(2) obtain rest where "c = root_dir @ rest" "''..'' \<notin> set rest" by (auto simp: isBelow_iff)
  with q c ok(2) r Inr show ?thesis by auto
qed

text \<open>A directory with one file, and a link out of it.\<close>

definition sample_files :: filesystem where
  "sample_files =
     \<lparr>canonical_dir = (\<lambda>p. Some [''srv'']),
      weakly_canonical = (\<lambda>p. if p = ''/srv/link'' then Some [''etc'', ''passwd''] else if p = ''/srv/a.txt'' then Some [''srv'', ''a.txt''] else None),
      exists_file = (\<lambda>c. True), is_regular_file = (\<lambda>c. True), file_size = (\<lambda>c. Some 2), open_file = (\<lambda>c. Some (''hi'', False))\<rparr>"

definition sample_handler :: StaticFileHandler where
  "sample_handler = \<lparr>document_root = ''/srv'', maximum_bytes = 100\<rparr>"

lemma sample_static_runs:
  "rs_status_code (serve_static sample_files [''srv''] sample_handler (HttpRequest_default\<lparr>rq_target := ''/static/%61.txt?x''\<rparr>)) = 200"
  "rs_status_code (serve_static sample_files [''srv''] sample_handler (HttpRequest_default\<lparr>rq_target := ''/static/link''\<rparr>)) = 403"
  "rs_status_code (serve_static sample_files [''srv''] sample_handler (HttpRequest_default\<lparr>rq_target := ''/static/a/%2e%2E/b''\<rparr>)) = 403"
  by code_simp+

theorem static_files_stay_below_the_root_witness:
  "\<exists>rest n bytes bad. file_size sample_files ([''srv''] @ rest) = Some n \<and> n \<le> 100 \<and> open_file sample_files ([''srv''] @ rest) = Some (bytes, bad)"
  using static_files_stay_below_the_root [OF sample_static_runs(1)] by (auto simp: sample_handler_def)

text \<open>
  the percent decoder inverts percent encoding: any path without a zero byte or a backslash, encoded as
  clients encode it, decodes to itself.
\<close>

theorem percent_decode_encode:
  assumes "NUL \<notin> set s" "CHR 0x5C \<notin> set s"
  shows "percentDecodePath (percent_encode s) = Some s"
  using assms
proof (induction s)
  case (Cons c s)
  then have "percentDecodePath (percent_encode (c # s)) = map_option (Cons c) (percentDecodePath (percent_encode s))"
    using percentDecode_encode_char [of c] by (subst percent_encode_Cons) auto
  with Cons show ?case by simp
qed (simp add: percent_encode_def)

theorem percent_decode_encode_witness:
  "percent_encode ''a b%'' = ''a%20b%25'' \<and> percentDecodePath (percent_encode ''a b%'') = Some ''a b%''"
proof
  show "percent_encode ''a b%'' = ''a%20b%25''" by code_simp
  show "percentDecodePath (percent_encode ''a b%'') = Some ''a b%''" by (rule percent_decode_encode) auto
qed

text \<open>
  the file service stays within its queue and answers every read once. After any history of reads and
  worker runs the slots taken are exactly the jobs outstanding, at most the capacity, and the reads
  answered together with the jobs outstanding are exactly the reads asked for.
\<close>

theorem file_reads_are_bounded_and_answered:
  assumes "BoundedFileService_make fs d workers capacity = Inr s0" "s = foldl (service_step fs) s0 ops"
  shows "pending s = length (jobs s) \<and> length (jobs s) \<le> capacity \<and>
     mset (map fst (replies s)) + mset (map fst (jobs s)) = mset (reads_of ops)"
  using service_inv_history [OF assms(1), of ops] assms(2) by (simp add: service_inv_def)

theorem file_reads_are_bounded_and_answered_witness:
  "\<exists>s0. BoundedFileService_make sample_files ''/srv'' 1 1 = Inr s0 \<and>
     length (jobs (foldl (service_step sample_files) s0 [Read_File 7 ''/srv/a.txt'' 9, Read_File 8 ''/srv/a.txt'' 9])) \<le> 1"
proof -
  let ?s0 = "\<lparr>service_root = [''srv''], queue_capacity = 1, pending = 0, jobs = [], replies = []\<rparr> :: BoundedFileService"
  have "BoundedFileService_make sample_files ''/srv'' 1 1 = Inr ?s0" by (simp add: BoundedFileService_make_def sample_files_def)
  with file_reads_are_bounded_and_answered [OF this refl] show ?thesis by blast
qed

end
