(* ===== verification/SyncServer.thy ===== *)
theory SyncServer
  imports Prelude "HOL-Library.Sublist"
begin

text \<open>
  The synchronous baseline server, \<open>src/net/sync_http_server.cpp\<close>. A connection is the list of byte runs that
  arrive before the peer closes or fails; a read returns at most what was asked and leaves the rest.
  The address conversion and the socket calls of the constructor are parameters.
\<close>

section \<open>Requests and responses\<close>

datatype RequestStatus = RQ_ok | RQ_bad_request | RQ_method_not_allowed

definition kReadBufferBytes :: nat where
  "kReadBufferBytes = 4096"

definition kMaxHeaderBytes :: nat where
  "kMaxHeaderBytes = 16 * 1024"

definition kHeaderTerminator :: string where
  "kHeaderTerminator = [CR, LF, CR, LF]"

definition validateRequestLine :: "string \<Rightarrow> RequestStatus" where
  "validateRequestLine request =
     (case find_crlf request of
        None \<Rightarrow> RQ_bad_request
      | Some line_end \<Rightarrow>
          (let line = take line_end request
           in case find_char SP line of
                None \<Rightarrow> RQ_bad_request
              | Some first_space \<Rightarrow>
                  (case find_char_from SP (first_space + 1) line of
                     None \<Rightarrow> RQ_bad_request
                   | Some second_space \<Rightarrow>
                       if find_char_from SP (second_space + 1) line \<noteq> None then RQ_bad_request
                       else
                         let meth = take first_space line;
                             target = take (second_space - first_space - 1) (drop (first_space + 1) line);
                             vers = drop (second_space + 1) line
                         in if target = [] \<or> hd target \<noteq> CHR ''/'' \<or> (vers \<noteq> ''HTTP/1.1'' \<and> vers \<noteq> ''HTTP/1.0'')
                            then RQ_bad_request
                            else if meth = ''GET'' then RQ_ok else RQ_method_not_allowed)))"

definition makeResponse :: "string \<Rightarrow> string \<Rightarrow> string \<Rightarrow> string" where
  "makeResponse status text extra_headers =
     ''HTTP/1.1 '' @ status @ CRLF @ ''Content-Type: text/plain'' @ CRLF @ ''Content-Length: '' @ to_string (length text) @
     CRLF @ ''Connection: close'' @ CRLF @ extra_headers @ CRLF @ text"

definition too_large_response :: string where
  "too_large_response = makeResponse ''431 Request Header Fields Too Large'' (''request header fields too large'' @ [LF]) []"

definition status_response :: "RequestStatus \<Rightarrow> string" where
  "status_response s =
     (case s of
        RQ_ok \<Rightarrow> makeResponse ''200 OK'' (''hello world'' @ [LF]) []
      | RQ_method_not_allowed \<Rightarrow> makeResponse ''405 Method Not Allowed'' (''method not allowed'' @ [LF]) (''Allow: GET'' @ CRLF)
      | RQ_bad_request \<Rightarrow> makeResponse ''400 Bad Request'' (''bad request'' @ [LF]) [])"

section \<open>A connection\<close>

fun has_terminator :: "string \<Rightarrow> bool" where
  "has_terminator [] = False"
| "has_terminator (c # cs) = (take 4 (c # cs) = kHeaderTerminator \<or> has_terminator cs)"

text \<open>The bytes read and the answer written, if any; a failed read ends the connection silently.\<close>

function read_request_head :: "string \<Rightarrow> string list \<Rightarrow> string \<times> string option" where
  "read_request_head request runs =
     (if has_terminator request then (request, Some (status_response (validateRequestLine request)))
      else if kMaxHeaderBytes \<le> length request then (request, Some too_large_response)
      else
        case runs of
          [] \<Rightarrow> (request, None)
        | run # later \<Rightarrow>
            (let bytes_to_read = min kReadBufferBytes (kMaxHeaderBytes - length request)
             in read_request_head (request @ take bytes_to_read run)
                  (if length run \<le> bytes_to_read then later else drop bytes_to_read run # later)))"
  by pat_completeness auto
termination
proof (relation "measure (\<lambda>(request, runs). sum_list (map (Suc \<circ> length) runs))")
  fix request :: string and runs later :: "string list" and run :: string and bytes_to_read :: nat
  assume "\<not> kMaxHeaderBytes \<le> length request" "runs = run # later"
    "bytes_to_read = min kReadBufferBytes (kMaxHeaderBytes - length request)"
  then show "((request @ take bytes_to_read run, if length run \<le> bytes_to_read then later else drop bytes_to_read run # later),
      request, runs) \<in> measure (\<lambda>(request, runs). sum_list (map (Suc \<circ> length) runs))"
    by (auto simp: kReadBufferBytes_def)
qed simp

declare read_request_head.simps [simp del]

definition handleConnection :: "string list \<Rightarrow> string option" where
  "handleConnection runs = snd (read_request_head [] runs)"

section \<open>The server\<close>

record SyncHttpServer =
  sy_backlog :: int

text \<open>\<open>steps\<close>: whether open, the socket option, bind and listen succeed.\<close>

definition SyncHttpServer_make :: "int \<Rightarrow> bool \<Rightarrow> bool list \<Rightarrow> SyncHttpServer outcome" where
  "SyncHttpServer_make backlog address_ok steps =
     (if backlog \<le> 0 then Inl Invalid_Argument
      else if \<not> address_ok then Inl System_Error
      else if \<not> list_all id steps then Inl System_Error
      else Inr \<lparr>sy_backlog = backlog\<rparr>)"

text \<open>
  The accept loop: \<open>None\<close> is an accept that fails. The result is the answer of every connection handled, and
  whether the loop ended, with an error or not; it waits when no connection is left.
\<close>

datatype run_state = Run_Waiting | Run_Returned bool

fun sync_run :: "nat \<Rightarrow> nat \<Rightarrow> string list option list \<Rightarrow> string option list \<times> run_state" where
  "sync_run limit accepted conns =
     (if limit \<noteq> 0 \<and> limit \<le> accepted then ([], Run_Returned False)
      else
        case conns of
          [] \<Rightarrow> ([], Run_Waiting)
        | None # later \<Rightarrow> ([], Run_Returned True)
        | Some runs # later \<Rightarrow>
            (case sync_run limit (accepted + 1) later of (answers, st) \<Rightarrow> (handleConnection runs # answers, st)))"

declare sync_run.simps [simp del]

section \<open>Lemmas\<close>

lemma has_terminator_iff: "has_terminator s \<longleftrightarrow> (\<exists>u v. s = u @ kHeaderTerminator @ v)"
proof (induction s)
  case (Cons c s)
  have "take 4 (c # s) = kHeaderTerminator \<longleftrightarrow> (\<exists>v. c # s = kHeaderTerminator @ v)"
  proof -
    have "length kHeaderTerminator = 4" by (simp add: kHeaderTerminator_def)
    then show ?thesis by (metis append_eq_conv_conj append_take_drop_id)
  qed
  then show ?case using Cons.IH by (auto simp: Cons_eq_append_conv kHeaderTerminator_def)
qed (simp add: kHeaderTerminator_def)

lemma has_terminator_append: "has_terminator s \<Longrightarrow> has_terminator (s @ t)"
  unfolding has_terminator_iff by (metis append.assoc)

lemma terminator_has_crlf: "has_terminator s \<Longrightarrow> find_crlf s \<noteq> None"
proof (induction s rule: find_crlf.induct)
  case (1 x y xs)
  then show ?case by (auto simp: kHeaderTerminator_def)
qed (auto simp: kHeaderTerminator_def)

text \<open>The verdict depends on the first line alone.\<close>

lemma validateRequestLine_append:
  assumes "has_terminator s"
  shows "validateRequestLine (s @ t) = validateRequestLine s"
proof -
  obtain k where k: "find_crlf s = Some k" using terminator_has_crlf [OF assms] by blast
  then have "k \<le> length s" using find_crlf_SomeD by fastforce
  with k show ?thesis by (simp add: validateRequestLine_def find_crlf_append)
qed

text \<open>The answer as a function of the bytes sent.\<close>

definition reference_answer :: "string \<Rightarrow> string option" where
  "reference_answer s =
     (let window = take kMaxHeaderBytes s
      in if has_terminator window then Some (status_response (validateRequestLine window))
         else if length window = kMaxHeaderBytes then Some too_large_response else None)"

lemma read_request_head_reference:
  "length request \<le> kMaxHeaderBytes \<Longrightarrow>
     snd (read_request_head request runs) = reference_answer (request @ concat runs) \<and>
     length (fst (read_request_head request runs)) \<le> kMaxHeaderBytes"
proof (induction request runs rule: read_request_head.induct)
  case (1 request runs)
  let ?s = "request @ concat runs"
  have window: "take kMaxHeaderBytes ?s = request @ take (kMaxHeaderBytes - length request) (concat runs)"
    using 1(2) by simp
  show ?case
  proof (cases "has_terminator request")
    case True
    then show ?thesis
      using 1(2) has_terminator_append [OF True] validateRequestLine_append [OF True]
      by (subst (1 2) read_request_head.simps) (simp add: reference_answer_def Let_def window)
  next
    case open_head: False
    show ?thesis
    proof (cases "kMaxHeaderBytes \<le> length request \<or> runs = []")
      case True
      then show ?thesis
        using 1(2) open_head
        by (subst (1 2) read_request_head.simps) (auto simp: reference_answer_def Let_def)
    next
      case False
      then obtain run later where runs: "runs = run # later" by (cases runs) auto
      define k where "k = min kReadBufferBytes (kMaxHeaderBytes - length request)"
      let ?r = "request @ take k run"
      let ?l = "if length run \<le> k then later else drop k run # later"
      have "?r @ concat ?l = ?s" using runs by auto
      moreover have "length ?r \<le> kMaxHeaderBytes" using 1(2) by (auto simp: k_def)
      moreover have "read_request_head request runs = read_request_head ?r ?l"
        using open_head False runs by (subst read_request_head.simps) (simp add: Let_def k_def)
      ultimately show ?thesis using 1(1) [OF open_head _ runs k_def] False by simp
    qed
  qed
qed

section \<open>Properties\<close>

text \<open>
  the answer of the synchronous server does not depend on how the request was cut into packets. It is
  that of the first 16 KiB sent: the verdict on the request line if they hold the end of the header, the
  431 if they do not and are complete, silence if the peer stops before; and no more than 16 KiB are kept.
\<close>

theorem sync_answer_ignores_segmentation:
  "handleConnection runs = reference_answer (concat runs) \<and>
   length (fst (read_request_head [] runs)) \<le> kMaxHeaderBytes"
  using read_request_head_reference [of "[]" runs] by (simp add: handleConnection_def)

end
