(* ===== verification/SyncProgram.thy ===== *)
theory SyncProgram
  imports CommandLine SyncServer
begin

text \<open>
  The program of the synchronous baseline, \<open>app/pulsegate_sync_main.cpp\<close>: one option, one server, one accept
  loop. Its reader of addresses is a copy of the one in \<open>app/pulsegate_main.cpp\<close>.
\<close>

definition sync_parseListenAddress :: "string \<Rightarrow> ListenConfig parsed" where
  "sync_parseListenAddress v = parseListenAddress v"

text \<open>The words after the program's name; \<open>None\<close> when the usage was asked for.\<close>

fun sync_arguments :: "string list \<Rightarrow> ListenConfig \<Rightarrow> ListenConfig option parsed" where
  "sync_arguments [] c = Inr (Some c)"
| "sync_arguments (a # rest) c =
     (if a = ''--help'' \<or> a = ''-h'' then Inr None
      else
        case rest of
          [] \<Rightarrow> Inl (unknown_argument a)
        | v # rest' \<Rightarrow>
            if a = ''--listen'' then pbind (sync_parseListenAddress v) (\<lambda>c1. sync_arguments rest' c1)
            else Inl (unknown_argument a))"

text \<open>
  \<open>main\<close>: the answers given to clients and the exit status, \<open>None\<close> while the accept loop waits. \<open>address_ok\<close> and \<open>steps\<close>
  are the results of the address conversion and of the socket calls.
\<close>

definition sync_main :: "string list \<Rightarrow> (ListenConfig \<Rightarrow> bool) \<Rightarrow> bool list \<Rightarrow> string list option list \<Rightarrow> string option list \<times> nat option" where
  "sync_main words address_ok steps conns =
     (case sync_arguments words ListenConfig_default of
        Inl msg \<Rightarrow> ([], Some 1)
      | Inr None \<Rightarrow> ([], Some 0)
      | Inr (Some c) \<Rightarrow>
          (case SyncHttpServer_make (li_backlog c) (address_ok c) steps of
             Inl e \<Rightarrow> ([], Some 1)
           | Inr server \<Rightarrow>
               (case sync_run 0 0 conns of
                  (replies, Run_Waiting) \<Rightarrow> (replies, None)
                | (replies, Run_Returned error) \<Rightarrow> (replies, Some (if error then 1 else 0)))))"

text \<open>Without a limit the accept loop ends with an error only, and every connection before the error is answered.\<close>

lemma sync_run_unlimited:
  "sync_run 0 n conns =
     (map (\<lambda>c. handleConnection (the c)) (takeWhile (\<lambda>c. c \<noteq> None) conns),
      if None \<in> set conns then Run_Returned True else Run_Waiting)"
proof (induction conns arbitrary: n)
  case Nil
  show ?case by (simp add: sync_run.simps)
next
  case (Cons c conns)
  then show ?case by (subst sync_run.simps) (auto split: option.splits)
qed

lemma all_accepted: "None \<notin> set conns \<Longrightarrow> takeWhile (\<lambda>c. \<exists>y. c = Some y) conns = conns"
proof (induction conns)
  case (Cons c conns)
  then show ?case by (cases c) auto
qed simp

lemma address_keeps_backlog: "parseListenAddress v = Inr c \<Longrightarrow> li_backlog c = 1024"
  by (auto simp: parseListenAddress_def pbind_def ListenConfig_default_def split: sum.splits option.splits if_splits)

lemma arguments_keep_backlog:
  "sync_arguments words c = Inr (Some c') \<Longrightarrow> li_backlog c = 1024 \<Longrightarrow> li_backlog c' = 1024"
proof (induction words c rule: sync_arguments.induct)
  case (2 a rest c)
  then show ?case
    using address_keeps_backlog
    by (auto simp: sync_parseListenAddress_def pbind_def split: list.splits if_splits sum.splits)
qed simp

text \<open>
  The program never ends by itself once it serves: it exits with 0 only for the usage, with 1 for bad
  arguments, a server that cannot be built or a failed accept, and every connection accepted before is
  answered in order by the first 16 KiB it sent.
\<close>

theorem sync_program_exits:
  assumes "sync_main words address_ok steps conns = (replies, status)"
  shows "(status = Some 0 \<longleftrightarrow> sync_arguments words ListenConfig_default = Inr None) \<and>
     (status = None \<longrightarrow> None \<notin> set conns \<and> replies = map (\<lambda>c. reference_answer (concat (the c))) conns) \<and>
     (replies \<noteq> [] \<longrightarrow> replies = map (\<lambda>c. reference_answer (concat (the c))) (takeWhile (\<lambda>c. c \<noteq> None) conns))"
proof (cases "sync_arguments words ListenConfig_default")
  case (Inr what)
  have answer: "handleConnection runs = reference_answer (concat runs)" for runs
    using read_request_head_reference [of "[]" runs] by (simp add: handleConnection_def)
  show ?thesis
  proof (cases what)
    case (Some c)
    show ?thesis
    proof (cases "SyncHttpServer_make (li_backlog c) (address_ok c) steps")
      case (Inr server)
      with \<open>sync_arguments words ListenConfig_default = Inr what\<close> Some assms
      have "replies = map (\<lambda>c. reference_answer (concat (the c))) (takeWhile (\<lambda>c. \<exists>y. c = Some y) conns)"
          "status = (if None \<in> set conns then Some 1 else None)"
        by (auto simp: sync_main_def sync_run_unlimited answer split: if_splits)
      with \<open>sync_arguments words ListenConfig_default = Inr what\<close> Some show ?thesis by (simp add: all_accepted)
    qed (use assms \<open>sync_arguments words ListenConfig_default = Inr what\<close> Some in \<open>auto simp: sync_main_def\<close>)
  qed (use assms Inr in \<open>auto simp: sync_main_def\<close>)
qed (use assms in \<open>auto simp: sync_main_def\<close>)

end
