(* ===== verification/Transport.thy ===== *)
theory Transport
  imports ReverseProxy "HOL-Library.Multiset"
begin

text \<open>
  The transport object of a pooled connection, \<open>src/http/upstream_connection.cpp\<close>, and the two guards of the
  runtime: \<open>include/pulsegate/runtime/scope_exit.h\<close> and \<open>coroutine_guard.h\<close>. The resolver and the socket are the
  library's; modelled is what the object does with them: which operations are pending, which were
  aborted, and whether the socket is open.
\<close>

section \<open>Connections\<close>

record UpstreamConnection =
  uc_endpoint :: UpstreamEndpoint
  uc_open :: bool
  resolver_pending :: "nat list"
  socket_pending :: "nat list"
  uc_aborted :: "nat list"
  uc_posted :: nat

definition UpstreamConnection_make :: "UpstreamEndpoint \<Rightarrow> UpstreamConnection" where
  "UpstreamConnection_make e =
     \<lparr>uc_endpoint = e, uc_open = False, resolver_pending = [], socket_pending = [], uc_aborted = [], uc_posted = 0\<rparr>"

definition connection_isOpen :: "UpstreamConnection \<Rightarrow> bool" where
  "connection_isOpen c = uc_open c"

text \<open>\<open>cancelAndClose\<close> hands its work to the strand, with a reference that keeps the object alive.\<close>

definition cancelAndClose :: "UpstreamConnection \<Rightarrow> UpstreamConnection" where
  "cancelAndClose c = c\<lparr>uc_posted := uc_posted c + 1\<rparr>"

definition cancelAndCloseInStrand :: "UpstreamConnection \<Rightarrow> UpstreamConnection" where
  "cancelAndCloseInStrand c =
     c\<lparr>uc_aborted := uc_aborted c @ resolver_pending c @ socket_pending c, resolver_pending := [], socket_pending := [],
       uc_open := False\<rparr>"

text \<open>Operations are started with fresh numbers by the proxy session; a connect opens the socket.\<close>

datatype connection_event =
    Resolve_Starts nat
  | Socket_Starts nat bool
  | Completes nat
  | Close_Requested
  | Close_Runs

fun connection_step :: "connection_event \<Rightarrow> UpstreamConnection \<Rightarrow> UpstreamConnection" where
  "connection_step (Resolve_Starts i) c = c\<lparr>resolver_pending := resolver_pending c @ [i]\<rparr>"
| "connection_step (Socket_Starts i connects) c = c\<lparr>socket_pending := socket_pending c @ [i], uc_open := (uc_open c \<or> connects)\<rparr>"
| "connection_step (Completes i) c =
     c\<lparr>resolver_pending := remove1 i (resolver_pending c), socket_pending := remove1 i (socket_pending c)\<rparr>"
| "connection_step Close_Requested c = cancelAndClose c"
| "connection_step Close_Runs c =
     (if uc_posted c = 0 then c else cancelAndCloseInStrand (c\<lparr>uc_posted := uc_posted c - 1\<rparr>))"

text \<open>A close that runs leaves nothing pending and the socket closed; what was pending is aborted, in order.\<close>

lemma close_aborts_everything:
  assumes "uc_posted c \<noteq> 0"
  shows "let c1 = connection_step Close_Runs c
     in \<not> connection_isOpen c1 \<and> resolver_pending c1 = [] \<and> socket_pending c1 = [] \<and>
        uc_aborted c1 = uc_aborted c @ resolver_pending c @ socket_pending c"
  using assms by (simp add: cancelAndCloseInStrand_def connection_isOpen_def Let_def)

text \<open>An operation that is started is pending, aborted, or completed: none is forgotten.\<close>

definition started_by :: "connection_event list \<Rightarrow> nat set" where
  "started_by evs = {i. Resolve_Starts i \<in> set evs \<or> (\<exists>b. Socket_Starts i b \<in> set evs)}"

definition completed_by :: "connection_event list \<Rightarrow> nat set" where
  "completed_by evs = {i. Completes i \<in> set evs}"

lemma operations_are_accounted:
  "started_by evs \<subseteq> completed_by evs \<union> set (uc_aborted (fold connection_step evs (UpstreamConnection_make e)) @
     resolver_pending (fold connection_step evs (UpstreamConnection_make e)) @
     socket_pending (fold connection_step evs (UpstreamConnection_make e)))"
proof (induction evs rule: rev_induct)
  case Nil
  show ?case by (simp add: started_by_def)
next
  case (snoc ev evs)
  let ?c = "fold connection_step evs (UpstreamConnection_make e)"
  have "started_by (evs @ [ev]) = started_by evs \<union> started_by [ev]" "completed_by (evs @ [ev]) = completed_by evs \<union> completed_by [ev]"
    by (auto simp: started_by_def completed_by_def)
  with snoc show ?case
    by (cases ev) (auto simp: started_by_def completed_by_def cancelAndClose_def cancelAndCloseInStrand_def in_set_remove1 split: if_splits)
qed

section \<open>Scope guards\<close>

record 'f ScopeExit =
  se_function :: 'f
  se_active :: bool

definition makeScopeExit :: "'f \<Rightarrow> 'f ScopeExit" where
  "makeScopeExit f = \<lparr>se_function = f, se_active = True\<rparr>"

text \<open>The move constructor: the new guard and what is left of the other.\<close>

definition ScopeExit_move :: "'f ScopeExit \<Rightarrow> 'f ScopeExit \<times> 'f ScopeExit" where
  "ScopeExit_move other = (\<lparr>se_function = se_function other, se_active = se_active other\<rparr>, other\<lparr>se_active := False\<rparr>)"

definition ScopeExit_destroy :: "'f ScopeExit \<Rightarrow> 'f list" where
  "ScopeExit_destroy g = (if se_active g then [se_function g] else [])"

text \<open>Guards made from one another by moves, by position.\<close>

fun move_guards :: "nat list \<Rightarrow> 'f ScopeExit list \<Rightarrow> 'f ScopeExit list" where
  "move_guards [] gs = gs"
| "move_guards (i # moves) gs =
     (if i < length gs then (case ScopeExit_move (gs ! i) of (fresh, old) \<Rightarrow> move_guards moves (gs[i := old] @ [fresh]))
      else move_guards moves gs)"

definition armed :: "'f ScopeExit list \<Rightarrow> 'f multiset" where
  "armed gs = mset (concat (map ScopeExit_destroy gs))"

lemma move_keeps_armed:
  assumes "i < length gs" "ScopeExit_move (gs ! i) = (fresh, old)"
  shows "armed (gs[i := old] @ [fresh]) = armed gs"
proof -
  have "ScopeExit_destroy old = []" "ScopeExit_destroy fresh = ScopeExit_destroy (gs ! i)"
    using assms(2) by (auto simp: ScopeExit_move_def ScopeExit_destroy_def)
  moreover have "armed gs = armed (take i gs @ gs ! i # drop (Suc i) gs)" using id_take_nth_drop [OF assms(1)] by simp
  ultimately show ?thesis using assms(1) by (simp add: armed_def upd_conv_take_nth_drop)
qed

text \<open>However a guard is moved before the scope ends, destroying all that exist runs the function once.\<close>

lemma guard_runs_once: "concat (map ScopeExit_destroy (move_guards moves [makeScopeExit f])) = [f]"
proof -
  have "armed (move_guards moves gs) = armed gs" for gs :: "'a ScopeExit list"
    by (induction moves gs rule: move_guards.induct) (auto simp: move_keeps_armed split: prod.split)
  then have "armed (move_guards moves [makeScopeExit f]) = {#f#}"
    by (simp add: armed_def ScopeExit_destroy_def makeScopeExit_def)
  then show ?thesis by (simp add: armed_def mset_single_iff)
qed

text \<open>The completion handler of \<open>spawnGuarded\<close>: an exception that left the coroutine goes to the error handler, if there is one.\<close>

definition spawnGuarded_completes :: "string \<Rightarrow> ('e \<Rightarrow> string \<Rightarrow> 's \<Rightarrow> 's) option \<Rightarrow> 'e option \<Rightarrow> 's \<Rightarrow> 's" where
  "spawnGuarded_completes operation on_error error s =
     (case (error, on_error) of (Some e, Some f) \<Rightarrow> f e operation s | _ \<Rightarrow> s)"

end
