(* ===== verification/GatewayRun.thy ===== *)
theory GatewayRun
  imports GatewayProperties ServerProperties
begin

text \<open>
  The running program of \<open>app/pulsegate_main.cpp\<close>: the server, the configuration manager, the health checkers,
  the proxies and the worker threads, joined by the signal handlers and the callbacks that \<open>main\<close> installs.
  Every posted function, completion and signal is an event; handlers run on a worker thread, and one that
  throws ends its worker.
\<close>

section \<open>State\<close>

text \<open>The functions that \<open>stop\<close> of a checker and of a pool posts to its strand.\<close>

datatype shutdown_task = Stop_Checker nat | Stop_Pool nat nat

record serving_gateway =
  sg_server :: HttpServer
  sg_manager :: "ConfigManager option"
  sg_runtime :: AsioRuntime
  sg_checkers :: "HealthChecker list"
  sg_proxies :: "ReverseProxy list"
  sg_grace :: int
  sg_waiting :: bool
  sg_tasks :: "shutdown_task list"

text \<open>
  The end of \<open>runFromConfig\<close> and of \<open>main\<close>: the server is built on the router, the first wait for a signal
  begins, the server and the runtime start. \<open>address_ok\<close> and \<open>socket_ok\<close> are the results of the address
  conversion and of the socket calls.
\<close>

definition serve :: "ConfigManager option \<Rightarrow> AsioRuntime \<Rightarrow> Router \<Rightarrow> gateway_proxies \<Rightarrow> LoggerConfig \<Rightarrow> SessionLimits \<Rightarrow> int \<Rightarrow> int \<Rightarrow>
    bool \<Rightarrow> bool \<Rightarrow> serving_gateway outcome" where
  "serve manager runtime router gp lc limits backlog grace address_ok socket_ok =
     ebind (AsyncLogger_make lc) (\<lambda>lg.
     ebind (HttpServer_make (Some router) MetricsRegistry_default lg limits backlog address_ok socket_ok) (\<lambda>v.
     ebind (runtime_start runtime) (\<lambda>rt.
       Inr \<lparr>sg_server = server_start v, sg_manager = manager, sg_runtime = rt, sg_checkers = gp_checkers gp,
            sg_proxies = map snd (gp_proxies gp), sg_grace = grace, sg_waiting = True, sg_tasks = []\<rparr>)))"

definition serve_config :: "Config \<Rightarrow> prepared_gateway \<Rightarrow> bool \<Rightarrow> bool \<Rightarrow> serving_gateway outcome" where
  "serve_config loaded pg address_ok socket_ok =
     serve (Some (pg_manager pg)) (pg_runtime pg) (pg_router pg) (pg_proxies pg) (pg_logger pg) (pg_limits pg)
       (li_backlog (pg_listen pg)) (sc_graceful_shutdown (cf_server loaded)) address_ok socket_ok"

definition serve_plan :: "options \<Rightarrow> AsioRuntime \<times> Router \<times> gateway_proxies \<Rightarrow> bool \<Rightarrow> bool \<Rightarrow> serving_gateway outcome" where
  "serve_plan o1 built address_ok socket_ok =
     (case built of (runtime, router, gp) \<Rightarrow>
        serve None runtime router gp LoggerConfig_default SessionLimits_default (li_backlog (op_listen o1)) 15000 address_ok socket_ok)"

section \<open>Shutting down\<close>

definition made_pools :: "ReverseProxy \<Rightarrow> nat list" where
  "made_pools p = filter (\<lambda>j. pools p ! j \<noteq> None) [0..<length (pools p)]"

text \<open>The callback of the drain.\<close>

definition shut_down :: "serving_gateway \<Rightarrow> serving_gateway" where
  "shut_down sg =
     sg\<lparr>sg_tasks := sg_tasks sg @ map Stop_Checker [0..<length (sg_checkers sg)] @
          concat (map (\<lambda>i. map (Stop_Pool i) (made_pools (sg_proxies sg ! i))) [0..<length (sg_proxies sg)]),
        sg_runtime := requestStop (sg_runtime sg)\<rparr>"

definition stop_pool :: "nat \<Rightarrow> ReverseProxy \<Rightarrow> ReverseProxy" where
  "stop_pool j p = p\<lparr>pools := (pools p)[j := map_option (\<lambda>pool. fst (pool_stop pool)) (pools p ! j)]\<rparr>"

fun run_task :: "shutdown_task \<Rightarrow> serving_gateway \<Rightarrow> serving_gateway" where
  "run_task (Stop_Checker i) sg = sg\<lparr>sg_checkers := (sg_checkers sg)[i := stopInStrand (sg_checkers sg ! i)]\<rparr>"
| "run_task (Stop_Pool i j) sg = sg\<lparr>sg_proxies := (sg_proxies sg)[i := stop_pool j (sg_proxies sg ! i)]\<rparr>"

text \<open>The server after a turn in which it called the callback of the drain as often as it reported.\<close>

definition after_turn :: "HttpServer \<Rightarrow> serving_gateway \<Rightarrow> serving_gateway" where
  "after_turn v sg =
     (shut_down ^^ (length (reports v) - length (reports (sg_server sg)))) (sg\<lparr>sg_server := v\<rparr>)"

definition begin_shutdown :: "nat \<Rightarrow> serving_gateway \<Rightarrow> serving_gateway" where
  "begin_shutdown worker sg =
     (case server_beginDrain (sg_grace sg) True (sg_server sg) of
        Inl e \<Rightarrow> sg\<lparr>sg_runtime := runWorker worker True (sg_runtime sg)\<rparr>
      | Inr v \<Rightarrow> after_turn v sg)"

section \<open>Signals and reloads\<close>

text \<open>
  The handler of the signal set. Without a manager only SIGINT and SIGTERM are in the set and the error
  is not looked at; \<open>hup\<close> is a SIGHUP.
\<close>

definition signal_arrives :: "nat \<Rightarrow> bool \<Rightarrow> bool \<Rightarrow> serving_gateway \<Rightarrow> serving_gateway option" where
  "signal_arrives worker error hup sg =
     (if \<not> sg_waiting sg \<or> worker \<notin> set (workers (sg_runtime sg)) then None
      else
        let sg1 = sg\<lparr>sg_waiting := False\<rparr>
        in case sg_manager sg of
             None \<Rightarrow> if hup then None else Some (begin_shutdown worker sg1)
           | Some m \<Rightarrow>
               Some (if error then sg1
                     else if hup then sg1\<lparr>sg_manager := Some (requestReload (Some 0) m), sg_waiting := True\<rparr>
                     else begin_shutdown worker sg1))"

definition set_logging :: "LogLevel \<Rightarrow> bool \<Rightarrow> serving_gateway \<Rightarrow> serving_gateway" where
  "set_logging lv js sg =
     sg\<lparr>sg_server := (sg_server sg)\<lparr>srv_gateway := (srv_gateway (sg_server sg))
          \<lparr>gw_logger := setLogging (gw_logger (srv_gateway (sg_server sg))) lv js\<rparr>\<rparr>\<rparr>"

text \<open>The handler of a reload.\<close>

definition apply_reload :: "nat \<Rightarrow> ConfigReloadResult \<Rightarrow> serving_gateway \<Rightarrow> serving_gateway" where
  "apply_reload worker r sg =
     (case sg_manager sg of
        None \<Rightarrow> sg
      | Some m \<Rightarrow>
          if rr_published r then
            let logging = cf_logging (sn_value (cm_snapshot m))
            in case parseLogLevel (lo_level logging) of
                 Inl e \<Rightarrow> sg\<lparr>sg_runtime := runWorker worker True (sg_runtime sg)\<rparr>
               | Inr lv \<Rightarrow> set_logging lv (lo_format logging = ''json'') sg
          else sg)"

text \<open>A turn of the manager's strand, with the calls of the handler it makes.\<close>

definition manager_turn :: "nat \<Rightarrow> serving_gateway \<Rightarrow> serving_gateway option" where
  "manager_turn worker sg =
     (case sg_manager sg of
        None \<Rightarrow> None
      | Some m \<Rightarrow>
          (let m1 = run_strand m
           in if worker \<notin> set (workers (sg_runtime sg)) then None
              else Some (fold (\<lambda>(k, r). apply_reload worker r) (drop (length (cm_calls m)) (cm_calls m1)) (sg\<lparr>sg_manager := Some m1\<rparr>))))"

section \<open>Events\<close>

datatype gateway_event =
    Serves server_event
  | Signal nat bool bool
  | Manager_Turn nat
  | Load_Turn "string + (string + yaml)" int
  | Checker_Works nat checker_event
  | Pool_Made SessionId nat nat
  | Pool_Works nat nat pool_event
  | Shutdown_Turn nat
  | Worker_Ends nat bool

text \<open>Only \<open>main\<close> starts the server and begins its drain, and nothing stops it outright; likewise for checkers and pools.\<close>

fun own_event :: "server_event \<Rightarrow> bool" where
  "own_event (Begin_Drain grace cb) = False" | "own_event Stop_Server = False" | "own_event Start_Server = False" | "own_event ev = True"

fun own_checker_event :: "checker_event \<Rightarrow> bool" where
  "own_checker_event HE_Start = False" | "own_checker_event HE_Stop = False" | "own_checker_event ev = True"

fun own_pool_event :: "pool_event \<Rightarrow> bool" where
  "own_pool_event Ev_Stop = False" | "own_pool_event ev = True"

text \<open>\<open>poolFor\<close> runs before the proxy's handler first suspends, so the session that called the handler is still open.\<close>

definition in_open_handler :: "HttpServer \<Rightarrow> SessionId \<Rightarrow> bool" where
  "in_open_handler v sid =
     (case clients v sid of
        None \<Rightarrow> False
      | Some s \<Rightarrow> socket_open s \<and> (case where_at s of At_Handler sv pd w \<Rightarrow> True | _ \<Rightarrow> False))"

definition pool_works :: "nat \<Rightarrow> pool_event \<Rightarrow> ReverseProxy \<Rightarrow> ReverseProxy" where
  "pool_works j ev p = p\<lparr>pools := (pools p)[j := map_option (\<lambda>pool. fst (handle pool ev)) (pools p ! j)]\<rparr>"

fun gateway_step :: "(real \<Rightarrow> real) \<Rightarrow> (string \<Rightarrow> nat) \<Rightarrow> HttpRequest \<Rightarrow> yaml_library \<Rightarrow> gateway_event \<Rightarrow> serving_gateway \<Rightarrow>
    serving_gateway option" where
  "gateway_step rnd hash moved y (Serves ev) sg =
     (if own_event ev then map_option (\<lambda>v. after_turn v sg) (server_turn rnd hash moved ev (sg_server sg)) else None)"
| "gateway_step rnd hash moved y (Signal worker error hup) sg = signal_arrives worker error hup sg"
| "gateway_step rnd hash moved y (Manager_Turn worker) sg = manager_turn worker sg"
| "gateway_step rnd hash moved y (Load_Turn content now) sg =
     map_option (\<lambda>m. sg\<lparr>sg_manager := Some (run_worker y content now m)\<rparr>) (sg_manager sg)"
| "gateway_step rnd hash moved y (Checker_Works i ev) sg =
     (if i < length (sg_checkers sg) \<and> own_checker_event ev
      then Some (sg\<lparr>sg_checkers := (sg_checkers sg)[i := checker_step (sg_checkers sg ! i) ev]\<rparr>) else None)"
| "gateway_step rnd hash moved y (Pool_Made sid i j) sg =
     (if i < length (sg_proxies sg) \<and> j < length (upstreams (sg_proxies sg ! i)) \<and> in_open_handler (sg_server sg) sid
      then (case poolFor (sg_proxies sg ! i) j of
              Inl e \<Rightarrow> None
            | Inr (pool, p) \<Rightarrow> Some (sg\<lparr>sg_proxies := (sg_proxies sg)[i := p]\<rparr>))
      else None)"
| "gateway_step rnd hash moved y (Pool_Works i j ev) sg =
     (if i < length (sg_proxies sg) \<and> j < length (pools (sg_proxies sg ! i)) \<and> own_pool_event ev
      then Some (sg\<lparr>sg_proxies := (sg_proxies sg)[i := pool_works j ev (sg_proxies sg ! i)]\<rparr>) else None)"
| "gateway_step rnd hash moved y (Shutdown_Turn k) sg =
     (if k < length (sg_tasks sg)
      then Some (run_task (sg_tasks sg ! k) (sg\<lparr>sg_tasks := take k (sg_tasks sg) @ drop (k + 1) (sg_tasks sg)\<rparr>)) else None)"
| "gateway_step rnd hash moved y (Worker_Ends i threw) sg =
     (if i \<in> set (workers (sg_runtime sg)) then Some (sg\<lparr>sg_runtime := runWorker i threw (sg_runtime sg)\<rparr>) else None)"

inductive gateway_reach :: "(real \<Rightarrow> real) \<Rightarrow> (string \<Rightarrow> nat) \<Rightarrow> HttpRequest \<Rightarrow> yaml_library \<Rightarrow> serving_gateway \<Rightarrow> nat \<Rightarrow> serving_gateway \<Rightarrow> bool"
  for rnd hash moved y g0 where
  gateway_start: "gateway_reach rnd hash moved y g0 0 g0"
| gateway_turn: "gateway_reach rnd hash moved y g0 n sg \<Longrightarrow> gateway_step rnd hash moved y ev sg = Some sg' \<Longrightarrow>
     gateway_reach rnd hash moved y g0 (n + 1) sg'"

end
