(* ===== verification/GatewayRunProperties.thy ===== *)
theory GatewayRunProperties
  imports GatewayRun
begin

text \<open>
  Properties of the running program: the logger follows the published configuration, and the components are
  stopped exactly when the drain of the server has ended.
\<close>

section \<open>Frames\<close>

text \<open>What a session or the server does to the logger is to append to its queue.\<close>

definition log_settings :: "gateway \<Rightarrow> LogLevel \<times> bool" where
  "log_settings g = (level (gw_logger g), json (gw_logger g))"

definition session_log :: "session_state \<Rightarrow> LogLevel \<times> bool" where
  "session_log x = log_settings (snd x)"

lemma close_log: "session_log (closeInExecutor r (s, g)) = log_settings g"
  by (simp add: closeInExecutor_def Let_def session_log_def log_settings_def note_metrics_def)

lemma finish_log: "session_log (finish_run (s, g)) = log_settings g"
  using close_log [of "if ss_reason s = SR_None then SR_PeerClosed else ss_reason s" s g]
  by (auto simp: finish_run_def session_log_def log_settings_def note_metrics_def split_beta)

lemma fails_log: "session_log (run_fails (s, g)) = log_settings g"
  by (simp add: run_fails_def close_log) (simp add: log_settings_def note_metrics_def)

lemma end_write_log: "log_settings (snd (end_write n ok (s, g))) = log_settings g"
  by (simp add: end_write_def log_settings_def note_metrics_def)

lemma begin_write_log: "log_settings (snd (begin_write n (s, g))) = log_settings g"
  by (simp add: begin_write_def log_settings_def note_metrics_def)

lemma write_log: "session_log (write_response resp head point (s, g)) = log_settings g"
  using begin_write_log
  by (auto simp: write_response_def fails_log session_log_def [of "(s1, g1)" for s1 g1] split_beta split: sum.split)

lemmas close_logs = close_log finish_log fails_log write_log

lemma session_log_pair: "session_log (s, g) = log_settings g"
  by (simp add: session_log_def)

lemma log_router: "log_settings (g\<lparr>gw_router := r\<rparr>) = log_settings g"
  by (simp add: log_settings_def)

lemma serve_log: "session_log (serve_request rnd hash clk rq (s, g)) = log_settings g"
  unfolding serve_request_def Let_def
  by (simp add: close_logs session_log_pair log_router split_beta split: sum.split progress.split)

lemma read_log: "session_log (read_request rnd hash moved clk (s, g)) = log_settings g"
  unfolding read_request_def Let_def
  by (simp add: close_logs serve_log session_log_pair split_beta split: sum.split)

lemma next_log: "session_log (next_request rnd hash moved clk (s, g)) = log_settings g"
  by (simp add: next_request_def read_log finish_log)

lemma record_log: "log_settings (record_exchange rnd sv resp now n g) = log_settings g"
  by (simp add: record_exchange_def log_settings_def note_metrics_def logAccess_def Let_def split_beta)

lemma after_log: "session_log (after_response rnd hash moved clk sv resp (s, g)) = log_settings g"
  by (simp add: after_response_def Let_def next_log finish_log record_log)

lemma handler_log: "session_log (handler_returns rnd hash moved clk sv pd r (s, g)) = log_settings g"
  unfolding handler_returns_def Let_def
  by (simp add: fails_log write_log after_log log_router split_beta split: sum.split)

lemma note_log: "log_settings (note_metrics f g) = log_settings g"
  by (simp add: log_settings_def note_metrics_def)

lemma session_step_log:
  assumes "session_step rnd hash moved clk ev (s, g) = Some y"
  shows "session_log y = log_settings g"
  using assms
proof (cases rule: session_step_cases)
  case Starts
  then show ?thesis by (simp add: start_run_def next_log note_log)
next
  case (Reads bs n)
  then show ?thesis by (simp add: read_completes_def Let_def finish_log fails_log read_log split: sum.split)
next
  case (Downstream n sv pd s1 g1)
  then show ?thesis using begin_write_log [of n s g] by (simp add: session_log_def)
next
  case (Downstream_Done n ok sv pd s1 g1)
  then show ?thesis using end_write_log [of n ok s g] by (simp add: session_log_def)
next
  case (Wrote ok sv resp n)
  then show ?thesis using end_write_log [of n ok s g] by (cases "end_write n ok (s, g)") (simp add: after_log)
next
  case (Wrote_Error ok n)
  then show ?thesis using end_write_log [of n ok s g] by (cases "end_write n ok (s, g)") (simp add: finish_log)
next
  case (Expires w error cb d)
  then show ?thesis by (simp add: close_log session_log_pair split: option.split)
next
  case Drains
  then show ?thesis by (simp add: beginDrainInExecutor_def Let_def close_log session_log_pair)
qed (simp_all add: handler_log after_log close_log session_log_pair note_log)

lemma client_step_log:
  "client_step rnd hash moved clk sid ev v = Some v' \<Longrightarrow> log_settings (srv_gateway v') = log_settings (srv_gateway v)"
  using session_step_log by (fastforce simp: client_step_def session_log_pair split: option.splits)

lemma checkDrain_log [simp]: "gw_logger (srv_gateway (checkDrain v)) = gw_logger (srv_gateway v)"
  by (simp add: checkDrain_def finishDrain_def with_registry_def Let_def split: prod.split)

lemma sessions_posted_log [simp]:
  "gw_logger (srv_gateway (force_close v)) = gw_logger (srv_gateway v)"
  "gw_logger (srv_gateway (drain_sessions v)) = gw_logger (srv_gateway v)"
  by (simp_all add: force_close_def drain_sessions_def post_all_def with_registry_def split: prod.split)

lemma accept_log [simp]: "gw_logger (srv_gateway (accept_socket p v)) = gw_logger (srv_gateway v)"
  by (simp add: accept_socket_def note_server_def note_metrics_def with_registry_def Let_def split: sum.split prod.split bool.split)

lemma server_turn_log:
  assumes "server_turn rnd hash moved ev v = Some v'"
  shows "log_settings (srv_gateway v') = log_settings (srv_gateway v)"
proof (cases ev)
  case (Client sid clk ev')
  with assms show ?thesis by (auto dest: client_step_log split: if_splits)
next
  case (Deliver i clk)
  with assms show ?thesis by (auto dest: client_step_log split: if_splits prod.splits)
next
  case (Accept_Done r p)
  with assms show ?thesis
    by (cases "accept_completes (srv_listener v) r") (auto simp: log_settings_def split: if_split_asm)
qed (use assms in \<open>auto simp: log_settings_def server_beginDrain_def server_stop_def server_start_def drain_timer_completes_def
       drain_poll_completes_def Let_def split: if_splits list.splits sum.splits\<close>)

text \<open>Only \<open>beginDrain\<close> makes the server drain.\<close>

lemma checkDrain_draining [simp]: "srv_draining (checkDrain v) = srv_draining v"
  by (simp add: checkDrain_def finishDrain_def with_registry_def Let_def split: prod.split)

lemma force_close_draining [simp]: "srv_draining (force_close v) = srv_draining v"
  by (simp add: force_close_def post_all_def with_registry_def split: prod.split)

lemma accept_draining [simp]: "srv_draining (accept_socket p v) = srv_draining v"
  by (simp add: accept_socket_def note_server_def with_registry_def Let_def split: sum.split prod.split bool.split)

lemma client_step_draining: "client_step rnd hash moved clk sid ev v = Some v' \<Longrightarrow> srv_draining v' = srv_draining v"
  by (auto simp: client_step_def split: option.splits)

lemma own_turn_draining:
  assumes "server_turn rnd hash moved ev v = Some v'" "own_event ev"
  shows "srv_draining v' = srv_draining v"
proof (cases ev)
  case (Client sid clk ev')
  with assms show ?thesis by (auto dest: client_step_draining split: if_splits)
next
  case (Deliver i clk)
  with assms show ?thesis by (auto dest: client_step_draining split: if_splits prod.splits)
next
  case (Accept_Done r p)
  with assms show ?thesis by (cases "accept_completes (srv_listener v) r") (auto split: if_split_asm)
qed (use assms in \<open>auto simp: drain_timer_completes_def drain_poll_completes_def Let_def split: if_splits list.splits\<close>)

text \<open>The steps of a checker and of a pool do not stop it.\<close>

lemma spawn_probes_stopping [simp]: "hk_stopping (spawn_probes k c) = hk_stopping c"
  by (induction k arbitrary: c) (simp_all add: spawn_probe_def Let_def)

lemma own_checker_stopping: "own_checker_event ev \<Longrightarrow> hk_stopping (checker_step c ev) = hk_stopping c"
  by (cases ev) (simp_all add: interval_completes_def run_round_def probe_starts_def probe_ends_def Let_def)

lemma completeWaiter_stopping [simp]: "UpstreamPool.stopping (fst (completeWaiter pool w r)) = UpstreamPool.stopping pool"
  by (simp add: completeWaiter_def)

lemma abort_waiters_stopping [simp]: "UpstreamPool.stopping (fst (abort_waiters ws pool)) = UpstreamPool.stopping pool"
proof (induction ws arbitrary: pool)
  case (Cons w ws)
  show ?case using Cons.IH [of "fst (completeWaiter pool w Operation_Aborted)"] by (auto split: prod.splits)
qed simp

lemma pool_stop_stopping [simp]: "UpstreamPool.stopping (fst (pool_stop pool))"
  by (simp add: pool_stop_def)

lemma satisfyOneWaiter_stopping [simp]: "UpstreamPool.stopping (fst (satisfyOneWaiter pool clk)) = UpstreamPool.stopping pool"
  by (simp add: satisfyOneWaiter_def split: list.split prod.split option.split)

lemma scheduleCleanup_stopping [simp]: "UpstreamPool.stopping (scheduleCleanup pool) = UpstreamPool.stopping pool"
  by (simp add: scheduleCleanup_def)

lemma own_pool_stopping: "own_pool_event ev \<Longrightarrow> UpstreamPool.stopping (fst (handle pool ev)) = UpstreamPool.stopping pool"
  by (cases ev)
     (simp_all add: asyncAcquire_def pool_releaseReusable_def pool_discard_def discardAbandoned_def cleanup_fired_def Let_def
       split: prod.split option.split)

section \<open>The invariant of the running program\<close>

text \<open>Before the drain reports nothing is stopped; afterwards everything is stopped or its stop is posted.\<close>

definition untouched :: "serving_gateway \<Rightarrow> bool" where
  "untouched sg \<longleftrightarrow> sg_tasks sg = [] \<and> (\<forall>c \<in> set (sg_checkers sg). \<not> hk_stopping c) \<and>
     (\<forall>p \<in> set (sg_proxies sg). \<forall>pool. Some pool \<in> set (pools p) \<longrightarrow> \<not> UpstreamPool.stopping pool)"

definition pools_stop :: "shutdown_task set \<Rightarrow> nat \<Rightarrow> ReverseProxy \<Rightarrow> bool" where
  "pools_stop ts i p \<longleftrightarrow>
     (\<forall>j pool. j < length (pools p) \<and> pools p ! j = Some pool \<longrightarrow> UpstreamPool.stopping pool \<or> Stop_Pool i j \<in> ts)"

definition handed_out :: "serving_gateway \<Rightarrow> bool" where
  "handed_out sg \<longleftrightarrow>
     (\<forall>i < length (sg_checkers sg). hk_stopping (sg_checkers sg ! i) \<or> Stop_Checker i \<in> set (sg_tasks sg)) \<and>
     (\<forall>i < length (sg_proxies sg). pools_stop (set (sg_tasks sg)) i (sg_proxies sg ! i))"

definition worker_failed :: "AsioRuntime \<Rightarrow> bool" where
  "worker_failed r \<longleftrightarrow> errors_handled r @ errors_printed r \<noteq> []"

definition stops_ok :: "bool \<Rightarrow> serving_gateway \<Rightarrow> bool" where
  "stops_ok reported sg \<longleftrightarrow> runtime_inv (sg_runtime sg) \<and> rt_started (sg_runtime sg) \<and>
     (if reported then handed_out sg \<and> stop_requested (sg_runtime sg)
      else untouched sg \<and> (stop_requested (sg_runtime sg) \<longrightarrow> worker_failed (sg_runtime sg)))"

definition run_inv :: "nat \<Rightarrow> serving_gateway \<Rightarrow> bool" where
  "run_inv n sg \<longleftrightarrow> server_inv n (sg_server sg) \<and> drain_inv (sg_server sg) \<and>
     (sg_waiting sg \<longrightarrow> \<not> srv_draining (sg_server sg)) \<and> stops_ok (reports (sg_server sg) \<noteq> []) sg"

lemma stops_runtime [simp]:
  "untouched (sg\<lparr>sg_runtime := r\<rparr>) = untouched sg" "handed_out (sg\<lparr>sg_runtime := r\<rparr>) = handed_out sg"
  by (simp_all add: untouched_def handed_out_def)

lemma stops_ok_server [simp]:
  "stops_ok b (sg\<lparr>sg_server := v\<rparr>) = stops_ok b sg" "stops_ok b (sg\<lparr>sg_waiting := w\<rparr>) = stops_ok b sg"
  "stops_ok b (sg\<lparr>sg_manager := m\<rparr>) = stops_ok b sg"
  by (simp_all add: stops_ok_def untouched_def handed_out_def)

lemma stops_ok_worker:
  assumes "stops_ok b sg" "w \<in> set (workers (sg_runtime sg))"
  shows "stops_ok b (sg\<lparr>sg_runtime := runWorker w threw (sg_runtime sg)\<rparr>)"
proof -
  have "runtime_inv (runWorker w threw (sg_runtime sg))"
    using assms runtime_inv_worker by (simp add: stops_ok_def)
  moreover have "rt_started (runWorker w threw (sg_runtime sg)) = rt_started (sg_runtime sg)"
      "stop_requested (sg_runtime sg) \<longrightarrow> stop_requested (runWorker w threw (sg_runtime sg))"
    by (auto simp: runWorker_def requestStop_def Let_def)
  moreover have "worker_failed (runWorker w threw (sg_runtime sg))"
    if "stop_requested (runWorker w threw (sg_runtime sg))" "stop_requested (sg_runtime sg) \<longrightarrow> worker_failed (sg_runtime sg)"
    using that by (cases threw) (auto simp: runWorker_def requestStop_def worker_failed_def Let_def split: if_splits)
  ultimately show ?thesis using assms(1) by (cases b) (simp_all add: stops_ok_def)
qed

lemma shut_down_stops:
  assumes "stops_ok False sg"
  shows "stops_ok True (shut_down sg)"
proof -
  let ?r = "requestStop (sg_runtime sg)"
  have "runtime_inv ?r" "rt_started ?r" "stop_requested ?r"
    using assms runtime_inv_stop [of "sg_runtime sg"] by (simp_all add: stops_ok_def) (simp_all add: requestStop_def)
  moreover have "handed_out (shut_down sg)"
    unfolding handed_out_def
  proof (intro conjI allI impI disjI2)
    fix i
    assume "i < length (sg_checkers (shut_down sg))"
    then show "Stop_Checker i \<in> set (sg_tasks (shut_down sg))" by (simp add: shut_down_def)
  next
    fix i
    assume i: "i < length (sg_proxies (shut_down sg))"
    have "Stop_Pool i j \<in> set (sg_tasks (shut_down sg))" if "j \<in> set (made_pools (sg_proxies sg ! i))" for j
      using i that by (force simp: shut_down_def)
    then show "pools_stop (set (sg_tasks (shut_down sg))) i (sg_proxies (shut_down sg) ! i)"
      by (simp add: pools_stop_def made_pools_def) (simp add: shut_down_def)
  qed
  ultimately show ?thesis by (simp add: stops_ok_def) (simp add: shut_down_def)
qed

lemma after_turn_eq:
  assumes "reports v = reports (sg_server sg) \<or> reports v = reports (sg_server sg) @ [b]"
  shows "after_turn v sg =
    (if reports v = reports (sg_server sg) then sg\<lparr>sg_server := v\<rparr> else shut_down (sg\<lparr>sg_server := v\<rparr>))"
  using assms by (auto simp: after_turn_def)

lemma shut_down_fields [simp]:
  "sg_server (shut_down sg) = sg_server sg" "sg_waiting (shut_down sg) = sg_waiting sg" "sg_manager (shut_down sg) = sg_manager sg"
  by (simp_all add: shut_down_def)

lemma after_turn_inv:
  assumes "run_inv n sg" "server_turn rnd hash moved ev (sg_server sg) = Some v" "n + 2 < 2 ^ 64"
    and "own_event ev \<or> \<not> sg_waiting sg"
  shows "run_inv (n + 1) (after_turn v sg)" "sg_server (after_turn v sg) = v" "sg_manager (after_turn v sg) = sg_manager sg"
    "sg_waiting (after_turn v sg) = sg_waiting sg"
proof -
  let ?v = "sg_server sg"
  have inv: "server_inv n ?v" "drain_inv ?v" "sg_waiting sg \<longrightarrow> \<not> srv_draining ?v" "stops_ok (reports ?v \<noteq> []) sg"
    using assms(1) by (simp_all add: run_inv_def)
  have v: "server_inv (n + 1) v" "drain_inv v" using server_turn_inv [OF inv(1,2) assms(2,3)] by simp_all
  have "clients_ok ?v" using inv(1) by (simp add: server_inv_def)
  from server_turn_reports [OF this assms(2)]
  have g: "reports v = reports ?v \<or> reports v = reports ?v @ [\<not> drain_deadline_expired v]" by (auto simp: reports_grow_def)
  note eq = after_turn_eq [OF g]
  show f: "sg_server (after_turn v sg) = v" "sg_manager (after_turn v sg) = sg_manager sg"
    "sg_waiting (after_turn v sg) = sg_waiting sg" by (simp_all add: eq)
  have one: "length (reports v) \<le> 1" using v(2) by (cases "drain_finished v") (auto simp: drain_inv_def)
  have "stops_ok (reports v \<noteq> []) (after_turn v sg)"
  proof (cases "reports v = reports ?v")
    case True
    with inv(4) show ?thesis by (simp add: eq)
  next
    case False
    with g one have "reports ?v = []" "reports v \<noteq> []" by auto
    with inv(4) False show ?thesis using shut_down_stops [of "sg\<lparr>sg_server := v\<rparr>"] by (simp add: eq)
  qed
  moreover have "sg_waiting sg \<longrightarrow> \<not> srv_draining v"
    using assms(4) inv(3) own_turn_draining [OF assms(2)] by blast
  ultimately show "run_inv (n + 1) (after_turn v sg)" using v f by (simp add: run_inv_def)
qed

text \<open>The other events leave the server alone, or change its logger.\<close>

lemma server_inv_later: "server_inv n v \<Longrightarrow> server_inv (n + k) v"
  by (rule same_clients_inv [OF same_clients_refl])

lemma run_inv_later: "run_inv n sg \<Longrightarrow> run_inv (n + k) sg"
  using server_inv_later by (simp add: run_inv_def)

lemma set_logging_server:
  "server_inv n (sg_server (set_logging lv js sg)) = server_inv n (sg_server sg)"
  "drain_inv (sg_server (set_logging lv js sg)) = drain_inv (sg_server sg)"
  "srv_draining (sg_server (set_logging lv js sg)) = srv_draining (sg_server sg)"
  "reports (sg_server (set_logging lv js sg)) = reports (sg_server sg)"
  by (simp_all add: set_logging_def server_inv_def clients_ok_def counters_ok_def drain_inv_def conns_def)

lemma set_logging_inv: "run_inv n sg \<Longrightarrow> run_inv n (set_logging lv js sg)"
  unfolding run_inv_def set_logging_server by (simp add: set_logging_def)

lemma apply_reload_inv:
  assumes "run_inv n sg" "w \<in> set (workers (sg_runtime sg))"
  shows "run_inv n (apply_reload w r sg)"
proof -
  have "run_inv n (sg\<lparr>sg_runtime := runWorker w True (sg_runtime sg)\<rparr>)"
    using assms stops_ok_worker by (simp add: run_inv_def)
  with assms(1) show ?thesis by (simp add: apply_reload_def set_logging_inv Let_def split: option.split sum.split)
qed

text \<open>A turn of the manager's strand calls at most one handler.\<close>

lemma run_strand_calls: "cm_calls (run_strand m) = cm_calls m \<or> (\<exists>c. cm_calls (run_strand m) = cm_calls m @ [c])"
  by (simp add: run_strand_def start_reload_def publish_def call_handler_def Let_def split: list.split strand_task.split option.split)

lemma manager_turn_cases:
  assumes "manager_turn w sg = Some sg'"
  obtains (quiet) m where "sg_manager sg = Some m" "w \<in> set (workers (sg_runtime sg))"
      "cm_calls (run_strand m) = cm_calls m" "sg' = sg\<lparr>sg_manager := Some (run_strand m)\<rparr>"
  | (called) m k r where "sg_manager sg = Some m" "w \<in> set (workers (sg_runtime sg))"
      "cm_calls (run_strand m) = cm_calls m @ [(k, r)]" "sg' = apply_reload w r (sg\<lparr>sg_manager := Some (run_strand m)\<rparr>)"
proof -
  obtain m where m: "sg_manager sg = Some m" "w \<in> set (workers (sg_runtime sg))"
    "sg' = fold (\<lambda>(k, r). apply_reload w r) (drop (length (cm_calls m)) (cm_calls (run_strand m))) (sg\<lparr>sg_manager := Some (run_strand m)\<rparr>)"
    using assms by (auto simp: manager_turn_def Let_def split: option.splits if_splits)
  from run_strand_calls [of m] show thesis
  proof
    assume "cm_calls (run_strand m) = cm_calls m"
    with m show thesis by (intro quiet) auto
  next
    assume "\<exists>c. cm_calls (run_strand m) = cm_calls m @ [c]"
    then obtain k r where "cm_calls (run_strand m) = cm_calls m @ [(k, r)]" by auto
    with m show thesis by (intro called) auto
  qed
qed

text \<open>A stop that is posted stays posted until it runs, and running it stops.\<close>

lemma handed_out_checkers:
  assumes "handed_out sg" "length cs = length (sg_checkers sg)"
    and "\<And>k. k < length cs \<Longrightarrow> hk_stopping (sg_checkers sg ! k) \<Longrightarrow> hk_stopping (cs ! k)"
  shows "handed_out (sg\<lparr>sg_checkers := cs\<rparr>)"
  using assms by (auto simp: handed_out_def)

lemma pools_stop_update:
  assumes "pools_stop ts i p" "\<And>pool. UpstreamPool.stopping pool \<Longrightarrow> UpstreamPool.stopping (f pool)"
  shows "pools_stop ts i (p\<lparr>pools := (pools p)[j := map_option f (pools p ! j)]\<rparr>)"
  unfolding pools_stop_def
proof (intro allI impI)
  fix l pool
  assume "l < length (pools (p\<lparr>pools := (pools p)[j := map_option f (pools p ! j)]\<rparr>)) \<and>
    pools (p\<lparr>pools := (pools p)[j := map_option f (pools p ! j)]\<rparr>) ! l = Some pool"
  then have l: "l < length (pools p)" "(pools p)[j := map_option f (pools p ! j)] ! l = Some pool" by simp_all
  show "UpstreamPool.stopping pool \<or> Stop_Pool i l \<in> ts"
  proof (cases "l = j")
    case True
    with l obtain q where "pools p ! j = Some q" "pool = f q" by auto
    with assms l True show ?thesis unfolding pools_stop_def by metis
  next
    case False
    with assms(1) l show ?thesis by (simp add: pools_stop_def)
  qed
qed

lemma pools_stop_done:
  assumes "pools_stop ts i p" "ts \<subseteq> insert (Stop_Pool i j) ts'"
  shows "pools_stop ts' i (stop_pool j p)"
  unfolding pools_stop_def
proof (intro allI impI)
  fix l pool
  assume "l < length (pools (stop_pool j p)) \<and> pools (stop_pool j p) ! l = Some pool"
  then show "UpstreamPool.stopping pool \<or> Stop_Pool i l \<in> ts'"
    using assms by (cases "l = j") (auto simp: pools_stop_def stop_pool_def)
qed

lemma pools_stop_mono: "pools_stop ts i p \<Longrightarrow> (\<And>j. Stop_Pool i j \<in> ts \<Longrightarrow> Stop_Pool i j \<in> ts') \<Longrightarrow> pools_stop ts' i p"
  by (auto simp: pools_stop_def)

lemma handed_out_pool:
  assumes "handed_out sg" "i < length (sg_proxies sg)" "pools_stop (set (sg_tasks sg)) i p"
  shows "handed_out (sg\<lparr>sg_proxies := (sg_proxies sg)[i := p]\<rparr>)"
  using assms by (simp add: handed_out_def nth_list_update)

lemma run_task_handed_out:
  assumes "handed_out sg" "k < length (sg_tasks sg)"
  shows "handed_out (run_task (sg_tasks sg ! k) (sg\<lparr>sg_tasks := take k (sg_tasks sg) @ drop (k + 1) (sg_tasks sg)\<rparr>))"
proof -
  let ?ts = "take k (sg_tasks sg) @ drop (k + 1) (sg_tasks sg)"
  have ts: "t \<in> set ?ts" if "t \<in> set (sg_tasks sg)" "t \<noteq> sg_tasks sg ! k" for t
    using set_keep_others [OF assms(2) that(1)] that(2) by simp
  have checkers: "hk_stopping (sg_checkers sg ! i) \<or> Stop_Checker i \<in> set (sg_tasks sg)" if "i < length (sg_checkers sg)" for i
    using assms(1) that by (simp add: handed_out_def)
  have pools: "pools_stop (set (sg_tasks sg)) i (sg_proxies sg ! i)" if "i < length (sg_proxies sg)" for i
    using assms(1) that by (simp add: handed_out_def)
  show ?thesis
  proof (cases "sg_tasks sg ! k")
    case (Stop_Checker i)
    have "hk_stopping ((sg_checkers sg)[i := stopInStrand (sg_checkers sg ! i)] ! l) \<or> Stop_Checker l \<in> set ?ts"
      if "l < length (sg_checkers sg)" for l
      using checkers [OF that] ts [of "Stop_Checker l"] that Stop_Checker by (cases "l = i") (auto simp: stopInStrand_def)
    moreover have "pools_stop (set ?ts) l (sg_proxies sg ! l)" if "l < length (sg_proxies sg)" for l
      using pools_stop_mono [OF pools [OF that]] ts Stop_Checker by simp
    ultimately show ?thesis using Stop_Checker by (simp add: handed_out_def)
  next
    case (Stop_Pool i j)
    have "hk_stopping (sg_checkers sg ! l) \<or> Stop_Checker l \<in> set ?ts" if "l < length (sg_checkers sg)" for l
      using checkers [OF that] ts [of "Stop_Checker l"] Stop_Pool by auto
    moreover have "pools_stop (set ?ts) l ((sg_proxies sg)[i := stop_pool j (sg_proxies sg ! i)] ! l)" if "l < length (sg_proxies sg)" for l
    proof (cases "l = i")
      case True
      have "set (sg_tasks sg) \<subseteq> insert (Stop_Pool i j) (set ?ts)" using ts Stop_Pool by auto
      from pools_stop_done [OF pools [OF that] this [folded True]] True that show ?thesis by simp
    next
      case False
      with that pools_stop_mono [OF pools [OF that]] ts Stop_Pool show ?thesis by simp
    qed
    ultimately show ?thesis using Stop_Pool by (simp add: handed_out_def)
  qed
qed

text \<open>A pool is made for a request of an open session, so before the drain reports.\<close>

lemma open_handler_unreported:
  assumes "server_inv n v" "drain_inv v" "in_open_handler v sid"
  shows "reports v = []"
proof -
  obtain s where s: "clients v sid = Some s" "socket_open s"
    using assms(3) by (auto simp: in_open_handler_def split: option.splits)
  with assms(1) have "sid \<in> registered (registry v)"
    by (auto simp: server_inv_def clients_ok_def session_ok_def session_core_def)
  then have "sessions (registry v) \<noteq> []" by (auto simp: registered_def)
  with assms(2) show ?thesis by (cases "drain_finished v") (auto simp: drain_inv_def)
qed

lemma poolFor_fresh:
  assumes "poolFor p j = Inr (pool, q)" "\<forall>pl. Some pl \<in> set (pools p) \<longrightarrow> \<not> UpstreamPool.stopping pl"
  shows "\<forall>pl. Some pl \<in> set (pools q) \<longrightarrow> \<not> UpstreamPool.stopping pl"
proof -
  define ps where "ps = (if pools p = [] then replicate (length (upstreams p)) None else pools p)"
  have old: "\<not> UpstreamPool.stopping pl" if "Some pl \<in> set ps" for pl
    using that assms(2) by (auto simp: ps_def split: if_splits)
  show ?thesis
  proof (cases "ps ! j")
    case (Some pl)
    with assms(1) have "q = p\<lparr>pools := ps\<rparr>" unfolding poolFor_def ps_def [symmetric] Let_def by simp
    then have "pools q = ps" by simp
    with old show ?thesis by simp
  next
    case None
    with assms(1) obtain made where made: "UpstreamPool_make (pool_limits (rp_limits p)) True = Inr made" "pools q = ps[j := Some made]"
      by (cases "UpstreamPool_make (pool_limits (rp_limits p)) True") (auto simp: poolFor_def ps_def Let_def)
    then have "\<not> UpstreamPool.stopping made" by (auto simp: UpstreamPool_make_def ebind_def split: sum.splits)
    with made old set_update_subset_insert [of ps j "Some made"] show ?thesis by auto
  qed
qed

lemma untouched_checkers:
  assumes "untouched sg" "i < length (sg_checkers sg)" "\<not> hk_stopping c"
  shows "untouched (sg\<lparr>sg_checkers := (sg_checkers sg)[i := c]\<rparr>)"
  using assms set_update_subset_insert [of "sg_checkers sg" i c] by (auto simp: untouched_def)

lemma untouched_pools:
  assumes "untouched sg" "i < length (sg_proxies sg)" "\<forall>pl. Some pl \<in> set (pools p) \<longrightarrow> \<not> UpstreamPool.stopping pl"
  shows "untouched (sg\<lparr>sg_proxies := (sg_proxies sg)[i := p]\<rparr>)"
  using assms set_update_subset_insert [of "sg_proxies sg" i p] by (auto simp: untouched_def)

lemma untouchedD:
  assumes "untouched sg"
  shows "i < length (sg_checkers sg) \<Longrightarrow> \<not> hk_stopping (sg_checkers sg ! i)"
    "i < length (sg_proxies sg) \<Longrightarrow> \<forall>pl. Some pl \<in> set (pools (sg_proxies sg ! i)) \<longrightarrow> \<not> UpstreamPool.stopping pl"
  using assms by (auto simp: untouched_def)

lemma checker_works_ok:
  assumes "stops_ok b sg" "i < length (sg_checkers sg)" "own_checker_event ev"
  shows "stops_ok b (sg\<lparr>sg_checkers := (sg_checkers sg)[i := checker_step (sg_checkers sg ! i) ev]\<rparr>)"
proof (cases b)
  case True
  then have "handed_out (sg\<lparr>sg_checkers := (sg_checkers sg)[i := checker_step (sg_checkers sg ! i) ev]\<rparr>)"
    using assms own_checker_stopping [OF assms(3)]
    by (intro handed_out_checkers) (auto simp: stops_ok_def nth_list_update)
  with assms(1) True show ?thesis by (simp add: stops_ok_def)
next
  case False
  then have "untouched (sg\<lparr>sg_checkers := (sg_checkers sg)[i := checker_step (sg_checkers sg ! i) ev]\<rparr>)"
    using assms own_checker_stopping [OF assms(3)] untouchedD(1) by (intro untouched_checkers) (simp_all add: stops_ok_def)
  with assms(1) False show ?thesis by (simp add: stops_ok_def)
qed

lemma pool_works_ok:
  assumes "stops_ok b sg" "i < length (sg_proxies sg)" "own_pool_event ev"
  shows "stops_ok b (sg\<lparr>sg_proxies := (sg_proxies sg)[i := pool_works j ev (sg_proxies sg ! i)]\<rparr>)"
proof (cases b)
  case True
  have "pools_stop (set (sg_tasks sg)) i (pool_works j ev (sg_proxies sg ! i))"
    using assms True own_pool_stopping [OF assms(3)] unfolding pool_works_def
    by (intro pools_stop_update) (simp_all add: stops_ok_def handed_out_def)
  with assms True show ?thesis using handed_out_pool by (simp add: stops_ok_def)
next
  case False
  have "\<not> UpstreamPool.stopping pl" if pl: "Some pl \<in> set (pools (pool_works j ev (sg_proxies sg ! i)))" for pl
  proof -
    let ?p = "sg_proxies sg ! i"
    have old: "\<not> UpstreamPool.stopping q" if "Some q \<in> set (pools ?p)" for q
      using untouchedD(2) [of sg i] assms(1,2) False that by (simp add: stops_ok_def)
    obtain l where l: "l < length (pools ?p)" "pools (pool_works j ev ?p) ! l = Some pl"
      using pl by (auto simp: pool_works_def in_set_conv_nth)
    show ?thesis
    proof (cases "l = j")
      case True
      with l obtain q where "pools ?p ! j = Some q" "pl = fst (handle q ev)" by (auto simp: pool_works_def)
      with old [of q] l True own_pool_stopping [OF assms(3)] show ?thesis by (metis nth_mem)
    next
      case False
      with l have "pools ?p ! l = Some pl" by (simp add: pool_works_def)
      with old [of pl] l show ?thesis by (metis nth_mem)
    qed
  qed
  then have "untouched (sg\<lparr>sg_proxies := (sg_proxies sg)[i := pool_works j ev (sg_proxies sg ! i)]\<rparr>)"
    using assms False by (intro untouched_pools) (auto simp: stops_ok_def)
  with assms(1) False show ?thesis by (simp add: stops_ok_def)
qed

lemma begin_shutdown_inv:
  assumes "run_inv n sg" "w \<in> set (workers (sg_runtime sg))" "n + 2 < 2 ^ 64" "\<not> sg_waiting sg"
  shows "run_inv (n + 1) (begin_shutdown w sg)"
proof (cases "server_beginDrain (sg_grace sg) True (sg_server sg)")
  case (Inl e)
  with run_inv_later [of n sg 1] assms(1,2) stops_ok_worker show ?thesis by (simp add: begin_shutdown_def run_inv_def)
next
  case (Inr v)
  have "server_turn (\<lambda>x. x) length HttpRequest_default (Begin_Drain (sg_grace sg) True) (sg_server sg) = Some v"
    using Inr by simp
  from after_turn_inv(1) [OF assms(1) this assms(3)] assms(4) Inr show ?thesis by (simp add: begin_shutdown_def)
qed

lemma gateway_step_inv:
  assumes "run_inv n sg" "gateway_step rnd hash moved y ev sg = Some sg'" "n + 2 < 2 ^ 64"
  shows "run_inv (n + 1) sg'"
proof -
  note later = run_inv_later [OF assms(1), of 1]
  have ok: "stops_ok (reports (sg_server sg) \<noteq> []) sg" using assms(1) by (simp add: run_inv_def)
  show ?thesis
  proof (cases ev)
    case (Serves e)
    with assms(2) obtain v where "own_event e" "server_turn rnd hash moved e (sg_server sg) = Some v" "sg' = after_turn v sg"
      by (auto split: if_splits)
    with after_turn_inv(1) [OF assms(1) this(2) assms(3)] show ?thesis by simp
  next
    case (Signal w error hup)
    have w: "w \<in> set (workers (sg_runtime sg))" "sg_waiting sg" using assms(2) Signal by (auto simp: signal_arrives_def split: if_splits)
    let ?s1 = "sg\<lparr>sg_waiting := False\<rparr>"
    have s1: "run_inv n ?s1" using assms(1) by (simp add: run_inv_def)
    have "sg' = ?s1 \<or> sg' = begin_shutdown w ?s1 \<or> (\<exists>m. sg' = sg\<lparr>sg_manager := m, sg_waiting := True\<rparr>)"
      using assms(2) Signal w by (auto simp: signal_arrives_def Let_def split: option.splits if_splits)
    moreover have "run_inv (n + 1) (sg\<lparr>sg_manager := m, sg_waiting := True\<rparr>)" for m using later w(2) by (simp add: run_inv_def)
    ultimately show ?thesis using begin_shutdown_inv [OF s1 _ assms(3)] w run_inv_later [OF s1, of 1] by auto
  next
    case (Manager_Turn w)
    then have "manager_turn w sg = Some sg'" using assms(2) by simp
    then show ?thesis
    proof (cases rule: manager_turn_cases)
      case (quiet m)
      with later show ?thesis by (simp add: run_inv_def)
    next
      case (called m k r)
      have "run_inv (n + 1) (sg\<lparr>sg_manager := Some (run_strand m)\<rparr>)" using later by (simp add: run_inv_def)
      from apply_reload_inv [OF this] called show ?thesis by simp
    qed
  next
    case (Load_Turn content now)
    with assms(2) later show ?thesis by (auto simp: run_inv_def)
  next
    case (Checker_Works i e)
    with assms(2) checker_works_ok [OF ok] later show ?thesis by (auto simp: run_inv_def split: if_splits)
  next
    case (Pool_Made sid i j)
    then obtain pool p where p: "i < length (sg_proxies sg)" "in_open_handler (sg_server sg) sid"
        "poolFor (sg_proxies sg ! i) j = Inr (pool, p)" "sg' = sg\<lparr>sg_proxies := (sg_proxies sg)[i := p]\<rparr>"
      using assms(2) by (auto split: if_splits sum.splits)
    have "reports (sg_server sg) = []" using open_handler_unreported p(2) assms(1) by (auto simp: run_inv_def)
    moreover from this ok have "stops_ok False sg'"
      using untouched_pools [OF _ p(1) poolFor_fresh [OF p(3) untouchedD(2) [OF _ p(1)]]] p(4) by (simp add: stops_ok_def)
    ultimately show ?thesis using later p(4) by (simp add: run_inv_def)
  next
    case (Pool_Works i j e)
    with assms(2) pool_works_ok [OF ok] later show ?thesis by (auto simp: run_inv_def split: if_splits)
  next
    case (Shutdown_Turn k)
    then have k: "k < length (sg_tasks sg)"
        "sg' = run_task (sg_tasks sg ! k) (sg\<lparr>sg_tasks := take k (sg_tasks sg) @ drop (k + 1) (sg_tasks sg)\<rparr>)"
      using assms(2) by (auto split: if_splits)
    with ok have r: "reports (sg_server sg) \<noteq> []" by (auto simp: stops_ok_def untouched_def split: if_splits)
    with ok have "handed_out sg'" using run_task_handed_out [OF _ k(1)] k(2) by (simp add: stops_ok_def)
    moreover have "sg_server sg' = sg_server sg" "sg_runtime sg' = sg_runtime sg" "sg_waiting sg' = sg_waiting sg"
      using k(2) by (cases "sg_tasks sg ! k"; simp)+
    ultimately show ?thesis using later r by (simp add: run_inv_def stops_ok_def)
  next
    case (Worker_Ends i threw)
    with assms(2) stops_ok_worker [OF ok] later show ?thesis by (auto simp: run_inv_def split: if_splits)
  qed
qed

lemma gateway_reach_inv:
  assumes "gateway_reach rnd hash moved y g0 n sg" "run_inv 0 g0"
  shows "n + 1 < 2 ^ 64 \<Longrightarrow> run_inv n sg"
  using assms(1)
proof induction
  case (gateway_turn n sg ev sg')
  then show ?case using gateway_step_inv [of n sg rnd hash moved y ev sg'] by simp
qed (use assms(2) in simp)

section \<open>The start\<close>

definition fresh_proxies :: "gateway_proxies \<Rightarrow> bool" where
  "fresh_proxies gp \<longleftrightarrow> (\<forall>c \<in> set (gp_checkers gp). \<not> hk_stopping c) \<and> (\<forall>x \<in> set (gp_proxies gp). pools (snd x) = [])"

lemma made_proxy_fresh: "ReverseProxy_make us l now = Inr proxy \<Longrightarrow> pools proxy = []"
  by (auto simp: ReverseProxy_make_def ebind_eq_Inr_iff split: if_splits)

lemma made_checker_fresh: "HealthChecker_make cfg es h = Inr checker \<Longrightarrow> \<not> hk_stopping (startInStrand checker)"
  by (auto simp: HealthChecker_make_def startInStrand_def split: if_splits option.splits)

lemma build_proxies_fresh: "build_proxies now us gp = Inr gp' \<Longrightarrow> fresh_proxies gp \<Longrightarrow> fresh_proxies gp'"
proof (induction us arbitrary: gp)
  case (Cons u us)
  from Cons.prems(1) obtain proxy checker where made: "ReverseProxy_make (uc_endpoints u) (uc_proxy_limits u) now = Inr proxy"
      "HealthChecker_make HealthCheckConfig_default (uc_endpoints u) (Some (health proxy)) = Inr checker"
    by (auto simp: ebind_eq_Inr_iff)
  let ?gp = "gp\<lparr>gp_checkers := gp_checkers gp @ [startInStrand checker],
    gp_proxies := (if map_of (gp_proxies gp) (uc_name u) = None then gp_proxies gp @ [(uc_name u, proxy)] else gp_proxies gp)\<rparr>"
  have "build_proxies now us ?gp = Inr gp'" using Cons.prems(1) made by simp
  moreover have "fresh_proxies ?gp"
    using Cons.prems(2) made_proxy_fresh [OF made(1)] made_checker_fresh [OF made(2)] by (auto simp: fresh_proxies_def)
  ultimately show ?case by (rule Cons.IH)
qed simp

lemma runFromConfig_parts:
  assumes "runFromConfig path loaded wall now = Inr pg"
  shows "fresh_proxies (pg_proxies pg)" "AsioRuntime_make (sc_io_threads (cf_server loaded)) False = Inr (pg_runtime pg)"
    "ConfigManager_make path (Some \<lparr>sn_value = loaded, sn_source_path = path, sn_loaded_at = wall\<rparr>) = Inr (pg_manager pg)"
    "\<exists>lv. parseLogLevel (lo_level (cf_logging loaded)) = Inr lv \<and>
       pg_logger pg = LoggerConfig_default\<lparr>lc_level := lv, lc_json := (lo_format (cf_logging loaded) = ''json'')\<rparr>"
proof -
  from assms obtain runtime manager router gp routed lv where parts:
      "AsioRuntime_make (sc_io_threads (cf_server loaded)) False = Inr runtime"
      "ConfigManager_make path (Some \<lparr>sn_value = loaded, sn_source_path = path, sn_loaded_at = wall\<rparr>) = Inr manager"
      "makeDefaultRouter None now = Inr router"
      "build_proxies now (cf_upstreams loaded) \<lparr>gp_proxies = [], gp_checkers = []\<rparr> = Inr gp"
      "build_routes now (gp_proxies gp) (cf_routes loaded) router = Inr routed"
      "parseLogLevel (lo_level (cf_logging loaded)) = Inr lv"
      "pg = \<lparr>pg_runtime = runtime, pg_manager = manager, pg_router = routed, pg_proxies = gp,
            pg_listen = ListenConfig_default\<lparr>li_host := sc_listen_host (cf_server loaded),
                          li_port := sc_listen_port (cf_server loaded) mod 2 ^ 16\<rparr>,
            pg_logger = LoggerConfig_default\<lparr>lc_level := lv, lc_json := (lo_format (cf_logging loaded) = ''json'')\<rparr>,
            pg_limits = sessionLimitsFromConfig (cf_server loaded)\<rparr>"
    unfolding runFromConfig_def ebind_eq_Inr_iff by (elim exE conjE) (rule that, assumption+, simp)
  have "fresh_proxies gp" using build_proxies_fresh [OF parts(4)] by (simp add: fresh_proxies_def)
  with parts show "fresh_proxies (pg_proxies pg)" "AsioRuntime_make (sc_io_threads (cf_server loaded)) False = Inr (pg_runtime pg)"
    "ConfigManager_make path (Some \<lparr>sn_value = loaded, sn_source_path = path, sn_loaded_at = wall\<rparr>) = Inr (pg_manager pg)"
    "\<exists>lv. parseLogLevel (lo_level (cf_logging loaded)) = Inr lv \<and>
       pg_logger pg = LoggerConfig_default\<lparr>lc_level := lv, lc_json := (lo_format (cf_logging loaded) = ''json'')\<rparr>"
    by simp_all
qed

lemma run_plan_parts:
  assumes "run_plan files_ok o1 pl now = Inr (runtime, router, gp)"
  shows "fresh_proxies gp" "AsioRuntime_make (op_threads o1) False = Inr runtime"
proof -
  have empty: "fresh_proxies \<lparr>gp_proxies = [], gp_checkers = []\<rparr>" by (simp add: fresh_proxies_def)
  from assms obtain rt with_files x where parts: "AsioRuntime_make (op_threads o1) False = Inr rt"
      "(if op_proxy_upstreams o1 = [] then Inr (with_files, \<lparr>gp_proxies = [], gp_checkers = []\<rparr>)
        else ebind (build_proxies now [UpstreamConfig_default\<lparr>uc_endpoints := op_proxy_upstreams o1\<rparr>] \<lparr>gp_proxies = [], gp_checkers = []\<rparr>) (\<lambda>gp.
             ebind (add_routes proxy_routes (pl_proxy_route_limit pl) (pl_proxy_cache pl) now with_files) (\<lambda>routed. Inr (routed, gp)))) = Inr x"
      "(case x of (routed, gp') \<Rightarrow> Inr (rt, routed, gp')) = (Inr (runtime, router, gp) :: (AsioRuntime \<times> Router \<times> gateway_proxies) outcome)"
    unfolding run_plan_def ebind_eq_Inr_iff by (elim exE conjE) (rule that, assumption+)
  from parts(3) have x: "rt = runtime" "x = (router, gp)" by (auto split: prod.splits)
  show "fresh_proxies gp"
  proof (cases "op_proxy_upstreams o1 = []")
    case True
    with parts(2) x(2) empty show ?thesis by simp
  next
    case False
    with parts(2) x(2) obtain gp' where "build_proxies now [UpstreamConfig_default\<lparr>uc_endpoints := op_proxy_upstreams o1\<rparr>] \<lparr>gp_proxies = [], gp_checkers = []\<rparr> = Inr gp'" "gp' = gp"
      unfolding ebind_eq_Inr_iff by (simp only: if_False ebind_eq_Inr_iff) blast
    with build_proxies_fresh [OF _ empty] show ?thesis by blast
  qed
  show "AsioRuntime_make (op_threads o1) False = Inr runtime" using parts(1) x(1) by simp
qed

lemma serve_inv:
  assumes "serve manager runtime router gp lc limits backlog grace address_ok socket_ok = Inr sg"
    and "fresh_proxies gp" "AsioRuntime_make n b = Inr runtime"
  shows "run_inv 0 sg" "sg_manager sg = manager"
    "\<exists>lg. AsyncLogger_make lc = Inr lg \<and> gw_logger (srv_gateway (sg_server sg)) = lg"
proof -
  from assms(1) obtain lg v rt where parts: "AsyncLogger_make lc = Inr lg"
      "HttpServer_make (Some router) MetricsRegistry_default lg limits backlog address_ok socket_ok = Inr v"
      "runtime_start runtime = Inr rt"
      "sg = \<lparr>sg_server = server_start v, sg_manager = manager, sg_runtime = rt, sg_checkers = gp_checkers gp,
         sg_proxies = map snd (gp_proxies gp), sg_grace = grace, sg_waiting = True, sg_tasks = []\<rparr>"
    by (auto simp: serve_def ebind_eq_Inr_iff)
  have v: "server_inv 0 v" "drain_inv v" using made_server [OF parts(2)] by simp_all
  have flags: "\<not> srv_draining v" "reports v = []" "gw_logger (srv_gateway v) = lg"
    using parts(2) by (auto simp: HttpServer_make_def ebind_def split: sum.splits if_splits)
  have "runtime_inv rt" using runtime_inv_history [OF assms(3), of "[RE_Start]"] parts(3) by simp
  moreover have "rt_started rt" "\<not> stop_requested rt"
    using parts(3) assms(3) by (auto simp: runtime_start_def AsioRuntime_make_def split: if_splits)
  ultimately have "stops_ok False sg"
    using assms(2) parts(4) by (auto simp: stops_ok_def untouched_def fresh_proxies_def)
  with v flags parts(4) show "run_inv 0 sg"
    by (simp add: run_inv_def server_start_def server_inv_def clients_ok_def counters_ok_def drain_inv_def)
  from parts flags show "sg_manager sg = manager" "\<exists>lg. AsyncLogger_make lc = Inr lg \<and> gw_logger (srv_gateway (sg_server sg)) = lg"
    by (simp_all add: server_start_def)
qed

section \<open>The logger and the published configuration\<close>

definition logs_as :: "Config \<Rightarrow> gateway \<Rightarrow> bool" where
  "logs_as c g \<longleftrightarrow> parseLogLevel (lo_level (cf_logging c)) = Inr (level (gw_logger g)) \<and>
     (json (gw_logger g) \<longleftrightarrow> lo_format (cf_logging c) = ''json'')"

definition logging_inv :: "yaml_library \<Rightarrow> Config \<Rightarrow> serving_gateway \<Rightarrow> bool" where
  "logging_inv y c0 sg \<longleftrightarrow> (\<exists>m. sg_manager sg = Some m \<and> manager_inv y c0 m \<and> None \<notin> set (unanswered m) \<and>
     logs_as (sn_value (cm_snapshot m)) (srv_gateway (sg_server sg)))"

lemma logs_as_cong: "log_settings g = log_settings h \<Longrightarrow> logs_as c g \<longleftrightarrow> logs_as c h"
  by (simp add: logs_as_def log_settings_def)

lemma after_turn_fields [simp]: "sg_server (after_turn v sg) = v" "sg_manager (after_turn v sg) = sg_manager sg"
proof -
  have "sg_server ((shut_down ^^ k) sg) = sg_server sg \<and> sg_manager ((shut_down ^^ k) sg) = sg_manager sg" for k sg
    by (induction k) simp_all
  then show "sg_server (after_turn v sg) = v" "sg_manager (after_turn v sg) = sg_manager sg" by (simp_all add: after_turn_def)
qed

lemma begin_shutdown_log:
  "sg_manager (begin_shutdown w sg) = sg_manager sg"
  "log_settings (srv_gateway (sg_server (begin_shutdown w sg))) = log_settings (srv_gateway (sg_server sg))"
  using server_turn_log [of "\<lambda>x. x" length HttpRequest_default "Begin_Drain (sg_grace sg) True" "sg_server sg"]
  by (auto simp: begin_shutdown_def split: sum.splits)

lemma logging_inv_same:
  assumes "logging_inv y c0 sg" "sg_manager sg' = sg_manager sg"
    and "log_settings (srv_gateway (sg_server sg')) = log_settings (srv_gateway (sg_server sg))"
  shows "logging_inv y c0 sg'"
  using assms logs_as_cong [OF assms(3)] by (simp add: logging_inv_def)

lemma handlers_kept:
  assumes "None \<notin> set (unanswered m)"
  shows "None \<notin> set (unanswered (run_strand m))" "None \<notin> set (unanswered (run_worker y file now m))"
    "None \<notin> set (unanswered (requestReload (Some k) m))"
  using assms
  by (auto simp: unanswered_def run_strand_def start_reload_def publish_def call_handler_def run_worker_def requestReload_def Let_def
      split: list.splits strand_task.splits option.splits prod.splits)

text \<open>A snapshot is replaced only together with a call that says so.\<close>

lemma run_strand_snapshot:
  assumes "None \<notin> set (unanswered m)" "cm_snapshot (run_strand m) \<noteq> cm_snapshot m"
  shows "\<exists>k r. cm_calls (run_strand m) = cm_calls m @ [(k, r)] \<and> rr_published r"
  using assms
  by (auto simp: unanswered_def run_strand_def start_reload_def publish_def call_handler_def Let_def
      split: list.splits strand_task.splits option.splits if_splits)

lemma from_file_level:
  assumes "from_file y c"
  shows "\<exists>lv. parseLogLevel (lo_level (cf_logging c)) = Inr lv"
proof -
  have "validate_server (cf_server c) (cf_logging c) = []" using validate_parts(1) from_fileD(1) [OF assms] .
  then have "lo_level (cf_logging c) \<in> set log_levels" by (simp add: validate_server_def Let_def)
  then show ?thesis by (rule log_level_parses)
qed

lemma manager_turn_log:
  assumes "logging_inv y c0 sg" "manager_turn w sg = Some sg'"
  shows "logging_inv y c0 sg'"
proof -
  from assms(1) obtain m where m: "sg_manager sg = Some m" "manager_inv y c0 m" "None \<notin> set (unanswered m)"
      "logs_as (sn_value (cm_snapshot m)) (srv_gateway (sg_server sg))" by (auto simp: logging_inv_def)
  let ?m = "run_strand m"
  have new: "manager_inv y c0 ?m" "None \<notin> set (unanswered ?m)" using manager_inv_strand [OF m(2)] handlers_kept [OF m(3)] by simp_all
  from assms(2) show ?thesis
  proof (cases rule: manager_turn_cases)
    case (quiet m')
    then have "cm_snapshot ?m = cm_snapshot m" using run_strand_snapshot [OF m(3)] m(1) by auto
    with quiet m new show ?thesis by (simp add: logging_inv_def)
  next
    case (called m' k r)
    with m(1) have c: "cm_calls ?m = cm_calls m @ [(k, r)]" "sg' = apply_reload w r (sg\<lparr>sg_manager := Some ?m\<rparr>)" by simp_all
    show ?thesis
    proof (cases "rr_published r")
      case True
      obtain lv where "parseLogLevel (lo_level (cf_logging (sn_value (cm_snapshot ?m)))) = Inr lv"
        using new(1) from_file_level by (auto simp: manager_inv_def)
      with True c(2) new show ?thesis
        by (simp add: apply_reload_def logging_inv_def logs_as_def set_logging_def setLogging_def Let_def)
    next
      case False
      with c(1) have "cm_snapshot ?m = cm_snapshot m" using run_strand_snapshot [OF m(3)] by auto
      with False c(2) m(4) new show ?thesis by (simp add: apply_reload_def logging_inv_def)
    qed
  qed
qed

lemma run_task_fields [simp]: "sg_manager (run_task t sg) = sg_manager sg" "sg_server (run_task t sg) = sg_server sg"
  by (cases t; simp)+

lemma logging_inv_step:
  assumes "logging_inv y c0 sg" "gateway_step rnd hash moved y ev sg = Some sg'"
  shows "logging_inv y c0 sg'"
proof (cases ev)
  case (Serves e)
  with assms(2) obtain v where "server_turn rnd hash moved e (sg_server sg) = Some v" "sg' = after_turn v sg" by (auto split: if_splits)
  with server_turn_log [OF this(1)] show ?thesis by (intro logging_inv_same [OF assms(1)]) simp_all
next
  case (Signal w error hup)
  obtain m where m: "sg_manager sg = Some m" "manager_inv y c0 m" "None \<notin> set (unanswered m)"
      "logs_as (sn_value (cm_snapshot m)) (srv_gateway (sg_server sg))" using assms(1) by (auto simp: logging_inv_def)
  let ?s1 = "sg\<lparr>sg_waiting := False\<rparr>"
  consider "sg' = ?s1" | "sg' = begin_shutdown w ?s1" | "sg' = sg\<lparr>sg_manager := Some (requestReload (Some 0) m), sg_waiting := True\<rparr>"
    using assms(2) Signal m(1) by (auto simp: signal_arrives_def Let_def split: if_splits)
  then show ?thesis
  proof cases
    case 2
    with begin_shutdown_log [of w ?s1] show ?thesis by (intro logging_inv_same [OF assms(1)]) simp_all
  next
    case 3
    have "manager_inv y c0 (requestReload (Some 0) m)" using m(2) by (simp add: manager_inv_def requestReload_def)
    with 3 m handlers_kept(3) [OF m(3)] show ?thesis by (simp add: logging_inv_def) (simp add: requestReload_def)
  qed (rule logging_inv_same [OF assms(1)]; simp)
next
  case (Manager_Turn w)
  with assms manager_turn_log show ?thesis by simp
next
  case (Load_Turn content now)
  then obtain m where m: "sg_manager sg = Some m" "manager_inv y c0 m" "None \<notin> set (unanswered m)"
      "logs_as (sn_value (cm_snapshot m)) (srv_gateway (sg_server sg))" "sg' = sg\<lparr>sg_manager := Some (run_worker y content now m)\<rparr>"
    using assms by (auto simp: logging_inv_def)
  have "cm_snapshot (run_worker y content now m) = cm_snapshot m" by (simp add: run_worker_def split: list.split prod.split)
  with m manager_inv_worker [OF m(2)] handlers_kept(2) [OF m(3)] show ?thesis by (simp add: logging_inv_def)
next
  case (Shutdown_Turn k)
  with assms(2) show ?thesis by (auto intro: logging_inv_same [OF assms(1)] split: if_splits)
qed (use assms(2) in \<open>auto intro: logging_inv_same [OF assms(1)] split: if_splits sum.splits\<close>)

lemma ConfigManager_make_fields:
  "ConfigManager_make p (Some sn) = Inr m \<Longrightarrow> cm_snapshot m = sn \<and> worker_tasks m = [] \<and> strand_tasks m = []"
  by (auto simp: ConfigManager_make_def)

lemma AsyncLogger_make_fields: "AsyncLogger_make lc = Inr lg \<Longrightarrow> level lg = lc_level lc \<and> json lg = lc_json lc"
  by (auto simp: AsyncLogger_make_def split: if_splits)

lemma gateway_reach_log:
  "gateway_reach rnd hash moved y g0 n sg \<Longrightarrow> logging_inv y c0 g0 \<Longrightarrow> logging_inv y c0 sg"
  by (induction rule: gateway_reach.induct) (use logging_inv_step in blast)+

section \<open>Properties\<close>

text \<open>
  C16: The logger of the running program always follows the published configuration: whatever requests, signals
  and reloads come in whatever order, its level and format are those of the manager's snapshot, and that
  snapshot differs from the configuration the program was built from in the logging section only.
\<close>

theorem logger_follows_the_snapshot:
  assumes "loadFromFile y document = Inr loaded" "runFromConfig path loaded wall now = Inr pg"
    and "serve_config loaded pg address_ok socket_ok = Inr g0" "gateway_reach rnd hash moved y g0 n sg"
  shows "\<exists>m c. sg_manager sg = Some m \<and> c = sn_value (cm_snapshot m) \<and>
     parseLogLevel (lo_level (cf_logging c)) = Inr (level (gw_logger (srv_gateway (sg_server sg)))) \<and>
     (json (gw_logger (srv_gateway (sg_server sg))) \<longleftrightarrow> lo_format (cf_logging c) = ''json'') \<and>
     c = loaded\<lparr>cf_logging := cf_logging c\<rparr>"
proof -
  note start = serve_inv [OF assms(3) [unfolded serve_config_def] runFromConfig_parts(1,2) [OF assms(2)]]
  obtain lv where lv: "parseLogLevel (lo_level (cf_logging loaded)) = Inr lv"
      "pg_logger pg = LoggerConfig_default\<lparr>lc_level := lv, lc_json := (lo_format (cf_logging loaded) = ''json'')\<rparr>"
    using runFromConfig_parts(4) [OF assms(2)] by blast
  note m = runFromConfig_parts(3) [OF assms(2)]
  have "manager_inv y loaded (pg_manager pg)" using manager_inv_make [OF m] assms(1) by (auto simp: from_file_def)
  moreover have "unanswered (pg_manager pg) = []" "sn_value (cm_snapshot (pg_manager pg)) = loaded"
    using ConfigManager_make_fields [OF m] by (simp_all add: unanswered_def)
  moreover have "logs_as loaded (srv_gateway (sg_server g0))"
    using start(3) lv AsyncLogger_make_fields by (fastforce simp: logs_as_def)
  ultimately have "logging_inv y loaded g0" using start(2) by (simp add: logging_inv_def)
  from gateway_reach_log [OF assms(4) this] show ?thesis by (auto simp: logging_inv_def logs_as_def manager_inv_def)
qed

text \<open>The program started, from a configuration or from the options.\<close>

definition gateway_starts :: "serving_gateway \<Rightarrow> bool" where
  "gateway_starts g0 \<longleftrightarrow>
     (\<exists>path loaded wall now pg address_ok socket_ok. runFromConfig path loaded wall now = Inr pg \<and>
        serve_config loaded pg address_ok socket_ok = Inr g0) \<or>
     (\<exists>files_ok o1 pl now built address_ok socket_ok. run_plan files_ok o1 pl now = Inr built \<and>
        serve_plan o1 built address_ok socket_ok = Inr g0)"

lemma gateway_starts_inv: "gateway_starts g0 \<Longrightarrow> run_inv 0 g0"
  unfolding gateway_starts_def
proof (elim disjE exE conjE)
  fix path loaded wall now pg address_ok socket_ok
  assume "runFromConfig path loaded wall now = Inr pg" "serve_config loaded pg address_ok socket_ok = Inr g0"
  then show ?thesis
    using serve_inv(1) [OF _ runFromConfig_parts(1,2)] by (simp add: serve_config_def)
next
  fix files_ok o1 pl now built address_ok socket_ok
  assume run: "run_plan files_ok o1 pl now = Inr built" "serve_plan o1 built address_ok socket_ok = Inr g0"
  obtain runtime router gp where built: "built = (runtime, router, gp)" by (cases built)
  from serve_inv(1) [OF run(2) [unfolded serve_plan_def built prod.case] run_plan_parts [OF run(1) [unfolded built]]]
  show ?thesis .
qed

fun gateway_turns :: "(real \<Rightarrow> real) \<Rightarrow> (string \<Rightarrow> nat) \<Rightarrow> HttpRequest \<Rightarrow> yaml_library \<Rightarrow> gateway_event list \<Rightarrow> serving_gateway \<Rightarrow>
    serving_gateway option" where
  "gateway_turns rnd hash moved y [] sg = Some sg"
| "gateway_turns rnd hash moved y (ev # evs) sg =
     (case gateway_step rnd hash moved y ev sg of None \<Rightarrow> None | Some sg1 \<Rightarrow> gateway_turns rnd hash moved y evs sg1)"

definition all_stopped :: "serving_gateway \<Rightarrow> bool" where
  "all_stopped sg \<longleftrightarrow> (\<forall>c \<in> set (sg_checkers sg). hk_stopping c) \<and>
     (\<forall>p \<in> set (sg_proxies sg). \<forall>pool. Some pool \<in> set (pools p) \<longrightarrow> UpstreamPool.stopping pool)"

lemma handed_out_done: "handed_out sg \<Longrightarrow> sg_tasks sg = [] \<Longrightarrow> all_stopped sg"
  by (force simp: handed_out_def all_stopped_def pools_stop_def in_set_conv_nth)

lemma tasks_run_out:
  "handed_out sg \<Longrightarrow> length (sg_tasks sg) = k \<Longrightarrow>
     \<exists>sg'. gateway_turns rnd hash moved y (replicate k (Shutdown_Turn 0)) sg = Some sg' \<and> sg_tasks sg' = [] \<and> all_stopped sg'"
proof (induction k arbitrary: sg)
  case 0
  then show ?case using handed_out_done by simp
next
  case (Suc k)
  let ?sg = "run_task (sg_tasks sg ! 0) (sg\<lparr>sg_tasks := take 0 (sg_tasks sg) @ drop (0 + 1) (sg_tasks sg)\<rparr>)"
  have "handed_out ?sg" using run_task_handed_out [OF Suc.prems(1), of 0] Suc.prems(2) by simp
  moreover have "length (sg_tasks ?sg) = k" using Suc.prems(2) by (cases "sg_tasks sg ! 0") simp_all
  ultimately show ?case using Suc.IH [of ?sg] Suc.prems(2) by simp
qed

text \<open>
  C10: The program stops its parts exactly when the drain has ended. Before the drain reports, no health checker and
  no connection pool is stopped or told to stop, and the worker threads are kept unless one of them failed.
  Once it has reported, no session is open, no further signal is waited for, the threads are let go, and
  the stops already posted are enough to stop every checker and every pool there is.
\<close>

theorem shutdown_follows_the_drain:
  assumes "gateway_starts g0" "gateway_reach rnd hash moved y g0 n sg" "n + 1 < 2 ^ 64"
  shows "if reports (sg_server sg) = [] then
       sg_tasks sg = [] \<and> (\<forall>c \<in> set (sg_checkers sg). \<not> hk_stopping c) \<and>
       (\<forall>p \<in> set (sg_proxies sg). \<forall>pool. Some pool \<in> set (pools p) \<longrightarrow> \<not> UpstreamPool.stopping pool) \<and>
       (work_guard (sg_runtime sg) \<or> worker_failed (sg_runtime sg))
     else
       connectionCount (sg_server sg) = 0 \<and> \<not> sg_waiting sg \<and> \<not> work_guard (sg_runtime sg) \<and>
       (\<exists>sg'. gateway_turns rnd hash moved y (replicate (length (sg_tasks sg)) (Shutdown_Turn 0)) sg = Some sg' \<and>
          sg_tasks sg' = [] \<and> all_stopped sg')"
proof -
  have inv: "run_inv n sg" using gateway_reach_inv [OF assms(2) gateway_starts_inv [OF assms(1)] assms(3)] .
  show ?thesis
  proof (cases "reports (sg_server sg) = []")
    case True
    with inv show ?thesis by (auto simp: run_inv_def stops_ok_def untouched_def runtime_inv_def)
  next
    case False
    with inv have ok: "handed_out sg" "stop_requested (sg_runtime sg)" "runtime_inv (sg_runtime sg)"
      by (simp_all add: run_inv_def stops_ok_def)
    have "drain_finished (sg_server sg)" using inv False by (auto simp: run_inv_def drain_inv_def)
    with inv have "srv_draining (sg_server sg)" "sessions (registry (sg_server sg)) = []" by (simp_all add: run_inv_def drain_inv_def)
    moreover have "clients_ok (sg_server sg)" using inv by (simp add: run_inv_def server_inv_def)
    ultimately show ?thesis
      using False inv ok tasks_run_out [OF ok(1) refl] connectionCount_eq by (simp add: run_inv_def runtime_inv_def)
  qed
qed

text \<open>The two ways to start, evaluated.\<close>

lemma gateway_turns_reach:
  "gateway_reach rnd hash moved y g0 n sg \<Longrightarrow> gateway_turns rnd hash moved y evs sg = Some sg' \<Longrightarrow>
     gateway_reach rnd hash moved y g0 (n + length evs) sg'"
proof (induction evs arbitrary: n sg)
  case (Cons ev evs)
  then obtain sg1 where s: "gateway_step rnd hash moved y ev sg = Some sg1" "gateway_turns rnd hash moved y evs sg1 = Some sg'"
    by (auto split: option.splits simp del: gateway_step.simps)
  from Cons.IH [OF gateway_turn [OF Cons.prems(1) s(1)] s(2)] show ?case by simp
qed simp

definition sample_gateway :: prepared_gateway where
  "sample_gateway = (case runFromConfig ''pg.yaml'' (sample_config ''info'' ''0.0.0.0'') 0 0 of Inr pg \<Rightarrow> pg)"

definition sample_serving :: serving_gateway where
  "sample_serving = (case serve_config (sample_config ''info'' ''0.0.0.0'') sample_gateway True True of Inr sg \<Rightarrow> sg)"

lemma sample_serving_made:
  "runFromConfig ''pg.yaml'' (sample_config ''info'' ''0.0.0.0'') 0 0 = Inr sample_gateway"
  "serve_config (sample_config ''info'' ''0.0.0.0'') sample_gateway True True = Inr sample_serving"
proof -
  have "case runFromConfig ''pg.yaml'' (sample_config ''info'' ''0.0.0.0'') 0 0 of Inl e \<Rightarrow> False | Inr pg \<Rightarrow> True" by code_simp
  then show "runFromConfig ''pg.yaml'' (sample_config ''info'' ''0.0.0.0'') 0 0 = Inr sample_gateway"
    by (simp add: sample_gateway_def split: sum.splits)
  have "case serve_config (sample_config ''info'' ''0.0.0.0'') sample_gateway True True of Inl e \<Rightarrow> False | Inr pg \<Rightarrow> True" by code_simp
  then show "serve_config (sample_config ''info'' ''0.0.0.0'') sample_gateway True True = Inr sample_serving"
    by (simp add: sample_serving_def split: sum.splits)
qed

definition sample_run :: "gateway_event list \<Rightarrow> serving_gateway option" where
  "sample_run evs = gateway_turns (\<lambda>x. x) length HttpRequest_default string_library evs sample_serving"

lemma sample_reach:
  "sample_run evs = Some sg \<Longrightarrow> gateway_reach (\<lambda>x. x) length HttpRequest_default string_library sample_serving (length evs) sg"
  using gateway_turns_reach [OF gateway_start] by (simp add: sample_run_def)

text \<open>A SIGHUP, and a file whose level is debug now.\<close>

definition reload_events :: "gateway_event list" where
  "reload_events = [Signal 0 False True, Manager_Turn 0, Load_Turn (Inr (sample_document ''debug'' ''0.0.0.0'')) 5, Manager_Turn 0]"

theorem logger_follows_the_snapshot_witness:
  "\<exists>sg. sample_run reload_events = Some sg \<and> parseLogLevel ''debug'' = Inr (level (gw_logger (srv_gateway (sg_server sg))))"
proof -
  have "case sample_run reload_events of None \<Rightarrow> False | Some sg \<Rightarrow>
      (case sg_manager sg of None \<Rightarrow> False | Some m \<Rightarrow> lo_level (cf_logging (sn_value (cm_snapshot m))) = ''debug'')" by code_simp
  then obtain sg m where sg: "sample_run reload_events = Some sg" "sg_manager sg = Some m"
      "lo_level (cf_logging (sn_value (cm_snapshot m))) = ''debug''" by (auto split: option.splits)
  with logger_follows_the_snapshot [OF sample_loads(1) sample_serving_made sample_reach [OF sg(1)]] show ?thesis by auto
qed

text \<open>A reload, then SIGTERM: no session is open, so the drain ends at once.\<close>

definition shutdown_events :: "gateway_event list" where
  "shutdown_events = [Serves Listener_Turn, Signal 0 False True, Manager_Turn 0, Checker_Works 0 HE_Loop_Runs, Signal 0 False False]"

theorem shutdown_follows_the_drain_witness:
  "\<exists>sg sg'. sample_run shutdown_events = Some sg \<and> connectionCount (sg_server sg) = 0 \<and> length (sg_tasks sg) = 1 \<and>
     gateway_turns (\<lambda>x. x) length HttpRequest_default string_library [Shutdown_Turn 0] sg = Some sg' \<and> all_stopped sg'"
proof -
  have "case sample_run shutdown_events of None \<Rightarrow> False | Some sg \<Rightarrow> reports (sg_server sg) \<noteq> [] \<and> length (sg_tasks sg) = 1" by code_simp
  then obtain sg where sg: "sample_run shutdown_events = Some sg" "reports (sg_server sg) \<noteq> []" "length (sg_tasks sg) = 1"
    by (auto split: option.splits)
  have start: "gateway_starts sample_serving" using sample_serving_made by (auto simp: gateway_starts_def)
  have bound: "length shutdown_events + 1 < 2 ^ 64" by (simp add: shutdown_events_def)
  note stopped = shutdown_follows_the_drain [OF start sample_reach [OF sg(1)] bound, unfolded if_not_P [OF sg(2)]]
  have one: "replicate (length (sg_tasks sg)) (Shutdown_Turn 0) = [Shutdown_Turn 0]" by (simp add: sg(3))
  from stopped obtain sg' where "connectionCount (sg_server sg) = 0" "all_stopped sg'"
      "gateway_turns (\<lambda>x. x) length HttpRequest_default string_library [Shutdown_Turn 0] sg = Some sg'"
    unfolding one by blast
  with sg(1,3) show ?thesis by blast
qed

text \<open>Running the stops posted for one proxy, in any order, is \<open>ReverseProxy::stop\<close>.\<close>

lemma fold_update_nth:
  "distinct js \<Longrightarrow> length (fold (\<lambda>j ys. ys[j := f (ys ! j)]) js xs) = length xs \<and>
     (\<forall>l < length xs. fold (\<lambda>j ys. ys[j := f (ys ! j)]) js xs ! l = (if l \<in> set js then f (xs ! l) else xs ! l))"
proof (induction js arbitrary: xs)
  case (Cons j js)
  with Cons.IH [of "xs[j := f (xs ! j)]"] show ?case by (cases "j < length xs") (auto simp: nth_list_update)
qed simp

lemma stops_are_proxy_stop:
  assumes "distinct js" "set js = set (made_pools p)"
  shows "fold stop_pool js p = proxy_stop p"
proof -
  let ?f = "map_option (\<lambda>pool. fst (pool_stop pool))"
  have "fold stop_pool js p = p\<lparr>pools := fold (\<lambda>j ys. ys[j := ?f (ys ! j)]) js (pools p)\<rparr>"
    by (induction js arbitrary: p) (simp_all add: stop_pool_def)
  moreover have "fold (\<lambda>j ys. ys[j := ?f (ys ! j)]) js (pools p) = map ?f (pools p)"
  proof (rule nth_equalityI)
    fix l
    assume "l < length (fold (\<lambda>j ys. ys[j := ?f (ys ! j)]) js (pools p))"
    then have l: "l < length (pools p)" using fold_update_nth [OF assms(1), of ?f "pools p"] by simp
    have "l \<in> set js" if "pools p ! l \<noteq> None" using that l assms(2) by (simp add: made_pools_def)
    then show "fold (\<lambda>j ys. ys[j := ?f (ys ! j)]) js (pools p) ! l = map ?f (pools p) ! l"
      using fold_update_nth [OF assms(1), of ?f "pools p"] l by (cases "pools p ! l") auto
  qed (simp add: fold_update_nth [OF assms(1)])
  ultimately show ?thesis by (simp add: proxy_stop_def)
qed

end
