(* ===== verification/Spec2Isabelle.thy ===== *)
theory Spec2Isabelle
  imports ParserProperties ResponseProperties RouterProperties ProxyProperties UpstreamRequestProperties ProxyHandlerProperties
    SessionPipeline ServerProperties CommandLineProperties FileService SyncProgram Transport GatewayRunProperties
begin

text \<open>
  A verification development for PulseGate, an HTTP/1.1 gateway written with Boost.Asio coroutines: it accepts
  client connections, parses pipelined requests, routes them through rate limiters and a response cache to
  static files or to upstream servers, and drains its sessions when it is told to stop.

  \<^bold>\<open>The parts and how they interact.\<close> A socket accepted by the listener becomes a session of the server if the
  session registry has room. The session reads into a byte buffer, the request parser consumes it, the router
  finds the route, asks the limiters and the cache, and calls the handler; the handler is the static file
  handler or the reverse proxy, which chooses a healthy upstream whose circuit breaker admits the request,
  takes a connection from the pool, sends the request and streams or buffers what the response parser reads.
  The response is serialised, counted in the metrics, and logged. Configuration is loaded and validated before
  anything is built; a reload publishes a new snapshot when only its logging section changed.

  \<^bold>\<open>Theories and sources\<close> (paths below \<open>src/\<close>; a definition has the name of the function it translates, or that name
  after the name of its class).
  \<^item> \<open>Prelude\<close>: outcomes that carry C++ exceptions (\<open>Undefined_Behaviour\<close> for a broken precondition of the standard
    library), \<open>std::size_t\<close> and counter arithmetic, searches in strings, \<open>from_chars\<close> and \<open>to_string\<close>, and the
    lemmas about them.
  \<^item> \<open>Interfaces\<close>: the contracts between components, as locales (below).
  \<^item> \<open>Buffer\<close>: \<open>src/net/buffer.cpp\<close>. \<open>Headers\<close>: \<open>src/http/headers.cpp\<close>. \<open>Messages\<close>: \<open>http_request.cpp\<close> and
    \<open>http_response.cpp\<close>.
  \<^item> \<open>HttpParser\<close> and \<open>ParserProperties\<close>: \<open>http_parser.cpp\<close>. \<open>ResponseParser\<close> and \<open>ResponseProperties\<close>:
    \<open>http_response_parser.cpp\<close>.
  \<^item> \<open>CircuitBreaker\<close>, \<open>UpstreamHealth\<close>, \<open>RateLimiter\<close>, \<open>ResponseCache\<close>, \<open>UpstreamPool\<close>, \<open>Observability\<close>, \<open>HealthChecker\<close>:
    the files of these names below \<open>src/http\<close>.
  \<^item> \<open>Router\<close> and \<open>RouterProperties\<close>: \<open>router.cpp\<close>. A request passes in two steps, \<open>handle_begin\<close> up to the call of
    the handler and \<open>handle_end\<close> after it, so that requests interleave.
  \<^item> \<open>ReverseProxy\<close>, \<open>ProxyProperties\<close>, \<open>UpstreamRequestProperties\<close>, \<open>ProxyHandlerProperties\<close>: \<open>reverse_proxy.cpp\<close>, one
    transaction over network events, and the handler under many requests.
  \<^item> \<open>SessionRegistry\<close>, \<open>Deadline\<close>, \<open>HttpSession\<close>, \<open>SessionProperties\<close>, \<open>SessionPipeline\<close>: the registry and \<open>HttpSession\<close> of
    \<open>http_server.cpp\<close> and \<open>src/net/deadline.cpp\<close>. The coroutine \<open>run\<close> is cut at its suspension points; \<open>where_at\<close> says
    at which one it is and holds the locals that live across it.
  \<^item> \<open>Listener\<close>, \<open>HttpServer\<close>, \<open>ServerProperties\<close>: \<open>src/net/listener.cpp\<close> and \<open>HttpServer\<close> of \<open>http_server.cpp\<close>. What the
    server asks of sessions and listener is posted and delivered later, in any order.
  \<^item> \<open>Config\<close>, \<open>ConfigManager\<close>: \<open>config.cpp\<close>, the loader over a parsed document, validation, and reloads.
  \<^item> \<open>FileService\<close>: \<open>file_service.cpp\<close> and \<open>static_file_handler.cpp\<close>. \<open>Runtime\<close>: \<open>src/runtime/asio_runtime.cpp\<close>.
    \<open>SyncServer\<close>, \<open>SyncProgram\<close>: \<open>src/net/sync_http_server.cpp\<close> and \<open>app/pulsegate_sync_main.cpp\<close>. \<open>Transport\<close>:
    \<open>upstream_connection.cpp\<close>, \<open>scope_exit.h\<close> and \<open>coroutine_guard.h\<close>.
  \<^item> \<open>CommandLine\<close>, \<open>Gateway\<close>, \<open>GatewayProperties\<close>, \<open>CommandLineProperties\<close>, \<open>GatewayRun\<close>, \<open>GatewayRunProperties\<close>:
    \<open>app/pulsegate_main.cpp\<close>, from the words of the command line to the running program with its signals,
    reloads and shutdown.

  \<^bold>\<open>Interfaces.\<close> \<open>byte_stream\<close> is what the parsers ask of their input, \<open>bounded_stream\<close> adds the writing side that the
  sessions use; the buffer interprets it as \<open>buf\<close>. \<open>name_multimap\<close> is the contract of a collection with
  case-insensitive names (\<open>hdr\<close>, the headers), \<open>expiring_store\<close> that of a store whose entries lapse (\<open>cch\<close>, the
  cache), and \<open>admission\<close> that of a counter with a maximum under concurrent clients, interpreted by the proxy's
  in-flight limit (\<open>px\<close>) and by the session registry (\<open>reg\<close>).

  \<^bold>\<open>Modelling.\<close> A byte is a \<open>char\<close>, a string a list of them. Sizes are \<open>nat\<close>, with the wrap-around written out where
  no preceding check excludes it (\<open>sz_add\<close>, \<open>u32_inc\<close>, \<open>u64_inc\<close>); times are \<open>int\<close>, in nanoseconds for the
  clock and milliseconds for configured durations; a configured or parsed \<open>double\<close> is a real number, an infinity or NaN
  with the comparisons of C++ (one zero, which is enough as rates must be positive), and arithmetic on finite doubles is
  that of real numbers with the rounding as a parameter \<open>rnd\<close>; results beyond the range of doubles are not cut off, nor
  is the wait a limiter announces, which only leaves 64 bits for rates below 10^-15 requests per second. An operation that locks a mutex or runs on a strand is one step. Concurrency is
  the order of the steps: histories are lists of events or inductive reachability relations, and the properties
  hold for every order. Loops are recursive functions with a proof of termination, so every operation returns;
  the loops of the source that wait for the network recurse over the list of completions the network delivers
  and stop in a waiting state when it is used up, and two counted loops (\<open>spawn_probes\<close>, \<open>select_loop\<close>) recurse
  over the rounds they have left; nothing uses fuel. Properties about runs ask for fewer than 2 to the 64
  steps where a 64-bit counter numbers sessions.

  \<^bold>\<open>Parameters.\<close> Code outside the repository is an argument: the YAML library (\<open>yaml_library\<close>: conversions of scalars),
  \<open>std::stod\<close>, the file system (canonical paths, kinds, sizes and contents of files), the outcome of socket
  calls and of the address parser, the hash function, the moved-from content of a request, the clock.

  \<^bold>\<open>What is shown.\<close>
  \<^item> Parsing: both parsers implement a specification on the unread bytes, for which buffer and
    read sizes do not matter; what they accept is well formed and within the limits; pipelined requests that are printed are read
    back; and where a limit is not exact or an index leaves its view, the theorem says so.
  \<^item> Sessions and server: the responses of a session are those of the requests in its input, in order; the registry, the
    session objects, the gauge and the counters agree in every reachable state; a drain reports once and truthfully,
    and ends.
  \<^item> Proxy: the request sent upstream is exactly one request with the client's end-to-end content; what is streamed to the
    client decodes to the upstream's body; in-flight requests, leases and waiters are bounded and never lost; the
    upstream is chosen by fair round robin.
  \<^item> Policies: the cache refines an LRU list and its hits are fresh and equivalent; the token bucket, the circuit breaker
    and the health state obey their thresholds, the bucket with an explicit bound for the errors of rounding; the access log is a bounded FIFO.
  \<^item> Configuration and start: a reload changes nothing but logging, is answered once, and the logger of the running
    program follows it; a configuration that loads builds everything it describes exactly when its rates are finite, and
    a command line that is accepted does, given a readable document root and a cache lifetime below 2^63 ms; the checkers, pools and threads are stopped exactly when the drain has ended.

  \<^bold>\<open>Not modelled.\<close> \<open>endpoint.cpp\<close> is one call of the address parser of the library, and \<open>asio_types.h\<close> and \<open>version.h\<close> are
  aliases and a constant. Output to \<open>std::cout\<close> and \<open>std::cerr\<close>, the sink of the log, failed allocations, and the
  accessors that only read a field are left out. Destructors appear as the events they cause (an abandoned lease,
  the guard of the in-flight counter), not as code. The work that \<open>io_context\<close> still holds when the threads are let go is
  the library's: that the checkers and pools stop is shown, that the last thread returns is not.
\<close>

end
